(* ===== verification/Prelude.thy ===== *)
theory Prelude
  imports Main "HOL-Library.Word"
begin

text \<open>
  Shared material of the development: the C integer types the sources use, byte buffers as
  lists, the wrap-around of \<open>size_t\<close>, the big-endian codecs every wire format is made of, the
  answers of the POSIX calls the sources retry on, and two interfaces that several components
  implement: a stream codec (one record can be cut off the front of a byte stream) and a machine
  with an invariant.
\<close>

unbundle bit_operations_syntax

named_theorems wire_simps \<open>reading back what was written to a wire buffer\<close>
named_theorems buffer_simps \<open>lengths and contents of byte buffers\<close>

type_synonym byte = "8 word"
type_synonym u16 = "16 word"
type_synonym u32 = "32 word"
type_synonym u64 = "64 word"

section \<open>Byte buffers and sizes\<close>

text \<open>\<open>memcpy(buf + off, bs, n)\<close> into a buffer that already has its size.\<close>

definition poke :: "'a list \<Rightarrow> nat \<Rightarrow> 'a list \<Rightarrow> 'a list" where
  "poke buf off bs = take off buf @ bs @ drop (off + length bs) buf"

text \<open>Subtraction of \<open>size_t\<close> values (64-bit) wraps around.\<close>

definition size_sub :: "nat \<Rightarrow> nat \<Rightarrow> nat" where
  "size_sub a b = (if b \<le> a then a - b else a + 2 ^ 64 - b)"

definition SIZE_MAX :: nat where
  "SIZE_MAX = 2 ^ 64 - 1"

lemma size_sub_le [simp]: "b \<le> a \<Longrightarrow> size_sub a b = a - b"
  by (simp add: size_sub_def)

lemma length_poke [simp, buffer_simps]:
  "off + length bs \<le> length buf \<Longrightarrow> length (poke buf off bs) = length buf"
  by (simp add: poke_def)

lemma take_poke [simp, buffer_simps]:
  "off \<le> length buf \<Longrightarrow> take (off + length bs) (poke buf off bs) = take off buf @ bs"
  by (simp add: poke_def)

lemma take_poke_before [buffer_simps]:
  "n \<le> off \<Longrightarrow> off \<le> length buf \<Longrightarrow> take n (poke buf off bs) = take n buf"
  by (simp add: poke_def min_def)

lemma nth_poke_before [buffer_simps]:
  "i < off \<Longrightarrow> off \<le> length buf \<Longrightarrow> poke buf off bs ! i = buf ! i"
  by (simp add: poke_def nth_append)

lemma nth_poke_in [buffer_simps]:
  "off \<le> i \<Longrightarrow> i < off + length bs \<Longrightarrow> off \<le> length buf \<Longrightarrow> poke buf off bs ! i = bs ! (i - off)"
  by (auto simp: poke_def nth_append)

lemma nth_poke_after [buffer_simps]:
  "off + length bs \<le> i \<Longrightarrow> off \<le> length buf \<Longrightarrow> i < length buf \<Longrightarrow> poke buf off bs ! i = buf ! i"
  by (auto simp: poke_def nth_append)

section \<open>Big-endian words\<close>

definition be16 :: "u16 \<Rightarrow> byte list" where
  "be16 v = [ucast (drop_bit 8 v), ucast v]"

definition un_be16 :: "byte \<Rightarrow> byte \<Rightarrow> u16" where
  "un_be16 a b = push_bit 8 (ucast a) OR ucast b"

definition be32 :: "u32 \<Rightarrow> byte list" where
  "be32 v = [ucast (drop_bit 24 v), ucast (drop_bit 16 v), ucast (drop_bit 8 v), ucast v]"

definition un_be32 :: "byte \<Rightarrow> byte \<Rightarrow> byte \<Rightarrow> byte \<Rightarrow> u32" where
  "un_be32 a b c d = push_bit 24 (ucast a) OR push_bit 16 (ucast b) OR push_bit 8 (ucast c) OR ucast d"

lemma un_be16_be16 [simp, wire_simps]:
  "un_be16 (ucast (drop_bit 8 v)) (ucast v) = v"
  unfolding un_be16_def by (rule bit_word_eqI) (auto simp: bit_simps)

lemma un_be32_be32 [simp, wire_simps]:
  "un_be32 (ucast (drop_bit 24 v)) (ucast (drop_bit 16 v)) (ucast (drop_bit 8 v)) (ucast v) = v"
proof (rule bit_word_eqI)
  fix n assume n: "n < LENGTH(32)"
  consider "n < 8" | "8 \<le> n" "n < 16" | "16 \<le> n" "n < 24" | "24 \<le> n" "n < 32"
    using n by fastforce
  then show "bit (un_be32 (ucast (drop_bit 24 v)) (ucast (drop_bit 16 v)) (ucast (drop_bit 8 v)) (ucast v)) n
      = bit v n"
    by cases (auto simp: un_be32_def bit_simps)
qed

lemma length_be16 [simp, buffer_simps]: "length (be16 v) = 2"
  by (simp add: be16_def)

lemma length_be32 [simp, buffer_simps]: "length (be32 v) = 4"
  by (simp add: be32_def)

lemma be16_un_be16: "be16 (un_be16 a b) = [a, b]"
proof -
  have "ucast (drop_bit 8 (un_be16 a b)) = a"
    unfolding un_be16_def
    by (rule bit_word_eqI) (auto simp: bit_simps dest: bit_imp_le_length)
  moreover have "ucast (un_be16 a b) = b"
    unfolding un_be16_def by (rule bit_word_eqI) (auto simp: bit_simps)
  ultimately show ?thesis by (simp add: be16_def)
qed

section \<open>Widening\<close>

lemma unat_ucast_up:
  "LENGTH('a) \<le> LENGTH('b) \<Longrightarrow> unat (ucast (w :: 'a::len word) :: 'b::len word) = unat w"
proof -
  assume "LENGTH('a) \<le> LENGTH('b)"
  then have "(2 :: nat) ^ LENGTH('a) \<le> 2 ^ LENGTH('b)" by (rule power_increasing) simp
  with unsigned_less [of w, where ?'a = nat] have "unat w < 2 ^ LENGTH('b)" by (rule less_le_trans)
  then show ?thesis by (simp add: unsigned_ucast_eq take_bit_nat_eq_self)
qed

lemma unat_of_nat_small: "n < 2 ^ LENGTH('a) \<Longrightarrow> unat (of_nat n :: 'a::len word) = n"
  by (simp add: unsigned_of_nat take_bit_nat_eq_self)

section \<open>Bit fields as numbers\<close>

lemma nat_and_low: "(n :: nat) AND (2 ^ k - 1) = n mod 2 ^ k"
  unfolding mask_eq_exp_minus_1 [symmetric] take_bit_eq_mask [symmetric] by (rule take_bit_eq_mod)

lemmas nat_and_masks = nat_and_low [where k = 3, simplified] nat_and_low [where k = 4, simplified]
  nat_and_low [where k = 5, simplified] nat_and_low [where k = 6, simplified] nat_and_low [where k = 8, simplified]

lemma nat_or_add:
  assumes "b < 2 ^ k"
  shows "((a :: nat) * 2 ^ k) OR b = a * 2 ^ k + b"
proof -
  have "push_bit k a AND take_bit k b = 0" by (rule bit_eqI) (auto simp: bit_simps)
  with assms have "(a * 2 ^ k) AND b = 0" by (simp add: push_bit_eq_mult take_bit_nat_eq_self)
  then show ?thesis by (simp add: disjunctive_add_eq_or)
qed

lemma unat_drop_bit: "unat (drop_bit k (w :: 'a::len word)) = unat w div 2 ^ k"
  by (simp add: unsigned_drop_bit_eq drop_bit_eq_div [where ?'a = nat] take_bit_nat_eq_self)

text \<open>A tag in the high bits of a byte, a value in the low ones.\<close>

lemma unat_tagged:
  fixes tag w :: "'a::len word"
  assumes "unat w < 2 ^ k" and "unat tag = a * 2 ^ k" and "a * 2 ^ k + 2 ^ k \<le> 2 ^ LENGTH('b)"
  shows "unat (ucast (tag OR w) :: 'b::len word) = unat tag + unat w"
proof -
  have "unat (tag OR w) = a * 2 ^ k + unat w"
    using nat_or_add [OF assms(1)] assms(2) by (simp add: unsigned_or_eq)
  with assms show ?thesis by (simp add: unsigned_ucast_eq take_bit_nat_eq_self)
qed

lemma unat_shift_or:
  fixes x y :: "'a::len word"
  assumes "unat y < 2 ^ k" and "unat x * 2 ^ k + 2 ^ k \<le> 2 ^ LENGTH('a)"
  shows "unat (push_bit k x OR y) = unat x * 2 ^ k + unat y"
proof -
  have "0 < (2 :: nat) ^ k" by simp
  with assms(2) have "unat x * 2 ^ k < 2 ^ LENGTH('a)" by linarith
  then have "unat (push_bit k x) = unat x * 2 ^ k"
    by (simp add: unsigned_push_bit_eq push_bit_eq_mult [where ?'a = nat] take_bit_nat_eq_self)
  then show ?thesis using nat_or_add [OF assms(1)] by (simp add: unsigned_or_eq)
qed

section \<open>Masks on bytes\<close>

lemma byte_and_255 [simp]: "(n :: byte) AND 255 = n"
proof -
  have "(255 :: byte) = - 1" by simp
  then show ?thesis by (metis and.right_neutral)
qed

lemma byte_and_low5_less: "(n :: byte) AND 0x1f < 32"
proof -
  have "n AND 0x1f \<le> 0x1f" by (rule word_and_le1)
  then show ?thesis by (rule order_le_less_trans) simp
qed

text \<open>Masks distribute over a disjunction of fields.\<close>

lemmas mask_fields = bit.conj_disj_distrib2 and.assoc

section \<open>Answers of the operating system\<close>

text \<open>
  A descriptor is seen through the answers its calls return. For a receiving socket the answers
  still to come are a list: data chunks, failed calls with their \<open>errno\<close>, and the end of the
  stream. A call that asks for \<open>n\<close> bytes gets at most \<open>n\<close> of the first chunk and leaves the rest
  of it queued. A non-blocking call on an empty list finds nothing (\<open>EAGAIN\<close>).
\<close>

datatype errno = EINTR | EAGAIN | EWOULDBLOCK | ENOBUFS | EIO | ENODEV | Errno nat

datatype recv_event = Data "byte list" | Fail errno | Closed

datatype recv_answer = Got "byte list" | RecvErr errno

fun sock_recv :: "nat \<Rightarrow> recv_event list \<Rightarrow> recv_answer \<times> recv_event list" where
  "sock_recv n [] = (RecvErr EAGAIN, [])"
| "sock_recv n (Data bs # evs) =
     (if length bs \<le> n then (Got bs, evs) else (Got (take n bs), Data (drop n bs) # evs))"
| "sock_recv n (Fail e # evs) = (RecvErr e, evs)"
| "sock_recv n (Closed # evs) = (Got [], Closed # evs)"

fun event_size :: "recv_event \<Rightarrow> nat" where
  "event_size (Data bs) = Suc (length bs)"
| "event_size _ = 1"

abbreviation events_size :: "recv_event list \<Rightarrow> nat" where
  "events_size evs \<equiv> sum_list (map event_size evs)"

fun bytes_of :: "recv_event list \<Rightarrow> byte list" where
  "bytes_of [] = []"
| "bytes_of (Data bs # evs) = bs @ bytes_of evs"
| "bytes_of (_ # evs) = bytes_of evs"

text \<open>Events of a healthy connection: non-empty chunks, interrupted calls, nothing there yet.\<close>

fun quiet_event :: "recv_event \<Rightarrow> bool" where
  "quiet_event (Data bs) = (bs \<noteq> [])"
| "quiet_event (Fail e) = (e = EINTR \<or> e = EAGAIN \<or> e = EWOULDBLOCK)"
| "quiet_event Closed = False"

lemma sock_recv_Got_size:
  "sock_recv n evs = (Got bs, evs') \<Longrightarrow> bs \<noteq> [] \<Longrightarrow> events_size evs' < events_size evs"
  by (cases "(n, evs)" rule: sock_recv.cases) (auto split: if_splits)

lemma sock_recv_Err_size:
  "sock_recv n evs = (RecvErr e, evs') \<Longrightarrow> evs \<noteq> [] \<Longrightarrow> events_size evs' < events_size evs"
  by (cases "(n, evs)" rule: sock_recv.cases) (auto split: if_splits)

lemma sock_recv_EINTR_size:
  "sock_recv n evs = (RecvErr EINTR, evs') \<Longrightarrow> events_size evs' < events_size evs"
  by (cases "(n, evs)" rule: sock_recv.cases) (auto split: if_splits)

lemmas sock_recv_size = sock_recv_Got_size [OF sym] sock_recv_EINTR_size [OF sym]

lemma sock_recv_Got_length:
  "sock_recv n evs = (Got bs, evs') \<Longrightarrow> length bs \<le> n"
  by (cases "(n, evs)" rule: sock_recv.cases) (auto split: if_splits)

lemma sock_recv_bytes:
  "sock_recv n evs = (Got bs, evs') \<Longrightarrow> bytes_of evs = bs @ bytes_of evs'"
  "sock_recv n evs = (RecvErr e, evs') \<Longrightarrow> bytes_of evs = bytes_of evs'"
  by (cases "(n, evs)" rule: sock_recv.cases; auto split: if_splits)+

lemma sock_recv_quiet:
  "sock_recv n evs = (r, evs') \<Longrightarrow> list_all quiet_event evs \<Longrightarrow> list_all quiet_event evs'"
  by (cases "(n, evs)" rule: sock_recv.cases) (auto split: if_splits)

lemma sock_recv_quiet_Got:
  "sock_recv n evs = (Got bs, evs') \<Longrightarrow> list_all quiet_event evs \<Longrightarrow> 0 < n \<Longrightarrow> bs \<noteq> []"
  by (cases "(n, evs)" rule: sock_recv.cases) (auto split: if_splits)

lemma sock_recv_quiet_Err:
  "sock_recv n evs = (RecvErr e, evs') \<Longrightarrow> list_all quiet_event evs \<Longrightarrow>
     e = EINTR \<or> e = EAGAIN \<or> e = EWOULDBLOCK"
  by (cases "(n, evs)" rule: sock_recv.cases) (auto split: if_splits)

section \<open>Interfaces\<close>

text \<open>
  A stream codec: \<open>dec\<close> cuts one record off the front of a byte stream, returns \<open>None\<close> while the
  record is incomplete, and undoes \<open>enc\<close>. A sequence of records survives concatenation.
\<close>

fun decode_stream :: "(byte list \<Rightarrow> ('m \<times> byte list) option) \<Rightarrow> nat \<Rightarrow> byte list \<Rightarrow> 'm list \<times> byte list" where
  "decode_stream dec 0 bs = ([], bs)"
| "decode_stream dec (Suc n) bs =
     (case dec bs of None \<Rightarrow> ([], bs)
      | Some (m, rest) \<Rightarrow> (let (ms, left) = decode_stream dec n rest in (m # ms, left)))"

locale stream_codec =
  fixes enc :: "'m \<Rightarrow> byte list"
    and dec :: "byte list \<Rightarrow> ('m \<times> byte list) option"
    and wf :: "'m \<Rightarrow> bool"
  assumes dec_enc: "wf m \<Longrightarrow> dec (enc m @ rest) = Some (m, rest)"
    and dec_partial: "wf m \<Longrightarrow> enc m = p @ q \<Longrightarrow> q \<noteq> [] \<Longrightarrow> dec p = None"
    and enc_nonempty: "wf m \<Longrightarrow> enc m \<noteq> []"
begin

lemma dec_empty: "wf m \<Longrightarrow> dec [] = None"
  using dec_partial [of m "[]"] enc_nonempty [of m] by simp

lemma enc_inject: "wf m \<Longrightarrow> wf m' \<Longrightarrow> enc m = enc m' \<Longrightarrow> m = m'"
  using dec_enc [of m "[]"] dec_enc [of m' "[]"] by simp

lemma decode_stream_enc:
  assumes "list_all wf ms" and "length ms \<le> n"
    and tail: "p = [] \<and> dec [] = None \<or> (\<exists>m q. wf m \<and> enc m = p @ q \<and> q \<noteq> [])"
  shows "decode_stream dec n (concat (map enc ms) @ p) = (ms, p)"
  using assms(1,2)
proof (induction ms arbitrary: n)
  case Nil
  have "dec p = None" using tail dec_partial by blast
  then show ?case by (cases n) auto
next
  case (Cons m ms)
  then obtain n' where n': "n = Suc n'" "length ms \<le> n'" by (cases n) auto
  from Cons.prems(1) have wf: "wf m" "list_all wf ms" by simp_all
  have "dec (concat (map enc (m # ms)) @ p) = Some (m, concat (map enc ms) @ p)"
    using dec_enc [OF wf(1)] by simp
  with n' Cons.IH [OF wf(2) n'(2)] show ?case by simp
qed

end

text \<open>A machine that processes events one at a time, with an invariant every step keeps.\<close>

locale invariant_machine =
  fixes step :: "'s \<Rightarrow> 'e \<Rightarrow> 's"
    and inv :: "'s \<Rightarrow> bool"
  assumes inv_step: "inv s \<Longrightarrow> inv (step s e)"
begin

lemma inv_run: "inv s \<Longrightarrow> inv (foldl step s es)"
  by (induction es arbitrary: s) (auto intro: inv_step)

end

text \<open>A machine that in addition keeps a quantity from ever going down.\<close>

locale monotone_machine = invariant_machine +
  fixes level :: "'s \<Rightarrow> 'l::preorder"
  assumes level_step: "inv s \<Longrightarrow> level s \<le> level (step s e)"
begin

lemma level_run: "inv s \<Longrightarrow> level s \<le> level (foldl step s es)"
proof (induction es arbitrary: s)
  case (Cons e es)
  have "level s \<le> level (step s e)" using Cons.prems by (rule level_step)
  also have "\<dots> \<le> level (foldl step (step s e) es)"
    using Cons.IH inv_step [OF Cons.prems] by blast
  finally show ?case by simp
qed simp

end

end
