(* ===== verification/Protocol.thy ===== *)
theory Protocol
  imports Prelude
begin

text \<open>
  The control protocol between gateway and agent (\<open>protocol.h\<close>, \<open>protocol.c\<close>): a four-byte
  header (version, type, big-endian length) and at most 1024 payload bytes. The sender writes a
  frame with retries on short writes; the agent reads with an incremental, non-blocking reader,
  the gateway with a blocking one. The theory shows that the reader never writes outside its
  buffer and that, however the stream is cut into chunks, the messages that come out are the
  messages that were sent.
\<close>

section \<open>Constants and message types\<close>

definition NANOKVM_CONTROL_MAX_PAYLOAD :: nat where "NANOKVM_CONTROL_MAX_PAYLOAD = 1024"
definition NANOKVM_PROTOCOL_VERSION :: byte where "NANOKVM_PROTOCOL_VERSION = 1"
definition NANOKVM_STATS_PAYLOAD_SIZE :: u16 where "NANOKVM_STATS_PAYLOAD_SIZE = 16"
definition NANOKVM_HELLO_BASE_PAYLOAD_SIZE :: u16 where "NANOKVM_HELLO_BASE_PAYLOAD_SIZE = 8"
definition NANOKVM_HELLO_CAPABILITIES_PAYLOAD_SIZE :: u16 where
  "NANOKVM_HELLO_CAPABILITIES_PAYLOAD_SIZE = 9"
definition NANOKVM_KEY_PAYLOAD_SIZE :: u16 where "NANOKVM_KEY_PAYLOAD_SIZE = 3"
definition NANOKVM_KEY_ACK_REQUEST_PAYLOAD_SIZE :: u16 where "NANOKVM_KEY_ACK_REQUEST_PAYLOAD_SIZE = 7"
definition NANOKVM_KEY_ACK_PAYLOAD_SIZE :: u16 where "NANOKVM_KEY_ACK_PAYLOAD_SIZE = 5"
definition NANOKVM_AGENT_CAPABILITY_KEY_ACK :: byte where "NANOKVM_AGENT_CAPABILITY_KEY_ACK = 1"

lemmas protocol_consts = NANOKVM_CONTROL_MAX_PAYLOAD_def NANOKVM_PROTOCOL_VERSION_def
  NANOKVM_STATS_PAYLOAD_SIZE_def NANOKVM_HELLO_BASE_PAYLOAD_SIZE_def
  NANOKVM_HELLO_CAPABILITIES_PAYLOAD_SIZE_def NANOKVM_KEY_PAYLOAD_SIZE_def
  NANOKVM_KEY_ACK_REQUEST_PAYLOAD_SIZE_def NANOKVM_KEY_ACK_PAYLOAD_SIZE_def
  NANOKVM_AGENT_CAPABILITY_KEY_ACK_def

text \<open>\<open>enum NanokvmControlType\<close>, and the byte each constant stands for.\<close>

datatype NanokvmControlType =
    CONTROL_HELLO | CONTROL_START_STREAM | CONTROL_STOP_STREAM | CONTROL_IDR_REQUEST
  | CONTROL_KEY | CONTROL_POINTER_ABS | CONTROL_POINTER_REL | CONTROL_WHEEL
  | CONTROL_RELEASE_ALL | CONTROL_PING | CONTROL_PONG | CONTROL_STATS | CONTROL_ERROR
  | CONTROL_TEXT_UTF8 | CONTROL_KEY_ACK | CONTROL_SYNCHRONIZE

primrec control_code :: "NanokvmControlType \<Rightarrow> byte" where
  "control_code CONTROL_HELLO = 1"
| "control_code CONTROL_START_STREAM = 2"
| "control_code CONTROL_STOP_STREAM = 3"
| "control_code CONTROL_IDR_REQUEST = 4"
| "control_code CONTROL_KEY = 5"
| "control_code CONTROL_POINTER_ABS = 6"
| "control_code CONTROL_POINTER_REL = 7"
| "control_code CONTROL_WHEEL = 8"
| "control_code CONTROL_RELEASE_ALL = 9"
| "control_code CONTROL_PING = 10"
| "control_code CONTROL_PONG = 11"
| "control_code CONTROL_STATS = 12"
| "control_code CONTROL_ERROR = 13"
| "control_code CONTROL_TEXT_UTF8 = 14"
| "control_code CONTROL_KEY_ACK = 15"
| "control_code CONTROL_SYNCHRONIZE = 16"

text \<open>
  A message holds the fixed payload array and the number of bytes in use; the reader holds the
  frame buffer (header and payload) and how much of it has arrived.
\<close>

record NanokvmControlMessage =
  msg_type :: byte
  msg_payload :: "byte list"
  msg_length :: u16

record NanokvmControlReader =
  rd_data :: "byte list"
  rd_used :: nat

definition empty_message :: NanokvmControlMessage where
  "empty_message = \<lparr>msg_type = 0, msg_payload = replicate 1024 0, msg_length = 0\<rparr>"

definition empty_reader :: NanokvmControlReader where
  "empty_reader = \<lparr>rd_data = replicate 1028 0, rd_used = 0\<rparr>"

section \<open>Integers on the wire\<close>

definition protocol_write_u16 :: "u16 \<Rightarrow> byte list" where
  "protocol_write_u16 value = [ucast (drop_bit 8 value), ucast value]"

definition protocol_read_u16 :: "byte list \<Rightarrow> u16" where
  "protocol_read_u16 data = push_bit 8 (ucast (data ! 0)) OR ucast (data ! 1)"

definition protocol_write_u32 :: "u32 \<Rightarrow> byte list" where
  "protocol_write_u32 value =
     [ucast (drop_bit 24 value), ucast (drop_bit 16 value), ucast (drop_bit 8 value), ucast value]"

definition protocol_read_u32 :: "byte list \<Rightarrow> u32" where
  "protocol_read_u32 data =
     push_bit 24 (ucast (data ! 0)) OR push_bit 16 (ucast (data ! 1)) OR
     push_bit 8 (ucast (data ! 2)) OR ucast (data ! 3)"

section \<open>Sending\<close>

text \<open>
  The answers a sequence of \<open>write\<close> calls returns: a byte count (at most what was asked for) or an
  error. \<open>write_all\<close> consumes one answer per call; \<open>None\<close> means the calls so far have not decided
  the outcome (the last \<open>write\<close> has not returned).
\<close>

datatype write_answer = Wrote nat | WriteErr errno

fun write_all :: "write_answer list \<Rightarrow> byte list \<Rightarrow> (bool \<times> byte list \<times> write_answer list) option" where
  "write_all answers [] = Some (True, [], answers)"
| "write_all [] (b # data) = None"
| "write_all (Wrote n # answers) (b # data) =
     (let result = min n (length (b # data)) in
      if result > 0
      then map_option (\<lambda>(ok, sent, rest). (ok, take result (b # data) @ sent, rest))
             (write_all answers (drop result (b # data)))
      else Some (False, [], answers))"
| "write_all (WriteErr e # answers) (b # data) =
     (if e = EINTR then write_all answers (b # data) else Some (False, [], answers))"

text \<open>
  \<open>protocol_send\<close>: the payload pointer may be \<open>NULL\<close> (\<open>None\<close>). The result is the returned flag,
  the bytes that reached the socket and whether the socket was shut down.
\<close>

definition protocol_send ::
  "write_answer list \<Rightarrow> byte \<Rightarrow> byte list option \<Rightarrow> u16 \<Rightarrow> (bool \<times> byte list \<times> bool \<times> write_answer list) option" where
  "protocol_send answers type payload len =
     (if unat len > NANOKVM_CONTROL_MAX_PAYLOAD \<or> (len \<noteq> 0 \<and> payload = None)
      then Some (False, [], False, answers)
      else
        let frame = [NANOKVM_PROTOCOL_VERSION, type] @ protocol_write_u16 len @
                    (case payload of None \<Rightarrow> [] | Some bs \<Rightarrow> take (unat len) bs)
        in map_option (\<lambda>(ok, sent, rest). (ok, sent, \<not> ok, rest)) (write_all answers frame))"

section \<open>Receiving\<close>

text \<open>\<open>read_all\<close> blocks: with no answer left the call has not returned (\<open>None\<close>).\<close>

function read_all :: "recv_event list \<Rightarrow> nat \<Rightarrow> (bool \<times> byte list \<times> recv_event list) option" where
  "read_all evs len =
     (if len = 0 then Some (True, [], evs)
      else if evs = [] then None
      else case sock_recv len evs of
        (Got bs, evs') \<Rightarrow>
          if bs \<noteq> []
          then map_option (\<lambda>(ok, more, rest). (ok, bs @ more, rest)) (read_all evs' (len - length bs))
          else Some (False, [], evs')
      | (RecvErr e, evs') \<Rightarrow>
          if e = EINTR then read_all evs' len else Some (False, [], evs'))"
  by pat_completeness auto
termination
  by (relation "measure (\<lambda>(evs, len). events_size evs)")
    (auto dest: sock_recv_size)

declare read_all.simps [simp del]

text \<open>
  \<open>protocol_receive\<close> fills the message in place: the type and length are stored before the length
  is checked, as in the source.
\<close>

definition protocol_receive ::
  "recv_event list \<Rightarrow> NanokvmControlMessage \<Rightarrow> (bool \<times> NanokvmControlMessage \<times> recv_event list) option" where
  "protocol_receive evs message =
     (case read_all evs 4 of
        None \<Rightarrow> None
      | Some (ok, header, evs1) \<Rightarrow>
          if \<not> ok \<or> header ! 0 \<noteq> NANOKVM_PROTOCOL_VERSION then Some (False, message, evs1)
          else
            let message1 = message\<lparr>msg_type := header ! 1, msg_length := protocol_read_u16 (drop 2 header)\<rparr> in
            if unat (msg_length message1) > NANOKVM_CONTROL_MAX_PAYLOAD then Some (False, message1, evs1)
            else if msg_length message1 = 0 then Some (True, message1, evs1)
            else (case read_all evs1 (unat (msg_length message1)) of
                    None \<Rightarrow> None
                  | Some (ok2, body, evs2) \<Rightarrow>
                      Some (ok2, message1\<lparr>msg_payload := poke (msg_payload message1) 0 body\<rparr>, evs2)))"

text \<open>\<open>protocol_receive_available\<close>: 1 a complete message, 0 not yet, -1 closed or invalid.\<close>

function protocol_receive_available ::
  "recv_event list \<Rightarrow> NanokvmControlReader \<Rightarrow> NanokvmControlMessage \<Rightarrow>
     int \<times> NanokvmControlReader \<times> NanokvmControlMessage \<times> recv_event list" where
  "protocol_receive_available evs reader message =
     (let have_header = 4 \<le> rd_used reader;
          len = protocol_read_u16 (drop 2 (rd_data reader));
          needed = (if have_header then 4 + unat len else 4)
      in if have_header \<and> (rd_data reader ! 0 \<noteq> NANOKVM_PROTOCOL_VERSION \<or>
                           unat len > NANOKVM_CONTROL_MAX_PAYLOAD)
         then (-1, reader, message, evs)
         else if have_header \<and> rd_used reader = needed
         then (1, reader\<lparr>rd_used := 0\<rparr>,
               message\<lparr>msg_type := rd_data reader ! 1, msg_length := len,
                       msg_payload := poke (msg_payload message) 0 (take (unat len) (drop 4 (rd_data reader)))\<rparr>,
               evs)
         else case sock_recv (size_sub needed (rd_used reader)) evs of
           (Got bs, evs') \<Rightarrow>
             if bs \<noteq> []
             then protocol_receive_available evs'
                    (reader\<lparr>rd_data := poke (rd_data reader) (rd_used reader) bs,
                            rd_used := rd_used reader + length bs\<rparr>) message
             else (-1, reader, message, evs')
         | (RecvErr e, evs') \<Rightarrow>
             if e = EINTR then protocol_receive_available evs' reader message
             else ((if e = EAGAIN \<or> e = EWOULDBLOCK then 0 else -1), reader, message, evs'))"
  by pat_completeness auto
termination
  by (relation "measure (\<lambda>(evs, reader, message). events_size evs)")
    (auto dest: sock_recv_size)

declare protocol_receive_available.simps [simp del]

section \<open>Facts about the wire integers\<close>

lemma protocol_read_u16_write [simp, wire_simps]:
  "protocol_read_u16 (protocol_write_u16 v @ rest) = v"
  using un_be16_be16 [of v]
  by (simp add: protocol_read_u16_def protocol_write_u16_def un_be16_def)

lemma protocol_read_u32_write [simp, wire_simps]:
  "protocol_read_u32 (protocol_write_u32 v @ rest) = v"
  using un_be32_be32 [of v]
  by (simp add: protocol_read_u32_def protocol_write_u32_def un_be32_def)

lemma protocol_write_u16_be16: "protocol_write_u16 v = be16 v"
  by (simp add: protocol_write_u16_def be16_def)

lemma protocol_read_u16_cons [simp, wire_simps]:
  "protocol_read_u16 (a # b # rest) = un_be16 a b"
  by (simp add: protocol_read_u16_def un_be16_def)

lemma length_protocol_write [simp, buffer_simps]:
  "length (protocol_write_u16 v) = 2" "length (protocol_write_u32 w) = 4"
  by (simp_all add: protocol_write_u16_def protocol_write_u32_def)

section \<open>The sender\<close>

lemma write_all_prefix:
  "write_all answers data = Some (ok, sent, rest) \<Longrightarrow> \<exists>tail. data = sent @ tail \<and> (ok \<longleftrightarrow> tail = [])"
proof (induction answers data arbitrary: ok sent rest rule: write_all.induct)
  case (3 n answers b data)
  let ?k = "min n (length (b # data))"
  show ?case
  proof (cases "?k > 0")
    case True
    with "3.prems" obtain sent' where
      w: "write_all answers (drop ?k (b # data)) = Some (ok, sent', rest)" and
      s: "sent = take ?k (b # data) @ sent'"
      by (auto simp: Let_def simp del: take_Suc_Cons drop_Suc_Cons)
    from "3.IH" [OF refl True w] obtain tail where
      "drop ?k (b # data) = sent' @ tail" "ok \<longleftrightarrow> tail = []" by blast
    then have "b # data = sent @ tail" by (metis append.assoc append_take_drop_id s)
    with \<open>ok \<longleftrightarrow> tail = []\<close> show ?thesis by blast
  next
    case False
    with "3.prems" show ?thesis by auto
  qed
qed (auto split: if_splits)

lemma write_all_progress:
  "list_all (\<lambda>a. \<exists>n. a = Wrote n \<and> 0 < n) answers \<Longrightarrow> length data \<le> length answers \<Longrightarrow>
     \<exists>rest. write_all answers data = Some (True, data, rest)"
proof (induction answers data rule: write_all.induct)
  case (3 n answers b data)
  let ?k = "min n (length (b # data))"
  have k: "?k > 0" using "3.prems" by auto
  have "length (drop ?k (b # data)) \<le> length answers" using "3.prems" k by auto
  with "3.IH" [OF refl k] "3.prems" obtain rest where
    "write_all answers (drop ?k (b # data)) = Some (True, drop ?k (b # data), rest)" by auto
  with k show ?case by (auto simp: Let_def simp del: take_Suc_Cons drop_Suc_Cons)
qed auto

section \<open>The reader stays inside its buffer\<close>

definition reader_ok :: "NanokvmControlReader \<Rightarrow> bool" where
  "reader_ok reader \<longleftrightarrow>
     length (rd_data reader) = 1028 \<and> rd_used reader \<le> 1028 \<and>
     (4 \<le> rd_used reader \<longrightarrow>
        rd_used reader \<le> 4 + unat (protocol_read_u16 (drop 2 (rd_data reader))))"

abbreviation held :: "NanokvmControlReader \<Rightarrow> byte list" where
  "held reader \<equiv> take (rd_used reader) (rd_data reader)"

lemma reader_ok_empty [simp]: "reader_ok empty_reader"
  by (simp add: reader_ok_def empty_reader_def)

lemma reader_ok_reset: "reader_ok reader \<Longrightarrow> reader_ok (reader\<lparr>rd_used := 0\<rparr>)"
  by (simp add: reader_ok_def)

lemma drop_poke_header:
  assumes "4 \<le> off" "off \<le> length buf"
  shows "protocol_read_u16 (drop 2 (poke buf off bs)) = protocol_read_u16 (drop 2 buf)"
  using assms by (auto simp: protocol_read_u16_def poke_def nth_append)

text \<open>One chunk stored behind the bytes already held, when it fits what was asked for.\<close>

lemma reader_store:
  assumes ok: "reader_ok reader" and "bs \<noteq> []"
    and needed: "needed = (if 4 \<le> rd_used reader
                    then 4 + unat (protocol_read_u16 (drop 2 (rd_data reader))) else 4)"
    and small: "4 \<le> rd_used reader \<Longrightarrow>
                  unat (protocol_read_u16 (drop 2 (rd_data reader))) \<le> NANOKVM_CONTROL_MAX_PAYLOAD"
    and len: "length bs \<le> size_sub needed (rd_used reader)"
  defines "reader' \<equiv> reader\<lparr>rd_data := poke (rd_data reader) (rd_used reader) bs,
                             rd_used := rd_used reader + length bs\<rparr>"
  shows "reader_ok reader'" and "held reader' = held reader @ bs"
proof -
  let ?u = "rd_used reader"
  have u: "?u \<le> needed" using ok needed by (auto simp: reader_ok_def)
  have needed_max: "needed \<le> 1028"
    using small needed by (auto simp: protocol_consts)
  have fit: "?u + length bs \<le> needed" using len u by simp
  have ld: "length (rd_data reader) = 1028" using ok by (simp add: reader_ok_def)
  show "held reader' = held reader @ bs"
    using fit needed_max ld by (simp add: reader'_def)
  show "reader_ok reader'"
  proof (cases "4 \<le> ?u")
    case True
    then show ?thesis using fit needed_max ld needed
      by (auto simp: reader'_def reader_ok_def drop_poke_header)
  next
    case False
    then show ?thesis using fit needed_max ld needed
      by (auto simp: reader'_def reader_ok_def)
  qed
qed

abbreviation frame_len :: "NanokvmControlReader \<Rightarrow> nat" where
  "frame_len reader \<equiv> unat (protocol_read_u16 (drop 2 (rd_data reader)))"

abbreviation frame_needed :: "NanokvmControlReader \<Rightarrow> nat" where
  "frame_needed reader \<equiv> (if 4 \<le> rd_used reader then 4 + frame_len reader else 4)"

definition bad_header :: "NanokvmControlReader \<Rightarrow> bool" where
  "bad_header reader \<longleftrightarrow> 4 \<le> rd_used reader \<and>
     (rd_data reader ! 0 \<noteq> NANOKVM_PROTOCOL_VERSION \<or> frame_len reader > NANOKVM_CONTROL_MAX_PAYLOAD)"

definition frame_complete :: "NanokvmControlReader \<Rightarrow> bool" where
  "frame_complete reader \<longleftrightarrow> 4 \<le> rd_used reader \<and> rd_used reader = 4 + frame_len reader"

definition store :: "NanokvmControlReader \<Rightarrow> byte list \<Rightarrow> NanokvmControlReader" where
  "store reader bs = reader\<lparr>rd_data := poke (rd_data reader) (rd_used reader) bs,
                            rd_used := rd_used reader + length bs\<rparr>"

text \<open>One round of the receive loop, case by case.\<close>

lemma receive_bad:
  "bad_header reader \<Longrightarrow> protocol_receive_available evs reader message = (-1, reader, message, evs)"
  by (simp add: protocol_receive_available.simps [of evs reader message] bad_header_def Let_def)

lemma receive_complete:
  "\<not> bad_header reader \<Longrightarrow> frame_complete reader \<Longrightarrow>
   protocol_receive_available evs reader message =
     (1, reader\<lparr>rd_used := 0\<rparr>,
      message\<lparr>msg_type := rd_data reader ! 1, msg_length := protocol_read_u16 (drop 2 (rd_data reader)),
              msg_payload := poke (msg_payload message) 0 (take (frame_len reader) (drop 4 (rd_data reader)))\<rparr>,
      evs)"
  by (subst protocol_receive_available.simps) (auto simp: bad_header_def frame_complete_def Let_def)

lemma receive_partial:
  "\<not> bad_header reader \<Longrightarrow> \<not> frame_complete reader \<Longrightarrow>
   protocol_receive_available evs reader message =
     (case sock_recv (size_sub (frame_needed reader) (rd_used reader)) evs of
        (Got bs, evs') \<Rightarrow>
          if bs \<noteq> [] then protocol_receive_available evs' (store reader bs) message
          else (-1, reader, message, evs')
      | (RecvErr e, evs') \<Rightarrow>
          if e = EINTR then protocol_receive_available evs' reader message
          else ((if e = EAGAIN \<or> e = EWOULDBLOCK then 0 else -1), reader, message, evs'))"
  by (subst protocol_receive_available.simps)
    (auto simp: bad_header_def frame_complete_def store_def Let_def split: prod.split recv_answer.split)

text \<open>Induction over the rounds of the loop.\<close>

lemma receive_induct [case_names bad complete got eof intr fail]:
  assumes bad: "\<And>evs reader. bad_header reader \<Longrightarrow> P evs reader"
    and complete: "\<And>evs reader. \<not> bad_header reader \<Longrightarrow> frame_complete reader \<Longrightarrow> P evs reader"
    and got: "\<And>evs reader bs evs'. \<not> bad_header reader \<Longrightarrow> \<not> frame_complete reader \<Longrightarrow>
        sock_recv (size_sub (frame_needed reader) (rd_used reader)) evs = (Got bs, evs') \<Longrightarrow> bs \<noteq> [] \<Longrightarrow>
        P evs' (store reader bs) \<Longrightarrow> P evs reader"
    and eof: "\<And>evs reader evs'. \<not> bad_header reader \<Longrightarrow> \<not> frame_complete reader \<Longrightarrow>
        sock_recv (size_sub (frame_needed reader) (rd_used reader)) evs = (Got [], evs') \<Longrightarrow> P evs reader"
    and intr: "\<And>evs reader evs'. \<not> bad_header reader \<Longrightarrow> \<not> frame_complete reader \<Longrightarrow>
        sock_recv (size_sub (frame_needed reader) (rd_used reader)) evs = (RecvErr EINTR, evs') \<Longrightarrow>
        P evs' reader \<Longrightarrow> P evs reader"
    and fail: "\<And>evs reader evs' e. \<not> bad_header reader \<Longrightarrow> \<not> frame_complete reader \<Longrightarrow>
        sock_recv (size_sub (frame_needed reader) (rd_used reader)) evs = (RecvErr e, evs') \<Longrightarrow> e \<noteq> EINTR \<Longrightarrow>
        P evs reader"
  shows "P evs reader"
proof (induction "events_size evs" arbitrary: evs reader rule: less_induct)
  case (less evs reader)
  let ?n = "size_sub (frame_needed reader) (rd_used reader)"
  obtain a evs1 where s: "sock_recv ?n evs = (a, evs1)" by fastforce
  consider "bad_header reader" | "\<not> bad_header reader" "frame_complete reader"
    | "\<not> bad_header reader" "\<not> frame_complete reader" by blast
  then show ?case
  proof cases
    case 3
    show ?thesis
    proof (cases a)
      case (Got bs)
      with s 3 less eof show ?thesis
        by (cases "bs = []") (auto intro: got dest: sock_recv_Got_size)
    next
      case (RecvErr e)
      with s 3 less show ?thesis
        by (cases "e = EINTR") (auto intro: intr fail dest: sock_recv_EINTR_size)
    qed
  qed (auto intro: bad complete)
qed

lemma store_ok:
  assumes "reader_ok reader" "\<not> bad_header reader" "bs \<noteq> []"
    and "sock_recv (size_sub (frame_needed reader) (rd_used reader)) evs = (Got bs, evs')"
  shows "reader_ok (store reader bs)" and "held (store reader bs) = held reader @ bs"
proof -
  have "length bs \<le> size_sub (frame_needed reader) (rd_used reader)"
    using sock_recv_Got_length assms(4) by blast
  moreover have "4 \<le> rd_used reader \<Longrightarrow> frame_len reader \<le> NANOKVM_CONTROL_MAX_PAYLOAD"
    using assms(2) by (auto simp: bad_header_def)
  ultimately show "reader_ok (store reader bs)" "held (store reader bs) = held reader @ bs"
    using reader_store [OF assms(1,3) refl] unfolding store_def by blast+
qed

lemma protocol_receive_available_ok:
  "reader_ok reader \<Longrightarrow> reader_ok (fst (snd (protocol_receive_available evs reader message)))"
proof (induction evs reader rule: receive_induct)
  case (got evs reader bs evs')
  then show ?case by (simp add: receive_partial store_ok(1))
qed (auto simp: receive_bad receive_complete receive_partial intro: reader_ok_reset)

section \<open>Framing does not depend on how the stream is cut\<close>

text \<open>
  The specification: a control frame as a value, cut off a complete byte stream. It is a stream
  codec; the incremental reader and the sender implement it.
\<close>

definition control_frame :: "byte \<times> byte list \<Rightarrow> byte list" where
  "control_frame m = [NANOKVM_PROTOCOL_VERSION, fst m] @ be16 (of_nat (length (snd m))) @ snd m"

definition control_wf :: "byte \<times> byte list \<Rightarrow> bool" where
  "control_wf m \<longleftrightarrow> length (snd m) \<le> NANOKVM_CONTROL_MAX_PAYLOAD"

definition control_decode :: "byte list \<Rightarrow> ((byte \<times> byte list) \<times> byte list) option" where
  "control_decode bs =
     (if length bs < 4 \<or> bs ! 0 \<noteq> NANOKVM_PROTOCOL_VERSION then None
      else let n = unat (un_be16 (bs ! 2) (bs ! 3)) in
           if n > NANOKVM_CONTROL_MAX_PAYLOAD \<or> length bs < 4 + n then None
           else Some ((bs ! 1, take n (drop 4 bs)), drop n (drop 4 bs)))"

lemma unat_of_nat_u16: "n \<le> NANOKVM_CONTROL_MAX_PAYLOAD \<Longrightarrow> unat (of_nat n :: u16) = n"
  by (simp add: protocol_consts unat_of_nat)

lemma control_frame_unfold:
  "control_frame (t, pl) = NANOKVM_PROTOCOL_VERSION # t # ucast (drop_bit 8 (of_nat (length pl) :: u16)) #
     ucast (of_nat (length pl) :: u16) # pl"
  by (simp add: control_frame_def be16_def)

interpretation control: stream_codec control_frame control_decode control_wf
proof
  fix m rest assume "control_wf m"
  then show "control_decode (control_frame m @ rest) = Some (m, rest)"
    by (cases m) (simp add: control_decode_def control_frame_unfold control_wf_def unat_of_nat_u16 Let_def)
next
  fix m p q assume wf: "control_wf m" and split: "control_frame m = p @ q" and "q \<noteq> []"
  obtain t pl where m: "m = (t, pl)" by (cases m)
  have len: "length p < 4 + length pl"
    using arg_cong [OF split, of length] \<open>q \<noteq> []\<close> by (cases q) (simp_all add: m control_frame_unfold)
  show "control_decode p = None"
  proof (cases "length p < 4")
    case False
    then have "p ! i = control_frame m ! i" if "i < 4" for i using that split by (simp add: nth_append)
    from this [of 2] this [of 3] have "unat (un_be16 (p ! 2) (p ! 3)) = length pl"
      using wf by (simp add: m control_frame_unfold control_wf_def unat_of_nat_u16)
    with False len show ?thesis by (simp add: control_decode_def)
  qed (simp add: control_decode_def)
next
  fix m show "control_frame m \<noteq> []" by (simp add: control_frame_def)
qed

text \<open>What a reader still has to see: the bytes it holds and the bytes on their way.\<close>

abbreviation unread :: "NanokvmControlReader \<Rightarrow> recv_event list \<Rightarrow> byte list" where
  "unread reader evs \<equiv> held reader @ bytes_of evs"

definition delivered :: "byte \<times> byte list \<Rightarrow> NanokvmControlMessage \<Rightarrow> NanokvmControlMessage" where
  "delivered m message = message\<lparr>msg_type := fst m, msg_length := of_nat (length (snd m)),
                                 msg_payload := poke (msg_payload message) 0 (snd m)\<rparr>"

lemma held_header:
  assumes ok: "reader_ok reader" and un: "unread reader evs = control_frame (t, pl) @ rest"
    and wf: "control_wf (t, pl)" and "4 \<le> rd_used reader"
  shows "rd_data reader ! 0 = NANOKVM_PROTOCOL_VERSION" and "rd_data reader ! 1 = t"
    and "protocol_read_u16 (drop 2 (rd_data reader)) = of_nat (length pl)"
    and "frame_len reader = length pl"
proof -
  have nth: "rd_data reader ! i = (control_frame (t, pl) @ rest) ! i" if "i < 4" for i
    using that assms(4) ok arg_cong [OF un, of "\<lambda>xs. xs ! i"]
    by (simp add: reader_ok_def nth_append)
  from nth [of 0] nth [of 1] show "rd_data reader ! 0 = NANOKVM_PROTOCOL_VERSION"
    and "rd_data reader ! 1 = t" by (simp_all add: control_frame_unfold)
  have "protocol_read_u16 (drop 2 (rd_data reader)) = un_be16 (rd_data reader ! 2) (rd_data reader ! 3)"
    using ok by (simp add: protocol_read_u16_def un_be16_def reader_ok_def)
  also have "\<dots> = of_nat (length pl)"
    using nth [of 2] nth [of 3] by (simp add: control_frame_unfold)
  finally show len: "protocol_read_u16 (drop 2 (rd_data reader)) = of_nat (length pl)" .
  show "frame_len reader = length pl" using wf by (simp add: len control_wf_def unat_of_nat_u16)
qed

lemma held_all_complete:
  assumes ok: "reader_ok reader" and un: "held reader = control_frame m @ rest" and wf: "control_wf m"
  shows "frame_complete reader"
proof -
  obtain t pl where m: "m = (t, pl)" by (cases m)
  have "length (held reader) = rd_used reader" using ok by (simp add: reader_ok_def)
  then have used: "rd_used reader \<ge> 4 + length pl" using un by (simp add: m control_frame_unfold)
  then have four: "4 \<le> rd_used reader" by simp
  have "frame_len reader = length pl"
    using held_header(4) [OF ok _ wf [unfolded m] four, of "[]"] un by (simp add: m)
  with ok used four show ?thesis by (simp add: reader_ok_def frame_complete_def)
qed

lemma receive_frame:
  assumes "reader_ok reader" and "list_all quiet_event evs"
    and "unread reader evs = control_frame m @ rest" and "control_wf m"
  shows "(\<exists>reader' evs'. protocol_receive_available evs reader message =
            (1, reader', delivered m message, evs') \<and> unread reader' evs' = rest \<and>
            rd_used reader' = 0 \<and> list_all quiet_event evs' \<and> events_size evs' \<le> events_size evs) \<or>
         (\<exists>reader' evs'. protocol_receive_available evs reader message = (0, reader', message, evs') \<and>
            unread reader' evs' = control_frame m @ rest \<and> list_all quiet_event evs' \<and>
            events_size evs' < events_size evs)"
  using assms
proof (induction evs reader rule: receive_induct)
  case (bad evs reader)
  obtain t pl where m: "m = (t, pl)" by (cases m)
  from bad held_header [OF bad.prems(1)] have False
    by (auto simp: m bad_header_def control_wf_def)
  then show ?case ..
next
  case (complete evs reader)
  obtain t pl where m: "m = (t, pl)" by (cases m)
  have four: "4 \<le> rd_used reader" using complete by (simp add: frame_complete_def)
  note hdr = held_header [OF complete.prems(1) complete.prems(3) [unfolded m] complete.prems(4) [unfolded m] four]
  have used: "rd_used reader = 4 + length pl" using complete hdr(4) by (simp add: frame_complete_def)
  have "length (held reader) = length (control_frame (t, pl))"
    using used complete.prems(1) by (simp add: reader_ok_def control_frame_unfold)
  with complete.prems(3) have "held reader = control_frame (t, pl)" and rest: "bytes_of evs = rest"
    unfolding m by (metis append_eq_append_conv)+
  then have "drop 4 (take (4 + length pl) (rd_data reader)) = pl"
    by (simp add: used control_frame_unfold)
  then have "take (length pl) (drop 4 (rd_data reader)) = pl" by (simp add: drop_take)
  with complete hdr rest show ?case by (simp add: receive_complete m delivered_def)
next
  case (got evs reader bs evs')
  have un: "unread (store reader bs) evs' = control_frame m @ rest"
    using store_ok(2) [OF got.prems(1) got.hyps(1,4,3)] sock_recv_bytes(1) [OF got.hyps(3)] got.prems(3)
    by simp
  have size: "events_size evs' < events_size evs" using sock_recv_Got_size got.hyps(3,4) by blast
  show ?case
    using got.IH [OF store_ok(1) [OF got.prems(1) got.hyps(1,4,3)]
        sock_recv_quiet [OF got.hyps(3) got.prems(2)] un got.prems(4)] got.hyps size
    by (auto simp: receive_partial)
next
  case (eof evs reader evs')
  have "0 < size_sub (frame_needed reader) (rd_used reader)"
    using eof by (auto simp: frame_complete_def reader_ok_def)
  with sock_recv_quiet_Got [OF eof.hyps(3) eof.prems(2)] show ?case by simp
next
  case (intr evs reader evs')
  have "events_size evs' < events_size evs" using sock_recv_EINTR_size intr.hyps(3) by blast
  then show ?case
    using intr.IH [OF intr.prems(1) sock_recv_quiet [OF intr.hyps(3) intr.prems(2)]] intr
      sock_recv_bytes(2) [OF intr.hyps(3)] by (auto simp: receive_partial)
next
  case (fail evs reader evs' e)
  then have "e = EAGAIN \<or> e = EWOULDBLOCK" using sock_recv_quiet_Err by blast
  moreover have "evs \<noteq> []"
    using held_all_complete [OF fail.prems(1) _ fail.prems(4)] fail.prems(3) fail.hyps(2) by auto
  then have "events_size evs' < events_size evs" by (rule sock_recv_Err_size [OF fail.hyps(3)])
  ultimately show ?case
    using fail sock_recv_bytes(2) [OF fail.hyps(3)] sock_recv_quiet [OF fail.hyps(3) fail.prems(2)]
    by (auto simp: receive_partial)
qed

lemma receive_nothing:
  "rd_used reader = 0 \<Longrightarrow> bytes_of evs = [] \<Longrightarrow> list_all quiet_event evs \<Longrightarrow>
     \<exists>evs'. protocol_receive_available evs reader message = (0, reader, message, evs') \<and>
       bytes_of evs' = [] \<and> list_all quiet_event evs'"
proof (induction evs reader rule: receive_induct)
  case (got evs reader bs evs')
  with sock_recv_bytes(1) [OF got.hyps(3)] show ?case by simp
next
  case (eof evs reader evs')
  with sock_recv_quiet_Got [OF eof.hyps(3)] show ?case by simp
next
  case (intr evs reader evs')
  then show ?case
    using sock_recv_bytes(2) [OF intr.hyps(3)] sock_recv_quiet [OF intr.hyps(3)]
    by (simp add: receive_partial)
next
  case (fail evs reader evs' e)
  then show ?case
    using sock_recv_bytes(2) [OF fail.hyps(3)] sock_recv_quiet [OF fail.hyps(3)]
      sock_recv_quiet_Err [OF fail.hyps(3)] by (auto simp: receive_partial)
qed (simp_all add: bad_header_def frame_complete_def)

text \<open>
  Successive calls of the reader, each with a fresh message, until one fails: the messages it
  returned, whether no call failed, and what is left.
\<close>

fun receive_calls :: "nat \<Rightarrow> recv_event list \<Rightarrow> NanokvmControlReader \<Rightarrow>
    NanokvmControlMessage list \<times> bool \<times> NanokvmControlReader \<times> recv_event list" where
  "receive_calls 0 evs reader = ([], True, reader, evs)"
| "receive_calls (Suc n) evs reader =
     (case protocol_receive_available evs reader empty_message of
        (r, reader', message, evs') \<Rightarrow>
          if r < 0 then ([], False, reader', evs')
          else case receive_calls n evs' reader' of
            (ms, ok, reader'', evs'') \<Rightarrow> (if r = 1 then message # ms else ms, ok, reader'', evs''))"

lemma receive_calls_idle:
  "rd_used reader = 0 \<Longrightarrow> bytes_of evs = [] \<Longrightarrow> list_all quiet_event evs \<Longrightarrow>
     \<exists>evs'. receive_calls n evs reader = ([], True, reader, evs') \<and> bytes_of evs' = []"
proof (induction n arbitrary: evs)
  case (Suc n)
  from receive_nothing [OF Suc.prems, of empty_message] Suc.IH Suc.prems(1) show ?case by fastforce
qed simp

lemma receive_calls_frames:
  assumes "reader_ok reader" and "list_all quiet_event evs" and "list_all control_wf ms"
    and "unread reader evs = concat (map control_frame ms)" and "events_size evs + length ms \<le> n"
  shows "\<exists>reader' evs'. receive_calls n evs reader = (map (\<lambda>m. delivered m empty_message) ms, True, reader', evs') \<and>
           unread reader' evs' = []"
  using assms
proof (induction n arbitrary: evs reader ms)
  case 0
  then show ?case by simp
next
  case (Suc n)
  show ?case
  proof (cases ms)
    case Nil
    with Suc.prems have "rd_used reader = 0 \<and> bytes_of evs = []" by (auto simp: reader_ok_def)
    with receive_calls_idle [of reader evs "Suc n"] Suc.prems(2) Nil show ?thesis by fastforce
  next
    case (Cons m ms')
    obtain r reader' message evs' where
      call: "protocol_receive_available evs reader empty_message = (r, reader', message, evs')"
      by (cases "protocol_receive_available evs reader empty_message")
    have ok': "reader_ok reader'"
      using protocol_receive_available_ok [OF Suc.prems(1), of evs empty_message] call by simp
    have un: "unread reader evs = control_frame m @ concat (map control_frame ms')"
      using Suc.prems(4) Cons by simp
    have wf: "control_wf m" "list_all control_wf ms'" using Suc.prems(3) Cons by simp_all
    from receive_frame [OF Suc.prems(1,2) un wf(1), of empty_message] call
    consider (full) "r = 1" "message = delivered m empty_message" "list_all quiet_event evs'"
          "unread reader' evs' = concat (map control_frame ms')" "events_size evs' \<le> events_size evs"
      | (wait) "r = 0" "unread reader' evs' = concat (map control_frame ms)" "list_all quiet_event evs'"
          "events_size evs' < events_size evs"
      using un Cons by fastforce
    then show ?thesis
    proof cases
      case full
      with Suc.IH [OF ok' full(3) wf(2) full(4)] Suc.prems(5) call Cons show ?thesis by fastforce
    next
      case wait
      with Suc.IH [OF ok' wait(3) Suc.prems(3) wait(2)] Suc.prems(5) call show ?thesis by fastforce
    qed
  qed
qed

section \<open>The blocking reader\<close>

fun steady_event :: "recv_event \<Rightarrow> bool" where
  "steady_event (Data bs) = (bs \<noteq> [])"
| "steady_event (Fail e) = (e = EINTR)"
| "steady_event Closed = False"

lemma sock_recv_steady:
  "list_all steady_event evs \<Longrightarrow> sock_recv n evs = (a, evs') \<Longrightarrow> evs \<noteq> [] \<Longrightarrow> 0 < n \<Longrightarrow>
     list_all steady_event evs' \<and> (a = RecvErr EINTR \<or> (\<exists>bs. a = Got bs \<and> bs \<noteq> []))"
proof (cases "(n, evs)" rule: sock_recv.cases)
  case (2 n' bs evs1)
  assume facts: "list_all steady_event evs" "sock_recv n evs = (a, evs')" "0 < n"
  show ?thesis
  proof (cases "length bs \<le> n")
    case True
    with facts 2 have "a = Got bs" "evs' = evs1" by simp_all
    with facts 2 show ?thesis by simp
  next
    case False
    with facts 2 have "a = Got (take n bs)" "evs' = Data (drop n bs) # evs1" by simp_all
    with facts 2 False show ?thesis by simp
  qed
qed simp_all

lemma read_all_0 [simp]: "read_all evs 0 = Some (True, [], evs)"
  by (simp add: read_all.simps [of evs 0])

lemma read_all_got:
  "0 < n \<Longrightarrow> evs \<noteq> [] \<Longrightarrow> sock_recv n evs = (Got bs, evs') \<Longrightarrow> bs \<noteq> [] \<Longrightarrow>
     read_all evs n = map_option (\<lambda>(ok, more, rest). (ok, bs @ more, rest)) (read_all evs' (n - length bs))"
  by (subst read_all.simps) simp

lemma read_all_intr:
  "0 < n \<Longrightarrow> evs \<noteq> [] \<Longrightarrow> sock_recv n evs = (RecvErr EINTR, evs') \<Longrightarrow> read_all evs n = read_all evs' n"
  by (subst read_all.simps) simp

lemma append_shorter:
  "xs @ us = ys @ vs \<Longrightarrow> length xs \<le> length ys \<Longrightarrow> \<exists>zs. ys = xs @ zs \<and> us = zs @ vs"
  by (auto simp: append_eq_append_conv2)

lemma read_all_steady:
  assumes "list_all steady_event evs" and "bytes_of evs = bs @ rest" and "length bs = n"
  shows "\<exists>evs'. read_all evs n = Some (True, bs, evs') \<and> bytes_of evs' = rest \<and> list_all steady_event evs'"
  using assms
proof (induction "events_size evs" arbitrary: evs bs n rule: less_induct)
  case (less evs bs n)
  show ?case
  proof (cases "n = 0")
    case False
    then have n: "0 < n" by simp
    with less.prems have ne: "evs \<noteq> []" by auto
    obtain a evs1 where s: "sock_recv n evs = (a, evs1)" by fastforce
    from sock_recv_steady [OF less.prems(1) s ne n]
    consider (intr) "a = RecvErr EINTR" | (got) got where "a = Got got" "got \<noteq> []" by blast
    moreover have steady: "list_all steady_event evs1"
      using sock_recv_steady [OF less.prems(1) s ne n] by blast
    ultimately show ?thesis
    proof cases
      case intr
      note s' = s [unfolded intr]
      have "bytes_of evs1 = bs @ rest" using sock_recv_bytes(2) [OF s'] less.prems(2) by simp
      from less.hyps [OF sock_recv_EINTR_size [OF s'] steady this less.prems(3)]
      show ?thesis by (simp add: read_all_intr [OF n ne s'])
    next
      case got
      note s' = s [unfolded got(1)]
      have len: "length got \<le> length bs" using sock_recv_Got_length [OF s'] less.prems(3) by simp
      have "got @ bytes_of evs1 = bs @ rest" using sock_recv_bytes(1) [OF s'] less.prems(2) by simp
      from append_shorter [OF this len] obtain bs' where
        bs: "bs = got @ bs'" and un: "bytes_of evs1 = bs' @ rest" by blast
      have "length bs' = n - length got" using bs less.prems(3) by simp
      from less.hyps [OF sock_recv_Got_size [OF s' got(2)] steady un this]
      obtain evs' where "read_all evs1 (n - length got) = Some (True, bs', evs')" "bytes_of evs' = rest"
        "list_all steady_event evs'" by blast
      then show ?thesis by (simp add: read_all_got [OF n ne s' got(2)] bs)
    qed
  qed (use less.prems in simp)
qed

section \<open>Properties\<close>

text \<open>
  C4: however the byte stream of a sequence of control frames is cut into chunks, and whatever
  interrupted or empty-handed calls happen in between, the agent's non-blocking reader returns
  exactly the messages that were sent, in order, and no call fails, once it has been called often
  enough (one call per event and per message suffices).
\<close>

theorem control_stream_delivered:
  assumes "list_all quiet_event evs" and "list_all control_wf ms"
    and "bytes_of evs = concat (map control_frame ms)" and "events_size evs + length ms \<le> n"
  shows "\<exists>reader' evs'. receive_calls n evs empty_reader =
           (map (\<lambda>m. delivered m empty_message) ms, True, reader', evs') \<and> unread reader' evs' = []"
proof -
  have "unread empty_reader evs = concat (map control_frame ms)"
    using assms(3) by (simp add: empty_reader_def)
  from receive_calls_frames [OF reader_ok_empty assms(1,2) this assms(4)] show ?thesis .
qed

theorem control_stream_delivered_witness:
  "\<exists>reader' evs'. receive_calls 20 [Data [1, 9, 0], Fail EAGAIN, Data [0, 1, 5, 0, 3, 30], Fail EINTR, Data [0, 1]]
       empty_reader = (map (\<lambda>m. delivered m empty_message) [(9, []), (5, [30, 0, 1])], True, reader', evs') \<and>
       unread reader' evs' = []"
proof -
  have "concat (map control_frame [(9, []), (5, [30, 0, 1])]) = [1, 9, 0, 0, 1, 5, 0, 3, 30, 0, 1]"
    by (simp add: control_frame_unfold protocol_consts)
  then show ?thesis
    using control_stream_delivered [of "[Data [1, 9, 0], Fail EAGAIN, Data [0, 1, 5, 0, 3, 30], Fail EINTR, Data [0, 1]]"
        "[(9, []), (5, [30, 0, 1])]" 20]
    by (simp add: control_wf_def protocol_consts)
qed

text \<open>
  C6: whatever the peer and the socket do, the reader never writes outside its 1028-byte buffer
  and never holds more than the frame announced in its header: a call keeps the reader's
  invariant for every sequence of events.
\<close>

theorem control_reader_in_bounds:
  assumes "reader_ok reader"
  shows "reader_ok (fst (snd (protocol_receive_available evs reader message)))"
  using assms by (rule protocol_receive_available_ok)

theorem control_reader_in_bounds_witness:
  "reader_ok (fst (snd (protocol_receive_available [Data (replicate 3000 255)] empty_reader empty_message)))"
  using control_reader_in_bounds [OF reader_ok_empty] .

text \<open>
  C7: a frame is sent whole or the socket is shut down. With valid arguments a successful send
  has written exactly the frame of the message; a failed one has written a strict prefix of it and
  has shut the socket down, so no later frame can follow a torn one. Invalid arguments write
  nothing.
\<close>

theorem protocol_send_whole_or_shutdown:
  assumes send: "protocol_send answers type payload len = Some (ok, sent, shut, rest)"
  shows "if unat len > NANOKVM_CONTROL_MAX_PAYLOAD \<or> len \<noteq> 0 \<and> payload = None
         then \<not> ok \<and> sent = [] \<and> \<not> shut
         else (let body = (case payload of None \<Rightarrow> [] | Some bs \<Rightarrow> take (unat len) bs);
                   frame = [NANOKVM_PROTOCOL_VERSION, type] @ protocol_write_u16 len @ body
               in (ok \<longrightarrow> sent = frame \<and> \<not> shut) \<and>
                  (\<not> ok \<longrightarrow> shut \<and> (\<exists>tail. tail \<noteq> [] \<and> frame = sent @ tail)))"
proof (cases "unat len > NANOKVM_CONTROL_MAX_PAYLOAD \<or> len \<noteq> 0 \<and> payload = None")
  case True
  with send show ?thesis by (simp add: protocol_send_def)
next
  case False
  let ?frame = "[NANOKVM_PROTOCOL_VERSION, type] @ protocol_write_u16 len @
                  (case payload of None \<Rightarrow> [] | Some bs \<Rightarrow> take (unat len) bs)"
  from send False have "write_all answers ?frame = Some (ok, sent, rest)" and shut: "shut = (\<not> ok)"
    by (auto simp: protocol_send_def simp del: append_Cons)
  from write_all_prefix [OF this(1)] obtain tail where "?frame = sent @ tail" "ok \<longleftrightarrow> tail = []" by blast
  with False shut show ?thesis by (auto simp: Let_def)
qed

theorem protocol_send_whole_or_shutdown_witness:
  "protocol_send [Wrote 3, WriteErr EINTR, Wrote 1, WriteErr EIO] 5 (Some [30, 0, 1]) 3 =
     Some (False, [1, 5, 0, 3], True, []) \<and>
   (\<exists>tail. tail \<noteq> [] \<and> [1, 5, 0, 3, 30, 0, 1] = [1, 5, 0, 3 :: byte] @ tail)"
proof -
  have send: "protocol_send [Wrote 3, WriteErr EINTR, Wrote 1, WriteErr EIO] 5 (Some [30, 0, 1]) 3 =
     Some (False, [1, 5, 0, 3], True, [])"
    by (simp add: protocol_send_def protocol_consts protocol_write_u16_def)
  from protocol_send_whole_or_shutdown [OF this] send show ?thesis
    by (simp add: protocol_consts protocol_write_u16_def)
qed

text \<open>
  C8: the gateway's blocking reader returns exactly the next message of the stream and leaves the
  bytes behind it unread, whatever the chunks and however often the calls are interrupted.
\<close>

theorem protocol_receive_delivers:
  assumes "list_all steady_event evs" and "control_wf m" and "bytes_of evs = control_frame m @ rest"
  shows "\<exists>evs'. protocol_receive evs message = Some (True, delivered m message, evs') \<and> bytes_of evs' = rest"
proof -
  obtain t pl where m: "m = (t, pl)" by (cases m)
  define header where "header = [NANOKVM_PROTOCOL_VERSION, t] @ be16 (of_nat (length pl))"
  have fields: "header ! 0 = NANOKVM_PROTOCOL_VERSION" "header ! 1 = t"
      "protocol_read_u16 (drop 2 header) = of_nat (length pl)" "length header = 4"
    by (simp_all add: header_def be16_def)
  have "bytes_of evs = header @ (pl @ rest)" using assms(3) by (simp add: m control_frame_def header_def)
  from read_all_steady [OF assms(1) this fields(4)] obtain evs1 where
    hdr: "read_all evs 4 = Some (True, header, evs1)" "bytes_of evs1 = pl @ rest" "list_all steady_event evs1"
    by auto
  have small: "length pl \<le> NANOKVM_CONTROL_MAX_PAYLOAD" using assms(2) by (simp add: m control_wf_def)
  from read_all_steady [OF hdr(3,2) refl] obtain evs2 where
    body: "read_all evs1 (length pl) = Some (True, pl, evs2)" "bytes_of evs2 = rest" by blast
  have empty: "(of_nat (length pl) :: u16) = 0 \<longleftrightarrow> pl = []"
    using unat_of_nat_u16 [OF small] by (cases pl) auto
  show ?thesis
  proof (cases "pl = []")
    case True
    with hdr fields show ?thesis
      by (simp add: protocol_receive_def m delivered_def poke_def Let_def)
  next
    case False
    with hdr(1) body fields small unat_of_nat_u16 [OF small] empty show ?thesis
      by (simp add: protocol_receive_def m delivered_def Let_def)
  qed
qed

theorem protocol_receive_delivers_witness:
  "\<exists>evs'. protocol_receive [Data [1], Fail EINTR, Data [12, 0, 1, 7, 1, 11]] empty_message =
     Some (True, delivered (12, [7]) empty_message, evs') \<and> bytes_of evs' = [1, 11]"
  using protocol_receive_delivers [of "[Data [1], Fail EINTR, Data [12, 0, 1, 7, 1, 11]]" "(12, [7])" "[1, 11]"]
  by (simp add: control_wf_def control_frame_unfold protocol_consts)

end
