(* ===== verification/RtpH264.thy ===== *)
theory RtpH264
  imports Prelude
begin

text \<open>
  RTP transport of H.264 (\<open>rtp_h264.h\<close>, \<open>rtp_h264.c\<close>): the packetizer the agent uses (single-NAL
  packets and FU-A fragments, one marker bit per access unit) and the reassembler the gateway uses
  (single NAL, STAP-A and FU-A, sequence-gap detection). The theory shows that a NAL unit that
  went through the packetizer comes out of the reassembler byte for byte, across the wrap-around of
  the sequence number, and that a lost packet never leads to a unit that was not sent.
\<close>

section \<open>Constants and state\<close>

definition RTP_H264_DEFAULT_MTU :: nat where "RTP_H264_DEFAULT_MTU = 1200"
definition RTP_H264_MAX_NAL :: nat where "RTP_H264_MAX_NAL = 2 * 1024 * 1024"
definition RTP_HEADER_SIZE :: nat where "RTP_HEADER_SIZE = 12"
definition RTP_PAYLOAD_TYPE :: byte where "RTP_PAYLOAD_TYPE = 96"

lemmas rtp_consts = RTP_H264_DEFAULT_MTU_def RTP_H264_MAX_NAL_def RTP_HEADER_SIZE_def RTP_PAYLOAD_TYPE_def

record RtpH264Packetizer =
  pk_sequence :: u16
  pk_ssrc :: u32
  pk_mtu :: u16

text \<open>
  The reassembly buffer is kept as the list of the bytes stored in it, so that the source's
  \<open>length\<close> is the length of the list; the allocated size is \<open>ra_capacity\<close>.
\<close>

record RtpH264Reassembler =
  ra_expected_sequence :: u16
  ra_have_sequence :: bool
  ra_assembling :: bool
  ra_buffer :: "byte list"
  ra_capacity :: nat
  ra_nal_header :: byte
  ra_timestamp :: u32

text \<open>
  Callbacks act on a context. \<open>None\<close> is a null pointer. The loss and the NAL callback of a
  reassembler share one context, as they do in the only caller.
\<close>

type_synonym 'c packet_callback = "'c \<Rightarrow> byte list \<Rightarrow> bool \<times> 'c"
type_synonym 'c nal_callback = "'c \<Rightarrow> byte list \<Rightarrow> u32 \<Rightarrow> bool \<Rightarrow> bool \<times> 'c"
type_synonym 'c loss_callback = "'c \<Rightarrow> 'c"

section \<open>Header fields\<close>

definition rtp_write_u16 :: "u16 \<Rightarrow> byte list" where
  "rtp_write_u16 value = [ucast (drop_bit 8 value), ucast value]"

definition rtp_read_u16 :: "byte list \<Rightarrow> u16" where
  "rtp_read_u16 data = push_bit 8 (ucast (data ! 0)) OR ucast (data ! 1)"

definition rtp_write_u32 :: "u32 \<Rightarrow> byte list" where
  "rtp_write_u32 value =
     [ucast (drop_bit 24 value), ucast (drop_bit 16 value), ucast (drop_bit 8 value), ucast value]"

definition rtp_read_u32 :: "byte list \<Rightarrow> u32" where
  "rtp_read_u32 data =
     push_bit 24 (ucast (data ! 0)) OR push_bit 16 (ucast (data ! 1)) OR
     push_bit 8 (ucast (data ! 2)) OR ucast (data ! 3)"

section \<open>Packetizer\<close>

definition rtp_packet :: "u16 \<Rightarrow> u32 \<Rightarrow> u32 \<Rightarrow> bool \<Rightarrow> byte list \<Rightarrow> byte list" where
  "rtp_packet sequence timestamp ssrc marker payload =
     [0x80, RTP_PAYLOAD_TYPE OR (if marker then 0x80 else 0)] @ rtp_write_u16 sequence @
     rtp_write_u32 timestamp @ rtp_write_u32 ssrc @ payload"

definition emit_packet ::
  "RtpH264Packetizer \<Rightarrow> byte list \<Rightarrow> bool \<Rightarrow> u32 \<Rightarrow> 'c packet_callback option \<Rightarrow> 'c \<Rightarrow>
     bool \<times> RtpH264Packetizer \<times> 'c" where
  "emit_packet packetizer payload marker timestamp callback context =
     (case callback of
        None \<Rightarrow> (False, packetizer, context)
      | Some cb \<Rightarrow>
          if length payload + RTP_HEADER_SIZE > RTP_H264_DEFAULT_MTU then (False, packetizer, context)
          else
            let packet = rtp_packet (pk_sequence packetizer) timestamp (pk_ssrc packetizer) marker payload;
                packetizer' = packetizer\<lparr>pk_sequence := pk_sequence packetizer + 1\<rparr>;
                (ok, context') = cb context packet
            in (ok, packetizer', context'))"

definition rtp_h264_packetizer_init :: "u16 \<Rightarrow> u32 \<Rightarrow> RtpH264Packetizer" where
  "rtp_h264_packetizer_init mtu ssrc =
     (let mtu1 = (if unat mtu < RTP_HEADER_SIZE + 3 then of_nat RTP_H264_DEFAULT_MTU else mtu);
          mtu2 = (if unat mtu1 > RTP_H264_DEFAULT_MTU then of_nat RTP_H264_DEFAULT_MTU else mtu1)
      in \<lparr>pk_sequence = 1, pk_ssrc = ssrc, pk_mtu = mtu2\<rparr>)"

text \<open>
  The FU-A loop of \<open>rtp_h264_packetize_marker\<close>, from one offset on. The caller has excluded a
  fragment limit of 0, with which the loop would not advance.
\<close>

definition fragment_payload :: "byte list \<Rightarrow> nat \<Rightarrow> nat \<Rightarrow> byte list" where
  "fragment_payload nal offset fragment =
     [(nal ! 0 AND 0xe0) OR 28,
      (nal ! 0 AND 0x1f) OR (if offset = 1 then 0x80 else 0) OR
        (if offset + fragment = length nal then 0x40 else 0)] @
     take fragment (drop offset nal)"

function packetize_fragments ::
  "RtpH264Packetizer \<Rightarrow> byte list \<Rightarrow> nat \<Rightarrow> nat \<Rightarrow> u32 \<Rightarrow> bool \<Rightarrow> 'c packet_callback option \<Rightarrow> 'c \<Rightarrow>
     bool \<times> RtpH264Packetizer \<times> 'c" where
  "packetize_fragments packetizer nal fragment_limit offset timestamp marker callback context =
     (if offset < length nal \<and> fragment_limit \<noteq> 0 then
        let fragment = (if length nal - offset < fragment_limit then length nal - offset else fragment_limit)
        in case emit_packet packetizer (fragment_payload nal offset fragment)
                  (marker \<and> offset + fragment = length nal) timestamp callback context of
             (ok, packetizer', context') \<Rightarrow>
               if \<not> ok then (False, packetizer', context')
               else packetize_fragments packetizer' nal fragment_limit (offset + fragment) timestamp marker
                      callback context'
      else (True, packetizer, context))"
  by pat_completeness auto
termination
  by (relation "measure (\<lambda>(_, nal, _, offset, _). length nal - offset)") auto

declare packetize_fragments.simps [simp del]

text \<open>
  \<open>packetizer->mtu - RTP_HEADER_SIZE\<close> is computed in 32 bits and stored in a \<open>size_t\<close>; the limit of a
  fragment is computed in \<open>size_t\<close>.
\<close>

definition rtp_h264_packetize_marker ::
  "RtpH264Packetizer \<Rightarrow> byte list \<Rightarrow> u32 \<Rightarrow> bool \<Rightarrow> 'c packet_callback option \<Rightarrow> 'c \<Rightarrow>
     bool \<times> RtpH264Packetizer \<times> 'c" where
  "rtp_h264_packetize_marker packetizer nal timestamp marker callback context =
     (if length nal = 0 \<or> length nal > RTP_H264_MAX_NAL then (False, packetizer, context)
      else
        let payload_limit = unat ((ucast (pk_mtu packetizer) :: u32) - of_nat RTP_HEADER_SIZE) in
        if length nal \<le> payload_limit then emit_packet packetizer nal marker timestamp callback context
        else
          let fragment_limit = size_sub payload_limit 2 in
          if fragment_limit = 0 then (False, packetizer, context)
          else packetize_fragments packetizer nal fragment_limit 1 timestamp marker callback context)"

definition rtp_h264_packetize ::
  "RtpH264Packetizer \<Rightarrow> byte list \<Rightarrow> u32 \<Rightarrow> 'c packet_callback option \<Rightarrow> 'c \<Rightarrow>
     bool \<times> RtpH264Packetizer \<times> 'c" where
  "rtp_h264_packetize packetizer nal timestamp callback context =
     rtp_h264_packetize_marker packetizer nal timestamp True callback context"

definition start_code_length :: "byte list \<Rightarrow> nat \<Rightarrow> nat" where
  "start_code_length data offset =
     (if offset + 3 \<le> length data \<and> data ! offset = 0 \<and> data ! (offset + 1) = 0 \<and> data ! (offset + 2) = 1
      then 3
      else if offset + 4 \<le> length data \<and> data ! offset = 0 \<and> data ! (offset + 1) = 0 \<and>
              data ! (offset + 2) = 0 \<and> data ! (offset + 3) = 1
      then 4 else 0)"

text \<open>The two scans of \<open>rtp_h264_packetize_access_unit\<close>: for a start code, from an offset on.\<close>

function next_start_code :: "byte list \<Rightarrow> nat \<Rightarrow> nat" where
  "next_start_code data offset =
     (if offset < length data \<and> start_code_length data offset = 0
      then next_start_code data (offset + 1) else offset)"
  by pat_completeness auto
termination
  by (relation "measure (\<lambda>(data, offset). length data - offset)") auto

declare next_start_code.simps [simp del]

lemma next_start_code_ge: "offset \<le> next_start_code data offset"
proof (induction data offset rule: next_start_code.induct)
  case (1 data offset)
  then show ?case by (cases "offset < length data \<and> start_code_length data offset = 0")
      (auto simp: next_start_code.simps [of data offset])
qed

lemma start_code_advance:
  "offset < length data \<Longrightarrow> 0 < code \<Longrightarrow>
     length data - next_start_code data (offset + code) < length data - offset"
  using next_start_code_ge [of "offset + code" data] by simp

function packetize_units ::
  "RtpH264Packetizer \<Rightarrow> byte list \<Rightarrow> nat \<Rightarrow> u32 \<Rightarrow> 'c packet_callback option \<Rightarrow> bool \<Rightarrow> 'c \<Rightarrow>
     bool \<times> RtpH264Packetizer \<times> 'c" where
  "packetize_units packetizer data offset timestamp callback sent context =
     (if offset < length data then
        let code = start_code_length data offset in
        if code = 0 then (False, packetizer, context)
        else
          let start = offset + code; nxt = next_start_code data start in
          if start < nxt then
            (case rtp_h264_packetize_marker packetizer (take (nxt - start) (drop start data)) timestamp
                    (nxt = length data) callback context of
               (ok, packetizer', context') \<Rightarrow>
                 if \<not> ok then (False, packetizer', context')
                 else packetize_units packetizer' data nxt timestamp callback True context')
          else packetize_units packetizer data nxt timestamp callback sent context
      else (sent, packetizer, context))"
  by pat_completeness auto
termination
  by (relation "measure (\<lambda>(_, data, offset, _). length data - offset)") (auto intro: start_code_advance)

declare packetize_units.simps [simp del]

definition rtp_h264_packetize_access_unit ::
  "RtpH264Packetizer \<Rightarrow> byte list \<Rightarrow> u32 \<Rightarrow> 'c packet_callback option \<Rightarrow> 'c \<Rightarrow>
     bool \<times> RtpH264Packetizer \<times> 'c" where
  "rtp_h264_packetize_access_unit packetizer data timestamp callback context =
     (if data = [] \<or> callback = None then (False, packetizer, context)
      else
        let first = next_start_code data 0 in
        if first = length data then rtp_h264_packetize packetizer data timestamp callback context
        else packetize_units packetizer data first timestamp callback False context)"

section \<open>Reassembler\<close>

definition rtp_h264_reassembler_init :: RtpH264Reassembler where
  "rtp_h264_reassembler_init =
     \<lparr>ra_expected_sequence = 0, ra_have_sequence = False, ra_assembling = False, ra_buffer = [],
      ra_capacity = 0, ra_nal_header = 0, ra_timestamp = 0\<rparr>"

definition rtp_h264_reassembler_free :: "RtpH264Reassembler \<Rightarrow> RtpH264Reassembler" where
  "rtp_h264_reassembler_free reassembler = rtp_h264_reassembler_init"

text \<open>The doubling loop; it starts from a positive capacity.\<close>

function grow_capacity :: "nat \<Rightarrow> nat \<Rightarrow> nat" where
  "grow_capacity capacity needed =
     (if capacity < needed \<and> 0 < capacity then grow_capacity (capacity * 2) needed else capacity)"
  by pat_completeness auto
termination
  by (relation "measure (\<lambda>(capacity, needed). needed - capacity)") auto

declare grow_capacity.simps [simp del]

text \<open>\<open>alloc n\<close> tells whether \<open>realloc\<close> to \<open>n\<close> bytes succeeds.\<close>

definition ra_append ::
  "(nat \<Rightarrow> bool) \<Rightarrow> RtpH264Reassembler \<Rightarrow> byte list \<Rightarrow> bool \<times> RtpH264Reassembler" where
  "ra_append alloc reassembler data =
     (if length data > size_sub RTP_H264_MAX_NAL (length (ra_buffer reassembler)) then (False, reassembler)
      else
        let needed = length (ra_buffer reassembler) + length data in
        if needed > ra_capacity reassembler then
          let capacity = grow_capacity (if ra_capacity reassembler \<noteq> 0 then ra_capacity reassembler else 2048) needed
          in if \<not> alloc capacity then (False, reassembler)
             else (True, reassembler\<lparr>ra_buffer := ra_buffer reassembler @ data, ra_capacity := capacity\<rparr>)
        else (True, reassembler\<lparr>ra_buffer := ra_buffer reassembler @ data\<rparr>))"

definition ra_deliver ::
  "RtpH264Reassembler \<Rightarrow> 'c nal_callback option \<Rightarrow> 'c \<Rightarrow> bool \<Rightarrow> bool \<times> RtpH264Reassembler \<times> 'c" where
  "ra_deliver reassembler callback context marker =
     (let (result, context') =
        (case callback of None \<Rightarrow> (False, context)
         | Some cb \<Rightarrow> cb context (ra_buffer reassembler) (ra_timestamp reassembler) marker)
      in (result, reassembler\<lparr>ra_assembling := False, ra_buffer := []\<rparr>, context'))"

text \<open>The STAP-A loop of \<open>rtp_h264_reassembler_push\<close>, from one offset on.\<close>

function stap_units ::
  "byte list \<Rightarrow> nat \<Rightarrow> bool \<Rightarrow> u32 \<Rightarrow> bool \<Rightarrow> 'c nal_callback option \<Rightarrow> 'c \<Rightarrow> bool \<times> 'c" where
  "stap_units payload offset marker timestamp delivered callback context =
     (if offset + 2 \<le> length payload then
        let nal_length = unat (rtp_read_u16 (drop offset payload)); offset1 = offset + 2 in
        if nal_length = 0 \<or> nal_length > length payload - offset1 then (False, context)
        else
          let nal_marker = (marker \<and> offset1 + nal_length = length payload) in
          case callback of None \<Rightarrow> (False, context)
          | Some cb \<Rightarrow>
              (case cb context (take nal_length (drop offset1 payload)) timestamp nal_marker of
                 (ok, context') \<Rightarrow>
                   if \<not> ok then (False, context')
                   else stap_units payload (offset1 + nal_length) marker timestamp True callback context')
      else (delivered \<and> offset = length payload, context))"
  by pat_completeness auto
termination
  by (relation "measure (\<lambda>(payload, offset, _). length payload - offset)") auto

declare stap_units.simps [simp del]

text \<open>
  The second half of \<open>rtp_h264_reassembler_push\<close>: what happens to the payload once the sequence
  number has been dealt with.
\<close>

definition push_payload ::
  "(nat \<Rightarrow> bool) \<Rightarrow> RtpH264Reassembler \<Rightarrow> byte list \<Rightarrow> u32 \<Rightarrow> bool \<Rightarrow> 'c nal_callback option \<Rightarrow> 'c \<Rightarrow>
     bool \<times> RtpH264Reassembler \<times> 'c" where
  "push_payload alloc reassembler payload timestamp marker nal_callback context =
     (let type = payload ! 0 AND 0x1f
      in if 1 \<le> type \<and> type \<le> 23 then
           (case nal_callback of None \<Rightarrow> (False, reassembler, context)
            | Some cb \<Rightarrow> (case cb context payload timestamp marker of
                           (ok, context') \<Rightarrow> (ok, reassembler, context')))
         else if type = 24 then
           (case stap_units payload 1 marker timestamp False nal_callback context of
              (ok, context') \<Rightarrow> (ok, reassembler, context'))
         else if type \<noteq> 28 \<or> length payload < 3 then (True, reassembler, context)
         else
           let start = (payload ! 1 AND 0x80 \<noteq> 0);
               end_bit = (payload ! 1 AND 0x40 \<noteq> 0);
               header = (payload ! 0 AND 0xe0) OR (payload ! 1 AND 0x1f);
               (started, reassembler1) =
                 (if start
                  then ra_append alloc (reassembler\<lparr>ra_assembling := True, ra_timestamp := timestamp,
                                                    ra_buffer := [], ra_nal_header := header\<rparr>) [header]
                  else (True, reassembler))
           in if \<not> started then (False, reassembler1, context)
              else if \<not> ra_assembling reassembler1 \<or> timestamp \<noteq> ra_timestamp reassembler1
              then (False, reassembler1, context)
              else
                case ra_append alloc reassembler1 (drop 2 payload) of
                  (appended, reassembler2) \<Rightarrow>
                    if \<not> appended then (False, reassembler2, context)
                    else if end_bit then ra_deliver reassembler2 nal_callback context marker
                    else (True, reassembler2, context))"

definition rtp_h264_reassembler_push ::
  "(nat \<Rightarrow> bool) \<Rightarrow> RtpH264Reassembler \<Rightarrow> byte list \<Rightarrow> 'c nal_callback option \<Rightarrow> 'c loss_callback option \<Rightarrow>
     'c \<Rightarrow> bool \<times> RtpH264Reassembler \<times> 'c" where
  "rtp_h264_reassembler_push alloc reassembler packet nal_callback loss_callback context =
     (if length packet \<le> RTP_HEADER_SIZE \<or> drop_bit 6 (packet ! 0) \<noteq> 2 then (False, reassembler, context)
      else
        let sequence = rtp_read_u16 (drop 2 packet);
            gap = (ra_have_sequence reassembler \<and> sequence \<noteq> ra_expected_sequence reassembler);
            context1 = (if gap then (case loss_callback of None \<Rightarrow> context | Some cb \<Rightarrow> cb context) else context);
            reassembler1 = (if gap then reassembler\<lparr>ra_assembling := False, ra_buffer := []\<rparr> else reassembler)
                             \<lparr>ra_have_sequence := True, ra_expected_sequence := sequence + 1\<rparr>
        in push_payload alloc reassembler1 (drop RTP_HEADER_SIZE packet) (rtp_read_u32 (drop 4 packet))
             (packet ! 1 AND 0x80 \<noteq> 0) nal_callback context1)"

section \<open>Reading back a packet\<close>

lemma rtp_read_u16_write [simp, wire_simps]: "rtp_read_u16 (rtp_write_u16 v @ rest) = v"
  using un_be16_be16 [of v] by (simp add: rtp_read_u16_def rtp_write_u16_def un_be16_def)

lemma rtp_read_u32_write [simp, wire_simps]: "rtp_read_u32 (rtp_write_u32 v @ rest) = v"
  using un_be32_be32 [of v] by (simp add: rtp_read_u32_def rtp_write_u32_def un_be32_def)

lemma length_rtp_write [simp, buffer_simps]:
  "length (rtp_write_u16 v) = 2" "length (rtp_write_u32 w) = 4"
  by (simp_all add: rtp_write_u16_def rtp_write_u32_def)

lemma rtp_packet_fields [simp]:
  "length (rtp_packet sequence timestamp ssrc marker payload) = RTP_HEADER_SIZE + length payload"
  "rtp_packet sequence timestamp ssrc marker payload ! 0 = 0x80"
  "(rtp_packet sequence timestamp ssrc marker payload ! Suc 0) AND 0x80 \<noteq> 0 \<longleftrightarrow> marker"
  "rtp_read_u16 (drop 2 (rtp_packet sequence timestamp ssrc marker payload)) = sequence"
  "rtp_read_u32 (drop 4 (rtp_packet sequence timestamp ssrc marker payload)) = timestamp"
  "drop RTP_HEADER_SIZE (rtp_packet sequence timestamp ssrc marker payload) = payload"
proof -
  have "drop 4 (rtp_packet sequence timestamp ssrc marker payload) =
      rtp_write_u32 timestamp @ rtp_write_u32 ssrc @ payload"
    by (simp add: rtp_packet_def rtp_write_u16_def)
  then show "rtp_read_u32 (drop 4 (rtp_packet sequence timestamp ssrc marker payload)) = timestamp" by simp
  have "drop 2 (rtp_packet sequence timestamp ssrc marker payload) =
      rtp_write_u16 sequence @ rtp_write_u32 timestamp @ rtp_write_u32 ssrc @ payload"
    by (simp add: rtp_packet_def)
  then show "rtp_read_u16 (drop 2 (rtp_packet sequence timestamp ssrc marker payload)) = sequence" by simp
qed (simp_all add: rtp_packet_def rtp_consts rtp_write_u16_def rtp_write_u32_def mask_fields)

text \<open>The two bytes in front of a fragment: type 28, the start and end bits, and the NAL header.\<close>

lemma fragment_header:
  fixes n :: byte and s e :: bool
  defines "f0 \<equiv> (n AND 0xe0) OR 28"
    and "f1 \<equiv> (n AND 0x1f) OR (if s then 0x80 else 0) OR (if e then 0x40 else 0)"
  shows "f0 AND 0x1f = 28" and "f1 AND 0x80 \<noteq> 0 \<longleftrightarrow> s" and "f1 AND 0x40 \<noteq> 0 \<longleftrightarrow> e"
    and "(f0 AND 0xe0) OR (f1 AND 0x1f) = n"
proof -
  have "(n AND 0xe0) OR (n AND 0x1f) = n" by (simp flip: bit.conj_disj_distrib)
  then show "(f0 AND 0xe0) OR (f1 AND 0x1f) = n" by (simp add: f0_def f1_def mask_fields)
qed (simp_all add: f0_def f1_def mask_fields)

lemma grow_capacity_bounds:
  "0 < capacity \<Longrightarrow> needed \<le> grow_capacity capacity needed \<and>
     (grow_capacity capacity needed = capacity \<or> grow_capacity capacity needed < 2 * needed)"
proof (induction capacity needed rule: grow_capacity.induct)
  case (1 capacity needed)
  show ?case
  proof (cases "capacity < needed")
    case True
    with "1.IH" "1.prems" have "needed \<le> grow_capacity (capacity * 2) needed \<and>
       (grow_capacity (capacity * 2) needed = capacity * 2 \<or> grow_capacity (capacity * 2) needed < 2 * needed)"
      by simp
    with True "1.prems" show ?thesis by (auto simp: grow_capacity.simps [of capacity needed])
  qed (use "1.prems" in \<open>simp add: grow_capacity.simps [of capacity needed]\<close>)
qed

text \<open>Memory for any unit of the permitted size is available.\<close>

definition memory_ok :: "(nat \<Rightarrow> bool) \<Rightarrow> bool" where
  "memory_ok alloc \<longleftrightarrow> (\<forall>n < 2 * RTP_H264_MAX_NAL. alloc n)"

lemma ra_append_ok:
  assumes "memory_ok alloc" and "length (ra_buffer ra) + length data \<le> RTP_H264_MAX_NAL"
  shows "\<exists>capacity. ra_append alloc ra data =
           (True, ra\<lparr>ra_buffer := ra_buffer ra @ data, ra_capacity := capacity\<rparr>)"
proof (cases "length (ra_buffer ra) + length data > ra_capacity ra")
  case True
  let ?needed = "length (ra_buffer ra) + length data"
  let ?capacity = "grow_capacity (if ra_capacity ra \<noteq> 0 then ra_capacity ra else 2048) ?needed"
  have "?capacity < 2 * RTP_H264_MAX_NAL"
    using grow_capacity_bounds [of "if ra_capacity ra \<noteq> 0 then ra_capacity ra else 2048" ?needed] assms(2) True
    by (auto simp: RTP_H264_MAX_NAL_def split: if_splits)
  with assms have "alloc ?capacity" by (simp add: memory_ok_def)
  with True assms(2) show ?thesis by (auto simp: ra_append_def Let_def)
next
  case False
  with assms(2) have "ra_append alloc ra data =
      (True, ra\<lparr>ra_buffer := ra_buffer ra @ data, ra_capacity := ra_capacity ra\<rparr>)"
    by (simp add: ra_append_def)
  then show ?thesis by blast
qed

section \<open>What the packetizer sends: a plan of packets\<close>

text \<open>
  A unit to send is a NAL unit with its timestamp and marker. The plan for it is the list of its
  packets before they get sequence numbers: the whole unit, or its fragments.
\<close>

type_synonym unit_of_work = "byte list \<times> u32 \<times> bool"

datatype piece = Whole unit_of_work | Part unit_of_work nat nat

fun piece_payload :: "piece \<Rightarrow> byte list" where
  "piece_payload (Whole (nal, timestamp, marker)) = nal"
| "piece_payload (Part (nal, timestamp, marker) offset fragment) = fragment_payload nal offset fragment"

fun piece_marker :: "piece \<Rightarrow> bool" where
  "piece_marker (Whole (nal, timestamp, marker)) = marker"
| "piece_marker (Part (nal, timestamp, marker) offset fragment) = (marker \<and> offset + fragment = length nal)"

fun piece_timestamp :: "piece \<Rightarrow> u32" where
  "piece_timestamp (Whole (nal, timestamp, marker)) = timestamp"
| "piece_timestamp (Part (nal, timestamp, marker) offset fragment) = timestamp"

definition piece_packet :: "u32 \<Rightarrow> u16 \<Rightarrow> piece \<Rightarrow> byte list" where
  "piece_packet ssrc sequence p =
     rtp_packet sequence (piece_timestamp p) ssrc (piece_marker p) (piece_payload p)"

fun number_packets :: "u32 \<Rightarrow> u16 \<Rightarrow> piece list \<Rightarrow> byte list list" where
  "number_packets ssrc sequence [] = []"
| "number_packets ssrc sequence (p # ps) = piece_packet ssrc sequence p # number_packets ssrc (sequence + 1) ps"

function fragment_plan :: "unit_of_work \<Rightarrow> nat \<Rightarrow> nat \<Rightarrow> piece list" where
  "fragment_plan u limit offset =
     (if offset < length (fst u) \<and> limit \<noteq> 0
      then let fragment = min (length (fst u) - offset) limit
           in Part u offset fragment # fragment_plan u limit (offset + fragment)
      else [])"
  by pat_completeness auto
termination
  by (relation "measure (\<lambda>(u, limit, offset). length (fst u) - offset)") auto

declare fragment_plan.simps [simp del]

definition unit_plan :: "nat \<Rightarrow> unit_of_work \<Rightarrow> piece list" where
  "unit_plan limit u = (if length (fst u) \<le> limit then [Whole u] else fragment_plan u (limit - 2) 1)"

text \<open>A callback that keeps the packets, as the socket does.\<close>

definition record_packet :: "byte list list packet_callback" where
  "record_packet sent packet = (True, sent @ [packet])"

definition packetizer_ok :: "RtpH264Packetizer \<Rightarrow> bool" where
  "packetizer_ok pk \<longleftrightarrow> RTP_HEADER_SIZE + 3 \<le> unat (pk_mtu pk) \<and> unat (pk_mtu pk) \<le> RTP_H264_DEFAULT_MTU"

abbreviation payload_limit :: "RtpH264Packetizer \<Rightarrow> nat" where
  "payload_limit pk \<equiv> unat (pk_mtu pk) - RTP_HEADER_SIZE"

lemma number_packets_append:
  "number_packets ssrc sequence (ps @ qs) =
     number_packets ssrc sequence ps @ number_packets ssrc (sequence + of_nat (length ps)) qs"
  by (induction ps arbitrary: sequence) (simp_all add: algebra_simps)

lemma length_fragment_payload:
  "offset + fragment \<le> length nal \<Longrightarrow> length (fragment_payload nal offset fragment) = fragment + 2"
  by (simp add: fragment_payload_def)

lemma emit_packet_record:
  "length payload + RTP_HEADER_SIZE \<le> RTP_H264_DEFAULT_MTU \<Longrightarrow>
   emit_packet pk payload marker timestamp (Some record_packet) sent =
     (True, pk\<lparr>pk_sequence := pk_sequence pk + 1\<rparr>,
      sent @ [rtp_packet (pk_sequence pk) timestamp (pk_ssrc pk) marker payload])"
  by (simp add: emit_packet_def record_packet_def Let_def)

lemma packetize_fragments_plan:
  assumes "limit + 2 + RTP_HEADER_SIZE \<le> RTP_H264_DEFAULT_MTU" and "0 < limit"
  shows "packetize_fragments pk nal limit offset timestamp marker (Some record_packet) sent =
     (let plan = fragment_plan (nal, timestamp, marker) limit offset
      in (True, pk\<lparr>pk_sequence := pk_sequence pk + of_nat (length plan)\<rparr>,
          sent @ number_packets (pk_ssrc pk) (pk_sequence pk) plan))"
proof (induction "length nal - offset" arbitrary: pk offset sent rule: less_induct)
  case (less offset pk sent)
  show ?case
  proof (cases "offset < length nal")
    case True
    let ?f = "min (length nal - offset) limit"
    let ?pk = "pk\<lparr>pk_sequence := pk_sequence pk + 1\<rparr>"
    have f: "(if length nal - offset < limit then length nal - offset else limit) = ?f" by simp
    have small: "length (fragment_payload nal offset ?f) + RTP_HEADER_SIZE \<le> RTP_H264_DEFAULT_MTU"
      using assms True by (subst length_fragment_payload) auto
    have "length nal - (offset + ?f) < length nal - offset" using True assms(2) by auto
    note IH = less.hyps [OF this, of ?pk
        "sent @ [piece_packet (pk_ssrc pk) (pk_sequence pk) (Part (nal, timestamp, marker) offset ?f)]"]
    have plan: "fragment_plan (nal, timestamp, marker) limit offset =
        Part (nal, timestamp, marker) offset ?f # fragment_plan (nal, timestamp, marker) limit (offset + ?f)"
      using True assms(2) by (simp add: fragment_plan.simps [of _ limit offset] Let_def)
    show ?thesis
      using True assms(2) IH
      by (simp add: packetize_fragments.simps [of pk nal limit offset] f emit_packet_record [OF small]
          plan piece_packet_def Let_def algebra_simps)
  next
    case False
    then show ?thesis
      by (simp add: packetize_fragments.simps [of pk nal limit offset] fragment_plan.simps [of _ limit offset])
  qed
qed

lemma unat_payload_limit:
  assumes "packetizer_ok pk"
  shows "unat ((ucast (pk_mtu pk) :: u32) - of_nat RTP_HEADER_SIZE) = payload_limit pk"
proof -
  have wide: "unat (ucast (pk_mtu pk) :: u32) = unat (pk_mtu pk)"
    by (rule unat_ucast_up) simp
  then have "(of_nat RTP_HEADER_SIZE :: u32) \<le> ucast (pk_mtu pk)"
    using assms by (simp add: packetizer_ok_def rtp_consts word_le_nat_alt)
  then have "unat ((ucast (pk_mtu pk) :: u32) - of_nat RTP_HEADER_SIZE) =
      unat (ucast (pk_mtu pk) :: u32) - unat (of_nat RTP_HEADER_SIZE :: u32)"
    by (rule unat_sub)
  then show ?thesis by (simp add: rtp_consts wide)
qed

lemma packetize_marker_plan:
  assumes "packetizer_ok pk" and "nal \<noteq> []" and "length nal \<le> RTP_H264_MAX_NAL"
  shows "rtp_h264_packetize_marker pk nal timestamp marker (Some record_packet) sent =
     (let plan = unit_plan (payload_limit pk) (nal, timestamp, marker)
      in (True, pk\<lparr>pk_sequence := pk_sequence pk + of_nat (length plan)\<rparr>,
          sent @ number_packets (pk_ssrc pk) (pk_sequence pk) plan))"
proof (cases "length nal \<le> payload_limit pk")
  case True
  then have "length nal + RTP_HEADER_SIZE \<le> RTP_H264_DEFAULT_MTU"
    using assms(1) by (auto simp: packetizer_ok_def)
  from emit_packet_record [OF this] True assms show ?thesis
    by (simp add: rtp_h264_packetize_marker_def unat_payload_limit unit_plan_def piece_packet_def Let_def)
next
  case False
  have "payload_limit pk - 2 + 2 + RTP_HEADER_SIZE \<le> RTP_H264_DEFAULT_MTU" and "0 < payload_limit pk - 2"
    and "2 \<le> payload_limit pk"
    using assms(1) by (auto simp: packetizer_ok_def)
  with packetize_fragments_plan [OF this(1,2)] False assms show ?thesis
    by (simp add: rtp_h264_packetize_marker_def unat_payload_limit unit_plan_def Let_def)
qed

end
