(* ===== verification/RtpTransfer.thy ===== *)
theory RtpTransfer
  imports RtpH264 "HOL-Library.Sublist"
begin

text \<open>
  The RTP path from the packetizer to the reassembler over a network that may lose packets. The
  reassembler is shown to call its callbacks exactly as a simple description of the link says: a
  unit is delivered if and only if all its packets arrived, and a gap is reported before anything
  that comes after it. No premise restricts the callbacks, so the result applies to the client's.
\<close>

section \<open>Events of the reassembler\<close>

datatype rx_event = Lost | Unit unit_of_work

fun replay_event :: "'c nal_callback \<Rightarrow> 'c loss_callback \<Rightarrow> rx_event \<Rightarrow> 'c \<Rightarrow> 'c" where
  "replay_event cb loss Lost c = loss c"
| "replay_event cb loss (Unit (nal, timestamp, marker)) c = snd (cb c nal timestamp marker)"

definition replay :: "'c nal_callback \<Rightarrow> 'c loss_callback \<Rightarrow> rx_event list \<Rightarrow> 'c \<Rightarrow> 'c" where
  "replay cb loss evs = fold (replay_event cb loss) evs"

text \<open>What the NAL callback answers to a unit.\<close>

definition verdict :: "'c nal_callback \<Rightarrow> unit_of_work \<Rightarrow> 'c \<Rightarrow> bool" where
  "verdict cb u c = fst (cb c (fst u) (fst (snd u)) (snd (snd u)))"

lemma replay_simps [simp]:
  "replay cb loss [] c = c"
  "replay cb loss (e # es) c = replay cb loss es (replay_event cb loss e c)"
  "replay cb loss (es @ fs) c = replay cb loss fs (replay cb loss es c)"
  by (simp_all add: replay_def)

fun push_all ::
  "(nat \<Rightarrow> bool) \<Rightarrow> 'c nal_callback \<Rightarrow> 'c loss_callback \<Rightarrow> RtpH264Reassembler \<times> 'c \<Rightarrow> byte list list \<Rightarrow>
     RtpH264Reassembler \<times> 'c" where
  "push_all alloc cb loss s [] = s"
| "push_all alloc cb loss s (p # ps) =
     push_all alloc cb loss (snd (rtp_h264_reassembler_push alloc (fst s) p (Some cb) (Some loss) (snd s))) ps"

lemma push_all_append [simp]:
  "push_all alloc cb loss s (ps @ qs) = push_all alloc cb loss (push_all alloc cb loss s ps) qs"
  by (induction ps arbitrary: s) auto

section \<open>The link\<close>

text \<open>
  The state of the link: whether the receiver has seen a packet, and how many packets were lost
  since the last one it saw. A packet either arrives or does not.
\<close>

type_synonym link = "bool \<times> nat"

definition link_step :: "link \<Rightarrow> bool \<Rightarrow> link" where
  "link_step l arrives = (if arrives then (True, 0) else (fst l, snd l + 1))"

definition link_gap :: "link \<Rightarrow> bool \<Rightarrow> rx_event list" where
  "link_gap l arrives = (if arrives \<and> fst l \<and> snd l \<noteq> 0 then [Lost] else [])"

fun link_gaps :: "link \<Rightarrow> bool list \<Rightarrow> rx_event list" where
  "link_gaps l [] = []"
| "link_gaps l (b # bs) = link_gap l b @ link_gaps (link_step l b) bs"

text \<open>Sequence numbers have 16 bits: a run of 65536 losses is not a gap to the receiver.\<close>

fun link_ok :: "link \<Rightarrow> bool list \<Rightarrow> bool" where
  "link_ok l [] \<longleftrightarrow> snd l < 65536"
| "link_ok l (b # bs) \<longleftrightarrow> snd l < 65536 \<and> link_ok (link_step l b) bs"

fun arriving :: "'p list \<Rightarrow> bool list \<Rightarrow> 'p list" where
  "arriving (p # ps) (b # bs) = (if b then [p] else []) @ arriving ps bs"
| "arriving _ _ = []"

lemma arriving_append:
  "length ps = length bs \<Longrightarrow> arriving (ps @ qs) (bs @ cs) = arriving ps bs @ arriving qs cs"
  by (induction ps bs rule: list_induct2) auto

lemma link_gaps_append: "link_gaps l (bs @ cs) = link_gaps l bs @ link_gaps (fold (\<lambda>b l. link_step l b) bs l) cs"
  by (induction bs arbitrary: l) auto

lemma link_ok_append:
  "link_ok l (bs @ cs) \<longleftrightarrow> link_ok l bs \<and> link_ok (fold (\<lambda>b l. link_step l b) bs l) cs"
  by (induction bs arbitrary: l) (auto elim: link_ok.elims)

lemma link_ok_bound: "link_ok l bs \<Longrightarrow> snd l < 65536"
  by (cases bs) auto

text \<open>What the receiver is told about a list of units with the fate of the packets of each.\<close>

fun link_events :: "link \<Rightarrow> (unit_of_work \<times> bool list) list \<Rightarrow> rx_event list" where
  "link_events l [] = []"
| "link_events l ((u, bs) # us) =
     link_gaps l bs @ (if list_all (\<lambda>b. b) bs then [Unit u] else []) @
     link_events (fold (\<lambda>b l. link_step l b) bs l) us"

section \<open>One packet\<close>

definition unit_ok :: "unit_of_work \<Rightarrow> bool" where
  "unit_ok u \<longleftrightarrow> fst u \<noteq> [] \<and> length (fst u) \<le> RTP_H264_MAX_NAL \<and>
     1 \<le> (fst u ! 0) AND 0x1f \<and> (fst u ! 0) AND 0x1f \<le> 23"

text \<open>The receiver agrees with the link on the sequence number of the next packet sent.\<close>

definition tracks :: "link \<Rightarrow> u16 \<Rightarrow> RtpH264Reassembler \<Rightarrow> bool" where
  "tracks l sequence ra \<longleftrightarrow> (ra_have_sequence ra \<longleftrightarrow> fst l) \<and> snd l < 65536 \<and>
     (fst l \<longrightarrow> ra_expected_sequence ra + of_nat (snd l) = sequence) \<and> (\<not> fst l \<longrightarrow> \<not> ra_assembling ra)"

definition idle :: "link \<Rightarrow> RtpH264Reassembler \<Rightarrow> bool" where
  "idle l ra \<longleftrightarrow> \<not> ra_assembling ra \<or> snd l \<noteq> 0"

text \<open>Between two fragments of \<open>u\<close>; \<open>complete\<close> says that all fragments before \<open>offset\<close> arrived.\<close>

definition within :: "unit_of_work \<Rightarrow> nat \<Rightarrow> bool \<Rightarrow> link \<Rightarrow> RtpH264Reassembler \<Rightarrow> bool" where
  "within u offset complete l ra \<longleftrightarrow>
     (if complete
      then fst l \<and> snd l = 0 \<and> ra_assembling ra \<and> ra_buffer ra = take offset (fst u) \<and> ra_timestamp ra = fst (snd u)
      else idle l ra)"

text \<open>The reassembler after the sequence number of an arriving packet was dealt with.\<close>

definition after_sequence :: "link \<Rightarrow> u16 \<Rightarrow> RtpH264Reassembler \<Rightarrow> RtpH264Reassembler" where
  "after_sequence l sequence ra =
     (if fst l \<and> snd l \<noteq> 0 then ra\<lparr>ra_assembling := False, ra_buffer := []\<rparr> else ra)
       \<lparr>ra_have_sequence := True, ra_expected_sequence := sequence + 1\<rparr>"

lemma after_sequence_fields [simp]:
  "ra_have_sequence (after_sequence l sequence ra)"
  "ra_expected_sequence (after_sequence l sequence ra) = sequence + 1"
  by (simp_all add: after_sequence_def)

lemma word_add_nonzero:
  "0 < n \<Longrightarrow> n < 65536 \<Longrightarrow> (w :: u16) \<noteq> w + of_nat n"
  by (simp add: word_of_nat_eq_0_iff unsigned_of_nat nat_dvd_not_less flip: word_unat_eq_iff)

lemma push_piece:
  assumes "tracks l sequence ra" and "piece_payload p \<noteq> []"
  shows "rtp_h264_reassembler_push alloc ra (piece_packet ssrc sequence p) (Some cb) (Some loss) c =
     push_payload alloc (after_sequence l sequence ra) (piece_payload p) (piece_timestamp p) (piece_marker p)
       (Some cb) (replay cb loss (link_gap l True) c)"
proof -
  have gap: "(ra_have_sequence ra \<and> sequence \<noteq> ra_expected_sequence ra) = (fst l \<and> snd l \<noteq> 0)"
    using assms(1) word_add_nonzero [of "snd l" "ra_expected_sequence ra"]
    by (cases "snd l = 0") (auto simp: tracks_def)
  show ?thesis
    using assms(2)
    by (auto simp: rtp_h264_reassembler_push_def piece_packet_def Let_def gap after_sequence_def link_gap_def
        drop_bit_eq_div)
qed

text \<open>The cases of an arriving packet: a whole unit, and a fragment.\<close>

lemma push_whole:
  assumes "unit_ok u" and "tracks l sequence ra" and "idle l ra"
  shows "\<exists>ra'. rtp_h264_reassembler_push alloc ra (piece_packet ssrc sequence (Whole u)) (Some cb) (Some loss) c
             = (verdict cb u (replay cb loss (link_gap l True) c), ra', replay cb loss (link_gap l True @ [Unit u]) c) \<and>
           tracks (True, 0) (sequence + 1) ra' \<and> idle (True, 0) ra'"
proof (cases u)
  case (fields nal timestamp marker)
  have "\<not> ra_assembling (after_sequence l sequence ra)"
    using assms(2,3) by (auto simp: after_sequence_def tracks_def idle_def)
  moreover have "tracks (True, 0) (sequence + 1) (after_sequence l sequence ra)"
    by (simp add: tracks_def after_sequence_def)
  ultimately show ?thesis
    using assms(1) fields
    by (subst push_piece [OF assms(2)])
      (auto simp: unit_ok_def push_payload_def idle_def verdict_def split: prod.splits)
qed

definition fragment_ok :: "unit_of_work \<Rightarrow> nat \<Rightarrow> nat \<Rightarrow> bool" where
  "fragment_ok u offset fragment \<longleftrightarrow> 0 < offset \<and> 0 < fragment \<and> offset + fragment \<le> length (fst u)"

lemma push_payload_fragment:
  assumes "0 < offset" and "0 < fragment" and "offset + fragment \<le> length nal"
  shows "push_payload alloc ra (fragment_payload nal offset fragment) timestamp marker (Some cb) c =
     (case (if offset = 1
            then ra_append alloc (ra\<lparr>ra_assembling := True, ra_timestamp := timestamp, ra_buffer := [],
                                     ra_nal_header := nal ! 0\<rparr>) [nal ! 0]
            else (True, ra)) of
        (started, ra1) \<Rightarrow>
          if \<not> started \<or> \<not> ra_assembling ra1 \<or> timestamp \<noteq> ra_timestamp ra1 then (False, ra1, c)
          else case ra_append alloc ra1 (take fragment (drop offset nal)) of
            (appended, ra2) \<Rightarrow>
              if \<not> appended then (False, ra2, c)
              else if offset + fragment = length nal then ra_deliver ra2 (Some cb) c marker
              else (True, ra2, c))"
proof -
  let ?n = "nal ! 0"
  let ?p = "fragment_payload nal offset fragment"
  have p: "?p ! 0 = (?n AND 0xe0) OR 28"
    "?p ! 1 = (?n AND 0x1f) OR (if offset = 1 then 0x80 else 0) OR (if offset + fragment = length nal then 0x40 else 0)"
    "drop 2 ?p = take fragment (drop offset nal)"
    by (simp_all add: fragment_payload_def)
  have len: "length ?p = fragment + 2" using assms by (simp add: length_fragment_payload)
  have t: "?p ! 0 AND 0x1f = 28" unfolding p by (rule fragment_header)
  have s: "(?p ! 1 AND 0x80 \<noteq> 0) = (offset = 1)" unfolding p by (rule fragment_header)
  have e: "(?p ! 1 AND 0x40 \<noteq> 0) = (offset + fragment = length nal)" unfolding p by (rule fragment_header)
  have n: "(?p ! 0 AND 0xe0) OR (?p ! 1 AND 0x1f) = ?n" unfolding p by (rule fragment_header)
  have "3 \<le> length ?p" using len assms(2) by simp
  then show ?thesis
    unfolding push_payload_def Let_def t s e n p(3)
    by (cases "offset = 1") (simp_all add: split_def)
qed

lemma take_extend: "take n xs @ take m (drop n xs) = take (n + m) xs"
  by (simp add: take_add)

lemma fragment_appended:
  assumes "memory_ok alloc" and "length nal \<le> RTP_H264_MAX_NAL" and "offset + fragment \<le> length nal"
    and "ra_buffer ra = take offset nal"
  shows "\<exists>capacity. ra_append alloc ra (take fragment (drop offset nal)) =
     (True, ra\<lparr>ra_buffer := take (offset + fragment) nal, ra_capacity := capacity\<rparr>)"
  using ra_append_ok [OF assms(1), of ra "take fragment (drop offset nal)"] assms(2-4)
  by (simp add: take_extend)

lemma push_first:
  assumes mem: "memory_ok alloc" and unit: "unit_ok u" and tr: "tracks l sequence ra"
    and fr: "fragment_ok u 1 fragment" and more: "1 + fragment < length (fst u)"
  shows "\<exists>ra'. snd (rtp_h264_reassembler_push alloc ra (piece_packet ssrc sequence (Part u 1 fragment)) (Some cb) (Some loss) c)
             = (ra', replay cb loss (link_gap l True) c) \<and>
           tracks (True, 0) (sequence + 1) ra' \<and> within u (1 + fragment) True (True, 0) ra'"
proof (cases u)
  case (fields nal timestamp marker)
  let ?ra = "(after_sequence l sequence ra)\<lparr>ra_assembling := True, ra_timestamp := timestamp, ra_buffer := [],
               ra_nal_header := nal ! 0\<rparr>"
  from ra_append_ok [OF mem, of ?ra "[nal ! 0]"] obtain cap where
    one: "ra_append alloc ?ra [nal ! 0] = (True, ?ra\<lparr>ra_buffer := [nal ! 0], ra_capacity := cap\<rparr>)"
    by (auto simp: rtp_consts)
  have "take 1 nal = [nal ! 0]" using unit fields by (cases nal) (auto simp: unit_ok_def)
  then obtain cap2 where
    two: "ra_append alloc (?ra\<lparr>ra_buffer := [nal ! 0], ra_capacity := cap\<rparr>) (take fragment (drop 1 nal)) =
       (True, ?ra\<lparr>ra_buffer := take (1 + fragment) nal, ra_capacity := cap2\<rparr>)"
    using fragment_appended [OF mem, of nal 1 fragment "?ra\<lparr>ra_buffer := [nal ! 0], ra_capacity := cap\<rparr>"]
      unit fr fields by (auto simp: unit_ok_def fragment_ok_def)
  have "piece_payload (Part (nal, timestamp, marker) 1 fragment) \<noteq> []" by (simp add: fragment_payload_def)
  note step = push_piece [OF tr this]
  have "0 < fragment" "1 + fragment \<le> length nal" "1 + fragment \<noteq> length nal"
    using fr more fields by (auto simp: fragment_ok_def)
  then show ?thesis
    unfolding fields
    by (subst step) (simp add: push_payload_fragment one two [simplified] tracks_def within_def)
qed

lemma push_later:
  assumes mem: "memory_ok alloc" and unit: "unit_ok u" and tr: "tracks l sequence ra"
    and fr: "fragment_ok u offset fragment" and later: "1 < offset" and inv: "within u offset complete l ra"
  shows "\<exists>ok ra'. rtp_h264_reassembler_push alloc ra (piece_packet ssrc sequence (Part u offset fragment)) (Some cb) (Some loss) c
             = (ok, ra', replay cb loss (link_gap l True @
                      (if complete \<and> offset + fragment = length (fst u) then [Unit u] else [])) c) \<and>
           tracks (True, 0) (sequence + 1) ra' \<and>
           (if offset + fragment = length (fst u) then idle (True, 0) ra'
            else within u (offset + fragment) complete (True, 0) ra') \<and>
           (complete \<and> offset + fragment = length (fst u) \<longrightarrow> ok = verdict cb u (replay cb loss (link_gap l True) c))"
proof (cases u)
  case (fields nal timestamp marker)
  let ?ra = "after_sequence l sequence ra"
  have "piece_payload (Part (nal, timestamp, marker) offset fragment) \<noteq> []" by (simp add: fragment_payload_def)
  note step = push_piece [OF tr this]
  have frag: "0 < offset" "0 < fragment" "offset + fragment \<le> length nal" "offset \<noteq> 1"
    using fr later fields by (auto simp: fragment_ok_def)
  note payload = push_payload_fragment [OF frag(1-3)]
  show ?thesis
  proof (cases complete)
    case False
    then have "\<not> ra_assembling ?ra"
      using inv tr by (auto simp: within_def idle_def tracks_def after_sequence_def)
    then show ?thesis
      unfolding fields
      using False frag by (subst step) (auto simp: payload within_def idle_def tracks_def)
  next
    case True
    then have ra: "ra_assembling ?ra" "ra_buffer ?ra = take offset nal" "ra_timestamp ?ra = timestamp"
      using inv fields by (auto simp: within_def after_sequence_def)
    from fragment_appended [OF mem _ _ ra(2), of fragment] obtain cap where
      app: "ra_append alloc ?ra (take fragment (drop offset nal)) =
         (True, ?ra\<lparr>ra_buffer := take (offset + fragment) nal, ra_capacity := cap\<rparr>)"
      using unit fr fields by (auto simp: unit_ok_def fragment_ok_def)
    then show ?thesis
      unfolding fields
      using True frag ra
      by (subst step) (auto simp: payload app within_def idle_def ra_deliver_def tracks_def verdict_def split_def Let_def)
  qed
qed

section \<open>One unit\<close>

abbreviation link_after :: "link \<Rightarrow> bool list \<Rightarrow> link" where
  "link_after l bs \<equiv> fold (\<lambda>b l. link_step l b) bs l"

lemma tracks_lost: "tracks l sequence ra \<Longrightarrow> snd l + 1 < 65536 \<Longrightarrow> tracks (link_step l False) (sequence + 1) ra"
  by (auto simp: tracks_def link_step_def algebra_simps)

lemma within_lost: "within u offset' False (link_step l False) ra"
  by (simp add: within_def link_step_def idle_def)

lemma link_step_True [simp]: "link_step l True = (True, 0)"
  by (simp add: link_step_def)

lemma link_gap_False [simp]: "link_gap l False = []"
  by (simp add: link_gap_def)

text \<open>The packets of a unit from a later fragment on.\<close>

lemma push_fragments:
  assumes mem: "memory_ok alloc" and unit: "unit_ok u" and limit: "0 < limit"
  shows "1 < offset \<Longrightarrow> offset < length (fst u) \<Longrightarrow> tracks l sequence ra \<Longrightarrow> within u offset complete l ra \<Longrightarrow>
     length bs = length (fragment_plan u limit offset) \<Longrightarrow> link_ok l bs \<Longrightarrow>
     \<exists>ra'. push_all alloc cb loss (ra, c) (arriving (number_packets ssrc sequence (fragment_plan u limit offset)) bs)
          = (ra', replay cb loss (link_gaps l bs @ (if complete \<and> list_all (\<lambda>b. b) bs then [Unit u] else [])) c) \<and>
        tracks (link_after l bs) (sequence + of_nat (length bs)) ra' \<and> idle (link_after l bs) ra'"
proof (induction "length (fst u) - offset" arbitrary: offset l sequence ra complete bs c rule: less_induct)
  case (less offset l sequence ra complete bs c)
  let ?f = "min (length (fst u) - offset) limit"
  have plan: "fragment_plan u limit offset = Part u offset ?f # fragment_plan u limit (offset + ?f)"
    using less.prems(2) limit by (simp add: fragment_plan.simps [of u limit offset] Let_def)
  obtain b bs' where bs: "bs = b # bs'" and len': "length bs' = length (fragment_plan u limit (offset + ?f))"
    using less.prems(5) plan by (cases bs) auto
  have ok': "link_ok (link_step l b) bs'" using less.prems(6) bs by simp
  have fr: "fragment_ok u offset ?f" using less.prems(1,2) limit by (auto simp: fragment_ok_def)
  let ?packet = "piece_packet ssrc sequence (Part u offset ?f)"
  let ?last = "offset + ?f = length (fst u)"
  define s where "s = (if b then snd (rtp_h264_reassembler_push alloc ra ?packet (Some cb) (Some loss) c) else (ra, c))"
  have step: "snd s = replay cb loss (link_gap l b @ (if complete \<and> b \<and> ?last then [Unit u] else [])) c \<and>
      tracks (link_step l b) (sequence + 1) (fst s) \<and>
      (if ?last then idle (link_step l b) (fst s) else within u (offset + ?f) (complete \<and> b) (link_step l b) (fst s))"
  proof (cases b)
    case True
    with push_later [OF mem unit less.prems(3) fr less.prems(1) less.prems(4), of ssrc cb loss c]
    show ?thesis by (auto simp: s_def)
  next
    case False
    then show ?thesis
      using tracks_lost [OF less.prems(3)] link_ok_bound [OF ok'] within_lost [of u "offset + ?f" l ra]
      by (auto simp: s_def within_def link_step_def)
  qed
  have packets: "push_all alloc cb loss (ra, c)
       (arriving (number_packets ssrc sequence (fragment_plan u limit offset)) bs) =
     push_all alloc cb loss s (arriving (number_packets ssrc (sequence + 1) (fragment_plan u limit (offset + ?f))) bs')"
    by (simp add: plan bs s_def)
  show ?case
  proof (cases ?last)
    case True
    then have "fragment_plan u limit (offset + ?f) = []" by (simp add: fragment_plan.simps)
    with len' packets step True bs show ?thesis by (cases s) auto
  next
    case False
    then have "length (fst u) - (offset + ?f) < length (fst u) - offset" "1 < offset + ?f" "offset + ?f < length (fst u)"
      using fr by (auto simp: fragment_ok_def)
    from less.hyps [OF this, of "link_step l b" "sequence + 1" "fst s" "complete \<and> b" bs' "snd s"] step False len' ok'
    obtain ra' where "push_all alloc cb loss s
         (arriving (number_packets ssrc (sequence + 1) (fragment_plan u limit (offset + ?f))) bs') =
           (ra', replay cb loss (link_gaps (link_step l b) bs' @
                   (if (complete \<and> b) \<and> list_all (\<lambda>b. b) bs' then [Unit u] else [])) (snd s))"
      and "tracks (link_after (link_step l b) bs') (sequence + 1 + of_nat (length bs')) ra'"
      and "idle (link_after (link_step l b) bs') ra'"
      by (cases s) auto
    with packets step False bs show ?thesis by (intro exI [of _ ra']) (simp add: add_ac)
  qed
qed

lemma push_unit:
  assumes mem: "memory_ok alloc" and unit: "unit_ok u" and limit: "2 < limit"
    and tr: "tracks l sequence ra" and idle: "idle l ra"
    and len: "length bs = length (unit_plan limit u)" and ok: "link_ok l bs"
  shows "\<exists>ra'. push_all alloc cb loss (ra, c) (arriving (number_packets ssrc sequence (unit_plan limit u)) bs)
          = (ra', replay cb loss (link_gaps l bs @ (if list_all (\<lambda>b. b) bs then [Unit u] else [])) c) \<and>
        tracks (link_after l bs) (sequence + of_nat (length bs)) ra' \<and> idle (link_after l bs) ra'"
proof (cases "length (fst u) \<le> limit")
  case True
  then have plan: "unit_plan limit u = [Whole u]" by (simp add: unit_plan_def)
  with len obtain b where bs: "bs = [b]" by (cases bs) auto
  show ?thesis
  proof (cases b)
    case True
    with push_whole [OF unit tr idle, of alloc ssrc cb loss c] plan bs show ?thesis by auto
  next
    case False
    with tracks_lost [OF tr] ok bs plan show ?thesis by (auto simp: link_step_def idle_def)
  qed
next
  case False
  let ?f = "limit - 2"
  have fr: "fragment_ok u 1 ?f" and more: "1 + ?f < length (fst u)"
    using False limit by (auto simp: fragment_ok_def)
  have plan: "unit_plan limit u = Part u 1 ?f # fragment_plan u ?f (1 + ?f)"
    using False limit by (simp add: unit_plan_def fragment_plan.simps [of u ?f "Suc 0"] Let_def min_def)
  obtain b bs' where bs: "bs = b # bs'" and len': "length bs' = length (fragment_plan u ?f (1 + ?f))"
    using len plan by (cases bs) auto
  have ok': "link_ok (link_step l b) bs'" using ok bs by simp
  let ?packet = "piece_packet ssrc sequence (Part u 1 ?f)"
  define s where "s = (if b then snd (rtp_h264_reassembler_push alloc ra ?packet (Some cb) (Some loss) c) else (ra, c))"
  have step: "snd s = replay cb loss (link_gap l b) c \<and> tracks (link_step l b) (sequence + 1) (fst s) \<and>
      within u (1 + ?f) b (link_step l b) (fst s)"
  proof (cases b)
    case True
    with push_first [OF mem unit tr fr more, of ssrc cb loss c] show ?thesis by (auto simp: s_def)
  next
    case False
    then show ?thesis
      using tracks_lost [OF tr] link_ok_bound [OF ok'] within_lost [of u "1 + ?f" l ra]
      by (auto simp: s_def link_step_def)
  qed
  have "1 < 1 + ?f" and "0 < ?f" using limit by auto
  from push_fragments [OF mem unit this(2) this(1) more, of "link_step l b" "sequence + 1" "fst s" b bs' cb loss "snd s"]
    step len' ok'
  obtain ra' where "push_all alloc cb loss s
       (arriving (number_packets ssrc (sequence + 1) (fragment_plan u ?f (1 + ?f))) bs') =
         (ra', replay cb loss (link_gaps (link_step l b) bs' @ (if b \<and> list_all (\<lambda>b. b) bs' then [Unit u] else [])) (snd s))"
    and "tracks (link_after (link_step l b) bs') (sequence + 1 + of_nat (length bs')) ra'"
    and "idle (link_after (link_step l b) bs') ra'"
    by (cases s) auto
  moreover have "push_all alloc cb loss (ra, c) (arriving (number_packets ssrc sequence (unit_plan limit u)) bs) =
     push_all alloc cb loss s (arriving (number_packets ssrc (sequence + 1) (fragment_plan u ?f (1 + ?f))) bs')"
    by (simp add: plan bs s_def)
  ultimately show ?thesis using step bs by (intro exI [of _ ra']) (simp add: add_ac)
qed

section \<open>A stream of units\<close>

text \<open>The units of a stream, packetized one after another.\<close>

fun packetize_all ::
  "RtpH264Packetizer \<Rightarrow> unit_of_work list \<Rightarrow> byte list list \<Rightarrow> bool \<times> RtpH264Packetizer \<times> byte list list" where
  "packetize_all pk [] sent = (True, pk, sent)"
| "packetize_all pk ((nal, timestamp, marker) # us) sent =
     (case rtp_h264_packetize_marker pk nal timestamp marker (Some record_packet) sent of
        (ok, pk', sent') \<Rightarrow> if \<not> ok then (False, pk', sent') else packetize_all pk' us sent')"

definition stream_plan :: "RtpH264Packetizer \<Rightarrow> unit_of_work list \<Rightarrow> piece list" where
  "stream_plan pk us = concat (map (unit_plan (payload_limit pk)) us)"

lemma packetize_all_plan:
  assumes "packetizer_ok pk" and "list_all unit_ok us"
  shows "packetize_all pk us sent =
     (True, pk\<lparr>pk_sequence := pk_sequence pk + of_nat (length (stream_plan pk us))\<rparr>,
      sent @ number_packets (pk_ssrc pk) (pk_sequence pk) (stream_plan pk us))"
  using assms
proof (induction us arbitrary: pk sent)
  case Nil
  then show ?case by (simp add: stream_plan_def)
next
  case (Cons u us)
  obtain nal timestamp marker where u: "u = (nal, timestamp, marker)" by (cases u)
  let ?plan = "unit_plan (payload_limit pk) u"
  let ?pk = "pk\<lparr>pk_sequence := pk_sequence pk + of_nat (length ?plan)\<rparr>"
  have "packetizer_ok ?pk" using Cons.prems(1) by (simp add: packetizer_ok_def)
  note IH = Cons.IH [OF this]
  have "stream_plan ?pk us = stream_plan pk us" by (simp add: stream_plan_def)
  moreover have "stream_plan pk (u # us) = ?plan @ stream_plan pk us" by (simp add: stream_plan_def)
  moreover have "nal \<noteq> []" "length nal \<le> RTP_H264_MAX_NAL" using Cons.prems(2) u by (auto simp: unit_ok_def)
  ultimately show ?case
    using Cons.prems IH [of "sent @ number_packets (pk_ssrc pk) (pk_sequence pk) ?plan"]
    by (simp add: u packetize_marker_plan number_packets_append Let_def algebra_simps)
qed

lemma fragment_plan_sizes:
  "0 < offset \<Longrightarrow> p \<in> set (fragment_plan u limit offset) \<Longrightarrow>
     0 < length (piece_payload p) \<and> length (piece_payload p) \<le> limit + 2"
proof (induction u limit offset rule: fragment_plan.induct)
  case (1 u limit offset)
  show ?case
  proof (cases "offset < length (fst u) \<and> limit \<noteq> 0")
    case True
    let ?f = "min (length (fst u) - offset) limit"
    have "length (piece_payload (Part u offset ?f)) = ?f + 2"
      using True by (cases u) (auto simp: length_fragment_payload)
    moreover have "p = Part u offset ?f \<or> p \<in> set (fragment_plan u limit (offset + ?f))"
      using "1.prems"(2) True by (simp add: fragment_plan.simps [of u limit offset] Let_def)
    ultimately show ?thesis using "1.IH" True "1.prems"(1) by fastforce
  qed (use "1.prems" in \<open>simp add: fragment_plan.simps [of u limit offset]\<close>)
qed

lemma piece_payload_Whole: "piece_payload (Whole u) = fst u"
  by (cases u) simp

lemma unit_plan_sizes:
  assumes "unit_ok u" and "2 < limit" and "p \<in> set (unit_plan limit u)"
  shows "0 < length (piece_payload p)" and "length (piece_payload p) \<le> limit"
  using assms fragment_plan_sizes [of 1 p u "limit - 2"]
  by (auto simp: unit_plan_def unit_ok_def piece_payload_Whole split: if_splits)

text \<open>Number of packets the packetizer makes of a unit.\<close>

definition packet_count :: "RtpH264Packetizer \<Rightarrow> unit_of_work \<Rightarrow> nat" where
  "packet_count pk u = length (snd (snd (packetize_all pk [u] [])))"

lemma length_number_packets [simp]: "length (number_packets ssrc sequence ps) = length ps"
  by (induction ps arbitrary: sequence) auto

lemma packet_count_plan:
  "packetizer_ok pk \<Longrightarrow> unit_ok u \<Longrightarrow> packet_count pk u = length (unit_plan (payload_limit pk) u)"
  by (simp add: packet_count_def packetize_all_plan stream_plan_def)

text \<open>Units with the fates of their packets.\<close>

definition fates_ok :: "RtpH264Packetizer \<Rightarrow> (unit_of_work \<times> bool list) list \<Rightarrow> bool" where
  "fates_ok pk fates \<longleftrightarrow> list_all (\<lambda>(u, bs). unit_ok u \<and> length bs = packet_count pk u) fates"

lemma fates_units: "fates_ok pk fates \<Longrightarrow> list_all unit_ok (map fst fates)"
  by (auto simp: fates_ok_def list_all_iff)

lemma push_stream:
  assumes pk: "packetizer_ok pk" and mem: "memory_ok alloc"
  shows "fates_ok pk fates \<Longrightarrow> tracks l sequence ra \<Longrightarrow> idle l ra \<Longrightarrow> link_ok l (concat (map snd fates)) \<Longrightarrow>
     \<exists>ra'. push_all alloc cb loss (ra, c)
          (arriving (number_packets ssrc sequence (stream_plan pk (map fst fates))) (concat (map snd fates)))
        = (ra', replay cb loss (link_events l fates) c)"
proof (induction fates arbitrary: l sequence ra c)
  case Nil
  then show ?case by (simp add: stream_plan_def)
next
  case (Cons f fates)
  obtain u bs where f: "f = (u, bs)" by (cases f)
  let ?plan = "unit_plan (payload_limit pk) u"
  have unit: "unit_ok u" and len: "length bs = length ?plan" and rest: "fates_ok pk fates"
    using Cons.prems(1) packet_count_plan [OF pk] by (auto simp: f fates_ok_def)
  have ok: "link_ok l bs" "link_ok (link_after l bs) (concat (map snd fates))"
    using Cons.prems(4) by (simp_all add: f link_ok_append)
  have limit: "2 < payload_limit pk" using pk by (auto simp: packetizer_ok_def)
  obtain ra1 where one: "push_all alloc cb loss (ra, c) (arriving (number_packets ssrc sequence ?plan) bs)
      = (ra1, replay cb loss (link_gaps l bs @ (if list_all (\<lambda>b. b) bs then [Unit u] else [])) c)"
    and "tracks (link_after l bs) (sequence + of_nat (length bs)) ra1" "idle (link_after l bs) ra1"
    using push_unit [OF mem unit limit Cons.prems(2,3) len ok(1), where cb = cb and loss = loss and c = c and ssrc = ssrc]
    by (elim exE conjE)
  from Cons.IH [OF rest this(2,3) ok(2)] obtain ra2 where
    "push_all alloc cb loss (ra1, replay cb loss (link_gaps l bs @ (if list_all (\<lambda>b. b) bs then [Unit u] else [])) c)
       (arriving (number_packets ssrc (sequence + of_nat (length bs)) (stream_plan pk (map fst fates)))
          (concat (map snd fates)))
      = (ra2, replay cb loss (link_events (link_after l bs) fates)
               (replay cb loss (link_gaps l bs @ (if list_all (\<lambda>b. b) bs then [Unit u] else [])) c))"
    by blast
  moreover have "stream_plan pk (map fst (f # fates)) = ?plan @ stream_plan pk (map fst fates)"
    by (simp add: f stream_plan_def)
  ultimately show ?case
    using one len by (intro exI [of _ ra2]) (simp add: f number_packets_append arriving_append)
qed

lemma init_idle: "tracks (False, 0) sequence rtp_h264_reassembler_init" "idle (False, 0) rtp_h264_reassembler_init"
  by (simp_all add: tracks_def idle_def rtp_h264_reassembler_init_def)

text \<open>Every packet is delivered: the receiver is told the units, and nothing else.\<close>

definition no_loss :: "RtpH264Packetizer \<Rightarrow> unit_of_work list \<Rightarrow> (unit_of_work \<times> bool list) list" where
  "no_loss pk us = map (\<lambda>u. (u, replicate (packet_count pk u) True)) us"

lemma link_ok_replicate: "snd l < 65536 \<Longrightarrow> link_ok l (replicate n True)"
  by (induction n arbitrary: l) auto

lemma link_after_replicate: "snd l = 0 \<Longrightarrow> snd ((((\<lambda>l. (True, 0)) :: link \<Rightarrow> link) ^^ n) l) = 0"
  by (cases n) auto

lemma link_gaps_replicate: "snd l = 0 \<Longrightarrow> link_gaps l (replicate n True) = []"
  by (induction n arbitrary: l) (auto simp: link_gap_def)

lemma link_ok_no_loss: "snd l = 0 \<Longrightarrow> link_ok l (concat (map snd (no_loss pk us)))"
proof (induction us arbitrary: l)
  case (Cons u us)
  then show ?case
    by (auto simp: no_loss_def link_ok_append link_ok_replicate link_after_replicate)
qed (simp add: no_loss_def)

lemma link_events_no_loss: "snd l = 0 \<Longrightarrow> link_events l (no_loss pk us) = map Unit us"
proof (induction us arbitrary: l)
  case (Cons u us)
  then show ?case
    by (auto simp: no_loss_def link_after_replicate link_gaps_replicate list_all_iff)
qed (simp add: no_loss_def)

lemma arriving_all: "length ps = length bs \<Longrightarrow> list_all (\<lambda>b. b) bs \<Longrightarrow> arriving ps bs = ps"
  by (induction ps bs rule: list_induct2) auto

lemma packetize_all_length:
  assumes "packetizer_ok pk" and "fates_ok pk fates"
  shows "length (concat (map snd fates)) = length (stream_plan pk (map fst fates))"
  using assms(2) packet_count_plan [OF assms(1)]
  by (induction fates) (auto simp: fates_ok_def stream_plan_def)

section \<open>Properties\<close>

text \<open>
  C3: A stream of NAL units goes through the packetizer and over a network that loses packets. The
  reassembler then makes exactly the calls the fates of the packets call for: a unit is delivered,
  unchanged and with its timestamp and marker, if and only if all its packets arrived; the order is
  kept; and a gap is reported when the first packet after it arrives, before that packet delivers
  anything. This holds for every start of the sequence numbers, across their wrap-around, as long as
  no 65536 packets in a row are lost.
\<close>

theorem rtp_link_delivery:
  assumes "packetizer_ok pk" and "memory_ok alloc" and "fates_ok pk fates"
    and "link_ok (False, 0) (concat (map snd fates))"
  shows "fst (packetize_all pk (map fst fates) []) \<and>
         snd (push_all alloc cb loss (rtp_h264_reassembler_init, c)
           (arriving (snd (snd (packetize_all pk (map fst fates) []))) (concat (map snd fates)))) =
         replay cb loss (link_events (False, 0) fates) c"
  using push_stream [OF assms(1,2,3) init_idle assms(4),
      where cb = cb and loss = loss and c = c and ssrc = "pk_ssrc pk" and sequence = "pk_sequence pk"]
  by (auto simp: packetize_all_plan [OF assms(1) fates_units [OF assms(3)]])

definition nal_a :: "byte list" where
  "nal_a = 0x65 # replicate 9 0xaa"

definition nal_b :: "byte list" where
  "nal_b = [0x41, 1, 2]"

definition record_unit :: "rx_event list nal_callback" where
  "record_unit evs nal timestamp marker = (True, evs @ [Unit (nal, timestamp, marker)])"

definition record_loss :: "rx_event list loss_callback" where
  "record_loss evs = evs @ [Lost]"

definition sample_pk :: RtpH264Packetizer where
  "sample_pk = \<lparr>pk_sequence = 0xfffe, pk_ssrc = 7, pk_mtu = 20\<rparr>"

definition sample_fates :: "(unit_of_work \<times> bool list) list" where
  "sample_fates = [((nal_a, 100, True), [True, False]), ((nal_b, 200, True), [True]), ((nal_a, 300, True), [True, True])]"

lemma sample_pk_ok: "packetizer_ok sample_pk" and sample_limit: "payload_limit sample_pk = 8"
  by (simp_all add: packetizer_ok_def sample_pk_def rtp_consts)

lemma sample_units: "unit_ok (nal_a, timestamp, marker)" "unit_ok (nal_b, timestamp, marker)"
  by (simp_all add: unit_ok_def nal_a_def nal_b_def rtp_consts)

lemma sample_counts:
  "packet_count sample_pk (nal_a, timestamp, marker) = 2" "packet_count sample_pk (nal_b, timestamp, marker) = 1"
  unfolding packet_count_plan [OF sample_pk_ok sample_units(1)] packet_count_plan [OF sample_pk_ok sample_units(2)]
  by (simp_all add: sample_limit unit_plan_def nal_a_def nal_b_def fragment_plan.simps Let_def)

theorem rtp_link_delivery_witness:
  "packetizer_ok sample_pk \<and> memory_ok (\<lambda>_. True) \<and> fates_ok sample_pk sample_fates \<and>
   link_ok (False, 0) (concat (map snd sample_fates)) \<and>
   snd (push_all (\<lambda>_. True) record_unit record_loss (rtp_h264_reassembler_init, [])
     (arriving (snd (snd (packetize_all sample_pk (map fst sample_fates) []))) (concat (map snd sample_fates)))) =
     [Lost, Unit (nal_b, 200, True), Unit (nal_a, 300, True)]"
proof -
  note 1 = sample_pk_ok
  have 2: "memory_ok (\<lambda>_. True)" by (simp add: memory_ok_def)
  have 3: "fates_ok sample_pk sample_fates"
    by (simp add: fates_ok_def sample_fates_def sample_units sample_counts)
  have 4: "link_ok (False, 0) (concat (map snd sample_fates))"
    by (simp add: sample_fates_def link_step_def)
  have "replay record_unit record_loss (link_events (False, 0) sample_fates) [] =
      [Lost, Unit (nal_b, 200, True), Unit (nal_a, 300, True)]"
    by (simp add: sample_fates_def link_step_def link_gap_def record_unit_def record_loss_def)
  with rtp_link_delivery [OF 1 2 3 4, of record_unit record_loss "[]"] 1 2 3 4 show ?thesis by simp
qed

text \<open>
  Without loss every NAL unit comes out as it went in: the NAL callback is called once for each
  unit, in order, with its bytes, its timestamp and its marker, and the loss callback is never
  called.
\<close>

theorem rtp_roundtrip:
  assumes "packetizer_ok pk" and "memory_ok alloc" and "list_all unit_ok us"
  shows "snd (push_all alloc cb loss (rtp_h264_reassembler_init, c) (snd (snd (packetize_all pk us [])))) =
         fold (\<lambda>(nal, timestamp, marker) c. snd (cb c nal timestamp marker)) us c"
proof -
  have fates: "fates_ok pk (no_loss pk us)" using assms(3) by (auto simp: fates_ok_def no_loss_def list_all_iff)
  have units: "map fst (no_loss pk us) = us" by (simp add: no_loss_def comp_def)
  have all: "list_all (\<lambda>b. b) (concat (map snd (no_loss pk us)))" by (auto simp: no_loss_def list_all_iff)
  have "replay cb loss (map Unit us) c = fold (\<lambda>(nal, timestamp, marker) c. snd (cb c nal timestamp marker)) us c"
    by (induction us arbitrary: c) auto
  then show ?thesis
    using push_stream [OF assms(1,2) fates init_idle link_ok_no_loss,
        where cb = cb and loss = loss and c = c and ssrc = "pk_ssrc pk" and sequence = "pk_sequence pk"]
      arriving_all [OF _ all, of "number_packets (pk_ssrc pk) (pk_sequence pk) (stream_plan pk us)"]
      packetize_all_length [OF assms(1) fates]
    by (auto simp: packetize_all_plan [OF assms(1,3)] units link_events_no_loss)
qed

theorem rtp_roundtrip_witness:
  "packetizer_ok sample_pk \<and> memory_ok (\<lambda>_. True) \<and> list_all unit_ok [(nal_a, 5, False), (nal_b, 5, True)] \<and>
   snd (push_all (\<lambda>_. True) record_unit record_loss (rtp_h264_reassembler_init, [])
     (snd (snd (packetize_all sample_pk [(nal_a, 5, False), (nal_b, 5, True)] [])))) =
     [Unit (nal_a, 5, False), Unit (nal_b, 5, True)]"
proof -
  note 1 = sample_pk_ok
  have 2: "memory_ok (\<lambda>_. True)" by (simp add: memory_ok_def)
  have 3: "list_all unit_ok [(nal_a, 5, False), (nal_b, 5, True)]" by (simp add: sample_units)
  from rtp_roundtrip [OF 1 2 3, of record_unit record_loss "[]"] 1 2 3 show ?thesis
    by (simp add: record_unit_def)
qed

text \<open>
  C9: Every packet the packetizer hands to its callback has at least one byte of payload and at most
  \<open>mtu\<close> bytes in all, whatever the unit and the callback's context, so it fits the receiver's 1500
  byte buffer.
\<close>

theorem rtp_packets_fit_mtu:
  assumes "packetizer_ok pk" and "list_all unit_ok us"
  shows "list_all (\<lambda>p. RTP_HEADER_SIZE < length p \<and> length p \<le> unat (pk_mtu pk)) (snd (snd (packetize_all pk us [])))"
proof -
  have numbered: "list_all P (number_packets ssrc sequence ps)"
    if "list_all (\<lambda>p. \<forall>sequence. P (piece_packet ssrc sequence p)) ps" for P ssrc sequence ps
    using that by (induction ps arbitrary: sequence) auto
  have mtu: "RTP_HEADER_SIZE + 3 \<le> unat (pk_mtu pk)" using assms(1) by (simp add: packetizer_ok_def)
  then have "2 < payload_limit pk" by simp
  then have "0 < length (piece_payload p) \<and> length (piece_payload p) \<le> payload_limit pk"
    if "p \<in> set (stream_plan pk us)" for p
    using that assms(2) unit_plan_sizes [of _ "payload_limit pk" p] by (auto simp: stream_plan_def list_all_iff)
  with mtu have "list_all (\<lambda>p. \<forall>sequence. RTP_HEADER_SIZE < length (piece_packet (pk_ssrc pk) sequence p) \<and>
       length (piece_packet (pk_ssrc pk) sequence p) \<le> unat (pk_mtu pk)) (stream_plan pk us)"
    by (fastforce simp: list_all_iff piece_packet_def)
  then show ?thesis by (simp add: packetize_all_plan [OF assms] numbered)
qed

theorem rtp_packets_fit_mtu_witness:
  "packetizer_ok sample_pk \<and> list_all unit_ok [(nal_a, 5, True)] \<and>
   map length (snd (snd (packetize_all sample_pk [(nal_a, 5, True)] []))) = [20, 17] \<and>
   list_all (\<lambda>p. RTP_HEADER_SIZE < length p \<and> length p \<le> unat (pk_mtu sample_pk))
     (snd (snd (packetize_all sample_pk [(nal_a, 5, True)] [])))"
proof -
  note 1 = sample_pk_ok
  have 2: "list_all unit_ok [(nal_a, 5, True)]" by (simp add: sample_units)
  have 3: "map length (snd (snd (packetize_all sample_pk [(nal_a, 5, True)] []))) = [20, 17]"
    unfolding packetize_all_plan [OF 1 2] stream_plan_def sample_limit
    by (simp add: unit_plan_def nal_a_def
        fragment_plan.simps Let_def piece_packet_def fragment_payload_def rtp_consts)
  from rtp_packets_fit_mtu [OF 1 2] 1 2 3 show ?thesis by blast
qed

end
