(* ===== verification/RtpClient.thy ===== *)
theory RtpClient
  imports RtpH264
begin

text \<open>
  The gateway's RTP receiver (\<open>rtp_client.h\<close>, \<open>rtp_client.c\<close>): it reads datagrams, feeds the
  reassembler, and collects the NAL units of one timestamp into an Annex-B access unit that it hands
  over when the packet with the marker bit was taken in. The theory shows that no datagram
  sequence makes it store more bytes than it has allocated, and what one read returns.
\<close>

section \<open>State\<close>

text \<open>
  The access unit buffer is the list of the bytes stored in it, so \<open>access_unit_length\<close> is its
  length; the allocated size is kept as in the source.
\<close>

record RtpClient =
  cl_fd :: int
  cl_receive_buffer_bytes :: int
  cl_reassembler :: RtpH264Reassembler
  cl_access_unit :: "byte list"
  cl_access_unit_capacity :: nat
  cl_access_unit_capacity_hint :: nat
  cl_access_unit_timestamp :: u32
  cl_access_unit_ssrc :: u32
  cl_have_access_unit :: bool
  cl_losses :: u32

definition closed_client :: RtpClient where
  "closed_client = \<lparr>cl_fd = - 1, cl_receive_buffer_bytes = 0, cl_reassembler = rtp_h264_reassembler_init,
     cl_access_unit = [], cl_access_unit_capacity = 0, cl_access_unit_capacity_hint = 0,
     cl_access_unit_timestamp = 0, cl_access_unit_ssrc = 0, cl_have_access_unit = False, cl_losses = 0\<rparr>"

section \<open>Collecting an access unit\<close>

text \<open>The growth loop. The caller has checked that \<open>needed\<close> is within the limit.\<close>

function grow_access_unit :: "nat \<Rightarrow> nat \<Rightarrow> nat" where
  "grow_access_unit capacity needed =
     (if capacity < needed \<and> 0 < capacity \<and> needed \<le> RTP_H264_MAX_NAL
      then grow_access_unit (if capacity > RTP_H264_MAX_NAL div 2 then RTP_H264_MAX_NAL else capacity * 2) needed
      else capacity)"
  by pat_completeness auto
termination
  by (relation "measure (\<lambda>(capacity, needed). needed - capacity)") auto

declare grow_access_unit.simps [simp del]

definition append_access_unit :: "(nat \<Rightarrow> bool) \<Rightarrow> RtpClient \<Rightarrow> byte list \<Rightarrow> bool \<times> RtpClient" where
  "append_access_unit alloc client data =
     (if length data > size_sub RTP_H264_MAX_NAL (length (cl_access_unit client)) then (False, client)
      else
        let needed = length (cl_access_unit client) + length data in
        if needed > cl_access_unit_capacity client then
          let capacity = (if cl_access_unit_capacity client \<noteq> 0 then cl_access_unit_capacity client
                          else cl_access_unit_capacity_hint client);
              capacity1 = (if capacity < 4096 \<or> capacity > RTP_H264_MAX_NAL then 4096 else capacity);
              capacity2 = grow_access_unit capacity1 needed
          in if \<not> alloc capacity2 then (False, client)
             else (True, client\<lparr>cl_access_unit := cl_access_unit client @ data, cl_access_unit_capacity := capacity2\<rparr>)
        else (True, client\<lparr>cl_access_unit := cl_access_unit client @ data\<rparr>))"

function access_unit_capacity_hint_from :: "nat \<Rightarrow> nat \<Rightarrow> nat" where
  "access_unit_capacity_hint_from capacity len =
     (if capacity < len \<and> capacity < RTP_H264_MAX_NAL \<and> 0 < capacity
      then access_unit_capacity_hint_from
             (if capacity > RTP_H264_MAX_NAL div 2 then RTP_H264_MAX_NAL else capacity * 2) len
      else capacity)"
  by pat_completeness auto
termination
  by (relation "measure (\<lambda>(capacity, len). RTP_H264_MAX_NAL - capacity)") (auto split: if_splits)

declare access_unit_capacity_hint_from.simps [simp del]

definition access_unit_capacity_hint :: "nat \<Rightarrow> nat" where
  "access_unit_capacity_hint len = access_unit_capacity_hint_from 4096 len"

definition start_code :: "byte list" where
  "start_code = [0, 0, 0, 1]"

definition save_nal :: "(nat \<Rightarrow> bool) \<Rightarrow> RtpClient nal_callback" where
  "save_nal alloc client nal timestamp marker =
     (let client1 =
        (if \<not> cl_have_access_unit client \<or> cl_access_unit_timestamp client \<noteq> timestamp
         then client\<lparr>cl_access_unit := [], cl_access_unit_timestamp := timestamp, cl_have_access_unit := True\<rparr>
         else client)
      in case append_access_unit alloc client1 start_code of
           (ok, client2) \<Rightarrow> if ok then append_access_unit alloc client2 nal else (False, client2))"

definition count_loss :: "RtpClient loss_callback" where
  "count_loss client = client\<lparr>cl_losses := cl_losses client + 1, cl_access_unit := [], cl_have_access_unit := False\<rparr>"

section \<open>Opening and closing\<close>

text \<open>
  What the operating system answers while the socket is set up: the descriptor, the buffer size
  \<open>getsockopt\<close> stores (if it does), and whether the receive timeout and the bind succeed. The list
  in the result holds the descriptors closed again.
\<close>

record socket_setup =
  su_socket :: int
  su_buffer :: "int option"
  su_timeout_ok :: bool
  su_bind_ok :: bool

definition rtp_client_open :: "socket_setup \<Rightarrow> RtpClient \<Rightarrow> u16 \<Rightarrow> bool \<times> RtpClient \<times> int list" where
  "rtp_client_open os client port =
     (if port = 0 then (False, client, [])
      else
        let client1 = closed_client\<lparr>cl_fd := su_socket os\<rparr> in
        if su_socket os < 0 then (False, client1, [])
        else
          let client2 = (case su_buffer os of None \<Rightarrow> client1 | Some n \<Rightarrow> client1\<lparr>cl_receive_buffer_bytes := n\<rparr>) in
          if \<not> su_timeout_ok os then (False, client2\<lparr>cl_fd := - 1\<rparr>, [cl_fd client2])
          else if \<not> su_bind_ok os then (False, client2\<lparr>cl_fd := - 1\<rparr>, [cl_fd client2])
          else (True, client2\<lparr>cl_reassembler := rtp_h264_reassembler_init\<rparr>, []))"

definition rtp_client_close :: "RtpClient \<Rightarrow> RtpClient \<times> int list" where
  "rtp_client_close client = (closed_client, if cl_fd client \<ge> 0 then [cl_fd client] else [])"

section \<open>Reading\<close>

definition RTP_CLIENT_PACKET_SIZE :: nat where "RTP_CLIENT_PACKET_SIZE = 1500"

text \<open>The callbacks run on the client whose reassembler is being updated; they do not touch it.\<close>

definition client_push :: "(nat \<Rightarrow> bool) \<Rightarrow> RtpClient \<Rightarrow> byte list \<Rightarrow> bool \<times> RtpClient" where
  "client_push alloc client packet =
     (case rtp_h264_reassembler_push alloc (cl_reassembler client) packet
             (Some (save_nal alloc)) (Some count_loss) client of
        (ok, reassembler, client') \<Rightarrow> (ok, client'\<lparr>cl_reassembler := reassembler\<rparr>))"

definition take_access_unit :: "RtpClient \<Rightarrow> byte list \<Rightarrow> byte list \<times> RtpClient" where
  "take_access_unit client packet =
     (cl_access_unit client,
      client\<lparr>cl_access_unit_ssrc := rtp_read_u32 (drop 8 packet),
             cl_access_unit_capacity_hint := access_unit_capacity_hint (length (cl_access_unit client)),
             cl_access_unit := [], cl_access_unit_capacity := 0, cl_have_access_unit := False\<rparr>)"

text \<open>
  The loop of \<open>rtp_client_read_h264\<close>. Each \<open>recv\<close> takes one datagram of the list and keeps at most
  1500 bytes of it. With no answer left the call has not returned: \<open>None\<close>.
\<close>

fun read_h264_loop ::
  "(nat \<Rightarrow> bool) \<Rightarrow> RtpClient \<Rightarrow> recv_event list \<Rightarrow> (byte list option \<times> RtpClient \<times> recv_event list) option" where
  "read_h264_loop alloc client [] = None"
| "read_h264_loop alloc client (Closed # evs) = Some (None, client, evs)"
| "read_h264_loop alloc client (Fail e # evs) =
     (if e = EINTR then read_h264_loop alloc client evs else Some (None, client, evs))"
| "read_h264_loop alloc client (Data datagram # evs) =
     (let packet = take RTP_CLIENT_PACKET_SIZE datagram in
      if packet = [] then Some (None, client, evs)
      else case client_push alloc client packet of
        (ok, client') \<Rightarrow>
          if \<not> ok then read_h264_loop alloc client' evs
          else if packet ! 1 AND 0x80 = 0 \<or> cl_access_unit client' = [] then read_h264_loop alloc client' evs
          else case take_access_unit client' packet of (data, client'') \<Rightarrow> Some (Some data, client'', evs))"

definition rtp_client_read_h264 ::
  "(nat \<Rightarrow> bool) \<Rightarrow> RtpClient \<Rightarrow> recv_event list \<Rightarrow> (byte list option \<times> RtpClient \<times> recv_event list) option" where
  "rtp_client_read_h264 alloc client evs =
     (if cl_fd client < 0 then Some (None, client, evs) else read_h264_loop alloc client evs)"

section \<open>Stored bytes stay within the allocations\<close>

definition reassembler_ok :: "RtpH264Reassembler \<Rightarrow> bool" where
  "reassembler_ok ra \<longleftrightarrow> length (ra_buffer ra) \<le> ra_capacity ra \<and> length (ra_buffer ra) \<le> RTP_H264_MAX_NAL \<and>
     ra_capacity ra < 2 * RTP_H264_MAX_NAL"

definition access_unit_ok :: "RtpClient \<Rightarrow> bool" where
  "access_unit_ok client \<longleftrightarrow> length (cl_access_unit client) \<le> cl_access_unit_capacity client \<and>
     cl_access_unit_capacity client \<le> RTP_H264_MAX_NAL"

definition client_ok :: "RtpClient \<Rightarrow> bool" where
  "client_ok client \<longleftrightarrow> reassembler_ok (cl_reassembler client) \<and> access_unit_ok client"

lemma ra_append_keeps: "ra_append alloc ra data = (ok, ra') \<Longrightarrow> reassembler_ok ra \<Longrightarrow> reassembler_ok ra'"
proof (cases "length (ra_buffer ra) + length data > ra_capacity ra")
  case True
  assume app: "ra_append alloc ra data = (ok, ra')" and inv: "reassembler_ok ra"
  let ?c = "if ra_capacity ra \<noteq> 0 then ra_capacity ra else 2048"
  let ?needed = "length (ra_buffer ra) + length data"
  have g: "?needed \<le> grow_capacity ?c ?needed \<and>
      (grow_capacity ?c ?needed = ?c \<or> grow_capacity ?c ?needed < 2 * ?needed)"
    by (rule grow_capacity_bounds) simp
  have c: "?c < 2 * RTP_H264_MAX_NAL" using inv by (simp add: reassembler_ok_def rtp_consts)
  show ?thesis
    using app inv True g c
    by (auto simp: ra_append_def reassembler_ok_def Let_def split: if_splits)
next
  case False
  assume "ra_append alloc ra data = (ok, ra')" and "reassembler_ok ra"
  with False show ?thesis by (auto simp: ra_append_def reassembler_ok_def split: if_splits)
qed

lemma reassembler_ok_reset [simp]:
  "reassembler_ok ra \<Longrightarrow> reassembler_ok (ra\<lparr>ra_assembling := a, ra_buffer := []\<rparr>)"
  "reassembler_ok ra \<Longrightarrow> reassembler_ok (ra\<lparr>ra_assembling := a, ra_timestamp := t, ra_buffer := [], ra_nal_header := h\<rparr>)"
  "reassembler_ok (ra\<lparr>ra_have_sequence := b, ra_expected_sequence := q\<rparr>) = reassembler_ok ra"
  by (simp_all add: reassembler_ok_def)

text \<open>What the callbacks keep, the reassembler keeps.\<close>

lemma stap_units_keeps:
  assumes "\<And>c nal timestamp marker. P c \<Longrightarrow> P (snd (cb c nal timestamp marker))"
  shows "P c \<Longrightarrow> P (snd (stap_units payload offset marker timestamp delivered (Some cb) c))"
proof (induction payload offset marker timestamp delivered "Some cb" c rule: stap_units.induct)
  case (1 payload offset marker timestamp delivered c)
  let ?n = "unat (rtp_read_u16 (drop offset payload))"
  let ?m = "marker \<and> offset + 2 + ?n = length payload"
  have step: "P (snd (cb c (take ?n (drop (offset + 2) payload)) timestamp ?m))" by (rule assms) fact
  show ?case
    using "1.prems" step "1.hyps" [OF _ refl refl _ refl refl prod.collapse]
    by (subst stap_units.simps) (auto simp: Let_def split: prod.splits)
qed

lemma ra_deliver_keeps:
  assumes "\<And>c nal timestamp marker. P c \<Longrightarrow> P (snd (cb c nal timestamp marker))"
    and "reassembler_ok ra" and "P c" and "ra_deliver ra (Some cb) c marker = (ok, ra', c')"
  shows "reassembler_ok ra' \<and> P c'"
  using assms(2-4) assms(1) [of c "ra_buffer ra" "ra_timestamp ra" marker]
  by (auto simp: ra_deliver_def split: prod.splits)

lemma push_payload_keeps:
  assumes cb: "\<And>c nal timestamp marker. P c \<Longrightarrow> P (snd (cb c nal timestamp marker))"
    and inv: "reassembler_ok ra" "P c"
    and push: "push_payload alloc ra payload timestamp marker (Some cb) c = (ok, ra', c')"
  shows "reassembler_ok ra' \<and> P c'"
proof -
  let ?type = "payload ! 0 AND 0x1f"
  consider (single) "1 \<le> ?type \<and> ?type \<le> 23" | (stap) "?type = 24" | (ignored) "\<not> (1 \<le> ?type \<and> ?type \<le> 23)" "?type \<noteq> 24"
      "?type \<noteq> 28 \<or> length payload < 3" | (fu) "?type = 28" "\<not> length payload < 3"
    by blast
  then show ?thesis
  proof cases
    case single
    with push inv cb [of c payload timestamp marker] show ?thesis
      by (auto simp: push_payload_def split: prod.splits)
  next
    case stap
    with push inv stap_units_keeps [of P cb, OF cb, of c payload 1 marker timestamp False] show ?thesis
      by (auto simp: push_payload_def split: prod.splits)
  next
    case ignored
    with push inv show ?thesis by (auto simp: push_payload_def)
  next
    case fu
    let ?start = "payload ! 1 AND 0x80 \<noteq> 0"
    let ?header = "(payload ! 0 AND 0xe0) OR (payload ! 1 AND 0x1f)"
    let ?first = "if ?start then ra_append alloc (ra\<lparr>ra_assembling := True, ra_timestamp := timestamp,
         ra_buffer := [], ra_nal_header := ?header\<rparr>) [?header] else (True, ra)"
    obtain started ra1 where first: "?first = (started, ra1)" by (rule prod.exhaust)
    have ok1: "reassembler_ok ra1" using first inv(1) by (auto split: if_splits dest: ra_append_keeps)
    obtain appended ra2 where app: "ra_append alloc ra1 (drop 2 payload) = (appended, ra2)" by (rule prod.exhaust)
    have ok2: "reassembler_ok ra2" by (rule ra_append_keeps [OF app ok1])
    have "(ok, ra', c') = (if \<not> started then (False, ra1, c)
        else if \<not> ra_assembling ra1 \<or> timestamp \<noteq> ra_timestamp ra1 then (False, ra1, c)
        else if \<not> appended then (False, ra2, c)
        else if payload ! 1 AND 0x40 \<noteq> 0 then ra_deliver ra2 (Some cb) c marker else (True, ra2, c))"
      using push fu unfolding push_payload_def Let_def first prod.case app by simp
    then show ?thesis
      using ok1 ok2 inv(2) ra_deliver_keeps [of P cb, OF cb ok2 inv(2), of marker ok ra' c'] by (auto split: if_splits)
  qed
qed

lemma reassembler_push_keeps:
  assumes cb: "\<And>c nal timestamp marker. P c \<Longrightarrow> P (snd (cb c nal timestamp marker))" and loss: "\<And>c. P c \<Longrightarrow> P (loss c)"
    and inv: "reassembler_ok ra" "P c"
    and push: "rtp_h264_reassembler_push alloc ra packet (Some cb) (Some loss) c = (ok, ra', c')"
  shows "reassembler_ok ra' \<and> P c'"
proof (cases "length packet \<le> RTP_HEADER_SIZE \<or> drop_bit 6 (packet ! 0) \<noteq> 2")
  case True
  with push inv show ?thesis by (simp add: rtp_h264_reassembler_push_def)
next
  case False
  let ?sequence = "rtp_read_u16 (drop 2 packet)"
  let ?gap = "ra_have_sequence ra \<and> ?sequence \<noteq> ra_expected_sequence ra"
  let ?ra = "(if ?gap then ra\<lparr>ra_assembling := False, ra_buffer := []\<rparr> else ra)
       \<lparr>ra_have_sequence := True, ra_expected_sequence := ?sequence + 1\<rparr>"
  have "push_payload alloc ?ra (drop RTP_HEADER_SIZE packet) (rtp_read_u32 (drop 4 packet)) (packet ! 1 AND 0x80 \<noteq> 0)
      (Some cb) (if ?gap then loss c else c) = (ok, ra', c')"
    using push unfolding rtp_h264_reassembler_push_def Let_def option.case if_not_P [OF False] .
  from push_payload_keeps [of P cb, OF cb _ _ this] inv loss show ?thesis by (auto split: if_splits)
qed

lemma grow_access_unit_bounds:
  "0 < capacity \<Longrightarrow> needed \<le> RTP_H264_MAX_NAL \<Longrightarrow> capacity \<le> RTP_H264_MAX_NAL \<Longrightarrow>
     needed \<le> grow_access_unit capacity needed \<and> grow_access_unit capacity needed \<le> RTP_H264_MAX_NAL"
proof (induction capacity needed rule: grow_access_unit.induct)
  case (1 capacity needed)
  show ?case
  proof (cases "capacity < needed")
    case True
    let ?next = "if capacity > RTP_H264_MAX_NAL div 2 then RTP_H264_MAX_NAL else capacity * 2"
    have "0 < ?next" "?next \<le> RTP_H264_MAX_NAL" using "1.prems" by (auto simp: rtp_consts)
    with "1.IH" True "1.prems" have "needed \<le> grow_access_unit ?next needed \<and> grow_access_unit ?next needed \<le> RTP_H264_MAX_NAL"
      by blast
    with True "1.prems" show ?thesis by (simp add: grow_access_unit.simps [of capacity needed])
  qed (use "1.prems" in \<open>simp add: grow_access_unit.simps [of capacity needed]\<close>)
qed

lemma append_access_unit_keeps:
  assumes inv: "access_unit_ok client" and app: "append_access_unit alloc client data = (ok, client')"
  shows "access_unit_ok client'"
proof -
  let ?needed = "length (cl_access_unit client) + length data"
  define c where "c = (if cl_access_unit_capacity client \<noteq> 0 then cl_access_unit_capacity client
     else cl_access_unit_capacity_hint client)"
  define c1 where "c1 = (if c < 4096 \<or> c > RTP_H264_MAX_NAL then 4096 else c)"
  have len: "length (cl_access_unit client) \<le> RTP_H264_MAX_NAL" using inv by (simp add: access_unit_ok_def)
  have "0 < c1" "c1 \<le> RTP_H264_MAX_NAL" by (auto simp: c1_def rtp_consts)
  note g = grow_access_unit_bounds [of c1 ?needed, OF this(1) _ this(2)]
  have "append_access_unit alloc client data =
     (if length data > RTP_H264_MAX_NAL - length (cl_access_unit client) then (False, client)
      else if ?needed > cl_access_unit_capacity client then
        (if \<not> alloc (grow_access_unit c1 ?needed) then (False, client)
         else (True, client\<lparr>cl_access_unit := cl_access_unit client @ data,
                            cl_access_unit_capacity := grow_access_unit c1 ?needed\<rparr>))
      else (True, client\<lparr>cl_access_unit := cl_access_unit client @ data\<rparr>))"
    unfolding append_access_unit_def Let_def size_sub_le [OF len] c_def [symmetric] c1_def [symmetric] by (rule refl)
  with app g inv show ?thesis by (auto simp: access_unit_ok_def split: if_splits)
qed

lemma save_nal_keeps: "access_unit_ok client \<Longrightarrow> access_unit_ok (snd (save_nal alloc client nal timestamp marker))"
proof -
  assume inv: "access_unit_ok client"
  let ?c1 = "if \<not> cl_have_access_unit client \<or> cl_access_unit_timestamp client \<noteq> timestamp
         then client\<lparr>cl_access_unit := [], cl_access_unit_timestamp := timestamp, cl_have_access_unit := True\<rparr>
         else client"
  obtain ok c2 where s: "append_access_unit alloc ?c1 start_code = (ok, c2)" by (rule prod.exhaust)
  obtain ok' c3 where n: "append_access_unit alloc c2 nal = (ok', c3)" by (rule prod.exhaust)
  have "access_unit_ok ?c1" using inv by (simp add: access_unit_ok_def)
  from append_access_unit_keeps [OF this s] append_access_unit_keeps [OF _ n] show ?thesis
    unfolding save_nal_def Let_def s by (simp add: n)
qed

lemma count_loss_keeps: "access_unit_ok client \<Longrightarrow> access_unit_ok (count_loss client)"
  by (simp add: access_unit_ok_def count_loss_def)

lemma client_push_keeps:
  assumes inv: "client_ok client"
  shows "client_ok (snd (client_push alloc client packet))"
proof -
  obtain ok ra c where push: "rtp_h264_reassembler_push alloc (cl_reassembler client) packet
      (Some (save_nal alloc)) (Some count_loss) client = (ok, ra, c)"
    by (rule prod_cases3)
  have "reassembler_ok ra \<and> access_unit_ok c"
    by (rule reassembler_push_keeps [OF save_nal_keeps count_loss_keeps _ _ push])
      (use inv in \<open>simp_all add: client_ok_def\<close>)
  then show ?thesis by (simp add: client_push_def push client_ok_def access_unit_ok_def)
qed

interpretation receiver: invariant_machine "\<lambda>client packet. snd (client_push alloc client packet)" client_ok
  for alloc
  by unfold_locales (rule client_push_keeps)

section \<open>Properties\<close>

lemma client_read_keeps:
  "read_h264_loop alloc client evs = Some (data, client', evs') \<Longrightarrow> client_ok client \<Longrightarrow>
     client_ok client' \<and> (case data of None \<Rightarrow> True | Some d \<Rightarrow> d \<noteq> [] \<and> length d \<le> RTP_H264_MAX_NAL)"
proof (induction alloc client evs rule: read_h264_loop.induct)
  case (4 alloc client datagram evs)
  let ?packet = "take RTP_CLIENT_PACKET_SIZE datagram"
  obtain ok c where push: "client_push alloc client ?packet = (ok, c)" by (rule prod.exhaust)
  have inv: "client_ok c" using receiver.inv_step [OF "4.prems"(2), of alloc ?packet] push by simp
  consider "?packet = []" | "?packet \<noteq> []" "\<not> ok \<or> ?packet ! 1 AND 0x80 = 0 \<or> cl_access_unit c = []"
    | "?packet \<noteq> []" "ok" "?packet ! 1 AND 0x80 \<noteq> 0" "cl_access_unit c \<noteq> []"
    by blast
  then show ?case
  proof cases
    case 1
    with "4.prems" show ?thesis by (auto simp: Let_def)
  next
    case 2
    then have "read_h264_loop alloc c evs = Some (data, client', evs')"
      using "4.prems"(1) by (simp add: Let_def push split: if_splits)
    with "4.IH" [OF refl 2(1) push [symmetric]] inv 2 show ?thesis by auto
  next
    case 3
    with "4.prems"(1) inv show ?thesis
      by (auto simp: Let_def push take_access_unit_def client_ok_def access_unit_ok_def)
  qed
qed (auto split: if_splits)

text \<open>
  C5: Whatever datagrams arrive, whole, truncated, malformed or hostile, and whether or not
  memory can be had: a read leaves the receiver with no more bytes in the fragment buffer and in the
  access unit buffer than were allocated for them, both allocations bounded, and the access unit it
  hands over is not empty and has at most 2 MiB.
\<close>

theorem rtp_client_memory_bounded:
  assumes "client_ok client" and "rtp_client_read_h264 alloc client evs = Some (data, client', evs')"
  shows "client_ok client' \<and> (case data of None \<Rightarrow> True | Some d \<Rightarrow> d \<noteq> [] \<and> length d \<le> RTP_H264_MAX_NAL)"
  using assms by (auto simp: rtp_client_read_h264_def dest: client_read_keeps split: if_splits)

definition open_client :: RtpClient where
  "open_client = closed_client\<lparr>cl_fd := 3\<rparr>"

definition sample_datagram :: "byte list" where
  "sample_datagram = [0x80, 0xe0, 0, 9, 0, 0, 0, 5, 0, 0, 0, 7, 0x65, 1]"

lemma sample_read:
  "\<exists>client'. rtp_client_read_h264 (\<lambda>_. True) open_client [Data [1, 2], Data sample_datagram] =
     Some (Some [0, 0, 0, 1, 0x65, 1], client', [])"
  by (simp add: rtp_client_read_h264_def open_client_def closed_client_def sample_datagram_def Let_def
      RTP_CLIENT_PACKET_SIZE_def client_push_def rtp_h264_reassembler_push_def rtp_consts rtp_h264_reassembler_init_def
      push_payload_def save_nal_def append_access_unit_def start_code_def grow_access_unit.simps take_access_unit_def
      rtp_read_u16_def rtp_read_u32_def)

theorem rtp_client_memory_bounded_witness:
  "\<exists>client'. rtp_client_read_h264 (\<lambda>_. True) open_client [Data [1, 2], Data sample_datagram] =
     Some (Some [0, 0, 0, 1, 0x65, 1], client', []) \<and> client_ok open_client \<and> client_ok client'"
proof -
  obtain client' where read: "rtp_client_read_h264 (\<lambda>_. True) open_client [Data [1, 2], Data sample_datagram] =
     Some (Some [0, 0, 0, 1, 0x65, 1], client', [])"
    using sample_read by blast
  have inv: "client_ok open_client"
    by (simp add: client_ok_def open_client_def closed_client_def reassembler_ok_def access_unit_ok_def
        rtp_h264_reassembler_init_def rtp_consts)
  from rtp_client_memory_bounded [OF inv read] read inv show ?thesis by blast
qed

end
