(* ===== verification/AccessUnit.thy ===== *)
theory AccessUnit
  imports RtpTransfer RtpClient
begin

text \<open>
  Access units end to end: the encoder's Annex-B access units go through
  \<open>rtp_h264_packetize_access_unit\<close> on the agent, the packets reach the gateway, and
  \<open>rtp_client_read_h264\<close> returns the same NAL units, access unit by access unit.
\<close>

section \<open>Annex-B framing\<close>

text \<open>An access unit as its NAL units, each behind a start code of four bytes (or three).\<close>

type_synonym framed = "(bool \<times> byte list) list"

definition code_of :: "bool \<Rightarrow> byte list" where
  "code_of long = (if long then [0, 0, 0, 1] else [0, 0, 1])"

fun annexb :: "framed \<Rightarrow> byte list" where
  "annexb [] = []"
| "annexb ((long, nal) # xs) = code_of long @ nal @ annexb xs"

definition normal_form :: "framed \<Rightarrow> byte list" where
  "normal_form xs = annexb (map (\<lambda>(long, nal). (True, nal)) xs)"

text \<open>
  What the H.264 byte stream format guarantees of a NAL unit: no start code prefix inside
  (emulation prevention), and a last byte other than 0 (the stop bit).
\<close>

definition nal_clean :: "byte list \<Rightarrow> bool" where
  "nal_clean nal \<longleftrightarrow> nal \<noteq> [] \<and> last nal \<noteq> 0 \<and>
     list_all (\<lambda>i. \<not> (nal ! i = 0 \<and> nal ! (i + 1) = 0 \<and> nal ! (i + 2) = 1)) [0..<length nal - 2]"

lemma nal_clean_nonzero: "nal \<noteq> [] \<Longrightarrow> 0 \<notin> set nal \<Longrightarrow> nal_clean nal"
proof -
  assume ne: "nal \<noteq> []" and nz: "0 \<notin> set nal"
  have "nal ! i \<noteq> 0" if "i < length nal - 2" for i
  proof -
    have "i < length nal" using that by simp
    then show ?thesis using nz nth_mem by metis
  qed
  moreover have "last nal \<noteq> 0" using nz last_in_set [OF ne] by metis
  ultimately show ?thesis using ne by (auto simp: nal_clean_def list_all_iff)
qed

fun mark_last :: "u32 \<Rightarrow> framed \<Rightarrow> unit_of_work list" where
  "mark_last timestamp [] = []"
| "mark_last timestamp ((long, nal) # xs) = (nal, timestamp, xs = []) # mark_last timestamp xs"

lemma length_annexb_pos: "xs \<noteq> [] \<Longrightarrow> 0 < length (annexb xs)"
  by (cases xs rule: annexb.cases) (auto simp: code_of_def)

lemma start_code_at:
  "start_code_length (pre @ code_of long @ rest) (length pre) = length (code_of long)"
  by (simp add: start_code_length_def code_of_def nth_append)

lemma next_start_code_skip:
  "(\<And>i. a \<le> i \<Longrightarrow> i < b \<Longrightarrow> start_code_length data i = 0) \<Longrightarrow> a \<le> b \<Longrightarrow> b \<le> length data \<Longrightarrow>
     b = length data \<or> start_code_length data b \<noteq> 0 \<Longrightarrow> next_start_code data a = b"
proof (induction "b - a" arbitrary: a)
  case 0
  then show ?case by (auto simp: next_start_code.simps [of data a])
next
  case (Suc n)
  then have "next_start_code data (a + 1) = b" by simp
  with Suc.hyps(2) Suc.prems show ?case by (simp add: next_start_code.simps [of data a])
qed

lemma no_start_code_inside:
  assumes "nal_clean nal" and "i < length nal"
  shows "start_code_length (pre @ nal @ post) (length pre + i) = 0"
proof -
  let ?d = "pre @ nal @ post"
  have d: "?d ! (length pre + j) = nal ! j" if "j < length nal" for j using that by (simp add: nth_append)
  have last: "nal ! (length nal - 1) \<noteq> 0" using assms(1) by (auto simp: nal_clean_def last_conv_nth)
  have pat: "\<not> (nal ! j = 0 \<and> nal ! (j + 1) = 0 \<and> nal ! (j + 2) = 1)" if "j + 2 < length nal" for j
    using assms(1) that by (auto simp: nal_clean_def list_all_iff)
  have three: "\<not> (?d ! (length pre + j) = 0 \<and> ?d ! (length pre + (j + 1)) = 0 \<and> ?d ! (length pre + (j + 2)) = 1)"
    if "j < length nal" for j
  proof (cases "j + 2 < length nal")
    case True
    then show ?thesis using pat [of j] d [of j] d [of "j + 1"] d [of "j + 2"] by simp
  next
    case False
    then have "j = length nal - 1 \<or> (j + 1 = length nal - 1 \<and> j + 1 < length nal)" using that by auto
    then show ?thesis using last d [of j] d [of "j + 1"] that by metis
  qed
  have "\<not> (?d ! (length pre + i) = 0 \<and> ?d ! (length pre + (i + 1)) = 0 \<and> ?d ! (length pre + (i + 2)) = 0 \<and>
      ?d ! (length pre + (i + 3)) = 1)"
  proof (cases "i + 1 < length nal")
    case True
    then show ?thesis using three [of "i + 1"] by (simp add: numeral_3_eq_3)
  next
    case False
    then have "i = length nal - 1" using assms(2) by simp
    then show ?thesis using last d [of i] assms(2) by auto
  qed
  with three [OF assms(2)] show ?thesis by (simp add: start_code_length_def add.assoc)
qed

lemma next_start_code_nal:
  assumes "nal_clean nal"
  shows "next_start_code (pre @ nal @ annexb xs) (length pre) = length pre + length nal"
proof (rule next_start_code_skip)
  fix i assume "length pre \<le> i" "i < length pre + length nal"
  then show "start_code_length (pre @ nal @ annexb xs) i = 0"
    using no_start_code_inside [OF assms, of "i - length pre" pre "annexb xs"] by simp
next
  show "length pre + length nal = length (pre @ nal @ annexb xs) \<or>
      start_code_length (pre @ nal @ annexb xs) (length pre + length nal) \<noteq> 0"
  proof (cases xs rule: annexb.cases)
    case (2 long nal' xs')
    then show ?thesis using start_code_at [of "pre @ nal" long "nal' @ annexb xs'"] by (simp add: code_of_def)
  qed simp
qed simp_all

section \<open>The sender\<close>

text \<open>The scan of the access unit finds exactly the NAL units, and marks the last.\<close>

lemma packetize_units_marks:
  assumes "list_all (\<lambda>(long, nal). nal_clean nal) xs"
  shows "packetize_units pk (pre @ annexb xs) (length pre) timestamp (Some record_packet) sent c =
     (if xs = [] then (sent, pk, c) else packetize_all pk (mark_last timestamp xs) c)"
  using assms
proof (induction xs arbitrary: pre pk sent c rule: annexb.induct)
  case 1
  then show ?case by (simp add: packetize_units.simps)
next
  case (2 long nal xs)
  let ?data = "pre @ annexb ((long, nal) # xs)"
  let ?start = "length pre + length (code_of long)"
  have clean: "nal_clean nal" "nal \<noteq> []" using "2.prems" by (auto simp: nal_clean_def)
  have code: "start_code_length ?data (length pre) = length (code_of long)"
    using start_code_at [of pre long "nal @ annexb xs"] by simp
  have nxt: "next_start_code ?data ?start = ?start + length nal"
    using next_start_code_nal [OF clean(1), of "pre @ code_of long" xs] by simp
  have last: "?start + length nal = length ?data \<longleftrightarrow> xs = []" using length_annexb_pos [of xs] by (cases "xs = []") auto
  have unit: "take (length nal) (drop ?start ?data) = nal" by simp
  have pos: "0 < length (code_of long)" "0 < length nal" using clean by (auto simp: code_of_def)
  obtain ok pk' c' where p: "rtp_h264_packetize_marker pk nal timestamp (xs = []) (Some record_packet) c = (ok, pk', c')"
    by (rule prod_cases3)
  have rest: "packetize_units pk' ?data (?start + length nal) timestamp (Some record_packet) True c' =
      (if xs = [] then (True, pk', c') else packetize_all pk' (mark_last timestamp xs) c')"
    using "2.IH" [where pre = "pre @ code_of long @ nal" and pk = pk' and sent = True and c = c'] "2.prems" by (simp add: add.assoc)
  have "packetize_units pk ?data (length pre) timestamp (Some record_packet) sent c =
      (if \<not> ok then (False, pk', c') else packetize_units pk' ?data (?start + length nal) timestamp (Some record_packet) True c')"
    unfolding packetize_units.simps [of pk ?data "length pre"] Let_def code nxt
    using pos last unit p by (simp del: annexb.simps add: annexb.simps(2) [of long nal xs])
  then show ?case unfolding rest by (simp add: p)
qed

lemma packetize_access_unit_marks:
  assumes "list_all (\<lambda>(long, nal). nal_clean nal) xs" and "xs \<noteq> []"
  shows "rtp_h264_packetize_access_unit pk (annexb xs) timestamp (Some record_packet) c =
     packetize_all pk (mark_last timestamp xs) c"
proof -
  have ne: "annexb xs \<noteq> []" using length_annexb_pos [OF assms(2)] by auto
  have "start_code_length (annexb xs) 0 \<noteq> 0"
    using assms(2) start_code_at [of "[]"] by (cases xs rule: annexb.cases) (auto simp: code_of_def)
  then have "next_start_code (annexb xs) 0 = 0" by (simp add: next_start_code.simps [of _ 0])
  with packetize_units_marks [OF assms(1), of pk "[]" timestamp False c] assms(2) ne show ?thesis
    by (simp add: rtp_h264_packetize_access_unit_def Let_def)
qed

section \<open>The receiver\<close>

text \<open>Pushing packets one after another, with the answer of the last push.\<close>

definition client_run :: "(nat \<Rightarrow> bool) \<Rightarrow> bool \<times> RtpClient \<Rightarrow> byte list list \<Rightarrow> bool \<times> RtpClient" where
  "client_run alloc s ps = foldl (\<lambda>s p. client_push alloc (snd s) p) s ps"

lemma client_run_simps [simp]:
  "client_run alloc s [] = s"
  "client_run alloc s (p # ps) = client_run alloc (client_push alloc (snd s) p) ps"
  "client_run alloc s (ps @ qs) = client_run alloc (client_run alloc s ps) qs"
  by (simp_all add: client_run_def)

text \<open>A client in step with the sender, between two units, with no packet lost since the last.\<close>

definition in_step :: "u16 \<Rightarrow> RtpClient \<Rightarrow> bool" where
  "in_step sequence client \<longleftrightarrow>
     (\<exists>have. tracks (have, 0) sequence (cl_reassembler client) \<and> idle (have, 0) (cl_reassembler client))"

lemma append_access_unit_reassembler:
  "append_access_unit alloc (client\<lparr>cl_reassembler := r\<rparr>) data =
     map_prod id (\<lambda>c. c\<lparr>cl_reassembler := r\<rparr>) (append_access_unit alloc client data)"
  by (cases client) (simp add: append_access_unit_def Let_def if_distrib [of "map_prod id (\<lambda>c. c\<lparr>cl_reassembler := r\<rparr>)"]
      split del: if_split cong: if_cong)

lemma save_nal_reassembler:
  "save_nal alloc (client\<lparr>cl_reassembler := r\<rparr>) nal timestamp marker =
     map_prod id (\<lambda>c. c\<lparr>cl_reassembler := r\<rparr>) (save_nal alloc client nal timestamp marker)"
proof -
  let ?reset = "\<lambda>c. if \<not> cl_have_access_unit c \<or> cl_access_unit_timestamp c \<noteq> timestamp
         then c\<lparr>cl_access_unit := [], cl_access_unit_timestamp := timestamp, cl_have_access_unit := True\<rparr> else c"
  have reset: "?reset (client\<lparr>cl_reassembler := r\<rparr>) = (?reset client)\<lparr>cl_reassembler := r\<rparr>" by simp
  obtain ok c where "append_access_unit alloc (?reset client) start_code = (ok, c)" by (rule prod.exhaust)
  then show ?thesis
    unfolding save_nal_def Let_def reset append_access_unit_reassembler
    by (simp add: append_access_unit_reassembler)
qed

lemma client_run_fragments:
  assumes mem: "memory_ok alloc" and unit: "unit_ok u" and limit: "0 < limit" and u: "u = (nal, timestamp, marker)"
  shows "1 < offset \<Longrightarrow> offset < length nal \<Longrightarrow> tracks (True, 0) sequence (cl_reassembler client) \<Longrightarrow>
     within u offset True (True, 0) (cl_reassembler client) \<Longrightarrow>
     \<exists>ra'. client_run alloc (b, client) (number_packets ssrc sequence (fragment_plan u limit offset)) =
          (fst (save_nal alloc client nal timestamp marker),
           (snd (save_nal alloc client nal timestamp marker))\<lparr>cl_reassembler := ra'\<rparr>) \<and>
        tracks (True, 0) (sequence + of_nat (length (fragment_plan u limit offset))) ra' \<and> idle (True, 0) ra'"
proof (induction "length nal - offset" arbitrary: offset sequence client b rule: less_induct)
  case (less offset sequence client b)
  let ?f = "min (length nal - offset) limit"
  have plan: "fragment_plan u limit offset = Part u offset ?f # fragment_plan u limit (offset + ?f)"
    using less.prems(2) limit by (simp add: fragment_plan.simps [of _ limit offset] Let_def u)
  have fr: "fragment_ok u offset ?f" using less.prems(1,2) limit by (auto simp: fragment_ok_def u)
  have len: "length (fst u) = length nal" by (simp add: u)
  obtain ok ra' where push: "rtp_h264_reassembler_push alloc (cl_reassembler client)
        (piece_packet ssrc sequence (Part u offset ?f)) (Some (save_nal alloc)) (Some count_loss) client
      = (ok, ra', replay (save_nal alloc) count_loss (if offset + ?f = length nal then [Unit u] else []) client)"
    and tr: "tracks (True, 0) (sequence + 1) ra'"
    and st: "if offset + ?f = length nal then idle (True, 0) ra' else within u (offset + ?f) True (True, 0) ra'"
    and ok: "offset + ?f = length nal \<longrightarrow> ok = verdict (save_nal alloc) u client"
    using push_later [OF mem unit less.prems(3) fr less.prems(1,4), of ssrc "save_nal alloc" count_loss client]
    by (auto simp: link_gap_def len)
  show ?case
  proof (cases "offset + ?f = length nal")
    case True
    then have "fragment_plan u limit (offset + ?f) = []" by (simp add: fragment_plan.simps u)
    with True push tr st ok show ?thesis unfolding plan by (intro exI [of _ ra']) (simp add: client_push_def verdict_def u)
  next
    case False
    let ?client = "client\<lparr>cl_reassembler := ra'\<rparr>"
    have "length nal - (offset + ?f) < length nal - offset" "1 < offset + ?f" "offset + ?f < length nal"
      using False fr by (auto simp: fragment_ok_def u)
    from less.hyps [OF this, of "sequence + 1" ?client ok] tr st False
    show ?thesis
      unfolding plan using push False by (auto simp: client_push_def save_nal_reassembler add_ac)
  qed
qed

lemma client_run_unit:
  assumes mem: "memory_ok alloc" and unit: "unit_ok u" and limit: "2 < limit" and u: "u = (nal, timestamp, marker)"
    and st: "in_step sequence client"
  shows "\<exists>client'. client_run alloc (b, client) (number_packets ssrc sequence (unit_plan limit u)) =
          (fst (save_nal alloc client nal timestamp marker), client') \<and>
        client' = (snd (save_nal alloc client nal timestamp marker))\<lparr>cl_reassembler := cl_reassembler client'\<rparr> \<and>
        in_step (sequence + of_nat (length (unit_plan limit u))) client'"
proof -
  obtain hv where tr: "tracks (hv, 0) sequence (cl_reassembler client)" and idle: "idle (hv, 0) (cl_reassembler client)"
    using st by (auto simp: in_step_def)
  show ?thesis
  proof (cases "length nal \<le> limit")
    case True
    with push_whole [OF unit tr idle, of alloc ssrc "save_nal alloc" count_loss client] show ?thesis
      by (auto simp: unit_plan_def u client_push_def verdict_def link_gap_def in_step_def)
  next
    case False
    let ?f = "limit - 2"
    have fr: "fragment_ok u 1 ?f" and more: "1 + ?f < length (fst u)" "1 + ?f < length nal" and gt: "1 < 1 + ?f" "0 < ?f"
      using False limit by (auto simp: fragment_ok_def u)
    have plan: "unit_plan limit u = Part u 1 ?f # fragment_plan u ?f (1 + ?f)"
      using False limit by (simp add: unit_plan_def fragment_plan.simps [of _ ?f "Suc 0"] Let_def min_def u)
    obtain ok ra' where push: "rtp_h264_reassembler_push alloc (cl_reassembler client)
          (piece_packet ssrc sequence (Part u 1 ?f)) (Some (save_nal alloc)) (Some count_loss) client = (ok, ra', client)"
      and tr': "tracks (True, 0) (sequence + 1) ra'" and wi: "within u (1 + ?f) True (True, 0) ra'"
      using push_first [OF mem unit tr fr more(1), of ssrc "save_nal alloc" count_loss client]
      by (cases "rtp_h264_reassembler_push alloc (cl_reassembler client)
          (piece_packet ssrc sequence (Part u 1 ?f)) (Some (save_nal alloc)) (Some count_loss) client")
        (auto simp: link_gap_def)
    from client_run_fragments [OF mem unit gt(2) u gt(1) more(2), of "sequence + 1" "client\<lparr>cl_reassembler := ra'\<rparr>" ok ssrc]
      tr' wi
    show ?thesis
      by (auto simp: plan client_push_def push [simplified] save_nal_reassembler in_step_def add_ac)
  qed
qed

text \<open>Saving a unit appends it, with a start code, to the access unit of its timestamp.\<close>

definition fresh :: "u32 \<Rightarrow> RtpClient \<Rightarrow> bool" where
  "fresh timestamp client \<longleftrightarrow>
     (cl_have_access_unit client \<and> cl_access_unit_timestamp client = timestamp \<longrightarrow> cl_access_unit client = [])"

definition collecting :: "u32 \<Rightarrow> byte list \<Rightarrow> RtpClient \<Rightarrow> bool" where
  "collecting timestamp bs client \<longleftrightarrow> cl_have_access_unit client \<and> cl_access_unit_timestamp client = timestamp \<and>
     cl_access_unit client = bs"

lemma append_access_unit_fits:
  assumes mem: "memory_ok alloc" and inv: "access_unit_ok client"
    and fits: "length (cl_access_unit client) + length data \<le> RTP_H264_MAX_NAL"
  shows "\<exists>cap. append_access_unit alloc client data =
     (True, client\<lparr>cl_access_unit := cl_access_unit client @ data, cl_access_unit_capacity := cap\<rparr>)"
proof (cases "length (cl_access_unit client) + length data > cl_access_unit_capacity client")
  case True
  let ?needed = "length (cl_access_unit client) + length data"
  let ?c = "if cl_access_unit_capacity client \<noteq> 0 then cl_access_unit_capacity client
     else cl_access_unit_capacity_hint client"
  let ?c1 = "if ?c < 4096 \<or> ?c > RTP_H264_MAX_NAL then 4096 else ?c"
  have "grow_access_unit ?c1 ?needed \<le> RTP_H264_MAX_NAL"
    using grow_access_unit_bounds [of ?c1 ?needed] fits by (auto simp: rtp_consts)
  then have "alloc (grow_access_unit ?c1 ?needed)" using mem by (simp add: memory_ok_def rtp_consts)
  then have "append_access_unit alloc client data = (True, client\<lparr>cl_access_unit := cl_access_unit client @ data,
      cl_access_unit_capacity := grow_access_unit ?c1 ?needed\<rparr>)"
    unfolding append_access_unit_def Let_def using True fits by simp
  then show ?thesis by blast
next
  case False
  then have "append_access_unit alloc client data = (True, client\<lparr>cl_access_unit := cl_access_unit client @ data,
      cl_access_unit_capacity := cl_access_unit_capacity client\<rparr>)"
    using fits by (simp add: append_access_unit_def)
  then show ?thesis by blast
qed

lemma save_nal_fits:
  assumes mem: "memory_ok alloc" and inv: "access_unit_ok client"
    and acc: "collecting timestamp acc client \<or> fresh timestamp client \<and> acc = []"
    and fits: "length acc + length start_code + length nal \<le> RTP_H264_MAX_NAL"
  shows "\<exists>client'. save_nal alloc client nal timestamp marker = (True, client') \<and>
     collecting timestamp (acc @ start_code @ nal) client' \<and> access_unit_ok client' \<and>
     cl_fd client' = cl_fd client \<and> cl_losses client' = cl_losses client"
proof -
  let ?c1 = "if \<not> cl_have_access_unit client \<or> cl_access_unit_timestamp client \<noteq> timestamp
         then client\<lparr>cl_access_unit := [], cl_access_unit_timestamp := timestamp, cl_have_access_unit := True\<rparr> else client"
  have c1: "collecting timestamp acc ?c1" "access_unit_ok ?c1"
    using acc inv by (auto simp: collecting_def fresh_def access_unit_ok_def)
  have fits1: "length (cl_access_unit ?c1) + length start_code \<le> RTP_H264_MAX_NAL"
  proof -
    have "cl_access_unit ?c1 = acc" using c1(1) unfolding collecting_def by blast
    then show ?thesis using fits by simp
  qed
  obtain cap1 where one: "append_access_unit alloc ?c1 start_code =
      (True, ?c1\<lparr>cl_access_unit := cl_access_unit ?c1 @ start_code, cl_access_unit_capacity := cap1\<rparr>)"
    using append_access_unit_fits [OF mem c1(2) fits1] by blast
  let ?c2 = "?c1\<lparr>cl_access_unit := cl_access_unit ?c1 @ start_code, cl_access_unit_capacity := cap1\<rparr>"
  have ok2: "access_unit_ok ?c2" by (rule append_access_unit_keeps [OF c1(2) one])
  have acc2: "collecting timestamp (acc @ start_code) ?c2"
    using c1(1) by (simp add: collecting_def)
  have fits2: "length (cl_access_unit ?c2) + length nal \<le> RTP_H264_MAX_NAL"
    using acc2 fits by (simp add: collecting_def)
  obtain cap2 where two: "append_access_unit alloc ?c2 nal =
      (True, ?c2\<lparr>cl_access_unit := cl_access_unit ?c2 @ nal, cl_access_unit_capacity := cap2\<rparr>)"
    using append_access_unit_fits [OF mem ok2 fits2] by blast
  let ?c3 = "?c2\<lparr>cl_access_unit := cl_access_unit ?c2 @ nal, cl_access_unit_capacity := cap2\<rparr>"
  have "save_nal alloc client nal timestamp marker = (True, ?c3)"
    unfolding save_nal_def Let_def one prod.case two by simp
  moreover have "access_unit_ok ?c3" by (rule append_access_unit_keeps [OF ok2 two])
  moreover have "collecting timestamp (acc @ start_code @ nal) ?c3" using acc2 by (simp add: collecting_def)
  moreover have "cl_fd ?c3 = cl_fd client" "cl_losses ?c3 = cl_losses client" by simp_all
  ultimately show ?thesis by blast
qed

text \<open>The packets of one access unit.\<close>

definition au_plan :: "nat \<Rightarrow> u32 \<Rightarrow> framed \<Rightarrow> piece list" where
  "au_plan limit timestamp xs = concat (map (unit_plan limit) (mark_last timestamp xs))"

lemma au_plan_Cons:
  "au_plan limit timestamp ((long, nal) # xs) = unit_plan limit (nal, timestamp, xs = []) @ au_plan limit timestamp xs"
  by (simp add: au_plan_def)

definition framed_ok :: "framed \<Rightarrow> bool" where
  "framed_ok xs \<longleftrightarrow> xs \<noteq> [] \<and> list_all (\<lambda>(long, nal). nal_clean nal \<and> unit_ok (nal, 0, False)) xs \<and>
     length (normal_form xs) \<le> RTP_H264_MAX_NAL"

lemma unit_ok_any: "unit_ok (nal, timestamp, marker) = unit_ok (nal, 0, False)"
  by (simp add: unit_ok_def)

lemma normal_form_Cons: "normal_form ((long, nal) # xs) = start_code @ nal @ normal_form xs"
  by (simp add: normal_form_def code_of_def start_code_def)

lemma client_run_access_unit:
  assumes mem: "memory_ok alloc" and limit: "2 < limit"
  shows "xs \<noteq> [] \<Longrightarrow> list_all (\<lambda>(long, nal). unit_ok (nal, 0, False)) xs \<Longrightarrow>
     in_step sequence client \<Longrightarrow> access_unit_ok client \<Longrightarrow>
     collecting timestamp acc client \<or> fresh timestamp client \<and> acc = [] \<Longrightarrow>
     length acc + length (normal_form xs) \<le> RTP_H264_MAX_NAL \<Longrightarrow>
     \<exists>client'. client_run alloc (b, client) (number_packets ssrc sequence (au_plan limit timestamp xs)) = (True, client') \<and>
       collecting timestamp (acc @ normal_form xs) client' \<and> access_unit_ok client' \<and>
       in_step (sequence + of_nat (length (au_plan limit timestamp xs))) client' \<and>
       cl_fd client' = cl_fd client \<and> cl_losses client' = cl_losses client"
proof (induction xs arbitrary: sequence client acc b rule: annexb.induct)
  case (2 long nal xs)
  let ?u = "(nal, timestamp, xs = [])"
  have unit: "unit_ok ?u" using "2.prems"(2) unit_ok_any by auto
  have fits: "length acc + length start_code + length nal \<le> RTP_H264_MAX_NAL"
    using "2.prems"(6) by (simp add: normal_form_Cons)
  obtain c where save: "save_nal alloc client nal timestamp (xs = []) = (True, c)"
    and acc: "collecting timestamp (acc @ start_code @ nal) c" "access_unit_ok c"
    and same: "cl_fd c = cl_fd client" "cl_losses c = cl_losses client"
    using save_nal_fits [OF mem "2.prems"(4,5) fits] by blast
  obtain client1 where run: "client_run alloc (b, client) (number_packets ssrc sequence (unit_plan limit ?u)) = (True, client1)"
    and c1: "client1 = c\<lparr>cl_reassembler := cl_reassembler client1\<rparr>"
    and st: "in_step (sequence + of_nat (length (unit_plan limit ?u))) client1"
    using client_run_unit [OF mem unit limit refl "2.prems"(3), of b ssrc] save by auto
  have acc1: "collecting timestamp (acc @ start_code @ nal) client1" "access_unit_ok client1"
    and same1: "cl_fd client1 = cl_fd client" "cl_losses client1 = cl_losses client"
    using acc same by (subst c1; simp add: collecting_def access_unit_ok_def)+
  show ?case
  proof (cases "xs = []")
    case True
    with run acc1 same1 st show ?thesis
      by (intro exI [of _ client1]) (simp add: au_plan_def normal_form_def code_of_def start_code_def)
  next
    case False
    have "length (acc @ start_code @ nal) + length (normal_form xs) \<le> RTP_H264_MAX_NAL"
      and "list_all (\<lambda>(long, nal). unit_ok (nal, 0, False)) xs"
      using "2.prems"(2,6) by (simp_all add: normal_form_Cons)
    from "2.IH" [OF False this(2) st acc1(2) disjI1 [OF acc1(1)] this(1), of True]
    obtain client' where "client_run alloc (True, client1)
        (number_packets ssrc (sequence + of_nat (length (unit_plan limit ?u))) (au_plan limit timestamp xs)) = (True, client')"
      and "collecting timestamp ((acc @ start_code @ nal) @ normal_form xs) client'" "access_unit_ok client'"
      and "in_step (sequence + of_nat (length (unit_plan limit ?u)) + of_nat (length (au_plan limit timestamp xs))) client'"
      and "cl_fd client' = cl_fd client1" "cl_losses client' = cl_losses client1"
      by blast
    with run same1 show ?thesis
      by (intro exI [of _ client']) (simp add: au_plan_Cons number_packets_append normal_form_Cons add_ac)
  qed
qed simp

text \<open>Only the last packet of an access unit carries the marker bit.\<close>

definition marked_last :: "piece list \<Rightarrow> bool \<Rightarrow> bool" where
  "marked_last plan m \<longleftrightarrow> (\<exists>ps p. plan = ps @ [p] \<and> list_all (\<lambda>q. \<not> piece_marker q) ps \<and> piece_marker p = m)"

lemma marked_last_Cons: "\<not> piece_marker q \<Longrightarrow> marked_last plan m \<Longrightarrow> marked_last (q # plan) m"
proof -
  assume "\<not> piece_marker q" and "marked_last plan m"
  then obtain ps p where "plan = ps @ [p]" "list_all (\<lambda>q. \<not> piece_marker q) ps" "piece_marker p = m"
    by (auto simp: marked_last_def)
  with \<open>\<not> piece_marker q\<close> show ?thesis unfolding marked_last_def by (intro exI [of _ "q # ps"] exI [of _ p]) simp
qed

lemma marked_last_append: "marked_last ps False \<Longrightarrow> marked_last qs m \<Longrightarrow> marked_last (ps @ qs) m"
  by (fastforce simp: marked_last_def)

lemma fragment_plan_marks:
  "0 < limit \<Longrightarrow> offset < length nal \<Longrightarrow> marked_last (fragment_plan (nal, timestamp, m) limit offset) m"
proof (induction "length nal - offset" arbitrary: offset rule: less_induct)
  case less
  let ?f = "min (length nal - offset) limit"
  have plan: "fragment_plan (nal, timestamp, m) limit offset =
      Part (nal, timestamp, m) offset ?f # fragment_plan (nal, timestamp, m) limit (offset + ?f)"
    using less.prems by (simp add: fragment_plan.simps [of _ limit offset] Let_def)
  show ?case
  proof (cases "offset + ?f = length nal")
    case True
    then have "fragment_plan (nal, timestamp, m) limit (offset + ?f) = []" by (simp add: fragment_plan.simps)
    with True show ?thesis unfolding plan marked_last_def by (intro exI [of _ "[]"]) simp
  next
    case False
    then have "length nal - (offset + ?f) < length nal - offset" "offset + ?f < length nal" using less.prems by auto
    with less.hyps less.prems(1) have "marked_last (fragment_plan (nal, timestamp, m) limit (offset + ?f)) m" by blast
    with False show ?thesis unfolding plan by (intro marked_last_Cons) simp_all
  qed
qed

lemma unit_plan_marks: "2 < limit \<Longrightarrow> nal \<noteq> [] \<Longrightarrow> marked_last (unit_plan limit (nal, timestamp, m)) m"
  using fragment_plan_marks [of "limit - 2" 1 nal timestamp m]
  by (auto simp: unit_plan_def) (auto simp: marked_last_def)

lemma au_plan_marks:
  "2 < limit \<Longrightarrow> xs \<noteq> [] \<Longrightarrow> list_all (\<lambda>(long, nal). unit_ok (nal, 0, False)) xs \<Longrightarrow>
     marked_last (au_plan limit timestamp xs) True"
proof (induction xs rule: annexb.induct)
  case (2 long nal xs)
  have "marked_last (unit_plan limit (nal, timestamp, xs = [])) (xs = [])"
    using 2 by (intro unit_plan_marks) (auto simp: unit_ok_def)
  with 2 show ?case
    by (cases "xs = []") (auto simp: au_plan_Cons intro: marked_last_append, simp add: au_plan_def)
qed simp

section \<open>One read\<close>

definition unmarked_packet :: "byte list \<Rightarrow> bool" where
  "unmarked_packet p \<longleftrightarrow> p \<noteq> [] \<and> length p \<le> RTP_CLIENT_PACKET_SIZE \<and> p ! 1 AND 0x80 = 0"

lemma read_unmarked:
  "list_all unmarked_packet ps \<Longrightarrow>
     read_h264_loop alloc client (map Data ps @ evs) = read_h264_loop alloc (snd (client_run alloc (b, client) ps)) evs"
proof (induction ps arbitrary: client b)
  case (Cons p ps)
  obtain ok c where push: "client_push alloc client p = (ok, c)" by (rule prod.exhaust)
  have "read_h264_loop alloc client (map Data (p # ps) @ evs) = read_h264_loop alloc c (map Data ps @ evs)"
    using Cons.prems by (simp add: unmarked_packet_def push)
  also have "\<dots> = read_h264_loop alloc (snd (client_run alloc (ok, c) ps)) evs"
    using Cons.IH [of c ok] Cons.prems by simp
  finally show ?case by (simp add: push)
qed simp

lemma read_marked:
  "p \<noteq> [] \<Longrightarrow> length p \<le> RTP_CLIENT_PACKET_SIZE \<Longrightarrow> p ! 1 AND 0x80 \<noteq> 0 \<Longrightarrow>
     client_push alloc client p = (True, c) \<Longrightarrow> cl_access_unit c \<noteq> [] \<Longrightarrow>
     read_h264_loop alloc client (Data p # evs) = Some (Some (cl_access_unit c), snd (take_access_unit c p), evs)"
  by (simp add: take_access_unit_def)

lemma number_packets_set:
  "p \<in> set (number_packets ssrc sequence ps) \<Longrightarrow> \<exists>s q. q \<in> set ps \<and> p = piece_packet ssrc s q"
  by (induction ps arbitrary: sequence) (auto, blast)

lemma au_plan_sizes:
  "2 < limit \<Longrightarrow> list_all (\<lambda>(long, nal). unit_ok (nal, 0, False)) xs \<Longrightarrow> q \<in> set (au_plan limit timestamp xs) \<Longrightarrow>
     0 < length (piece_payload q) \<and> length (piece_payload q) \<le> limit"
proof (induction xs rule: annexb.induct)
  case (2 long nal xs)
  have "unit_ok (nal, timestamp, xs = [])" using "2.prems"(2) unit_ok_any by auto
  from unit_plan_sizes [OF this "2.prems"(1), of q] 2 show ?case by (auto simp: au_plan_Cons)
qed (simp add: au_plan_def)

lemma piece_packet_marker:
  "piece_packet ssrc s q ! 1 AND 0x80 \<noteq> 0 \<longleftrightarrow> piece_marker q"
  "length (piece_packet ssrc s q) = RTP_HEADER_SIZE + length (piece_payload q)"
  by (simp_all add: piece_packet_def)

lemma read_access_unit:
  assumes mem: "memory_ok alloc" and limit: "2 < limit" "limit \<le> 1200" and ok: "framed_ok xs"
    and st: "in_step sequence client" "access_unit_ok client" "fresh timestamp client"
  shows "\<exists>client'. read_h264_loop alloc client
        (map Data (number_packets ssrc sequence (au_plan limit timestamp xs)) @ evs) =
          Some (Some (normal_form xs), client', evs) \<and>
       in_step (sequence + of_nat (length (au_plan limit timestamp xs))) client' \<and> access_unit_ok client' \<and>
       \<not> cl_have_access_unit client' \<and> cl_fd client' = cl_fd client \<and> cl_losses client' = cl_losses client"
proof -
  let ?plan = "au_plan limit timestamp xs"
  have xs: "xs \<noteq> []" "list_all (\<lambda>(long, nal). unit_ok (nal, 0, False)) xs" "length (normal_form xs) \<le> RTP_H264_MAX_NAL"
    using ok by (auto simp: framed_ok_def list_all_iff)
  have size: "0 < length (piece_payload q) \<and> length (piece_payload q) \<le> 1200" if "q \<in> set ?plan" for q
    using au_plan_sizes [OF limit(1) xs(2) that] limit(2) by simp
  obtain ps p where plan: "?plan = ps @ [p]" and unmarked: "list_all (\<lambda>q. \<not> piece_marker q) ps" and marked: "piece_marker p"
    using au_plan_marks [OF limit(1) xs(1,2), of timestamp] by (auto simp: marked_last_def)
  let ?s = "sequence + of_nat (length ps)"
  let ?p = "piece_packet ssrc ?s p"
  have packets: "number_packets ssrc sequence ?plan = number_packets ssrc sequence ps @ [?p]"
    by (simp add: plan number_packets_append)
  obtain c where run: "client_run alloc (True, client) (number_packets ssrc sequence ?plan) = (True, c)"
    and col: "collecting timestamp (normal_form xs) c" and inv: "access_unit_ok c"
    and st': "in_step (sequence + of_nat (length ?plan)) c" and same: "cl_fd c = cl_fd client" "cl_losses c = cl_losses client"
    using client_run_access_unit [OF mem limit(1) xs(1,2) st(1,2), of timestamp "[]" True ssrc] st(3) xs(3) by auto
  let ?mid = "snd (client_run alloc (True, client) (number_packets ssrc sequence ps))"
  have push: "client_push alloc ?mid ?p = (True, c)" using run by (simp add: packets)
  have "list_all unmarked_packet (number_packets ssrc sequence ps)"
    unfolding list_all_iff
  proof
    fix r assume "r \<in> set (number_packets ssrc sequence ps)"
    then obtain s q where q: "q \<in> set ps" "r = piece_packet ssrc s q" using number_packets_set by blast
    have "r ! 1 AND 0x80 = 0" using piece_packet_marker(1) [of ssrc s q] q unmarked by (auto simp: list_all_iff)
    moreover have "q \<in> set ?plan" using q(1) plan by simp
    ultimately show "unmarked_packet r"
      using size [of q] piece_packet_marker(2) [of ssrc s q] q(2)
      by (auto simp: unmarked_packet_def rtp_consts RTP_CLIENT_PACKET_SIZE_def)
  qed
  from read_unmarked [OF this, of alloc client "[Data ?p] @ evs" True]
  have "read_h264_loop alloc client (map Data (number_packets ssrc sequence ?plan) @ evs) =
      read_h264_loop alloc ?mid (Data ?p # evs)"
    by (simp add: packets)
  moreover have "?p \<noteq> []" "length ?p \<le> RTP_CLIENT_PACKET_SIZE" "?p ! 1 AND 0x80 \<noteq> 0"
    using size [of p] piece_packet_marker [of ssrc ?s p] plan marked by (auto simp: rtp_consts RTP_CLIENT_PACKET_SIZE_def)
  moreover have "cl_access_unit c = normal_form xs" "cl_access_unit c \<noteq> []"
    using col xs(1) by (auto simp: collecting_def normal_form_def neq_Nil_conv code_of_def)
  ultimately have "read_h264_loop alloc client (map Data (number_packets ssrc sequence ?plan) @ evs) =
      Some (Some (normal_form xs), snd (take_access_unit c ?p), evs)"
    using read_marked push by metis
  moreover have "in_step (sequence + of_nat (length ?plan)) (snd (take_access_unit c ?p))"
    using st' by (simp add: in_step_def take_access_unit_def)
  moreover have "access_unit_ok (snd (take_access_unit c ?p))" by (simp add: access_unit_ok_def take_access_unit_def)
  ultimately show ?thesis using same by (auto simp: take_access_unit_def)
qed

section \<open>A stream of access units\<close>

text \<open>What the agent sends for a list of access units, and what as many reads return.\<close>

fun packetize_stream ::
  "RtpH264Packetizer \<Rightarrow> (framed \<times> u32) list \<Rightarrow> byte list list \<Rightarrow> bool \<times> RtpH264Packetizer \<times> byte list list" where
  "packetize_stream pk [] sent = (True, pk, sent)"
| "packetize_stream pk ((xs, timestamp) # aus) sent =
     (case rtp_h264_packetize_access_unit pk (annexb xs) timestamp (Some record_packet) sent of
        (ok, pk', sent') \<Rightarrow> if \<not> ok then (False, pk', sent') else packetize_stream pk' aus sent')"

fun read_stream ::
  "(nat \<Rightarrow> bool) \<Rightarrow> nat \<Rightarrow> RtpClient \<Rightarrow> recv_event list \<Rightarrow> (byte list list \<times> RtpClient \<times> recv_event list) option" where
  "read_stream alloc 0 client evs = Some ([], client, evs)"
| "read_stream alloc (Suc n) client evs =
     (case rtp_client_read_h264 alloc client evs of
        Some (Some data, client', evs') \<Rightarrow>
          (case read_stream alloc n client' evs' of
             Some (ds, client'', evs'') \<Rightarrow> Some (data # ds, client'', evs'') | None \<Rightarrow> None)
      | _ \<Rightarrow> None)"

definition streams_plan :: "RtpH264Packetizer \<Rightarrow> (framed \<times> u32) list \<Rightarrow> piece list" where
  "streams_plan pk aus = concat (map (\<lambda>(xs, timestamp). au_plan (payload_limit pk) timestamp xs) aus)"

lemma mark_last_ok: "list_all (\<lambda>(long, nal). unit_ok (nal, 0, False)) xs \<Longrightarrow> list_all unit_ok (mark_last timestamp xs)"
  by (induction xs rule: annexb.induct) (auto simp: unit_ok_def)

lemma packetize_stream_plan:
  assumes "packetizer_ok pk" and "list_all (\<lambda>(xs, timestamp). framed_ok xs) aus"
  shows "packetize_stream pk aus sent =
     (True, pk\<lparr>pk_sequence := pk_sequence pk + of_nat (length (streams_plan pk aus))\<rparr>,
      sent @ number_packets (pk_ssrc pk) (pk_sequence pk) (streams_plan pk aus))"
  using assms
proof (induction pk aus sent rule: packetize_stream.induct)
  case (1 pk sent)
  then show ?case by (simp add: streams_plan_def)
next
  case (2 pk xs timestamp aus sent)
  let ?plan = "au_plan (payload_limit pk) timestamp xs"
  let ?pk = "pk\<lparr>pk_sequence := pk_sequence pk + of_nat (length ?plan)\<rparr>"
  let ?sent = "sent @ number_packets (pk_ssrc pk) (pk_sequence pk) ?plan"
  have xs: "xs \<noteq> []" "list_all (\<lambda>(long, nal). nal_clean nal) xs" "list_all (\<lambda>(long, nal). unit_ok (nal, 0, False)) xs"
    using "2.prems"(2) by (auto simp: framed_ok_def list_all_iff)
  have one: "rtp_h264_packetize_access_unit pk (annexb xs) timestamp (Some record_packet) sent = (True, ?pk, ?sent)"
    using packetize_access_unit_marks [OF xs(2,1)] packetize_all_plan [OF "2.prems"(1) mark_last_ok [OF xs(3)]]
    by (simp add: stream_plan_def au_plan_def)
  have "packetizer_ok ?pk" using "2.prems"(1) by (simp add: packetizer_ok_def)
  moreover have "streams_plan ?pk aus = streams_plan pk aus" by (simp add: streams_plan_def)
  moreover have "streams_plan pk ((xs, timestamp) # aus) = ?plan @ streams_plan pk aus" by (simp add: streams_plan_def)
  ultimately show ?case
    using "2.IH" [OF one [symmetric] refl] "2.prems"(2) by (simp add: one number_packets_append add_ac)
qed

lemma read_stream_plan:
  assumes mem: "memory_ok alloc" and pk: "packetizer_ok pk" and fd: "0 \<le> cl_fd client"
    and ok: "list_all (\<lambda>(xs, timestamp). framed_ok xs) aus"
    and st: "in_step sequence client" "access_unit_ok client" "\<not> cl_have_access_unit client"
  shows "\<exists>client'. read_stream alloc (length aus) client
       (map Data (number_packets ssrc sequence (streams_plan pk aus)) @ evs) =
         Some (map (\<lambda>(xs, timestamp). normal_form xs) aus, client', evs) \<and> cl_losses client' = cl_losses client"
  using fd ok st
proof (induction aus arbitrary: client sequence)
  case Nil
  then show ?case by (simp add: streams_plan_def)
next
  case (Cons au aus)
  obtain xs timestamp where au: "au = (xs, timestamp)" by (rule prod.exhaust)
  let ?plan = "au_plan (payload_limit pk) timestamp xs"
  let ?rest = "map Data (number_packets ssrc (sequence + of_nat (length ?plan)) (streams_plan pk aus)) @ evs"
  have limit: "2 < payload_limit pk" "payload_limit pk \<le> 1200" using pk by (auto simp: packetizer_ok_def rtp_consts)
  have "framed_ok xs" using Cons.prems(2) au by simp
  moreover have "fresh timestamp client" using Cons.prems(5) by (simp add: fresh_def)
  ultimately obtain c where read: "read_h264_loop alloc client (map Data (number_packets ssrc sequence ?plan) @ ?rest) =
      Some (Some (normal_form xs), c, ?rest)"
    and st': "in_step (sequence + of_nat (length ?plan)) c" "access_unit_ok c" "\<not> cl_have_access_unit c"
    and same: "cl_fd c = cl_fd client" "cl_losses c = cl_losses client"
    using read_access_unit [OF mem limit _ Cons.prems(3,4)] by blast
  have "0 \<le> cl_fd c" "list_all (\<lambda>(xs, timestamp). framed_ok xs) aus" using Cons.prems(1,2) same by simp_all
  from Cons.IH [OF this st'] obtain c' where
    "read_stream alloc (length aus) c ?rest = Some (map (\<lambda>(xs, timestamp). normal_form xs) aus, c', evs)"
    and "cl_losses c' = cl_losses c"
    by blast
  moreover have "map Data (number_packets ssrc sequence (streams_plan pk (au # aus))) @ evs =
      map Data (number_packets ssrc sequence ?plan) @ ?rest"
    by (simp add: streams_plan_def au number_packets_append)
  moreover have "rtp_client_read_h264 alloc client (map Data (number_packets ssrc sequence ?plan) @ ?rest) =
      Some (Some (normal_form xs), c, ?rest)"
    using read Cons.prems(1) by (simp add: rtp_client_read_h264_def)
  ultimately show ?case using same(2) by (intro exI [of _ c']) (simp del: map_append add: au)
qed

section \<open>Properties\<close>

text \<open>
  C2: The access units the agent's encoder produces reach the gateway intact. Take any list of
  Annex-B access units whose NAL units obey the byte stream format, whatever mix of start codes they
  use, and whatever the MTU and the first sequence number are. The agent accepts them all, and that
  many reads of a freshly opened client return them in order, NAL unit by NAL unit, each behind a
  four-byte start code; no loss is counted and no datagram is left over.
\<close>

theorem access_units_end_to_end:
  assumes "packetizer_ok pk" and "memory_ok alloc" and "list_all (\<lambda>(xs, timestamp). framed_ok xs) aus"
    and "rtp_client_open os client port = (True, opened, closed)"
  shows "fst (packetize_stream pk aus []) \<and>
     (\<exists>client'. read_stream alloc (length aus) opened (map Data (snd (snd (packetize_stream pk aus [])))) =
        Some (map (\<lambda>(xs, timestamp). normal_form xs) aus, client', []) \<and> cl_losses client' = 0)"
proof -
  have "0 \<le> cl_fd opened" "in_step (pk_sequence pk) opened" "access_unit_ok opened" "\<not> cl_have_access_unit opened"
    "cl_losses opened = 0"
    using assms(4) init_idle(1) [of "pk_sequence pk"] init_idle(2)
    by (auto simp: rtp_client_open_def closed_client_def in_step_def access_unit_ok_def Let_def rtp_consts
        split: if_splits option.splits)
  with read_stream_plan [OF assms(2,1) _ assms(3), where client = opened and sequence = "pk_sequence pk"
      and ssrc = "pk_ssrc pk" and evs = "[]"]
  show ?thesis by (simp add: packetize_stream_plan [OF assms(1,3)])
qed

definition sample_aus :: "(framed \<times> u32) list" where
  "sample_aus = [([(True, [0x67, 1, 2]), (False, [0x68, 3]), (True, 0x65 # replicate 9 0xaa)], 1000), ([(False, [0x41, 9])], 4000)]"

definition sample_setup :: socket_setup where
  "sample_setup = \<lparr>su_socket = 5, su_buffer = Some 8388608, su_timeout_ok = True, su_bind_ok = True\<rparr>"

theorem access_units_end_to_end_witness:
  "list_all (\<lambda>(xs, timestamp). framed_ok xs) sample_aus \<and>
   fst (rtp_client_open sample_setup closed_client 5004) \<and>
   (\<exists>client'. read_stream (\<lambda>_. True) 2 (fst (snd (rtp_client_open sample_setup closed_client 5004)))
        (map Data (snd (snd (packetize_stream sample_pk sample_aus [])))) =
      Some ([[0, 0, 0, 1, 0x67, 1, 2, 0, 0, 0, 1, 0x68, 3, 0, 0, 0, 1, 0x65] @ replicate 9 0xaa,
             [0, 0, 0, 1, 0x41, 9]], client', []))"
proof -
  have ok: "list_all (\<lambda>(xs, timestamp). framed_ok xs) sample_aus"
    by (simp add: sample_aus_def framed_ok_def nal_clean_nonzero unit_ok_def normal_form_def code_of_def rtp_consts)
  have mem: "memory_ok (\<lambda>_. True)" by (simp add: memory_ok_def)
  have opened: "rtp_client_open sample_setup closed_client 5004 =
      (True, fst (snd (rtp_client_open sample_setup closed_client 5004)), [])"
    by (simp add: rtp_client_open_def sample_setup_def Let_def)
  have "length sample_aus = 2" "map (\<lambda>(xs, timestamp). normal_form xs) sample_aus =
      [[0, 0, 0, 1, 0x67, 1, 2, 0, 0, 0, 1, 0x68, 3, 0, 0, 0, 1, 0x65] @ replicate 9 0xaa, [0, 0, 0, 1, 0x41, 9]]"
    by (simp_all add: sample_aus_def normal_form_def code_of_def)
  moreover have "fst (rtp_client_open sample_setup closed_client 5004)" by (subst opened) simp
  ultimately show ?thesis using access_units_end_to_end [OF sample_pk_ok mem ok opened] ok by (simp only:) blast
qed

end
