(* ===== verification/H264.thy ===== *)
theory H264
  imports AccessUnit
begin

text \<open>
  H.264 helpers of the gateway (\<open>h264.h\<close>, \<open>h264.c\<close>): which NAL unit types an access unit holds,
  copying one NAL unit out of it, and caching SPS and PPS so that an IDR access unit that lacks them
  can be completed. The theory shows that on well-formed access units these scans see exactly the
  NAL units that are there.
\<close>

section \<open>Start codes and types\<close>

definition h264_has_annexb_start_code :: "byte list \<Rightarrow> bool" where
  "h264_has_annexb_start_code data \<longleftrightarrow>
     length data \<ge> 3 \<and> data ! 0 = 0 \<and> data ! 1 = 0 \<and>
     (data ! 2 = 1 \<or> (length data \<ge> 4 \<and> data ! 2 = 0 \<and> data ! 3 = 1))"

text \<open>The loop of \<open>h264_nal_type_mask\<close> from one index on.\<close>

definition mask_start_length :: "byte list \<Rightarrow> nat \<Rightarrow> nat" where
  "mask_start_length data index =
     (if data ! index = 0 \<and> data ! (index + 1) = 0 \<and> data ! (index + 2) = 1 then 3
      else if index + 4 < length data \<and> data ! index = 0 \<and> data ! (index + 1) = 0 \<and>
              data ! (index + 2) = 0 \<and> data ! (index + 3) = 1 then 4
      else 0)"

function nal_type_mask_from :: "byte list \<Rightarrow> nat \<Rightarrow> u32 \<Rightarrow> u32" where
  "nal_type_mask_from data index seen =
     (if index + 3 < length data then
        let start_length = mask_start_length data index;
            seen' = (if start_length \<noteq> 0 \<and> index + start_length < length data
                     then seen OR push_bit (unat (data ! (index + start_length) AND 0x1f)) 1 else seen)
        in nal_type_mask_from data (index + 1) seen'
      else seen)"
  by pat_completeness auto
termination
  by (relation "measure (\<lambda>(data, index, seen). length data - index)") auto

declare nal_type_mask_from.simps [simp del]

definition h264_nal_type_mask :: "byte list \<Rightarrow> u32" where
  "h264_nal_type_mask data = nal_type_mask_from data 0 0"

definition h264_contains_nal_type :: "byte list \<Rightarrow> byte \<Rightarrow> bool" where
  "h264_contains_nal_type data type \<longleftrightarrow>
     type < 32 \<and> h264_nal_type_mask data AND push_bit (unat type) 1 \<noteq> 0"

section \<open>Copies\<close>

text \<open>\<open>size_t\<close> arithmetic; \<open>h264_copy_annexb\<close> is given by the bytes it writes to the destination.\<close>

definition h264_annexb_size :: "byte list \<Rightarrow> nat" where
  "h264_annexb_size data =
     (if length data = 0 then 0
      else (length data + (if h264_has_annexb_start_code data then 0 else 4)) mod (SIZE_MAX + 1))"

definition h264_copy_annexb :: "byte list \<Rightarrow> byte list" where
  "h264_copy_annexb data =
     (if data = [] then []
      else if h264_has_annexb_start_code data then data
      else [0, 0, 0, 1] @ data)"

definition nal_start :: "byte list \<Rightarrow> nat \<Rightarrow> nat option" where
  "nal_start data index =
     (if index + 3 \<ge> length data \<or> data ! index \<noteq> 0 \<or> data ! (index + 1) \<noteq> 0 then None
      else if data ! (index + 2) = 1 then Some 3
      else if index + 4 < length data \<and> data ! (index + 2) = 0 \<and> data ! (index + 3) = 1 then Some 4
      else None)"

text \<open>The inner loop of \<open>find_nal\<close>, which looks for the next start code.\<close>

function nal_end :: "byte list \<Rightarrow> nat \<Rightarrow> nat" where
  "nal_end data e =
     (if e + 2 < length data \<and> nal_start data e = None then nal_end data (e + 1) else e)"
  by pat_completeness auto
termination
  by (relation "measure (\<lambda>(data, e). length data - e)") auto

declare nal_end.simps [simp del]

function find_nal_from :: "byte list \<Rightarrow> byte \<Rightarrow> nat \<Rightarrow> (nat \<times> nat) option" where
  "find_nal_from data type index =
     (if index + 3 < length data then
        (case nal_start data index of
           None \<Rightarrow> find_nal_from data type (index + 1)
         | Some start_length \<Rightarrow>
             if index + start_length \<ge> length data \<or> data ! (index + start_length) AND 0x1f \<noteq> type
             then find_nal_from data type (index + 1)
             else
               let e = nal_end data (index + start_length + 1);
                   e' = (if e + 2 \<ge> length data then length data else e)
               in Some (index, e' - index))
      else None)"
  by pat_completeness auto
termination
  by (relation "measure (\<lambda>(data, type, index). length data - index)") auto

declare find_nal_from.simps [simp del]

definition find_nal :: "byte list \<Rightarrow> byte \<Rightarrow> (nat \<times> nat) option" where
  "find_nal data type = find_nal_from data type 0"

section \<open>Parameter sets\<close>

text \<open>
  A buffer holds the bytes of its current content, or nothing while its pointer is null; its
  \<open>length\<close> is the length of the content. \<open>alloc n\<close> tells whether an allocation of \<open>n\<close> bytes succeeds.
\<close>

record H264Buffer =
  hb_data :: "byte list option"
  hb_capacity :: nat

record H264ParameterSets =
  ps_sps :: H264Buffer
  ps_pps :: H264Buffer
  ps_scratch :: H264Buffer

definition empty_buffer :: H264Buffer where
  "empty_buffer = \<lparr>hb_data = None, hb_capacity = 0\<rparr>"

definition empty_parameter_sets :: H264ParameterSets where
  "empty_parameter_sets = \<lparr>ps_sps = empty_buffer, ps_pps = empty_buffer, ps_scratch = empty_buffer\<rparr>"

definition buffer_copy_nal :: "(nat \<Rightarrow> bool) \<Rightarrow> H264Buffer \<Rightarrow> byte list \<Rightarrow> byte \<Rightarrow> bool \<times> H264Buffer" where
  "buffer_copy_nal alloc buffer data type =
     (case find_nal data type of
        None \<Rightarrow> (False, buffer)
      | Some (start, nal_length) \<Rightarrow>
          if nal_length > hb_capacity buffer then
            (if \<not> alloc nal_length then (False, buffer)
             else (True, \<lparr>hb_data = Some (take nal_length (drop start data)), hb_capacity = nal_length\<rparr>))
          else (True, buffer\<lparr>hb_data := Some (take nal_length (drop start data))\<rparr>))"

definition h264_parameter_sets_update ::
  "(nat \<Rightarrow> bool) \<Rightarrow> H264ParameterSets \<Rightarrow> byte list \<Rightarrow> u32 \<Rightarrow> H264ParameterSets" where
  "h264_parameter_sets_update alloc ps au nal_mask =
     (let ps1 = (if nal_mask AND push_bit 7 1 \<noteq> 0
                 then ps\<lparr>ps_sps := snd (buffer_copy_nal alloc (ps_sps ps) au 7)\<rparr> else ps)
      in if nal_mask AND push_bit 8 1 \<noteq> 0
         then ps1\<lparr>ps_pps := snd (buffer_copy_nal alloc (ps_pps ps1) au 8)\<rparr> else ps1)"

definition cached_size :: "bool \<Rightarrow> H264Buffer \<Rightarrow> nat" where
  "cached_size present buffer =
     (case hb_data buffer of None \<Rightarrow> 0 | Some d \<Rightarrow> if present then 0 else h264_annexb_size d)"

text \<open>The result is the data the output points to, if the call succeeds.\<close>

definition h264_parameter_sets_prepare_idr ::
  "(nat \<Rightarrow> bool) \<Rightarrow> H264ParameterSets \<Rightarrow> byte list \<Rightarrow> u32 \<Rightarrow> byte list option \<times> H264ParameterSets" where
  "h264_parameter_sets_prepare_idr alloc ps au nal_mask =
     (let has_sps = (nal_mask AND push_bit 7 1 \<noteq> 0);
          has_pps = (nal_mask AND push_bit 8 1 \<noteq> 0);
          sps_size = cached_size has_sps (ps_sps ps);
          pps_size = cached_size has_pps (ps_pps ps)
      in if sps_size > SIZE_MAX - pps_size \<or> sps_size + pps_size > SIZE_MAX - length au then (None, ps)
         else if sps_size = 0 \<and> pps_size = 0 then (Some au, ps)
         else
           let combined_length = sps_size + pps_size + length au;
               grow = (combined_length > hb_capacity (ps_scratch ps))
           in if grow \<and> \<not> alloc combined_length \<and> combined_length \<noteq> 0 then (None, ps)
              else
                let out = (if sps_size \<noteq> 0 then h264_copy_annexb (the (hb_data (ps_sps ps))) else []) @
                          (if pps_size \<noteq> 0 then h264_copy_annexb (the (hb_data (ps_pps ps))) else []) @ au
                in (Some out,
                    ps\<lparr>ps_scratch := \<lparr>hb_data = Some out,
                        hb_capacity = (if grow then combined_length else hb_capacity (ps_scratch ps))\<rparr>\<rparr>))"

definition h264_parameter_sets_free :: "H264ParameterSets \<Rightarrow> H264ParameterSets" where
  "h264_parameter_sets_free ps = empty_parameter_sets"

definition h264_ensure_annexb ::
  "(nat \<Rightarrow> bool) \<Rightarrow> H264Buffer \<Rightarrow> byte list \<Rightarrow> byte list option \<times> H264Buffer" where
  "h264_ensure_annexb alloc buffer data =
     (if data = [] \<or> h264_has_annexb_start_code data then (Some data, buffer)
      else
        let needed = h264_annexb_size data in
        if needed < length data then (None, buffer)
        else if needed > hb_capacity buffer then
          (if \<not> alloc needed then (None, buffer)
           else (Some (h264_copy_annexb data), \<lparr>hb_data = Some (h264_copy_annexb data), hb_capacity = needed\<rparr>))
        else (Some (h264_copy_annexb data), buffer\<lparr>hb_data := Some (h264_copy_annexb data)\<rparr>))"

definition h264_buffer_free :: "H264Buffer \<Rightarrow> H264Buffer" where
  "h264_buffer_free buffer = empty_buffer"

text \<open>The scan of \<open>h264_copy_nal\<close> repeats that of \<open>find_nal\<close>; the destination is replaced.\<close>

definition h264_copy_nal ::
  "(nat \<Rightarrow> bool) \<Rightarrow> byte list option \<Rightarrow> byte list \<Rightarrow> byte \<Rightarrow> bool \<times> byte list option" where
  "h264_copy_nal alloc destination data type =
     (case find_nal data type of
        None \<Rightarrow> (False, destination)
      | Some (start, nal_length) \<Rightarrow>
          if \<not> alloc nal_length then (False, destination)
          else (True, Some (take nal_length (drop start data))))"

section \<open>The scans on well-formed access units\<close>

definition nal_type :: "byte list \<Rightarrow> byte" where
  "nal_type nal = nal ! 0 AND 0x1f"

definition clean_units :: "framed \<Rightarrow> bool" where
  "clean_units xs \<longleftrightarrow> list_all (\<lambda>(long, nal). nal_clean nal) xs"

text \<open>No scan reacts where there is no start code.\<close>

lemma quiet_position:
  assumes "start_code_length data j = 0"
  shows "j + 3 < length data \<Longrightarrow> mask_start_length data j = 0" and "nal_start data j = None"
  using assms by (auto simp: start_code_length_def mask_start_length_def nal_start_def split: if_splits)

lemma mask_skip:
  "(\<And>j. a \<le> j \<Longrightarrow> j < b \<Longrightarrow> start_code_length data j = 0) \<Longrightarrow> a \<le> b \<Longrightarrow> b \<le> length data \<Longrightarrow>
     nal_type_mask_from data a seen = nal_type_mask_from data b seen"
proof (induction "b - a" arbitrary: a)
  case (Suc n)
  then have IH: "nal_type_mask_from data (a + 1) seen = nal_type_mask_from data b seen" by simp
  show ?case
  proof (cases "a + 3 < length data")
    case True
    then have "mask_start_length data a = 0" using Suc by (intro quiet_position) auto
    with IH True show ?thesis by (simp add: nal_type_mask_from.simps [of data a])
  next
    case False
    then show ?thesis using Suc.prems(2) by (simp add: nal_type_mask_from.simps)
  qed
qed simp

lemma find_skip:
  "(\<And>j. a \<le> j \<Longrightarrow> j < b \<Longrightarrow> start_code_length data j = 0) \<Longrightarrow> a \<le> b \<Longrightarrow> b \<le> length data \<Longrightarrow>
     find_nal_from data type a = find_nal_from data type b"
proof (induction "b - a" arbitrary: a)
  case (Suc n)
  then have IH: "find_nal_from data type (a + 1) = find_nal_from data type b" by simp
  show ?case
  proof (cases "a + 3 < length data")
    case True
    then have "nal_start data a = None" using Suc by (intro quiet_position) auto
    with IH True show ?thesis by (simp add: find_nal_from.simps [of data type a])
  next
    case False
    then show ?thesis using Suc.prems(2) by (simp add: find_nal_from.simps)
  qed
qed simp

lemma nal_end_skip:
  "(\<And>j. a \<le> j \<Longrightarrow> j < b \<Longrightarrow> start_code_length data j = 0) \<Longrightarrow> a \<le> b \<Longrightarrow> b \<le> length data \<Longrightarrow>
     (if nal_start data b \<noteq> None then nal_end data a = b else b = length data \<longrightarrow> length data \<le> nal_end data a + 2)"
proof (induction "b - a" arbitrary: a)
  case 0
  then have "a = b" by simp
  then show ?case by (auto simp: nal_end.simps [of data b] nal_end.simps [of data "length data"])
next
  case (Suc n)
  have "n = b - (a + 1)" "a + 1 \<le> b" using Suc.hyps(2) by auto
  then have IH: "if nal_start data b \<noteq> None then nal_end data (a + 1) = b
      else b = length data \<longrightarrow> length data \<le> nal_end data (a + 1) + 2"
    using Suc.hyps(1) [of "a + 1"] Suc.prems by fastforce
  have none: "nal_start data a = None" using Suc by (intro quiet_position) auto
  show ?case
  proof (cases "a + 2 < length data")
    case True
    with IH none show ?thesis by (auto simp: nal_end.simps [of data a] split: if_splits)
  next
    case False
    then have "nal_start data b = None" using Suc.prems(2) by (simp add: nal_start_def)
    with False show ?thesis by (simp add: nal_end.simps [of data a])
  qed
qed

text \<open>A NAL unit in the middle of a stream: its start code, and nothing else, makes the scans react.\<close>

abbreviation at_unit :: "byte list \<Rightarrow> bool \<Rightarrow> byte list \<Rightarrow> byte list \<Rightarrow> byte list" where
  "at_unit pre long nal post \<equiv> pre @ code_of long @ nal @ post"

lemma scan_shift:
  "start_code_length (pre @ d) (length pre + k) = start_code_length d k"
  "nal_start (pre @ d) (length pre + k) = nal_start d k"
  "mask_start_length (pre @ d) (length pre + k) = mask_start_length d k"
  unfolding start_code_length_def nal_start_def mask_start_length_def add.assoc nth_append_length_plus length_append
  by simp_all

lemma unit_start:
  assumes "nal \<noteq> []"
  shows "nal_start (at_unit pre long nal post) (length pre) = Some (length (code_of long))"
    and "mask_start_length (at_unit pre long nal post) (length pre) = length (code_of long)"
    and "at_unit pre long nal post ! (length pre + length (code_of long)) = nal ! 0"
proof -
  have h: "(nal @ post) ! 0 = nal ! 0" using assms by (cases nal) auto
  show "nal_start (at_unit pre long nal post) (length pre) = Some (length (code_of long))"
    using scan_shift(2) [of pre "code_of long @ nal @ post" 0] assms by (simp add: nal_start_def code_of_def)
  show "mask_start_length (at_unit pre long nal post) (length pre) = length (code_of long)"
    using scan_shift(3) [of pre "code_of long @ nal @ post" 0] assms by (simp add: mask_start_length_def code_of_def)
  have "at_unit pre long nal post ! (length pre + length (code_of long)) = (nal @ post) ! 0"
    unfolding nth_append_length_plus by (metis add.right_neutral nth_append_length_plus)
  then show "at_unit pre long nal post ! (length pre + length (code_of long)) = nal ! 0" unfolding h .
qed

lemma unit_start_inner:
  assumes "nal \<noteq> []"
  shows "nal_start (at_unit pre True nal post) (length pre + 1) = Some 3"
    and "mask_start_length (at_unit pre True nal post) (length pre + 1) = 3"
    and "at_unit pre True nal post ! (length pre + 1 + 3) = nal ! 0"
proof -
  show "nal_start (at_unit pre True nal post) (length pre + 1) = Some 3"
    using assms unfolding scan_shift by (simp add: nal_start_def code_of_def)
  show "mask_start_length (at_unit pre True nal post) (length pre + 1) = 3"
    using assms unfolding scan_shift by (simp add: mask_start_length_def code_of_def)
  have "length pre + 1 + 3 = length pre + length (code_of True)" by (simp add: code_of_def)
  then show "at_unit pre True nal post ! (length pre + 1 + 3) = nal ! 0"
    using unit_start(3) [OF assms] by metis
qed

lemma unit_quiet:
  assumes clean: "nal_clean nal" and j: "length pre + (if long then 2 else 1) \<le> j"
    "j < length pre + length (code_of long) + length nal"
  shows "start_code_length (at_unit pre long nal (annexb xs)) j = 0"
proof (cases "j < length pre + length (code_of long)")
  case True
  define k where "k = j - length pre"
  have j: "j = length pre + k" using j(1) by (simp add: k_def)
  have "k = (if long then 2 else 1) \<or> k = (if long then 3 else 2)"
    using assms(2) True by (auto simp: code_of_def k_def split: if_splits)
  then show ?thesis
    unfolding j scan_shift by (auto simp: start_code_length_def code_of_def split: if_splits)
next
  case False
  then show ?thesis
    using no_start_code_inside [OF clean, of "j - length (pre @ code_of long)" "pre @ code_of long" "annexb xs"] j(2)
    by simp
qed

lemma mask_unit:
  assumes clean: "nal_clean nal"
  shows "nal_type_mask_from (at_unit pre long nal (annexb xs)) (length pre) seen =
     nal_type_mask_from (at_unit pre long nal (annexb xs)) (length pre + length (code_of long) + length nal)
       (seen OR push_bit (unat (nal_type nal)) 1)"
proof -
  let ?d = "at_unit pre long nal (annexb xs)"
  have ne: "nal \<noteq> []" "0 < length nal" using clean by (auto simp: nal_clean_def)
  have one: "nal_type_mask_from ?d (length pre) seen =
      nal_type_mask_from ?d (length pre + 1) (seen OR push_bit (unat (nal_type nal)) 1)"
    using unit_start [OF ne(1), of pre long "annexb xs"] ne(2)
    by (subst nal_type_mask_from.simps) (auto simp: Let_def nal_type_def code_of_def)
  have two: "nal_type_mask_from ?d (length pre + 1) (seen OR push_bit (unat (nal_type nal)) 1) =
      nal_type_mask_from ?d (length pre + (if long then 2 else 1)) (seen OR push_bit (unat (nal_type nal)) 1)"
  proof (cases long)
    case True
    have "length pre + 1 + 3 < length ?d" using True ne(2) by (simp add: code_of_def)
    with True show ?thesis
      unfolding nal_type_mask_from.simps [of ?d "length pre + 1"]
      using unit_start_inner [OF ne(1), of pre "annexb xs"]
      by (simp only: Let_def nal_type_def or.assoc or.idem if_True simp_thms) simp
  qed simp
  have three: "nal_type_mask_from ?d (length pre + (if long then 2 else 1)) m =
      nal_type_mask_from ?d (length pre + length (code_of long) + length nal) m" for m
  proof (rule mask_skip)
    show "length pre + (if long then 2 else 1) \<le> length pre + length (code_of long) + length nal" by (simp add: code_of_def)
  qed (use unit_quiet [OF clean] in auto)
  show ?thesis unfolding one two three ..
qed

lemma nal_end_unit:
  fixes pre :: "byte list" and long :: bool
  assumes clean: "nal_clean nal" "clean_units xs"
  defines "d \<equiv> at_unit pre long nal (annexb xs)"
    and "b \<equiv> length pre + length (code_of long) + length nal"
  shows "(let e = nal_end d (length pre + length (code_of long) + 1) in if e + 2 \<ge> length d then length d else e) = b"
proof -
  have ne: "0 < length nal" using clean(1) by (auto simp: nal_clean_def)
  have "if nal_start d b \<noteq> None then nal_end d (length pre + length (code_of long) + 1) = b
      else b = length d \<longrightarrow> length d \<le> nal_end d (length pre + length (code_of long) + 1) + 2"
  proof (rule nal_end_skip)
    fix j assume "length pre + length (code_of long) + 1 \<le> j" "j < b"
    then show "start_code_length d j = 0"
      unfolding d_def b_def by (intro unit_quiet [OF clean(1)]) (auto simp: code_of_def split: if_splits)
  qed (use ne in \<open>auto simp: b_def d_def Suc_le_eq\<close>)
  moreover have "b + 3 < length d \<and> nal_start d b \<noteq> None" if more: "xs \<noteq> []"
  proof -
    obtain long' nal' xs' where xs: "xs = (long', nal') # xs'" using more by (cases xs) auto
    have "nal' \<noteq> []" using clean(2) xs by (auto simp: clean_units_def nal_clean_def)
    with unit_start(1) [OF this, of "pre @ code_of long @ nal" long' "annexb xs'"] show ?thesis
      by (cases nal') (auto simp: d_def b_def xs code_of_def Suc_le_eq)
  qed
  moreover have "b = length d" if "xs = []" using that by (simp add: d_def b_def)
  moreover have "nal_start d (length d) = None" by (simp add: nal_start_def)
  ultimately show ?thesis by (cases "xs = []") (auto simp: Let_def)
qed

lemma find_unit:
  fixes pre :: "byte list" and long :: bool
  assumes clean: "nal_clean nal" "clean_units xs"
  defines "d \<equiv> at_unit pre long nal (annexb xs)"
  shows "find_nal_from d t (length pre) =
     (if nal_type nal = t then Some (length pre, length (code_of long @ nal))
      else find_nal_from d t (length (pre @ code_of long @ nal)))"
proof -
  let ?c = "length (code_of long)"
  have ne: "nal \<noteq> []" "0 < length nal" using clean(1) by (auto simp: nal_clean_def)
  have start: "nal_start d (length pre) = Some ?c" "d ! (length pre + ?c) = nal ! 0"
    unfolding d_def using unit_start [OF ne(1)] by blast+
  have len: "length pre + ?c < length d" "length pre + 3 < length d" "3 \<le> ?c" using ne(2) by (simp_all add: d_def code_of_def)
  have e: "(if length d \<le> nal_end d (length pre + ?c + 1) + 2 then length d else nal_end d (length pre + ?c + 1)) =
      length pre + ?c + length nal"
    using nal_end_unit [OF clean, of pre long] unfolding Let_def d_def .
  have hit: "find_nal_from d t (length pre) = (if nal_type nal = t then Some (length pre, ?c + length nal)
      else find_nal_from d t (length pre + 1))"
    unfolding find_nal_from.simps [of d t "length pre"] Let_def start option.case e
    using len by (simp add: nal_type_def)
  moreover have "find_nal_from d t (length pre + 1) = find_nal_from d t (length pre + (if long then 2 else 1))"
    if "nal_type nal \<noteq> t"
  proof (cases long)
    case True
    then have d: "d = at_unit pre True nal (annexb xs)" by (simp add: d_def)
    have inner: "nal_start d (length pre + 1) = Some 3" "d ! (length pre + 1 + 3) = nal ! 0"
      unfolding d using unit_start_inner [OF ne(1)] by blast+
    have "length pre + 1 + 3 < length d" using True ne(2) by (simp add: d_def code_of_def)
    with inner that True show ?thesis
      unfolding find_nal_from.simps [of d t "length pre + 1"] by (simp add: nal_type_def)
  qed simp
  moreover have "find_nal_from d t (length pre + (if long then 2 else 1)) = find_nal_from d t (length pre + ?c + length nal)"
  proof (rule find_skip)
    show "length pre + (if long then 2 else 1) \<le> length pre + ?c + length nal" by (simp add: code_of_def)
  qed (use unit_quiet [OF clean(1)] in \<open>auto simp: d_def\<close>)
  ultimately show ?thesis by (simp add: add.assoc)
qed

lemma mask_annexb:
  "clean_units xs \<Longrightarrow> nal_type_mask_from (pre @ annexb xs) (length pre) seen =
     fold (\<lambda>(long, nal) m. m OR push_bit (unat (nal_type nal)) 1) xs seen"
proof (induction xs arbitrary: pre seen rule: annexb.induct)
  case 1
  then show ?case by (simp add: nal_type_mask_from.simps)
next
  case (2 long nal xs)
  then show ?case
    using mask_unit [of nal pre long xs seen] "2.IH" [of "pre @ code_of long @ nal"]
    by (simp add: clean_units_def add.assoc)
qed

text \<open>The first NAL unit of a type, with its start code.\<close>

fun first_of :: "byte \<Rightarrow> framed \<Rightarrow> (bool \<times> byte list) option" where
  "first_of t [] = None"
| "first_of t ((long, nal) # xs) = (if nal_type nal = t then Some (long, nal) else first_of t xs)"

lemma find_annexb:
  "clean_units xs \<Longrightarrow>
     (case find_nal_from (pre @ annexb xs) t (length pre) of
        None \<Rightarrow> first_of t xs = None
      | Some (start, n) \<Rightarrow> \<exists>long nal. first_of t xs = Some (long, nal) \<and>
          take n (drop start (pre @ annexb xs)) = code_of long @ nal \<and> start + n \<le> length (pre @ annexb xs))"
proof (induction xs arbitrary: pre rule: annexb.induct)
  case 1
  then show ?case by (simp add: find_nal_from.simps)
next
  case (2 long nal xs)
  have clean: "nal_clean nal" "clean_units xs" using "2.prems" by (simp_all add: clean_units_def)
  show ?case
  proof (cases "nal_type nal = t")
    case True
    then show ?thesis using find_unit [OF clean, of pre long t] by simp
  next
    case False
    have data: "pre @ annexb ((long, nal) # xs) = (pre @ code_of long @ nal) @ annexb xs" by simp
    have fo: "first_of t ((long, nal) # xs) = first_of t xs" using False by simp
    from False have find: "find_nal_from ((pre @ code_of long @ nal) @ annexb xs) t (length pre) =
        find_nal_from ((pre @ code_of long @ nal) @ annexb xs) t (length (pre @ code_of long @ nal))"
      using find_unit [OF clean, of pre long t] by simp
    show ?thesis unfolding data fo find by (rule "2.IH" [OF clean(2)])
  qed
qed

lemma find_nal_annexb:
  assumes "clean_units xs" and "first_of t xs = Some (long, nal)"
  shows "\<exists>start n. find_nal (annexb xs) t = Some (start, n) \<and> take n (drop start (annexb xs)) = code_of long @ nal"
  using find_annexb [OF assms(1), where pre = "[]" and t = t] assms(2) by (auto simp: find_nal_def split: option.splits)

section \<open>Properties\<close>

lemma bit_fold_types:
  "bit (fold (\<lambda>(long, nal) m. m OR push_bit (unat (nal_type nal)) 1) xs seen) n \<longleftrightarrow>
     bit (seen :: u32) n \<or> n < 32 \<and> (\<exists>(long, nal)\<in>set xs. unat (nal_type nal) = n)"
proof (induction xs arbitrary: seen)
  case (Cons x xs)
  have "bit (push_bit k (1 :: u32)) n \<longleftrightarrow> n < 32 \<and> k = n" for k by (auto simp: bit_simps)
  with Cons show ?case by (cases x) (auto simp: bit_simps)
qed simp

lemma and_bit_nonzero: "(m :: u32) AND push_bit n 1 \<noteq> 0 \<longleftrightarrow> bit m n"
proof
  assume nz: "m AND push_bit n 1 \<noteq> 0"
  show "bit m n"
  proof (rule ccontr)
    assume "\<not> bit m n"
    then have "m AND push_bit n 1 = 0" by (intro bit_word_eqI) (auto simp: bit_simps)
    with nz show False ..
  qed
next
  assume "bit m n"
  then have "bit (m AND push_bit n 1) n" by (auto simp: bit_simps dest: bit_imp_le_length)
  then show "m AND push_bit n 1 \<noteq> 0" by auto
qed

lemma nal_type_range: "unat (nal_type nal) < 32"
  using byte_and_low5_less [of "nal ! 0"] by (simp add: nal_type_def word_less_nat_alt)

lemma mask_bit:
  assumes "clean_units xs"
  shows "h264_nal_type_mask (annexb xs) AND push_bit n 1 \<noteq> 0 \<longleftrightarrow> (\<exists>(long, nal)\<in>set xs. unat (nal_type nal) = n)"
proof -
  have "h264_nal_type_mask (annexb xs) = fold (\<lambda>(long, nal) m. m OR push_bit (unat (nal_type nal)) 1) xs 0"
    using mask_annexb [OF assms, of "[]" 0] by (simp add: h264_nal_type_mask_def)
  then show ?thesis
    unfolding and_bit_nonzero using nal_type_range by (auto simp only: bit_fold_types) auto
qed

text \<open>
  C13: On an access unit made of NAL units that obey the byte stream format, behind start codes of
  either length, the type mask sees exactly the NAL units that are there: a type is reported if and
  only if one of the units has it. No byte inside a unit is taken for a unit.
\<close>

theorem nal_types_exact:
  assumes "clean_units xs"
  shows "h264_contains_nal_type (annexb xs) t \<longleftrightarrow> (\<exists>(long, nal)\<in>set xs. nal_type nal = t)"
proof -
  have "nal_type nal = t \<longleftrightarrow> t < 32 \<and> unat (nal_type nal) = unat t" for nal
    using byte_and_low5_less [of "nal ! 0"] by (auto simp: nal_type_def word_unat_eq_iff word_less_nat_alt)
  with mask_bit [OF assms, of "unat t"] show ?thesis by (auto simp: h264_contains_nal_type_def)
qed

definition sample_frame :: framed where
  "sample_frame = [(True, [0x67, 1, 2]), (False, [0x68, 3]), (True, [0x65, 0, 0, 3, 1])]"

lemma sample_frame_clean: "clean_units sample_frame"
  by (simp add: clean_units_def sample_frame_def nal_clean_def upt_rec)

theorem nal_types_exact_witness:
  "clean_units sample_frame \<and> h264_contains_nal_type (annexb sample_frame) 5 \<and> h264_contains_nal_type (annexb sample_frame) 7 \<and>
   \<not> h264_contains_nal_type (annexb sample_frame) 1"
  using nal_types_exact [OF sample_frame_clean] sample_frame_clean by (simp add: sample_frame_def nal_type_def)

text \<open>An updated cache holds the first unit of each type, and it is taken over as it stands.\<close>

lemma code_of_start: "nal \<noteq> [] \<Longrightarrow> h264_has_annexb_start_code (code_of long @ nal)"
  by (simp add: h264_has_annexb_start_code_def code_of_def)

lemma cached_copy:
  assumes "nal \<noteq> []"
  shows "h264_copy_annexb (code_of long @ nal) = code_of long @ nal"
    and "length (code_of long @ nal) \<le> SIZE_MAX \<Longrightarrow> h264_annexb_size (code_of long @ nal) = length (code_of long @ nal)"
  using code_of_start [OF assms, of long] assms
  by (simp_all add: h264_copy_annexb_def h264_annexb_size_def)

lemma buffer_copy_first:
  assumes "clean_units xs" and "first_of t xs = Some (long, nal)" and "\<And>n. alloc n"
  shows "hb_data (snd (buffer_copy_nal alloc buffer (annexb xs) t)) = Some (code_of long @ nal)"
  using find_nal_annexb [OF assms(1,2)] assms(3) by (auto simp: buffer_copy_nal_def)

lemma first_of_member: "first_of t xs = Some (long, nal) \<Longrightarrow> (long, nal) \<in> set xs \<and> nal_type nal = t"
  by (induction t xs rule: first_of.induct) (auto split: if_splits)

lemma has_type_first:
  assumes "clean_units xs" and "n < 256"
  shows "h264_nal_type_mask (annexb xs) AND push_bit n 1 \<noteq> 0 \<longleftrightarrow> first_of (of_nat n) xs \<noteq> None"
proof -
  have "unat (nal_type nal) = n \<longleftrightarrow> nal_type nal = of_nat n" for nal
    using assms(2) by (auto simp: word_unat_eq_iff unsigned_of_nat take_bit_nat_eq_self)
  moreover have "first_of t xs \<noteq> None \<longleftrightarrow> (\<exists>(long, nal)\<in>set xs. nal_type nal = t)" for t
    by (induction t xs rule: first_of.induct) auto
  ultimately show ?thesis using mask_bit [OF assms(1), of n] by simp
qed

lemma update_caches:
  fixes ps :: H264ParameterSets
  assumes "clean_units xs" and "first_of 7 xs = Some (l7, sps)" and "first_of 8 xs = Some (l8, pps)" and "\<And>n. alloc n"
  defines "ps' \<equiv> h264_parameter_sets_update alloc ps (annexb xs) (h264_nal_type_mask (annexb xs))"
  shows "hb_data (ps_sps ps') = Some (code_of l7 @ sps)" and "hb_data (ps_pps ps') = Some (code_of l8 @ pps)"
proof -
  let ?m = "h264_nal_type_mask (annexb xs)"
  have "?m AND push_bit 7 1 \<noteq> 0" "?m AND push_bit 8 1 \<noteq> 0"
    using assms(2,3) has_type_first [OF assms(1), of 7] has_type_first [OF assms(1), of 8] by simp_all
  then show "hb_data (ps_sps ps') = Some (code_of l7 @ sps)" "hb_data (ps_pps ps') = Some (code_of l8 @ pps)"
    using buffer_copy_first [OF assms(1,2,4)] buffer_copy_first [OF assms(1,3,4)]
    by (simp_all only: ps'_def h264_parameter_sets_update_def Let_def if_True simp_thms) simp_all
qed

text \<open>The units put in front of an access unit that lacks a parameter set.\<close>

definition missing :: "byte \<Rightarrow> framed \<Rightarrow> bool \<times> byte list \<Rightarrow> framed" where
  "missing t xs cached = (if first_of t xs = None then [cached] else [])"

text \<open>
  C12: Once an access unit with an SPS and a PPS has been cached, every later access unit is prepared
  so that a decoder can start on it: what comes out is the access unit with the cached SPS in front
  if it has no SPS of its own, and the cached PPS if it has no PPS of its own, each whole and with
  its start code, and nothing else of the cached access unit.
\<close>

theorem idr_completed_from_cache:
  assumes "clean_units cached" and "clean_units xs"
    and "first_of 7 cached = Some (l7, sps)" and "first_of 8 cached = Some (l8, pps)"
    and "\<And>n. alloc n"
    and "length (annexb ((l7, sps) # (l8, pps) # xs)) \<le> SIZE_MAX"
  shows "fst (h264_parameter_sets_prepare_idr alloc
        (h264_parameter_sets_update alloc ps (annexb cached) (h264_nal_type_mask (annexb cached)))
        (annexb xs) (h264_nal_type_mask (annexb xs))) =
     Some (annexb (missing 7 xs (l7, sps) @ missing 8 xs (l8, pps) @ xs))"
proof -
  let ?ps = "h264_parameter_sets_update alloc ps (annexb cached) (h264_nal_type_mask (annexb cached))"
  note cache = update_caches [OF assms(1,3,4), of alloc ps, OF assms(5)]
  have ne: "sps \<noteq> []" "pps \<noteq> []"
    using first_of_member [OF assms(3)] first_of_member [OF assms(4)] assms(1)
    by (auto simp: clean_units_def list_all_iff nal_clean_def)
  have size: "h264_annexb_size (code_of l7 @ sps) = length (code_of l7 @ sps)"
    "h264_annexb_size (code_of l8 @ pps) = length (code_of l8 @ pps)"
    using assms(6) by (intro cached_copy(2) ne; simp)+
  have present: "h264_nal_type_mask (annexb xs) AND push_bit 7 1 \<noteq> 0 \<longleftrightarrow> first_of 7 xs \<noteq> None"
    "h264_nal_type_mask (annexb xs) AND push_bit 8 1 \<noteq> 0 \<longleftrightarrow> first_of 8 xs \<noteq> None"
    using has_type_first [OF assms(2), of 7] has_type_first [OF assms(2), of 8] by simp_all
  have pos: "0 < length (code_of l)" for l by (simp add: code_of_def)
  have sizes: "cached_size (first_of 7 xs \<noteq> None) (ps_sps ?ps) = length (annexb (missing 7 xs (l7, sps)))"
    "cached_size (first_of 8 xs \<noteq> None) (ps_pps ?ps) = length (annexb (missing 8 xs (l8, pps)))"
    by (simp_all add: cached_size_def cache size missing_def del: length_append) auto
  have guard: "\<not> (length (annexb (missing 7 xs (l7, sps))) > SIZE_MAX - length (annexb (missing 8 xs (l8, pps))) \<or>
      length (annexb (missing 7 xs (l7, sps))) + length (annexb (missing 8 xs (l8, pps))) > SIZE_MAX - length (annexb xs))"
    using assms(6) by (auto simp: missing_def)
  show ?thesis
    unfolding h264_parameter_sets_prepare_idr_def present sizes Let_def if_not_P [OF guard]
    using pos [of l7] pos [of l8]
    by (cases "first_of 7 xs"; cases "first_of 8 xs") (simp_all add: missing_def cache assms(5) cached_copy(1) ne)
qed

theorem idr_completed_from_cache_witness:
  "clean_units sample_frame \<and> clean_units [(True, [0x65, 9])] \<and>
   fst (h264_parameter_sets_prepare_idr (\<lambda>_. True)
        (h264_parameter_sets_update (\<lambda>_. True) empty_parameter_sets (annexb sample_frame) (h264_nal_type_mask (annexb sample_frame)))
        (annexb [(True, [0x65, 9])]) (h264_nal_type_mask (annexb [(True, [0x65, 9])]))) =
     Some [0, 0, 0, 1, 0x67, 1, 2, 0, 0, 1, 0x68, 3, 0, 0, 0, 1, 0x65, 9]"
proof -
  have clean: "clean_units [(True, [0x65, 9])]" by (simp add: clean_units_def nal_clean_def)
  have "first_of 7 sample_frame = Some (True, [0x67, 1, 2])" "first_of 8 sample_frame = Some (False, [0x68, 3])"
    by (simp_all add: sample_frame_def nal_type_def)
  from idr_completed_from_cache [OF sample_frame_clean clean this, of "\<lambda>_. True" empty_parameter_sets]
    sample_frame_clean clean
  show ?thesis by (simp add: missing_def nal_type_def code_of_def SIZE_MAX_def)
qed

end
