(* ===== verification/VideoSource.thy ===== *)
theory VideoSource
  imports H264
begin

text \<open>
  The gateway's video source (\<open>video_source.h\<close>, \<open>video_source.c\<close>): it opens the RTP receiver, counts
  epochs, asks the producer for an IDR picture after an open and after packet loss, and holds back
  access units a fresh decoder could not use. The theory shows what a returned access unit
  guarantees about the units before it.
\<close>

section \<open>State\<close>

text \<open>What one read of the RTP side yields besides success.\<close>

record rtp_read =
  rr_data :: "byte list"
  rr_timestamp :: u32
  rr_ssrc :: u32
  rr_losses :: u32

record VideoSourceAccessUnit =
  au_data :: "byte list"
  au_timestamp :: u32
  au_ssrc :: u32
  au_losses :: u32
  au_nal_types :: u32
  au_epoch :: u64
  au_packet_loss :: bool
  au_idr_requested :: bool

definition empty_access_unit :: VideoSourceAccessUnit where
  "empty_access_unit = \<lparr>au_data = [], au_timestamp = 0, au_ssrc = 0, au_losses = 0, au_nal_types = 0, au_epoch = 0,
     au_packet_loss = False, au_idr_requested = False\<rparr>"

text \<open>
  The callback for IDR requests acts on a context of its own; \<open>None\<close> is a null pointer.
\<close>

type_synonym 'r idr_request = "'r \<Rightarrow> u64 \<Rightarrow> bool \<times> 'r"

record 'r VideoSource =
  vs_request_idr :: "'r idr_request option"
  vs_request_idr_context :: 'r
  vs_epoch :: u64
  vs_observed_losses :: u32
  vs_receive_buffer_bytes :: int
  vs_awaiting_idr :: bool
  vs_have_sps :: bool
  vs_have_pps :: bool
  vs_pending_packet_loss :: bool
  vs_pending_idr_requested :: bool
  vs_opened :: bool

section \<open>Operations\<close>

definition new_source :: "'r idr_request option \<Rightarrow> 'r \<Rightarrow> 'r VideoSource" where
  "new_source request_idr context =
     \<lparr>vs_request_idr = request_idr, vs_request_idr_context = context, vs_epoch = 0, vs_observed_losses = 0,
      vs_receive_buffer_bytes = 0, vs_awaiting_idr = False, vs_have_sps = False, vs_have_pps = False,
      vs_pending_packet_loss = False, vs_pending_idr_requested = False, vs_opened = False\<rparr>"

text \<open>\<open>allocated\<close> is the answer of \<open>calloc\<close>; \<open>ops_complete\<close> tells that no operation of the table is null.\<close>

definition video_source_create ::
  "bool \<Rightarrow> bool \<Rightarrow> 'r idr_request option \<Rightarrow> 'r \<Rightarrow> 'r VideoSource option" where
  "video_source_create allocated ops_complete request_idr context =
     (if \<not> allocated then None
      else if \<not> ops_complete then None
      else Some (new_source request_idr context))"

definition video_source_request_idr :: "'r VideoSource \<Rightarrow> bool \<times> 'r VideoSource" where
  "video_source_request_idr source =
     (if \<not> vs_opened source then (False, source)
      else case vs_request_idr source of
        None \<Rightarrow> (False, source)
      | Some request \<Rightarrow>
          (case request (vs_request_idr_context source) (vs_epoch source) of
             (ok, context) \<Rightarrow> (ok, source\<lparr>vs_request_idr_context := context\<rparr>)))"

text \<open>\<open>opened\<close> is the answer of the RTP side: the receive buffer size, or \<open>None\<close> if it cannot open.\<close>

definition video_source_open :: "'r VideoSource \<Rightarrow> int option \<Rightarrow> bool \<times> 'r VideoSource" where
  "video_source_open source opened =
     (if vs_opened source then (False, source)
      else case opened of
        None \<Rightarrow> (False, source)
      | Some receive_buffer_bytes \<Rightarrow>
          let source1 = source\<lparr>vs_receive_buffer_bytes := receive_buffer_bytes, vs_opened := True,
                vs_observed_losses := 0, vs_awaiting_idr := True, vs_have_sps := False, vs_have_pps := False,
                vs_pending_packet_loss := False, vs_pending_idr_requested := False,
                vs_epoch := vs_epoch source + 1\<rparr>;
              source2 = (if vs_epoch source1 = 0 then source1\<lparr>vs_epoch := 1\<rparr> else source1)
          in (True, snd (video_source_request_idr source2)))"

text \<open>
  One pass of the loop of \<open>video_source_read\<close>: the new state, and the access unit if the pass
  returns it.
\<close>

definition note_losses :: "'r VideoSource \<Rightarrow> u32 \<Rightarrow> 'r VideoSource" where
  "note_losses source losses =
     (let source1 =
        (if losses \<noteq> vs_observed_losses source
         then let (ok, s) = video_source_request_idr
                    (source\<lparr>vs_pending_packet_loss := True, vs_awaiting_idr := True\<rparr>)
              in s\<lparr>vs_pending_idr_requested := ok \<or> vs_pending_idr_requested s\<rparr>
         else source)
      in source1\<lparr>vs_observed_losses := losses\<rparr>)"

definition consider_unit :: "'r VideoSource \<Rightarrow> rtp_read \<Rightarrow> 'r VideoSource \<times> VideoSourceAccessUnit option" where
  "consider_unit source raw =
     (let source1 = note_losses source (rr_losses raw);
          nal_types = h264_nal_type_mask (rr_data raw);
          has_sps = (nal_types AND push_bit 7 1 \<noteq> 0);
          has_pps = (nal_types AND push_bit 8 1 \<noteq> 0);
          has_idr = (nal_types AND push_bit 5 1 \<noteq> 0);
          source2 = source1\<lparr>vs_have_sps := vs_have_sps source1 \<or> has_sps,
                            vs_have_pps := vs_have_pps source1 \<or> has_pps\<rparr>;
          source3 = (if has_idr \<and> vs_have_sps source2 \<and> vs_have_pps source2
                     then source2\<lparr>vs_awaiting_idr := False\<rparr> else source2)
      in if \<not> vs_awaiting_idr source3 \<or> has_sps \<or> has_pps
         then (source3\<lparr>vs_pending_packet_loss := False, vs_pending_idr_requested := False\<rparr>,
               Some \<lparr>au_data = rr_data raw, au_timestamp = rr_timestamp raw, au_ssrc = rr_ssrc raw,
                     au_losses = rr_losses raw, au_nal_types = nal_types, au_epoch = vs_epoch source,
                     au_packet_loss = vs_pending_packet_loss source3,
                     au_idr_requested = vs_pending_idr_requested source3\<rparr>)
         else (source3, None))"

text \<open>
  The reads of the RTP side in the order they return; \<open>None\<close> is a failed read. The result is
  \<open>None\<close> while the call has not returned.
\<close>

fun video_source_read ::
  "'r VideoSource \<Rightarrow> rtp_read option list \<Rightarrow>
     (VideoSourceAccessUnit option \<times> 'r VideoSource \<times> rtp_read option list) option" where
  "video_source_read source answers =
     (if \<not> vs_opened source then Some (None, source, answers)
      else case answers of
        [] \<Rightarrow> None
      | None # rest \<Rightarrow> Some (None, source, rest)
      | Some raw # rest \<Rightarrow>
          (case consider_unit source raw of
             (source', Some unit) \<Rightarrow> Some (Some unit, source', rest)
           | (source', None) \<Rightarrow> video_source_read source' rest))"

declare video_source_read.simps [simp del]

definition video_source_close :: "'r VideoSource \<Rightarrow> bool \<times> 'r VideoSource" where
  "video_source_close source =
     (if \<not> vs_opened source then (False, source)
      else (True, source\<lparr>vs_opened := False, vs_observed_losses := 0, vs_awaiting_idr := False,
                    vs_have_sps := False, vs_have_pps := False, vs_pending_packet_loss := False,
                    vs_pending_idr_requested := False, vs_receive_buffer_bytes := 0\<rparr>))"

definition video_source_destroy :: "'r VideoSource option \<Rightarrow> 'r VideoSource option" where
  "video_source_destroy source = map_option (snd \<circ> video_source_close) source"

definition video_source_epoch :: "'r VideoSource option \<Rightarrow> u64" where
  "video_source_epoch source = (case source of None \<Rightarrow> 0 | Some s \<Rightarrow> vs_epoch s)"

definition video_source_receive_buffer_bytes :: "'r VideoSource option \<Rightarrow> int" where
  "video_source_receive_buffer_bytes source = (case source of None \<Rightarrow> 0 | Some s \<Rightarrow> vs_receive_buffer_bytes s)"

definition video_source_release_access_unit :: "VideoSourceAccessUnit \<Rightarrow> VideoSourceAccessUnit" where
  "video_source_release_access_unit unit = empty_access_unit"

text \<open>The production RTP side: the client, its socket, and what a read reports.\<close>

definition production_open :: "socket_setup \<Rightarrow> RtpClient \<Rightarrow> u16 \<Rightarrow> int option \<times> RtpClient" where
  "production_open os rtp port =
     (case rtp_client_open os rtp port of
        (ok, rtp', closed) \<Rightarrow> (if ok then Some (cl_receive_buffer_bytes rtp') else None, rtp'))"

definition production_read ::
  "(nat \<Rightarrow> bool) \<Rightarrow> RtpClient \<Rightarrow> recv_event list \<Rightarrow> (rtp_read option \<times> RtpClient \<times> recv_event list) option" where
  "production_read alloc rtp evs =
     (case rtp_client_read_h264 alloc rtp evs of
        None \<Rightarrow> None
      | Some (None, rtp', evs') \<Rightarrow> Some (None, rtp', evs')
      | Some (Some data, rtp', evs') \<Rightarrow>
          Some (Some \<lparr>rr_data = data, rr_timestamp = cl_access_unit_timestamp rtp', rr_ssrc = cl_access_unit_ssrc rtp',
                      rr_losses = cl_losses rtp'\<rparr>, rtp', evs'))"

definition production_close :: "RtpClient \<Rightarrow> RtpClient \<times> int list" where
  "production_close rtp = rtp_client_close rtp"

section \<open>Which access units are handed out\<close>

text \<open>
  The specification looks at the access units received since the source was opened. One holds a
  NAL unit of a type; a loss lies before it if the loss counter moved. A stream is decodable at its
  end if an IDR came after SPS and PPS had been seen, and no loss was counted since.
\<close>

definition holds_type :: "nat \<Rightarrow> rtp_read \<Rightarrow> bool" where
  "holds_type t raw \<longleftrightarrow> h264_nal_type_mask (rr_data raw) AND push_bit t 1 \<noteq> 0"

definition loss_before :: "rtp_read list \<Rightarrow> nat \<Rightarrow> bool" where
  "loss_before raws k \<longleftrightarrow> rr_losses (raws ! k) \<noteq> (if k = 0 then 0 else rr_losses (raws ! (k - 1)))"

definition decodable_at :: "rtp_read list \<Rightarrow> nat \<Rightarrow> bool" where
  "decodable_at raws k \<longleftrightarrow>
     (\<exists>i\<le>k. holds_type 5 (raws ! i) \<and> (\<exists>j\<le>i. holds_type 7 (raws ! j)) \<and> (\<exists>j\<le>i. holds_type 8 (raws ! j)) \<and>
        (\<forall>j. i < j \<and> j \<le> k \<longrightarrow> \<not> loss_before raws j))"

definition usable :: "rtp_read list \<Rightarrow> nat \<Rightarrow> bool" where
  "usable raws k \<longleftrightarrow> holds_type 7 (raws ! k) \<or> holds_type 8 (raws ! k) \<or> decodable_at raws k"

text \<open>The state of an open source tells just that about the units received so far.\<close>

definition remembers :: "'r VideoSource \<Rightarrow> rtp_read list \<Rightarrow> nat \<Rightarrow> bool" where
  "remembers source raws n \<longleftrightarrow> vs_opened source \<and>
     (vs_have_sps source \<longleftrightarrow> (\<exists>j<n. holds_type 7 (raws ! j))) \<and>
     (vs_have_pps source \<longleftrightarrow> (\<exists>j<n. holds_type 8 (raws ! j))) \<and>
     vs_observed_losses source = (if n = 0 then 0 else rr_losses (raws ! (n - 1))) \<and>
     (vs_awaiting_idr source \<longleftrightarrow> \<not> (0 < n \<and> decodable_at raws (n - 1)))"

lemma decodable_step:
  "decodable_at raws n \<longleftrightarrow>
     holds_type 5 (raws ! n) \<and> (\<exists>j<Suc n. holds_type 7 (raws ! j)) \<and> (\<exists>j<Suc n. holds_type 8 (raws ! j)) \<or>
     0 < n \<and> decodable_at raws (n - 1) \<and> \<not> loss_before raws n"
proof (cases n)
  case 0
  then show ?thesis by (auto simp: decodable_at_def)
next
  case (Suc m)
  define P where "P i \<longleftrightarrow> holds_type 5 (raws ! i) \<and> (\<exists>j\<le>i. holds_type 7 (raws ! j)) \<and> (\<exists>j\<le>i. holds_type 8 (raws ! j))" for i
  define Q where "Q i k \<longleftrightarrow> (\<forall>j. i < j \<and> j \<le> k \<longrightarrow> \<not> loss_before raws j)" for i k
  have dec: "decodable_at raws k \<longleftrightarrow> (\<exists>i\<le>k. P i \<and> Q i k)" for k by (simp add: decodable_at_def P_def Q_def)
  have "Q (Suc m) (Suc m)" and "Q i (Suc m) \<longleftrightarrow> Q i m \<and> \<not> loss_before raws (Suc m)" if "i \<le> m" for i
    using that by (auto simp: Q_def le_Suc_eq)
  then have "decodable_at raws (Suc m) \<longleftrightarrow> P (Suc m) \<or> decodable_at raws m \<and> \<not> loss_before raws (Suc m)"
    unfolding dec by (metis le_Suc_eq order_refl)
  then show ?thesis by (simp add: Suc P_def less_Suc_eq_le)
qed

lemma request_idr_fields [simp]:
  "vs_opened (snd (video_source_request_idr s)) = vs_opened s"
  "vs_have_sps (snd (video_source_request_idr s)) = vs_have_sps s"
  "vs_have_pps (snd (video_source_request_idr s)) = vs_have_pps s"
  "vs_awaiting_idr (snd (video_source_request_idr s)) = vs_awaiting_idr s"
  "vs_observed_losses (snd (video_source_request_idr s)) = vs_observed_losses s"
  "vs_epoch (snd (video_source_request_idr s)) = vs_epoch s"
  "vs_pending_packet_loss (snd (video_source_request_idr s)) = vs_pending_packet_loss s"
  "vs_pending_idr_requested (snd (video_source_request_idr s)) = vs_pending_idr_requested s"
  by (simp_all add: video_source_request_idr_def split: option.splits prod.splits)

lemma note_losses_fields [simp]:
  "vs_opened (note_losses s l) = vs_opened s"
  "vs_have_sps (note_losses s l) = vs_have_sps s"
  "vs_have_pps (note_losses s l) = vs_have_pps s"
  "vs_awaiting_idr (note_losses s l) = (vs_awaiting_idr s \<or> l \<noteq> vs_observed_losses s)"
  "vs_observed_losses (note_losses s l) = l"
  "vs_epoch (note_losses s l) = vs_epoch s"
  "vs_pending_packet_loss (note_losses s l) = (vs_pending_packet_loss s \<or> l \<noteq> vs_observed_losses s)"
  by (simp_all add: note_losses_def Let_def split_def)

text \<open>What one pass does to the fields, and when it returns the unit.\<close>

definition sps_seen :: "'r VideoSource \<Rightarrow> rtp_read \<Rightarrow> bool" where
  "sps_seen s raw \<longleftrightarrow> vs_have_sps s \<or> holds_type 7 raw"

definition pps_seen :: "'r VideoSource \<Rightarrow> rtp_read \<Rightarrow> bool" where
  "pps_seen s raw \<longleftrightarrow> vs_have_pps s \<or> holds_type 8 raw"

definition still_awaiting :: "'r VideoSource \<Rightarrow> rtp_read \<Rightarrow> bool" where
  "still_awaiting s raw \<longleftrightarrow> (vs_awaiting_idr s \<or> rr_losses raw \<noteq> vs_observed_losses s) \<and>
     \<not> (holds_type 5 raw \<and> sps_seen s raw \<and> pps_seen s raw)"

lemma consider_unit_fields [simp]:
  "vs_opened (fst (consider_unit s raw)) = vs_opened s"
  "vs_have_sps (fst (consider_unit s raw)) = sps_seen s raw"
  "vs_have_pps (fst (consider_unit s raw)) = pps_seen s raw"
  "vs_observed_losses (fst (consider_unit s raw)) = rr_losses raw"
  "vs_epoch (fst (consider_unit s raw)) = vs_epoch s"
  "vs_awaiting_idr (fst (consider_unit s raw)) = still_awaiting s raw"
  unfolding consider_unit_def Let_def sps_seen_def pps_seen_def still_awaiting_def holds_type_def [symmetric]
  by (simp_all split del: if_split add: if_distrib [of fst] if_distrib [of vs_opened] if_distrib [of vs_have_sps]
      if_distrib [of vs_have_pps] if_distrib [of vs_observed_losses] if_distrib [of vs_epoch] if_distrib [of vs_awaiting_idr]
      cong: if_cong) simp_all

lemma consider_unit_returns:
  "snd (consider_unit s raw) = None \<longleftrightarrow> still_awaiting s raw \<and> \<not> holds_type 7 raw \<and> \<not> holds_type 8 raw"
  "snd (consider_unit s raw) = Some unit \<Longrightarrow> au_data unit = rr_data raw \<and> au_epoch unit = vs_epoch s \<and>
     (au_packet_loss unit \<longleftrightarrow> vs_pending_packet_loss s \<or> rr_losses raw \<noteq> vs_observed_losses s)"
  unfolding consider_unit_def Let_def sps_seen_def pps_seen_def still_awaiting_def holds_type_def [symmetric]
  by (auto split: if_splits)

lemma consider_unit_step:
  assumes "remembers source raws n"
  shows "remembers (fst (consider_unit source (raws ! n))) raws (Suc n)"
    and "snd (consider_unit source (raws ! n)) = None \<longleftrightarrow> \<not> usable raws n"
proof -
  have sps: "sps_seen source (raws ! n) \<longleftrightarrow> (\<exists>j<Suc n. holds_type 7 (raws ! j))"
    and pps: "pps_seen source (raws ! n) \<longleftrightarrow> (\<exists>j<Suc n. holds_type 8 (raws ! j))"
    using assms by (auto simp: remembers_def less_Suc_eq sps_seen_def pps_seen_def)
  have loss: "rr_losses (raws ! n) \<noteq> vs_observed_losses source \<longleftrightarrow> loss_before raws n"
    using assms by (simp add: remembers_def loss_before_def)
  have await: "still_awaiting source (raws ! n) \<longleftrightarrow> \<not> decodable_at raws n"
    unfolding still_awaiting_def decodable_step [of raws n] sps pps loss using assms by (auto simp: remembers_def)
  show "remembers (fst (consider_unit source (raws ! n))) raws (Suc n)"
    using assms by (simp add: remembers_def sps pps await)
  show "snd (consider_unit source (raws ! n)) = None \<longleftrightarrow> \<not> usable raws n"
    by (auto simp: consider_unit_returns(1) await usable_def)
qed

text \<open>The client's reads, one after another, as long as units come in.\<close>

fun drain_source :: "nat \<Rightarrow> 'r VideoSource \<Rightarrow> rtp_read option list \<Rightarrow> VideoSourceAccessUnit list" where
  "drain_source 0 source answers = []"
| "drain_source (Suc n) source answers =
     (case video_source_read source answers of
        Some (Some unit, source', rest) \<Rightarrow> unit # drain_source n source' rest
      | _ \<Rightarrow> [])"

lemma video_source_read_Cons:
  "vs_opened source \<Longrightarrow> video_source_read source (Some raw # rest) =
     (case consider_unit source raw of
        (source', Some unit) \<Rightarrow> Some (Some unit, source', rest)
      | (source', None) \<Rightarrow> video_source_read source' rest)"
  by (simp add: video_source_read.simps [of source])

lemma drain_source_usable:
  assumes "remembers source raws n" and "n \<le> length raws" and "length raws - n \<le> fuel"
  shows "map au_data (drain_source fuel source (map Some (drop n raws))) =
     map (\<lambda>k. rr_data (raws ! k)) (filter (usable raws) [n..<length raws])"
  using assms
proof (induction "length raws - n" arbitrary: n source fuel)
  case 0
  then have "video_source_read source [] = None" by (simp add: video_source_read.simps remembers_def)
  with 0 show ?case by (cases fuel) auto
next
  case (Suc m)
  then obtain fuel' where fuel: "fuel = Suc fuel'" and n: "n < length raws" by (cases fuel) auto
  obtain source' out where step: "consider_unit source (raws ! n) = (source', out)" by (rule prod.exhaust)
  have drop: "drop n raws = raws ! n # drop (Suc n) raws" by (rule Cons_nth_drop_Suc [OF n, symmetric])
  have opened: "vs_opened source" using Suc.prems(1) by (simp add: remembers_def)
  have rem: "remembers source' raws (Suc n)" and out: "out = None \<longleftrightarrow> \<not> usable raws n"
    using consider_unit_step [OF Suc.prems(1)] step by simp_all
  have upt: "[n..<length raws] = n # [Suc n..<length raws]" using n by (simp add: upt_conv_Cons)
  show ?case
  proof (cases out)
    case None
    have "drain_source fuel source (map Some (drop n raws)) = drain_source fuel source' (map Some (drop (Suc n) raws))"
      using opened by (simp add: fuel drop video_source_read_Cons step None)
    with Suc.hyps(1) [OF _ rem, of fuel] Suc.hyps(2) Suc.prems(3) n out None show ?thesis by (simp add: upt)
  next
    case (Some unit)
    have "drain_source fuel source (map Some (drop n raws)) = unit # drain_source fuel' source' (map Some (drop (Suc n) raws))"
      using opened by (simp add: fuel drop video_source_read_Cons step Some)
    moreover have "au_data unit = rr_data (raws ! n)" using consider_unit_returns(2) [of source "raws ! n" unit] step Some by simp
    ultimately show ?thesis
      using Suc.hyps(1) [OF _ rem, of fuel'] Suc.hyps(2) Suc.prems(3) n out Some fuel by (simp add: upt)
  qed
qed

section \<open>Properties\<close>

text \<open>
  C10: After an open, the access units a client of the source gets are, in order, exactly those a
  fresh decoder can use: the ones that carry an SPS or a PPS, and the ones that come at or after an
  IDR which had SPS and PPS before it, with no packet loss counted in between. Nothing else is handed
  out and none of these is held back, whatever the producer of the units and the IDR requests do.
\<close>

theorem video_source_hands_out_usable:
  assumes "video_source_open source opened = (True, source')"
  shows "map au_data (drain_source (length raws) source' (map Some raws)) =
     map (\<lambda>k. rr_data (raws ! k)) (filter (usable raws) [0..<length raws])"
proof -
  have "remembers source' raws 0"
    using assms by (auto simp: video_source_open_def remembers_def Let_def split: if_splits option.splits)
  from drain_source_usable [OF this, of "length raws"] show ?thesis by simp
qed

definition sample_reads :: "rtp_read list" where
  "sample_reads = map (\<lambda>(xs, losses). \<lparr>rr_data = annexb xs, rr_timestamp = 0, rr_ssrc = 1, rr_losses = losses\<rparr>)
     [([(True, [0x41, 1])], 0), (sample_frame, 0), ([(True, [0x41, 2])], 0), ([(True, [0x41, 3])], 1), ([(True, [0x65, 4])], 1)]"

lemma sample_read_types:
  "holds_type t (sample_reads ! 0) \<longleftrightarrow> t = 1" "holds_type t (sample_reads ! 1) \<longleftrightarrow> t = 5 \<or> t = 7 \<or> t = 8"
  "holds_type t (sample_reads ! 2) \<longleftrightarrow> t = 1" "holds_type t (sample_reads ! 3) \<longleftrightarrow> t = 1"
  "holds_type t (sample_reads ! 4) \<longleftrightarrow> t = 5"
proof -
  have one: "clean_units [(True, [0x41, 1])]" "clean_units [(True, [0x41, 2])]" "clean_units [(True, [0x41, 3])]"
    "clean_units [(True, [0x65, 4])]"
    by (simp_all add: clean_units_def nal_clean_def)
  have data: "rr_data (sample_reads ! 0) = annexb [(True, [0x41, 1])]" "rr_data (sample_reads ! 1) = annexb sample_frame"
    "rr_data (sample_reads ! 2) = annexb [(True, [0x41, 2])]" "rr_data (sample_reads ! 3) = annexb [(True, [0x41, 3])]"
    "rr_data (sample_reads ! 4) = annexb [(True, [0x65, 4])]"
    by (simp_all add: sample_reads_def del: annexb.simps)
  show "holds_type t (sample_reads ! 0) \<longleftrightarrow> t = 1" "holds_type t (sample_reads ! 1) \<longleftrightarrow> t = 5 \<or> t = 7 \<or> t = 8"
    "holds_type t (sample_reads ! 2) \<longleftrightarrow> t = 1" "holds_type t (sample_reads ! 3) \<longleftrightarrow> t = 1"
    "holds_type t (sample_reads ! 4) \<longleftrightarrow> t = 5"
    unfolding holds_type_def data mask_bit [OF one(1)] mask_bit [OF one(2)] mask_bit [OF one(3)] mask_bit [OF one(4)]
      mask_bit [OF sample_frame_clean]
    by (auto simp: nal_type_def sample_frame_def)
qed

lemma sample_usable:
  "usable sample_reads 0 = False" "usable sample_reads 1 = True" "usable sample_reads 2 = True"
  "usable sample_reads 3 = False" "usable sample_reads 4 = True"
proof -
  have losses: "\<not> loss_before sample_reads 1" "\<not> loss_before sample_reads 2" "loss_before sample_reads 3"
    by (simp_all add: loss_before_def sample_reads_def del: annexb.simps)
  have params: "\<exists>j<Suc k. holds_type 7 (sample_reads ! j)" "\<exists>j<Suc k. holds_type 8 (sample_reads ! j)" if "1 \<le> k" for k
    using that sample_read_types(2) by (auto intro!: exI [of _ 1])
  have d0: "\<not> decodable_at sample_reads 0" using decodable_step [of sample_reads 0] sample_read_types(1) [of 5] by simp
  have d1: "decodable_at sample_reads 1"
    using decodable_step [of sample_reads 1] params [of 1] sample_read_types(2) [of 5] by blast
  have d2: "decodable_at sample_reads 2" using decodable_step [of sample_reads 2] d1 losses(2) by simp
  have d3: "\<not> decodable_at sample_reads 3" using decodable_step [of sample_reads 3] losses(3) sample_read_types(4) [of 5] by simp
  have d4: "decodable_at sample_reads 4"
    using decodable_step [of sample_reads 4] params [of 4] sample_read_types(5) [of 5] by simp
  show "usable sample_reads 0 = False" "usable sample_reads 1 = True" "usable sample_reads 2 = True"
    "usable sample_reads 3 = False" "usable sample_reads 4 = True"
    using d0 d1 d2 d3 d4 unfolding usable_def by (simp_all add: sample_read_types)
qed

theorem video_source_hands_out_usable_witness:
  "map au_data (drain_source 5 (snd (video_source_open (new_source None ()) (Some 65536))) (map Some sample_reads)) =
     [annexb sample_frame, [0, 0, 0, 1, 0x41, 2], [0, 0, 0, 1, 0x65, 4]]"
proof -
  have opened: "video_source_open (new_source None ()) (Some 65536) =
      (True, snd (video_source_open (new_source None ()) (Some 65536)))"
    by (simp add: video_source_open_def new_source_def Let_def)
  have len: "length sample_reads = 5" by (simp add: sample_reads_def)
  have "filter (usable sample_reads) [0..<5] = [1, 2, 4]"
  proof -
    have "[0..<5] = [0, 1, 2, 3, 4 :: nat]" by (simp add: upt_rec)
    then show ?thesis by (simp only: filter.simps sample_usable if_True if_False)
  qed
  then have "map (\<lambda>k. rr_data (sample_reads ! k)) (filter (usable sample_reads) [0..<5]) =
      [annexb sample_frame, [0, 0, 0, 1, 0x41, 2], [0, 0, 0, 1, 0x65, 4]]"
    by (simp add: sample_reads_def code_of_def)
  with video_source_hands_out_usable [OF opened, of sample_reads] len show ?thesis by simp
qed

end
