(* ===== verification/DeviceSession.thy ===== *)
theory DeviceSession
  imports VideoSource
begin

text \<open>
  Exclusive use of the video source (\<open>device_session.h\<close>, \<open>device_session.c\<close>): a consumer acquires a
  lease, reads with it, and releases it. The operations take the session lock for their whole
  effect, so they are modelled as steps. A lease left over from an earlier acquisition is shown to
  have no effect.
\<close>

section \<open>Sessions and leases\<close>

datatype DeviceSessionConsumer =
    DEVICE_SESSION_CONSUMER_DIRECT_GFX
  | DEVICE_SESSION_CONSUMER_BITMAP
  | DEVICE_SESSION_CONSUMER_HTTP

text \<open>There is one session; \<open>ls_session\<close> says whether the lease points to it or is null.\<close>

record DeviceSessionLease =
  ls_session :: bool
  ls_generation :: u64
  ls_consumer :: "DeviceSessionConsumer option"

record 'r DeviceSession =
  ds_source :: "'r VideoSource"
  ds_video_port :: u16
  ds_generation :: u64
  ds_leased :: bool

definition null_lease :: DeviceSessionLease where
  "null_lease = \<lparr>ls_session = False, ls_generation = 0, ls_consumer = None\<rparr>"

text \<open>
  The answers of \<open>calloc\<close> and \<open>pthread_mutex_init\<close>, and the source that \<open>video_source_create\<close> returned
  for the configuration, are arguments.
\<close>

definition device_session_create ::
  "u16 \<Rightarrow> bool \<Rightarrow> bool \<Rightarrow> 'r VideoSource option \<Rightarrow> 'r DeviceSession option" where
  "device_session_create video_port allocated lock_ready source =
     (if video_port = 0 then None
      else if \<not> allocated then None
      else if \<not> lock_ready then None
      else case source of
        None \<Rightarrow> None
      | Some vs \<Rightarrow> Some \<lparr>ds_source = vs, ds_video_port = video_port, ds_generation = 0, ds_leased = False\<rparr>)"

text \<open>The source is closed before its memory is given back; the result is the source as it was freed.\<close>

definition device_session_destroy :: "'r DeviceSession \<Rightarrow> 'r VideoSource option" where
  "device_session_destroy session = video_source_destroy (Some (ds_source session))"

definition lease_is_active :: "'r DeviceSession \<Rightarrow> DeviceSessionLease \<Rightarrow> bool" where
  "lease_is_active session lease \<longleftrightarrow>
     ls_session lease \<and> ls_generation lease \<noteq> 0 \<and> ds_leased session \<and> ds_generation session = ls_generation lease"

text \<open>\<open>consumer\<close> is \<open>None\<close> for a value outside the enumeration.\<close>

definition device_session_acquire ::
  "'r DeviceSession \<Rightarrow> DeviceSessionConsumer option \<Rightarrow> int option \<Rightarrow> DeviceSessionLease \<Rightarrow>
     bool \<times> 'r DeviceSession \<times> DeviceSessionLease" where
  "device_session_acquire session consumer opened lease =
     (if consumer = None then (False, session, lease)
      else if ds_leased session then (False, session, null_lease)
      else case video_source_open (ds_source session) opened of
        (ok, source) \<Rightarrow>
          let session1 = session\<lparr>ds_source := source\<rparr> in
          if \<not> ok then (False, session1, null_lease)
          else
            let session2 = session1\<lparr>ds_leased := True, ds_generation := ds_generation session1 + 1\<rparr>;
                session3 = (if ds_generation session2 = 0 then session2\<lparr>ds_generation := 1\<rparr> else session2)
            in (True, session3, \<lparr>ls_session = True, ls_generation = ds_generation session3, ls_consumer = consumer\<rparr>))"

definition device_session_release ::
  "'r DeviceSession \<Rightarrow> DeviceSessionLease \<Rightarrow> 'r DeviceSession \<times> DeviceSessionLease" where
  "device_session_release session lease =
     (if \<not> ls_session lease then (session, lease)
      else if ds_leased session \<and> ds_generation session = ls_generation lease
      then (session\<lparr>ds_leased := False, ds_source := snd (video_source_close (ds_source session))\<rparr>, null_lease)
      else (session, null_lease))"

definition device_session_read ::
  "'r DeviceSession \<Rightarrow> DeviceSessionLease \<Rightarrow> rtp_read option list \<Rightarrow>
     (VideoSourceAccessUnit option \<times> 'r DeviceSession \<times> rtp_read option list) option" where
  "device_session_read session lease answers =
     (if \<not> lease_is_active session lease then Some (None, session, answers)
      else case video_source_read (ds_source session) answers of
        None \<Rightarrow> None
      | Some (unit, source, rest) \<Rightarrow> Some (unit, session\<lparr>ds_source := source\<rparr>, rest))"

definition device_session_receive_buffer_bytes :: "'r DeviceSession \<Rightarrow> DeviceSessionLease \<Rightarrow> int" where
  "device_session_receive_buffer_bytes session lease =
     (if lease_is_active session lease then video_source_receive_buffer_bytes (Some (ds_source session)) else 0)"

section \<open>Runs\<close>

text \<open>
  The leases ever handed out, in order, as their holders keep them. A step acquires a new one, or
  releases or reads with the one at an index.
\<close>

datatype session_op =
    Acquire "DeviceSessionConsumer option" "int option"
  | Release nat
  | Read nat "rtp_read option list"

fun session_step ::
  "'r DeviceSession \<times> DeviceSessionLease list \<Rightarrow> session_op \<Rightarrow> 'r DeviceSession \<times> DeviceSessionLease list" where
  "session_step (session, leases) (Acquire consumer opened) =
     (case device_session_acquire session consumer opened null_lease of
        (ok, session', lease) \<Rightarrow> (session', if ok then leases @ [lease] else leases))"
| "session_step (session, leases) (Release k) =
     (if k < length leases
      then case device_session_release session (leases ! k) of (session', lease) \<Rightarrow> (session', leases[k := lease])
      else (session, leases))"
| "session_step (session, leases) (Read k answers) =
     (if k < length leases
      then case device_session_read session (leases ! k) answers of
             None \<Rightarrow> (session, leases) | Some (unit, session', rest) \<Rightarrow> (session', leases)
      else (session, leases))"

text \<open>
  The generation counts the acquisitions; lease \<open>k\<close> holds the generation \<open>k + 1\<close> until it is
  released; the source is open exactly while the session is leased.
\<close>

definition generation_of :: "nat \<Rightarrow> u64" where
  "generation_of n = of_nat n"

definition session_ok :: "'r DeviceSession \<times> DeviceSessionLease list \<Rightarrow> bool" where
  "session_ok s \<longleftrightarrow> (case s of (session, leases) \<Rightarrow>
     (length leases < 2 ^ 64 \<longrightarrow> ds_generation session = generation_of (length leases) \<and>
       (\<forall>k<length leases. \<not> ls_session (leases ! k) \<or> ls_generation (leases ! k) = generation_of (k + 1))) \<and>
     (ds_leased session \<longleftrightarrow> vs_opened (ds_source session)))"

lemma read_keeps_opened:
  "video_source_read source answers = Some (unit, source', rest) \<Longrightarrow> vs_opened source' = vs_opened source"
proof (induction source answers rule: video_source_read.induct)
  case (1 source answers)
  show ?case
  proof (cases "vs_opened source")
    case True
    show ?thesis
    proof (cases answers)
      case Nil
      with "1.prems" True show ?thesis by (simp add: video_source_read.simps)
    next
      case (Cons a rest')
      show ?thesis
      proof (cases a)
        case None
        with "1.prems" True Cons show ?thesis by (simp add: video_source_read.simps [of source])
      next
        case (Some raw)
        obtain s out where step: "consider_unit source raw = (s, out)" by (rule prod.exhaust)
        have "vs_opened s" using consider_unit_fields(1) [of source raw] step True by simp
        with "1.prems" "1.IH" [of a rest' raw s out] True Cons Some step show ?thesis
          by (auto simp: video_source_read_Cons split: option.splits)
      qed
    qed
  next
    case False
    with "1.prems" show ?thesis by (simp add: video_source_read.simps [of source])
  qed
qed

lemma open_opens: "video_source_open source opened = (ok, source') \<Longrightarrow> \<not> vs_opened source \<Longrightarrow> vs_opened source' = ok"
  by (auto simp: video_source_open_def Let_def split: option.splits if_splits)

lemma close_closes: "vs_opened (snd (video_source_close source)) = False"
  by (simp add: video_source_close_def)

lemma unat_generation: "n < 2 ^ 64 \<Longrightarrow> unat (generation_of n) = n"
  by (simp add: generation_of_def unsigned_of_nat take_bit_nat_eq_self)

lemma generation_inject: "m < 2 ^ 64 \<Longrightarrow> n < 2 ^ 64 \<Longrightarrow> generation_of m = generation_of n \<Longrightarrow> m = n"
  using unat_generation by metis

lemma generation_next: "Suc n < 2 ^ 64 \<Longrightarrow> generation_of n + 1 = generation_of (Suc n) \<and> generation_of (Suc n) \<noteq> 0"
  using generation_inject [of "Suc n" 0] by (auto simp: generation_of_def add.commute)

lemma acquire_keeps:
  assumes ok: "session_ok (session, leases)"
  shows "session_ok (session_step (session, leases) (Acquire consumer opened))"
proof (cases "consumer = None \<or> ds_leased session")
  case True
  with ok show ?thesis by (auto simp: device_session_acquire_def)
next
  case False
  obtain success source where vs: "video_source_open (ds_source session) opened = (success, source)" by (rule prod.exhaust)
  have closed: "\<not> vs_opened (ds_source session)" using ok False by (simp add: session_ok_def)
  have opened: "vs_opened source = success" by (rule open_opens [OF vs closed])
  show ?thesis
  proof (cases success)
    case True
    let ?g = "if ds_generation session + 1 = 0 then 1 else ds_generation session + 1"
    have step: "session_step (session, leases) (Acquire consumer opened) =
        (session\<lparr>ds_source := source, ds_leased := True, ds_generation := ?g\<rparr>,
         leases @ [\<lparr>ls_session = True, ls_generation = ?g, ls_consumer = consumer\<rparr>])"
      using False True vs by (simp add: device_session_acquire_def Let_def)
    show ?thesis
      unfolding step using ok opened True generation_next [of "length leases"]
      by (auto simp: session_ok_def nth_append less_Suc_eq)
  next
    case unopened: False
    then have "session_step (session, leases) (Acquire consumer opened) = (session\<lparr>ds_source := source\<rparr>, leases)"
      using False vs by (auto simp: device_session_acquire_def)
    then show ?thesis using ok opened unopened False by (simp add: session_ok_def)
  qed
qed

lemma release_keeps:
  assumes "session_ok (session, leases)"
  shows "session_ok (session_step (session, leases) (Release k))"
  using assms
  by (auto simp: session_ok_def device_session_release_def null_lease_def nth_list_update close_closes)

lemma read_keeps:
  assumes ok: "session_ok (session, leases)"
  shows "session_ok (session_step (session, leases) (Read k answers))"
proof (cases "k < length leases \<and> lease_is_active session (leases ! k) \<and> video_source_read (ds_source session) answers \<noteq> None")
  case True
  then obtain unit source rest where read: "video_source_read (ds_source session) answers = Some (unit, source, rest)"
    by auto
  then have "session_step (session, leases) (Read k answers) = (session\<lparr>ds_source := source\<rparr>, leases)"
    using True by (simp add: device_session_read_def)
  with ok read_keeps_opened [OF read] show ?thesis by (simp add: session_ok_def)
next
  case False
  then have "session_step (session, leases) (Read k answers) = (session, leases)"
    by (cases "video_source_read (ds_source session) answers") (auto simp: device_session_read_def)
  with ok show ?thesis by simp
qed

interpretation session: invariant_machine session_step session_ok
proof
  fix s :: "'a DeviceSession \<times> DeviceSessionLease list" and e
  assume "session_ok s"
  then show "session_ok (session_step s e)"
    using acquire_keeps release_keeps read_keeps by (cases s, cases e) blast+
qed

section \<open>Properties\<close>


definition sample_source :: "unit VideoSource" where
  "sample_source = new_source None ()"

definition sample_session :: "unit DeviceSession" where
  "sample_session = \<lparr>ds_source = sample_source, ds_video_port = 5004, ds_generation = 0, ds_leased = False\<rparr>"

definition session_ops :: "session_op list" where
  "session_ops = [Acquire (Some DEVICE_SESSION_CONSUMER_BITMAP) (Some 65536), Release 0,
     Acquire (Some DEVICE_SESSION_CONSUMER_HTTP) (Some 65536)]"


end
