(* ===== verification/FrameFlow.thy ===== *)
theory FrameFlow
  imports Prelude
begin

text \<open>
  Flow control of frames sent to an RDP client (\<open>frame_flow.h\<close>): at most three frames in flight, a
  byte budget, a send interval that adapts to acknowledgements, and the rule that no dependent frame
  follows a lost reference. The record of sent frames used for latency traces (\<open>frame_trace.h\<close>) is
  here as well. The arrays of the source are shown to behave as a list of the frames in flight.
\<close>

section \<open>Flow state\<close>

definition FRAME_FLOW_LIMIT :: nat where "FRAME_FLOW_LIMIT = 3"
definition FRAME_FLOW_DEFAULT_INTERVAL :: nat where "FRAME_FLOW_DEFAULT_INTERVAL = 40"
definition FRAME_FLOW_MIN_INTERVAL :: nat where "FRAME_FLOW_MIN_INTERVAL = 16"
definition FRAME_FLOW_SUSPENDED_INTERVAL :: nat where "FRAME_FLOW_SUSPENDED_INTERVAL = 20"
definition FRAME_FLOW_MAX_INTERVAL :: nat where "FRAME_FLOW_MAX_INTERVAL = 100"
definition FRAME_FLOW_SLOW_ACK_MS :: u64 where "FRAME_FLOW_SLOW_ACK_MS = 250"
definition FRAME_FLOW_MAX_INFLIGHT_BYTES :: u32 where "FRAME_FLOW_MAX_INFLIGHT_BYTES = 192 * 1024"
definition FRAME_FLOW_AVC_WAIT_MS :: u64 where "FRAME_FLOW_AVC_WAIT_MS = 150"

lemmas flow_consts = FRAME_FLOW_LIMIT_def FRAME_FLOW_DEFAULT_INTERVAL_def FRAME_FLOW_MIN_INTERVAL_def
  FRAME_FLOW_SUSPENDED_INTERVAL_def FRAME_FLOW_MAX_INTERVAL_def

datatype FrameFlowAvcAdmission = FRAME_FLOW_AVC_SEND | FRAME_FLOW_AVC_WAIT | FRAME_FLOW_AVC_RESYNC

text \<open>
  Times are 64-bit and byte counts 32-bit, with their wrap-around. The interval, the two counters
  and \<open>count\<close> are small, as the invariant below shows, and are kept as natural numbers. The three
  arrays are lists of three elements.
\<close>

record FrameFlow =
  ff_suspended :: bool
  ff_have_ack :: bool
  ff_interval_ms :: nat
  ff_fast_acks :: nat
  ff_fast_sends :: nat
  ff_last_slow_at :: u64
  ff_count :: nat
  ff_ids :: "u32 list"
  ff_sent_at :: "u64 list"
  ff_bytes :: "u32 list"
  ff_inflight_bytes :: u32
  ff_last_ack_at :: u64

definition empty_flow :: FrameFlow where
  "empty_flow = \<lparr>ff_suspended = False, ff_have_ack = False, ff_interval_ms = 0, ff_fast_acks = 0, ff_fast_sends = 0,
     ff_last_slow_at = 0, ff_count = 0, ff_ids = [0, 0, 0], ff_sent_at = [0, 0, 0], ff_bytes = [0, 0, 0],
     ff_inflight_bytes = 0, ff_last_ack_at = 0\<rparr>"

section \<open>Interval\<close>

definition frame_flow_interval :: "FrameFlow \<Rightarrow> nat" where
  "frame_flow_interval flow =
     (let interval = (if ff_interval_ms flow \<noteq> 0 then ff_interval_ms flow else FRAME_FLOW_DEFAULT_INTERVAL);
          interval1 = (if \<not> ff_have_ack flow \<and> \<not> ff_suspended flow \<and> interval < FRAME_FLOW_DEFAULT_INTERVAL
                       then FRAME_FLOW_DEFAULT_INTERVAL else interval)
      in if ff_suspended flow \<and> interval1 < FRAME_FLOW_SUSPENDED_INTERVAL
         then FRAME_FLOW_SUSPENDED_INTERVAL else interval1)"

definition frame_flow_slow :: "FrameFlow \<Rightarrow> u64 \<Rightarrow> FrameFlow" where
  "frame_flow_slow flow now =
     (let flow1 = flow\<lparr>ff_fast_acks := 0, ff_fast_sends := 0\<rparr> in
      if ff_last_slow_at flow1 \<noteq> 0 \<and> now - ff_last_slow_at flow1 < 100 then flow1
      else
        let interval = frame_flow_interval flow1 + 8
        in flow1\<lparr>ff_interval_ms := (if interval > FRAME_FLOW_MAX_INTERVAL then FRAME_FLOW_MAX_INTERVAL else interval),
                 ff_last_slow_at := now\<rparr>)"

definition frame_flow_send_cost :: "FrameFlow \<Rightarrow> u64 \<Rightarrow> u64 \<Rightarrow> FrameFlow" where
  "frame_flow_send_cost flow cost_ms now =
     (let interval = frame_flow_interval flow in
      if cost_ms \<ge> of_nat interval then frame_flow_slow flow now
      else if ff_suspended flow \<and> cost_ms \<le> of_nat (interval div 2) then
        let flow1 = flow\<lparr>ff_fast_sends := ff_fast_sends flow + 1\<rparr> in
        if ff_fast_sends flow1 \<ge> 8
        then flow1\<lparr>ff_interval_ms := (if interval > FRAME_FLOW_SUSPENDED_INTERVAL + 1 then interval - 2
                                      else FRAME_FLOW_SUSPENDED_INTERVAL),
                   ff_fast_sends := 0\<rparr>
        else flow1
      else flow\<lparr>ff_fast_sends := 0\<rparr>)"

section \<open>Frames in flight\<close>

definition frame_flow_blocked :: "FrameFlow \<Rightarrow> bool" where
  "frame_flow_blocked flow \<longleftrightarrow> \<not> ff_suspended flow \<and> ff_count flow = FRAME_FLOW_LIMIT"

definition track_frame :: "FrameFlow \<Rightarrow> u32 \<Rightarrow> u32 \<Rightarrow> u64 \<Rightarrow> FrameFlow" where
  "track_frame flow frame_id bytes now =
     flow\<lparr>ff_ids := (ff_ids flow)[ff_count flow := frame_id], ff_bytes := (ff_bytes flow)[ff_count flow := bytes],
          ff_sent_at := (ff_sent_at flow)[ff_count flow := now], ff_count := ff_count flow + 1,
          ff_inflight_bytes := ff_inflight_bytes flow + bytes\<rparr>"

definition frame_flow_sent_sized :: "FrameFlow \<Rightarrow> u32 \<Rightarrow> u32 \<Rightarrow> u64 \<Rightarrow> bool \<times> FrameFlow" where
  "frame_flow_sent_sized flow frame_id bytes now =
     (if ff_suspended flow then (True, flow)
      else if frame_flow_blocked flow then (False, flow)
      else if ff_count flow \<noteq> 0 \<and> ff_inflight_bytes flow + bytes > FRAME_FLOW_MAX_INFLIGHT_BYTES then (False, flow)
      else (True, track_frame flow frame_id bytes now))"

definition frame_flow_sent_keyframe_sized :: "FrameFlow \<Rightarrow> u32 \<Rightarrow> u32 \<Rightarrow> u64 \<Rightarrow> bool \<times> FrameFlow" where
  "frame_flow_sent_keyframe_sized flow frame_id bytes now =
     (if ff_suspended flow then (True, flow)
      else if frame_flow_blocked flow then (False, flow)
      else (True, track_frame flow frame_id bytes now))"

definition frame_flow_sent :: "FrameFlow \<Rightarrow> u32 \<Rightarrow> u64 \<Rightarrow> bool \<times> FrameFlow" where
  "frame_flow_sent flow frame_id now = frame_flow_sent_sized flow frame_id 0 now"

definition frame_flow_ready :: "FrameFlow \<Rightarrow> u32 \<Rightarrow> u64 \<Rightarrow> bool" where
  "frame_flow_ready flow bytes now =
     (if ff_suspended flow \<or> ff_count flow = 0 then True
      else if frame_flow_blocked flow then False
      else if ff_inflight_bytes flow + bytes > FRAME_FLOW_MAX_INFLIGHT_BYTES then False
      else if ff_last_ack_at flow \<noteq> 0 \<and> now - ff_last_ack_at flow \<ge> FRAME_FLOW_SLOW_ACK_MS then False
      else True)"

definition frame_flow_ready_keyframe :: "FrameFlow \<Rightarrow> u64 \<Rightarrow> bool" where
  "frame_flow_ready_keyframe flow now =
     (if ff_suspended flow \<or> ff_count flow = 0 then True
      else if frame_flow_blocked flow then False
      else if ff_last_ack_at flow \<noteq> 0 \<and> now - ff_last_ack_at flow \<ge> FRAME_FLOW_SLOW_ACK_MS then False
      else True)"

definition frame_flow_avc_admit :: "FrameFlow \<Rightarrow> u32 \<Rightarrow> bool \<Rightarrow> u64 \<Rightarrow> u64 \<Rightarrow> FrameFlowAvcAdmission" where
  "frame_flow_avc_admit flow bytes idr now wait_started_at =
     (if wait_started_at \<noteq> 0 \<and> now - wait_started_at \<ge> FRAME_FLOW_AVC_WAIT_MS then FRAME_FLOW_AVC_RESYNC
      else if (if idr then frame_flow_ready_keyframe flow now else frame_flow_ready flow bytes now)
      then FRAME_FLOW_AVC_SEND
      else FRAME_FLOW_AVC_WAIT)"

definition frame_flow_avc_should_send :: "bool \<Rightarrow> bool \<Rightarrow> bool \<Rightarrow> bool" where
  "frame_flow_avc_should_send need_idr idr p_frame \<longleftrightarrow> idr \<or> (\<not> need_idr \<and> p_frame)"

text \<open>The next three return the new value of \<open>need_idr\<close>, the first with its answer.\<close>

definition frame_flow_avc_flow_rejected :: "bool \<Rightarrow> bool \<times> bool" where
  "frame_flow_avc_flow_rejected need_idr = (if need_idr then (False, need_idr) else (True, True))"

definition frame_flow_avc_send_failed :: "bool \<Rightarrow> bool" where
  "frame_flow_avc_send_failed need_idr = True"

definition frame_flow_avc_sent :: "bool \<Rightarrow> bool \<Rightarrow> bool" where
  "frame_flow_avc_sent need_idr idr = (if idr then False else need_idr)"

text \<open>The loop that closes the gap in an array, from index \<open>j\<close> to \<open>n\<close>.\<close>

function shift_down :: "nat \<Rightarrow> nat \<Rightarrow> 'a list \<Rightarrow> 'a list" where
  "shift_down j n xs = (if j < n then shift_down (j + 1) n (xs[j := xs ! (j + 1)]) else xs)"
  by pat_completeness auto
termination
  by (relation "measure (\<lambda>(j, n, xs). n - j)") auto

declare shift_down.simps [simp del]

text \<open>What an acknowledgement of the frame at index \<open>i\<close> does.\<close>

definition ack_rate :: "FrameFlow \<Rightarrow> u32 \<Rightarrow> u64 \<Rightarrow> u64 \<Rightarrow> FrameFlow" where
  "ack_rate flow depth elapsed now =
     (if elapsed > 120 then frame_flow_slow flow now
      else if depth = 0 \<and> elapsed \<le> 60 then
        let flow1 = flow\<lparr>ff_fast_acks := ff_fast_acks flow + 1\<rparr> in
        if ff_fast_acks flow1 \<ge> 8
        then let interval = frame_flow_interval flow1
             in flow1\<lparr>ff_interval_ms := (if interval > FRAME_FLOW_MIN_INTERVAL + 1 then interval - 2
                                         else FRAME_FLOW_MIN_INTERVAL),
                      ff_fast_acks := 0\<rparr>
        else flow1
      else flow\<lparr>ff_fast_acks := 0\<rparr>)"

definition ack_at :: "FrameFlow \<Rightarrow> nat \<Rightarrow> u32 \<Rightarrow> u64 \<Rightarrow> u64 \<times> FrameFlow" where
  "ack_at flow i depth now =
     (let elapsed = now - ff_sent_at flow ! i;
          flow1 = flow\<lparr>ff_have_ack := True, ff_inflight_bytes := ff_inflight_bytes flow - ff_bytes flow ! i\<rparr>;
          flow2 = ack_rate flow1 depth elapsed now;
          n = ff_count flow2 - 1
      in (elapsed, flow2\<lparr>ff_count := n, ff_ids := shift_down i n (ff_ids flow2),
                         ff_bytes := shift_down i n (ff_bytes flow2), ff_sent_at := shift_down i n (ff_sent_at flow2)\<rparr>))"

function ack_search :: "FrameFlow \<Rightarrow> u32 \<Rightarrow> nat \<Rightarrow> nat option" where
  "ack_search flow frame_id i =
     (if i < ff_count flow then (if ff_ids flow ! i \<noteq> frame_id then ack_search flow frame_id (i + 1) else Some i) else None)"
  by pat_completeness auto
termination
  by (relation "measure (\<lambda>(flow, frame_id, i). ff_count flow - i)") auto

declare ack_search.simps [simp del]

text \<open>The answer, the elapsed time and the new state.\<close>

definition frame_flow_ack :: "FrameFlow \<Rightarrow> u32 \<Rightarrow> u32 \<Rightarrow> u64 \<Rightarrow> bool \<times> u64 \<times> FrameFlow" where
  "frame_flow_ack flow frame_id depth now =
     (if depth = 0xffffffff then
        (False, 0, flow\<lparr>ff_suspended := True, ff_have_ack := False, ff_fast_acks := 0,
           ff_interval_ms := FRAME_FLOW_SUSPENDED_INTERVAL, ff_fast_sends := 0, ff_last_slow_at := 0,
           ff_count := 0, ff_inflight_bytes := 0, ff_last_ack_at := 0\<rparr>)
      else
        let flow1 = flow\<lparr>ff_suspended := False, ff_last_ack_at := now\<rparr>;
            flow2 = (if depth > 256 * 1024 then frame_flow_slow flow1 now else flow1)
        in case ack_search flow2 frame_id 0 of
             None \<Rightarrow> (False, 0, flow2)
           | Some i \<Rightarrow> (case ack_at flow2 i depth now of (elapsed, flow3) \<Rightarrow> (True, elapsed, flow3)))"

section \<open>Trace of sent frames\<close>

definition FRAME_TRACE_CAPACITY :: nat where "FRAME_TRACE_CAPACITY = 256"

record FrameTraceEntry =
  fe_valid :: bool
  fe_frame_id :: u32
  fe_ssrc :: u32
  fe_rtp_timestamp :: u32
  fe_received_at :: u64
  fe_sent_at :: u64

type_synonym FrameTrace = "FrameTraceEntry list"

definition empty_trace :: FrameTrace where
  "empty_trace = replicate FRAME_TRACE_CAPACITY
     \<lparr>fe_valid = False, fe_frame_id = 0, fe_ssrc = 0, fe_rtp_timestamp = 0, fe_received_at = 0, fe_sent_at = 0\<rparr>"

definition frame_trace_sample :: "u32 \<Rightarrow> bool" where
  "frame_trace_sample timestamp \<longleftrightarrow> (timestamp div 9000) mod 50 = 0"

definition frame_trace_sent :: "FrameTrace \<Rightarrow> u32 \<Rightarrow> u32 \<Rightarrow> u32 \<Rightarrow> u64 \<Rightarrow> u64 \<Rightarrow> FrameTrace" where
  "frame_trace_sent trace frame_id ssrc timestamp received sent =
     trace[unat frame_id mod FRAME_TRACE_CAPACITY :=
       \<lparr>fe_valid = True, fe_frame_id = frame_id, fe_ssrc = ssrc, fe_rtp_timestamp = timestamp,
        fe_received_at = received, fe_sent_at = sent\<rparr>]"

definition frame_trace_ack :: "FrameTrace \<Rightarrow> u32 \<Rightarrow> u64 \<Rightarrow> FrameTraceEntry option \<times> FrameTrace" where
  "frame_trace_ack trace frame_id now =
     (let slot = unat frame_id mod FRAME_TRACE_CAPACITY; candidate = trace ! slot in
      if \<not> fe_valid candidate \<or> fe_frame_id candidate \<noteq> frame_id \<or> now < fe_sent_at candidate then (None, trace)
      else (Some candidate, trace[slot := candidate\<lparr>fe_valid := False\<rparr>]))"

section \<open>The arrays as a list of frames\<close>

text \<open>The frames in flight, oldest first: identifier, bytes, time sent.\<close>

definition in_flight :: "FrameFlow \<Rightarrow> (u32 \<times> u32 \<times> u64) list" where
  "in_flight flow = take (ff_count flow) (zip (ff_ids flow) (zip (ff_bytes flow) (ff_sent_at flow)))"

definition arrays_ok :: "FrameFlow \<Rightarrow> bool" where
  "arrays_ok flow \<longleftrightarrow> ff_count flow \<le> FRAME_FLOW_LIMIT \<and> length (ff_ids flow) = FRAME_FLOW_LIMIT \<and>
     length (ff_bytes flow) = FRAME_FLOW_LIMIT \<and> length (ff_sent_at flow) = FRAME_FLOW_LIMIT"

definition rate_ok :: "FrameFlow \<Rightarrow> bool" where
  "rate_ok flow \<longleftrightarrow>
     (ff_interval_ms flow = 0 \<or> FRAME_FLOW_MIN_INTERVAL \<le> ff_interval_ms flow \<and> ff_interval_ms flow \<le> FRAME_FLOW_MAX_INTERVAL) \<and>
     ff_fast_acks flow < 8 \<and> ff_fast_sends flow < 8"

definition flow_ok :: "FrameFlow \<Rightarrow> bool" where
  "flow_ok flow \<longleftrightarrow> arrays_ok flow \<and> (ff_suspended flow \<longrightarrow> ff_count flow = 0) \<and> rate_ok flow \<and>
     ff_inflight_bytes flow = sum_list (map (fst \<circ> snd) (in_flight flow))"

lemma length_in_flight: "arrays_ok flow \<Longrightarrow> length (in_flight flow) = ff_count flow"
  by (simp add: in_flight_def arrays_ok_def)

lemma in_flight_nth:
  "arrays_ok flow \<Longrightarrow> i < ff_count flow \<Longrightarrow> in_flight flow ! i = (ff_ids flow ! i, ff_bytes flow ! i, ff_sent_at flow ! i)"
  by (simp add: in_flight_def arrays_ok_def)

lemma in_flight_track:
  assumes "arrays_ok flow" and "ff_count flow < FRAME_FLOW_LIMIT"
  shows "in_flight (track_frame flow frame_id bytes now) = in_flight flow @ [(frame_id, bytes, now)]"
    and "arrays_ok (track_frame flow frame_id bytes now)"
  using assms
  by (auto simp: in_flight_def track_frame_def arrays_ok_def take_Suc_conv_app_nth take_zip)

lemma shift_down_spec:
  "i \<le> n \<Longrightarrow> n < length xs \<Longrightarrow> take n (shift_down i n xs) = take i xs @ drop (i + 1) (take (n + 1) xs)"
proof (induction i n xs rule: shift_down.induct)
  case (1 i n xs)
  show ?case
  proof (cases "i < n")
    case True
    let ?ys = "xs[i := xs ! (i + 1)]"
    have "take n (shift_down i n xs) = take (i + 1) ?ys @ drop (i + 2) (take (n + 1) ?ys)"
      using 1 True by (simp add: shift_down.simps [of i n xs])
    also have "take (i + 1) ?ys = take i xs @ [xs ! (i + 1)]"
      using True "1.prems" by (simp add: take_Suc_conv_app_nth)
    also have "drop (i + 2) (take (n + 1) ?ys) = drop (i + 2) (take (n + 1) xs)"
      by (simp add: drop_take)
    also have "(take i xs @ [xs ! (i + 1)]) @ drop (i + 2) (take (n + 1) xs) = take i xs @ drop (i + 1) (take (n + 1) xs)"
      using True "1.prems" Cons_nth_drop_Suc [of "i + 1" "take (n + 1) xs"] by simp
    finally show ?thesis .
  next
    case False
    then show ?thesis using "1.prems" by (simp add: shift_down.simps [of n n xs])
  qed
qed

lemma length_shift_down [simp]: "length (shift_down i n xs) = length xs"
  by (induction i n xs rule: shift_down.induct) (simp add: shift_down.simps)

lemma zip_shift:
  assumes "length xs = length ys" and "i \<le> n" and "n < length xs"
  shows "take n (zip (shift_down i n xs) (shift_down i n ys)) =
     take i (take (n + 1) (zip xs ys)) @ drop (i + 1) (take (n + 1) (zip xs ys))"
  using assms
  by (simp add: take_zip shift_down_spec zip_append drop_zip min_def)

text \<open>The specification of an acknowledgement on the list: the first frame of that name goes.\<close>

fun drop_frame :: "u32 \<Rightarrow> (u32 \<times> u32 \<times> u64) list \<Rightarrow> (u32 \<times> u32 \<times> u64) list" where
  "drop_frame frame_id [] = []"
| "drop_frame frame_id (f # fs) = (if fst f = frame_id then fs else f # drop_frame frame_id fs)"

fun lookup_frame :: "u32 \<Rightarrow> (u32 \<times> u32 \<times> u64) list \<Rightarrow> (u32 \<times> u64) option" where
  "lookup_frame frame_id [] = None"
| "lookup_frame frame_id (f # fs) = (if fst f = frame_id then Some (snd f) else lookup_frame frame_id fs)"

lemma drop_frame_at:
  "i < length fs \<Longrightarrow> fst (fs ! i) = frame_id \<Longrightarrow> (\<And>j. j < i \<Longrightarrow> fst (fs ! j) \<noteq> frame_id) \<Longrightarrow>
     drop_frame frame_id fs = take i fs @ drop (i + 1) fs \<and> lookup_frame frame_id fs = Some (snd (fs ! i))"
proof (induction fs arbitrary: i)
  case (Cons f fs)
  show ?case
  proof (cases i)
    case 0
    with Cons.prems show ?thesis by simp
  next
    case (Suc k)
    have "fst f \<noteq> frame_id" using Cons.prems(3) [of 0] Suc by simp
    moreover have "drop_frame frame_id fs = take k fs @ drop (k + 1) fs \<and> lookup_frame frame_id fs = Some (snd (fs ! k))"
      using Cons.prems Suc by (intro Cons.IH) (auto dest: spec [of _ "Suc _"], metis Suc_mono nth_Cons_Suc)
    ultimately show ?thesis by (simp add: Suc)
  qed
qed simp

lemma drop_frame_none:
  "\<forall>f\<in>set fs. fst f \<noteq> frame_id \<Longrightarrow> drop_frame frame_id fs = fs \<and> lookup_frame frame_id fs = None"
  by (induction fs) auto

lemma ack_search_spec:
  "(case ack_search flow frame_id i of
      None \<Rightarrow> \<forall>j. i \<le> j \<and> j < ff_count flow \<longrightarrow> ff_ids flow ! j \<noteq> frame_id
    | Some k \<Rightarrow> i \<le> k \<and> k < ff_count flow \<and> ff_ids flow ! k = frame_id \<and> (\<forall>j. i \<le> j \<and> j < k \<longrightarrow> ff_ids flow ! j \<noteq> frame_id))"
proof (induction flow frame_id i rule: ack_search.induct)
  case (1 flow frame_id i)
  show ?case
  proof (cases "i < ff_count flow \<and> ff_ids flow ! i \<noteq> frame_id")
    case True
    have split: "(\<forall>j. i \<le> j \<and> j < n \<longrightarrow> ff_ids flow ! j \<noteq> frame_id) \<longleftrightarrow>
        (\<forall>j. i + 1 \<le> j \<and> j < n \<longrightarrow> ff_ids flow ! j \<noteq> frame_id)" for n
    proof -
      have "i \<le> j \<longleftrightarrow> j = i \<or> i + 1 \<le> j" for j by auto
      then show ?thesis using True by metis
    qed
    have "ack_search flow frame_id i = ack_search flow frame_id (i + 1)"
      using True by (simp add: ack_search.simps [of flow frame_id i])
    with "1.IH" True show ?thesis unfolding split by (auto split: option.splits)
  next
    case False
    then show ?thesis by (auto simp: ack_search.simps [of flow frame_id i])
  qed
qed

lemma slow_fields [simp]:
  "ff_suspended (frame_flow_slow flow now) = ff_suspended flow" "ff_have_ack (frame_flow_slow flow now) = ff_have_ack flow"
  "ff_count (frame_flow_slow flow now) = ff_count flow" "ff_ids (frame_flow_slow flow now) = ff_ids flow"
  "ff_sent_at (frame_flow_slow flow now) = ff_sent_at flow" "ff_bytes (frame_flow_slow flow now) = ff_bytes flow"
  "ff_inflight_bytes (frame_flow_slow flow now) = ff_inflight_bytes flow"
  "ff_fast_acks (frame_flow_slow flow now) = 0" "ff_fast_sends (frame_flow_slow flow now) = 0"
  by (simp_all add: frame_flow_slow_def Let_def)

lemma ack_rate_fields [simp]:
  "ff_suspended (ack_rate flow depth elapsed now) = ff_suspended flow"
  "ff_count (ack_rate flow depth elapsed now) = ff_count flow" "ff_ids (ack_rate flow depth elapsed now) = ff_ids flow"
  "ff_sent_at (ack_rate flow depth elapsed now) = ff_sent_at flow" "ff_bytes (ack_rate flow depth elapsed now) = ff_bytes flow"
  "ff_inflight_bytes (ack_rate flow depth elapsed now) = ff_inflight_bytes flow"
  by (simp_all add: ack_rate_def Let_def)

lemma in_flight_ack_at:
  assumes "arrays_ok flow" and "i < ff_count flow"
  shows "in_flight (snd (ack_at flow i depth now)) = take i (in_flight flow) @ drop (i + 1) (in_flight flow)"
    and "arrays_ok (snd (ack_at flow i depth now))"
proof -
  obtain n where n: "ff_count flow = Suc n" "i \<le> n" "n < FRAME_FLOW_LIMIT"
    using assms by (cases "ff_count flow") (auto simp: arrays_ok_def)
  have len: "length (ff_ids flow) = 3" "length (ff_bytes flow) = 3" "length (ff_sent_at flow) = 3" "n < 3"
    using assms(1) n(3) by (auto simp: arrays_ok_def FRAME_FLOW_LIMIT_def)
  show "in_flight (snd (ack_at flow i depth now)) = take i (in_flight flow) @ drop (i + 1) (in_flight flow)"
    using n(2) len
    by (simp add: in_flight_def ack_at_def Let_def n(1) take_zip shift_down_spec drop_zip zip_append)
  show "arrays_ok (snd (ack_at flow i depth now))"
    using assms(1) n by (simp add: arrays_ok_def ack_at_def Let_def)
qed

lemma in_flight_cong:
  "ff_count f = ff_count g \<Longrightarrow> ff_ids f = ff_ids g \<Longrightarrow> ff_bytes f = ff_bytes g \<Longrightarrow> ff_sent_at f = ff_sent_at g \<Longrightarrow>
     in_flight f = in_flight g"
  by (simp add: in_flight_def)

text \<open>An acknowledgement on the arrays refines the one on the list.\<close>

lemma frame_flow_ack_refines:
  assumes ok: "arrays_ok flow" and depth: "depth \<noteq> 0xffffffff"
  shows "in_flight (snd (snd (frame_flow_ack flow frame_id depth now))) = drop_frame frame_id (in_flight flow)"
    and "fst (frame_flow_ack flow frame_id depth now) = (lookup_frame frame_id (in_flight flow) \<noteq> None)"
    and "fst (snd (frame_flow_ack flow frame_id depth now)) =
           (case lookup_frame frame_id (in_flight flow) of None \<Rightarrow> 0 | Some (bytes, sent) \<Rightarrow> now - sent)"
    and "arrays_ok (snd (snd (frame_flow_ack flow frame_id depth now)))"
proof -
  let ?f1 = "flow\<lparr>ff_suspended := False, ff_last_ack_at := now\<rparr>"
  define f2 where "f2 = (if depth > 256 * 1024 then frame_flow_slow ?f1 now else ?f1)"
  have f2: "ff_count f2 = ff_count flow" "ff_ids f2 = ff_ids flow" "ff_bytes f2 = ff_bytes flow" "ff_sent_at f2 = ff_sent_at flow"
    by (simp_all add: f2_def)
  have fl: "in_flight f2 = in_flight flow" by (rule in_flight_cong) (simp_all add: f2)
  have ok2: "arrays_ok f2" using ok by (simp add: arrays_ok_def f2)
  have ack: "frame_flow_ack flow frame_id depth now =
      (case ack_search f2 frame_id 0 of None \<Rightarrow> (False, 0, f2)
       | Some i \<Rightarrow> (case ack_at f2 i depth now of (elapsed, f3) \<Rightarrow> (True, elapsed, f3)))"
    unfolding frame_flow_ack_def Let_def f2_def [symmetric] using depth by simp
  have "in_flight (snd (snd (frame_flow_ack flow frame_id depth now))) = drop_frame frame_id (in_flight flow) \<and>
      fst (frame_flow_ack flow frame_id depth now) = (lookup_frame frame_id (in_flight flow) \<noteq> None) \<and>
      fst (snd (frame_flow_ack flow frame_id depth now)) =
        (case lookup_frame frame_id (in_flight flow) of None \<Rightarrow> 0 | Some (bytes, sent) \<Rightarrow> now - sent) \<and>
      arrays_ok (snd (snd (frame_flow_ack flow frame_id depth now)))"
  proof (cases "ack_search f2 frame_id 0")
    case None
    have "\<forall>f\<in>set (in_flight flow). fst f \<noteq> frame_id"
      using ack_search_spec [where flow = f2 and frame_id = frame_id and i = 0] None in_flight_nth [OF ok] length_in_flight [OF ok]
      by (auto simp: f2 in_set_conv_nth)
    with drop_frame_none [OF this] None ack fl ok2 show ?thesis by simp
  next
    case (Some i)
    then have i: "i < ff_count flow" "ff_ids flow ! i = frame_id" "\<And>j. j < i \<Longrightarrow> ff_ids flow ! j \<noteq> frame_id"
      using ack_search_spec [where flow = f2 and frame_id = frame_id and i = 0] by (auto simp: f2)
    have "drop_frame frame_id (in_flight flow) = take i (in_flight flow) @ drop (i + 1) (in_flight flow) \<and>
        lookup_frame frame_id (in_flight flow) = Some (snd (in_flight flow ! i))"
      using i in_flight_nth [OF ok] length_in_flight [OF ok] by (intro drop_frame_at) auto
    moreover have "fst (ack_at f2 i depth now) = now - ff_sent_at flow ! i" by (simp add: ack_at_def Let_def f2)
    ultimately show ?thesis
      using Some ack in_flight_ack_at [OF ok2, of i depth now] in_flight_nth [OF ok i(1)] i(1) fl
      by (simp add: f2 split_def)
  qed
  then show "in_flight (snd (snd (frame_flow_ack flow frame_id depth now))) = drop_frame frame_id (in_flight flow)"
    "fst (frame_flow_ack flow frame_id depth now) = (lookup_frame frame_id (in_flight flow) \<noteq> None)"
    "fst (snd (frame_flow_ack flow frame_id depth now)) =
        (case lookup_frame frame_id (in_flight flow) of None \<Rightarrow> 0 | Some (bytes, sent) \<Rightarrow> now - sent)"
    "arrays_ok (snd (snd (frame_flow_ack flow frame_id depth now)))"
    by blast+
qed

section \<open>Invariant\<close>

lemma interval_bounds:
  assumes "rate_ok flow"
  shows "FRAME_FLOW_MIN_INTERVAL \<le> frame_flow_interval flow" "frame_flow_interval flow \<le> FRAME_FLOW_MAX_INTERVAL"
  using assms by (auto simp: rate_ok_def frame_flow_interval_def flow_consts Let_def)

lemma rate_ok_interval:
  "FRAME_FLOW_MIN_INTERVAL \<le> ff_interval_ms flow \<Longrightarrow> ff_interval_ms flow \<le> FRAME_FLOW_MAX_INTERVAL \<Longrightarrow>
     ff_fast_acks flow < 8 \<Longrightarrow> ff_fast_sends flow < 8 \<Longrightarrow> rate_ok flow"
  by (simp add: rate_ok_def)

lemma rate_ok_counters:
  "rate_ok flow \<Longrightarrow> n < 8 \<Longrightarrow> rate_ok (flow\<lparr>ff_fast_acks := n\<rparr>)" "rate_ok flow \<Longrightarrow> n < 8 \<Longrightarrow> rate_ok (flow\<lparr>ff_fast_sends := n\<rparr>)"
  by (simp_all add: rate_ok_def)

lemma rate_ok_slow: "rate_ok flow \<Longrightarrow> rate_ok (frame_flow_slow flow now)"
proof -
  assume "rate_ok flow"
  then have ok: "rate_ok (flow\<lparr>ff_fast_acks := 0, ff_fast_sends := 0\<rparr>)" by (simp add: rate_ok_def)
  let ?v = "frame_flow_interval (flow\<lparr>ff_fast_acks := 0, ff_fast_sends := 0\<rparr>) + 8"
  have "FRAME_FLOW_MIN_INTERVAL \<le> min FRAME_FLOW_MAX_INTERVAL ?v" "min FRAME_FLOW_MAX_INTERVAL ?v \<le> FRAME_FLOW_MAX_INTERVAL"
    using interval_bounds [OF ok] by (simp_all add: flow_consts)
  then show ?thesis
    using ok by (auto simp: frame_flow_slow_def Let_def min_def split: if_splits intro!: rate_ok_interval)
qed

lemma rate_ok_send_cost: "rate_ok flow \<Longrightarrow> rate_ok (frame_flow_send_cost flow cost now)"
  using rate_ok_slow [of flow now] interval_bounds [of flow]
  by (auto simp: frame_flow_send_cost_def Let_def rate_ok_def flow_consts)

lemma rate_ok_ack_rate:
  assumes "rate_ok flow"
  shows "rate_ok (ack_rate flow depth elapsed now)"
proof -
  let ?f = "flow\<lparr>ff_fast_acks := ff_fast_acks flow + 1\<rparr>"
  have "frame_flow_interval ?f = frame_flow_interval flow" by (simp add: frame_flow_interval_def)
  then have "FRAME_FLOW_MIN_INTERVAL \<le> frame_flow_interval ?f" "frame_flow_interval ?f \<le> FRAME_FLOW_MAX_INTERVAL"
    using interval_bounds [OF assms] by simp_all
  then show ?thesis
    using assms rate_ok_slow [OF assms, of now] rate_ok_counters(1) [OF assms, of 0]
      rate_ok_counters(1) [OF assms, of "ff_fast_acks flow + 1"]
    by (simp add: ack_rate_def Let_def) (auto simp: rate_ok_def flow_consts)
qed

text \<open>Operations that only adapt the rate keep the frames.\<close>

lemma flow_ok_rate:
  assumes "flow_ok f" and "rate_ok g" and "ff_count g = ff_count f" and "ff_ids g = ff_ids f" and "ff_bytes g = ff_bytes f"
    and "ff_sent_at g = ff_sent_at f" and "ff_suspended g = ff_suspended f \<or> ff_suspended g = False"
    and "ff_inflight_bytes g = ff_inflight_bytes f"
  shows "flow_ok g"
proof -
  have "in_flight g = in_flight f" using assms by (intro in_flight_cong) simp_all
  with assms show ?thesis by (auto simp: flow_ok_def arrays_ok_def)
qed

lemma flow_ok_rate_ok: "flow_ok flow \<Longrightarrow> rate_ok flow"
  by (simp add: flow_ok_def)

lemma flow_ok_slow: "flow_ok flow \<Longrightarrow> flow_ok (frame_flow_slow flow now)"
  by (rule flow_ok_rate) (simp_all add: rate_ok_slow flow_ok_rate_ok)

lemma send_cost_fields [simp]:
  "ff_suspended (frame_flow_send_cost flow cost now) = ff_suspended flow"
  "ff_count (frame_flow_send_cost flow cost now) = ff_count flow" "ff_ids (frame_flow_send_cost flow cost now) = ff_ids flow"
  "ff_sent_at (frame_flow_send_cost flow cost now) = ff_sent_at flow" "ff_bytes (frame_flow_send_cost flow cost now) = ff_bytes flow"
  "ff_inflight_bytes (frame_flow_send_cost flow cost now) = ff_inflight_bytes flow"
  by (simp_all add: frame_flow_send_cost_def Let_def)

lemma flow_ok_send_cost: "flow_ok flow \<Longrightarrow> flow_ok (frame_flow_send_cost flow cost now)"
  by (rule flow_ok_rate) (simp_all add: rate_ok_send_cost flow_ok_rate_ok)

lemma flow_ok_track:
  assumes "flow_ok flow" and "\<not> ff_suspended flow" and "\<not> frame_flow_blocked flow"
  shows "flow_ok (track_frame flow frame_id bytes now)"
proof -
  have "arrays_ok flow" "ff_count flow < FRAME_FLOW_LIMIT"
    using assms by (auto simp: flow_ok_def arrays_ok_def frame_flow_blocked_def)
  from in_flight_track [OF this] assms show ?thesis
    by (simp add: flow_ok_def rate_ok_def) (simp add: track_frame_def)
qed

lemma flow_ok_sent:
  "flow_ok flow \<Longrightarrow> flow_ok (snd (frame_flow_sent_sized flow frame_id bytes now))"
  "flow_ok flow \<Longrightarrow> flow_ok (snd (frame_flow_sent_keyframe_sized flow frame_id bytes now))"
  by (simp_all add: frame_flow_sent_sized_def frame_flow_sent_keyframe_sized_def flow_ok_track)

lemma sum_without:
  "i < length xs \<Longrightarrow> sum_list (take i xs @ drop (i + 1) xs) = sum_list xs - (xs ! i :: u32)"
proof -
  assume "i < length xs"
  then have "sum_list xs = sum_list (take i xs) + (xs ! i + sum_list (drop (i + 1) xs))"
    by (metis Suc_eq_plus1 id_take_nth_drop sum_list.Cons sum_list_append)
  then show ?thesis by simp
qed

lemma flow_ok_ack_at:
  assumes ok: "flow_ok flow" and i: "i < ff_count flow"
  shows "flow_ok (snd (ack_at flow i depth now))"
proof -
  let ?f1 = "flow\<lparr>ff_have_ack := True, ff_inflight_bytes := ff_inflight_bytes flow - ff_bytes flow ! i\<rparr>"
  have arr: "arrays_ok flow" using ok by (simp add: flow_ok_def)
  have "rate_ok ?f1" using ok by (simp add: flow_ok_def rate_ok_def)
  from rate_ok_ack_rate [OF this, of depth "now - ff_sent_at flow ! i" now]
  have "rate_ok (snd (ack_at flow i depth now))" by (simp add: ack_at_def Let_def rate_ok_def)
  moreover have "sum_list (map (fst \<circ> snd) (take i (in_flight flow) @ drop (i + 1) (in_flight flow))) =
      ff_inflight_bytes flow - ff_bytes flow ! i"
    using sum_without [of i "map (fst \<circ> snd) (in_flight flow)"] length_in_flight [OF arr] in_flight_nth [OF arr i] i ok
    by (simp add: take_map drop_map flow_ok_def)
  ultimately show ?thesis
    using in_flight_ack_at [OF arr i, of depth now] ok i
    by (simp add: flow_ok_def) (simp add: ack_at_def Let_def)
qed

lemma flow_ok_ack: "flow_ok flow \<Longrightarrow> flow_ok (snd (snd (frame_flow_ack flow frame_id depth now)))"
proof (cases "depth = 0xffffffff")
  case True
  assume "flow_ok flow"
  with True show ?thesis by (simp add: frame_flow_ack_def flow_ok_def arrays_ok_def in_flight_def rate_ok_def flow_consts)
next
  case False
  assume ok: "flow_ok flow"
  let ?f1 = "flow\<lparr>ff_suspended := False, ff_last_ack_at := now\<rparr>"
  define f2 where "f2 = (if depth > 256 * 1024 then frame_flow_slow ?f1 now else ?f1)"
  have "flow_ok ?f1" using ok by (rule flow_ok_rate) (use ok in \<open>simp_all add: flow_ok_def rate_ok_def\<close>)
  then have f2: "flow_ok f2" by (simp add: f2_def flow_ok_slow)
  have "snd (snd (frame_flow_ack flow frame_id depth now)) =
      (case ack_search f2 frame_id 0 of None \<Rightarrow> f2 | Some i \<Rightarrow> snd (ack_at f2 i depth now))"
    unfolding frame_flow_ack_def Let_def f2_def [symmetric] using False by (simp split: option.splits prod.splits)
  then show ?thesis
    using f2 flow_ok_ack_at [OF f2] ack_search_spec [where flow = f2 and frame_id = frame_id and i = 0]
    by (auto split: option.splits)
qed

datatype flow_op =
    SendFrame u32 u32 u64
  | SendKeyframe u32 u32 u64
  | AckFrame u32 u32 u64
  | SendCost u64 u64

fun flow_step :: "FrameFlow \<Rightarrow> flow_op \<Rightarrow> FrameFlow" where
  "flow_step flow (SendFrame frame_id bytes now) = snd (frame_flow_sent_sized flow frame_id bytes now)"
| "flow_step flow (SendKeyframe frame_id bytes now) = snd (frame_flow_sent_keyframe_sized flow frame_id bytes now)"
| "flow_step flow (AckFrame frame_id depth now) = snd (snd (frame_flow_ack flow frame_id depth now))"
| "flow_step flow (SendCost cost now) = frame_flow_send_cost flow cost now"

interpretation flow: invariant_machine flow_step flow_ok
proof
  fix s e assume "flow_ok s"
  then show "flow_ok (flow_step s e)" by (cases e) (simp_all add: flow_ok_sent flow_ok_ack flow_ok_send_cost)
qed

section \<open>Properties\<close>

lemma empty_flow_ok: "flow_ok empty_flow"
  by (simp add: flow_ok_def rate_ok_def empty_flow_def arrays_ok_def in_flight_def flow_consts)

text \<open>
  C14: However sends, key frames, acknowledgements and cost reports follow one another, and whatever
  identifiers, sizes and times they carry, the flow state stays sound: never more than three frames
  are in flight, no index leaves the arrays, the byte count is the sum over the frames in flight, the
  counters stay below their thresholds, and the send interval stays between 16 and 100 ms.
\<close>

theorem frame_flow_invariant:
  "flow_ok (foldl flow_step empty_flow ops) \<and> length (in_flight (foldl flow_step empty_flow ops)) \<le> FRAME_FLOW_LIMIT \<and>
   FRAME_FLOW_MIN_INTERVAL \<le> frame_flow_interval (foldl flow_step empty_flow ops) \<and>
   frame_flow_interval (foldl flow_step empty_flow ops) \<le> FRAME_FLOW_MAX_INTERVAL"
proof -
  have ok: "flow_ok (foldl flow_step empty_flow ops)" by (rule flow.inv_run [OF empty_flow_ok])
  then have "length (in_flight (foldl flow_step empty_flow ops)) \<le> FRAME_FLOW_LIMIT"
    using length_in_flight by (simp add: flow_ok_def arrays_ok_def)
  with ok interval_bounds show ?thesis unfolding flow_ok_def by blast
qed

text \<open>
  C15: In every reachable state an acknowledgement releases exactly the frame it names, the oldest one
  of that identifier, and leaves the others in flight in their order; a duplicate or unknown one
  releases nothing; the answer tells which, and the elapsed time is that of the frame. An
  acknowledgement with the suspend depth empties the flow.
\<close>

theorem frame_flow_ack_releases_one:
  fixes ops frame_id depth now
  defines "flow \<equiv> foldl flow_step empty_flow ops"
  shows "frame_flow_ack flow frame_id depth now =
     (if depth = 0xffffffff then (False, 0, snd (snd (frame_flow_ack flow frame_id depth now)))
      else (lookup_frame frame_id (in_flight flow) \<noteq> None,
            (case lookup_frame frame_id (in_flight flow) of None \<Rightarrow> 0 | Some (bytes, sent) \<Rightarrow> now - sent),
            snd (snd (frame_flow_ack flow frame_id depth now)))) \<and>
     in_flight (snd (snd (frame_flow_ack flow frame_id depth now))) =
       (if depth = 0xffffffff then [] else drop_frame frame_id (in_flight flow))"
proof (cases "depth = 0xffffffff")
  case True
  then show ?thesis by (simp add: frame_flow_ack_def in_flight_def)
next
  case False
  have "flow_ok flow" unfolding flow_def by (rule flow.inv_run [OF empty_flow_ok])
  then have "arrays_ok flow" by (simp add: flow_ok_def)
  from frame_flow_ack_refines [OF this False, of frame_id now] False show ?thesis by (simp add: prod_eq_iff)
qed

text \<open>
  A frame registered in the trace is found by its acknowledgement, with everything that was
  recorded about it, as long as no frame of the same slot was sent since; and it is reported once:
  a second acknowledgement finds nothing.
\<close>

theorem frame_trace_roundtrip:
  assumes "length trace = FRAME_TRACE_CAPACITY" and "sent \<le> now"
    and "list_all (\<lambda>(i, s, t, r, w). unat i mod FRAME_TRACE_CAPACITY \<noteq> unat frame_id mod FRAME_TRACE_CAPACITY) later"
  shows "\<exists>trace'. frame_trace_ack
       (fold (\<lambda>(i, s, t, r, w) tr. frame_trace_sent tr i s t r w) later (frame_trace_sent trace frame_id ssrc timestamp received sent))
       frame_id now =
     (Some \<lparr>fe_valid = True, fe_frame_id = frame_id, fe_ssrc = ssrc, fe_rtp_timestamp = timestamp,
            fe_received_at = received, fe_sent_at = sent\<rparr>, trace') \<and>
     frame_trace_ack trace' frame_id now' = (None, trace')"
proof -
  let ?slot = "unat frame_id mod FRAME_TRACE_CAPACITY"
  let ?e = "\<lparr>fe_valid = True, fe_frame_id = frame_id, fe_ssrc = ssrc, fe_rtp_timestamp = timestamp,
            fe_received_at = received, fe_sent_at = sent\<rparr>"
  have slot: "?slot < FRAME_TRACE_CAPACITY" by (simp add: FRAME_TRACE_CAPACITY_def)
  have keep: "tr ! ?slot = ?e \<Longrightarrow> length tr = FRAME_TRACE_CAPACITY \<Longrightarrow>
      fold (\<lambda>(i, s, t, r, w) tr. frame_trace_sent tr i s t r w) later tr ! ?slot = ?e \<and>
      length (fold (\<lambda>(i, s, t, r, w) tr. frame_trace_sent tr i s t r w) later tr) = FRAME_TRACE_CAPACITY" for tr
    using assms(3)
  proof (induction later arbitrary: tr)
    case (Cons f later)
    obtain i s t r w where f: "f = (i, s, t, r, w)" by (metis prod.exhaust)
    have "frame_trace_sent tr i s t r w ! ?slot = ?e" "length (frame_trace_sent tr i s t r w) = FRAME_TRACE_CAPACITY"
      using Cons.prems by (simp_all add: f frame_trace_sent_def)
    from Cons.IH [OF this] Cons.prems(3) show ?case by (simp add: f)
  qed simp
  let ?tr = "fold (\<lambda>(i, s, t, r, w) tr. frame_trace_sent tr i s t r w) later (frame_trace_sent trace frame_id ssrc timestamp received sent)"
  have tr: "?tr ! ?slot = ?e" "length ?tr = FRAME_TRACE_CAPACITY"
    using keep [of "frame_trace_sent trace frame_id ssrc timestamp received sent"] assms(1) slot
    by (simp_all add: frame_trace_sent_def)
  have "frame_trace_ack ?tr frame_id now = (Some ?e, ?tr[?slot := ?e\<lparr>fe_valid := False\<rparr>])"
    unfolding frame_trace_ack_def Let_def tr using assms(2) by (simp add: not_less)
  moreover have "frame_trace_ack (?tr[?slot := ?e\<lparr>fe_valid := False\<rparr>]) frame_id now' =
      (None, ?tr[?slot := ?e\<lparr>fe_valid := False\<rparr>])"
    unfolding frame_trace_ack_def Let_def using tr(2) slot by (simp del: FrameTraceEntry.update_convs)
  ultimately show ?thesis by blast
qed

theorem frame_trace_roundtrip_witness:
  "length empty_trace = FRAME_TRACE_CAPACITY \<and>
   (\<exists>trace'. frame_trace_ack (frame_trace_sent (frame_trace_sent empty_trace 300 7 90000 1000 1010) 301 7 99000 1040 1050) 300 1060 =
     (Some \<lparr>fe_valid = True, fe_frame_id = 300, fe_ssrc = 7, fe_rtp_timestamp = 90000, fe_received_at = 1000, fe_sent_at = 1010\<rparr>,
      trace') \<and> frame_trace_ack trace' 300 1070 = (None, trace'))"
  using frame_trace_roundtrip [of empty_trace 1010 1060 300 "[(301, 7, 99000, 1040, 1050)]" 7 90000 1000 1070]
  by (simp add: empty_trace_def FRAME_TRACE_CAPACITY_def)

end
