(* ===== verification/GatewayConfig.thy ===== *)
theory GatewayConfig
  imports Prelude
begin

text \<open>
  The command line of the gateway (\<open>gateway_config.c\<close>). A C string is a \<open>string\<close> without its
  terminating zero, \<open>unsigned long\<close> is a 64-bit word, and the caller's error buffer is the text it
  holds together with its size. The parser changes the configuration in place, so a failed parse
  still returns the configuration as far as it got.
\<close>

section \<open>Definitions\<close>

record GatewayConfig =
  cfg_bind_address :: string
  cfg_port :: u16
  cfg_certificate :: string
  cfg_private_key :: string
  cfg_width :: u16
  cfg_height :: u16
  cfg_bitrate :: u16
  cfg_control_port :: u16
  cfg_video_port :: u16
  cfg_http_port :: u16
  cfg_jpeg_quality :: int
  cfg_direct_gfx :: bool
  cfg_swap_alt_command :: bool

text \<open>\<open>vsnprintf\<close> keeps one byte of the buffer for the terminator; without a buffer nothing is written.\<close>

definition set_error :: "nat \<Rightarrow> string \<Rightarrow> string \<Rightarrow> string" where
  "set_error error_size error message = (if 0 < error_size then take (error_size - 1) message else error)"

fun parse_digits :: "u64 \<Rightarrow> string \<Rightarrow> u64 \<Rightarrow> u64 option" where
  "parse_digits maximum [] result = Some result"
| "parse_digits maximum (character # rest) result =
     (if (of_char character :: nat) < 48 \<or> 57 < (of_char character :: nat) then None
      else let digit = of_nat (of_char character - 48) in
        if (maximum - digit) div 10 < result then None
        else parse_digits maximum rest (result * 10 + digit))"

definition parse_decimal :: "string \<Rightarrow> u64 \<Rightarrow> u64 \<Rightarrow> u64 option" where
  "parse_decimal value minimum maximum =
     (if value = [] then None
      else case parse_digits maximum value 0 of
        None \<Rightarrow> None
      | Some result \<Rightarrow> if result < minimum \<or> maximum < result then None else Some result)"

text \<open>\<open>strrchr\<close>: the text before and after the last occurrence.\<close>

fun split_last :: "char \<Rightarrow> string \<Rightarrow> (string \<times> string) option" where
  "split_last c [] = None"
| "split_last c (x # xs) =
     (case split_last c xs of
        Some (before, after) \<Rightarrow> Some (x # before, after)
      | None \<Rightarrow> if x = c then Some ([], xs) else None)"

definition BIND_ADDRESS_SIZE :: nat where
  "BIND_ADDRESS_SIZE = 64"

definition parse_listen :: "GatewayConfig \<Rightarrow> string \<Rightarrow> GatewayConfig option" where
  "parse_listen config value =
     (case split_last (CHR '':'') value of
        None \<Rightarrow> None
      | Some (host, port_text) \<Rightarrow>
          if host = [] \<or> port_text = [] then None
          else if BIND_ADDRESS_SIZE \<le> length host then None
          else case parse_decimal port_text 1 65535 of
            None \<Rightarrow> None
          | Some port \<Rightarrow> Some (config\<lparr>cfg_bind_address := host, cfg_port := ucast port\<rparr>))"

definition parse_option_number :: "string \<Rightarrow> string \<Rightarrow> u64 \<Rightarrow> u64 \<Rightarrow> nat \<Rightarrow> string \<Rightarrow> string + u64" where
  "parse_option_number option value minimum maximum error_size error =
     (case parse_decimal value minimum maximum of
        Some parsed \<Rightarrow> Inr parsed
      | None \<Rightarrow> Inl (set_error error_size error (''Invalid value for '' @ option @ '': '' @ value)))"

definition is_value_option :: "string \<Rightarrow> bool" where
  "is_value_option option \<longleftrightarrow>
     option = ''-listen'' \<or> option = ''-cert'' \<or> option = ''-key'' \<or> option = ''-width'' \<or>
     option = ''-height'' \<or> option = ''-bitrate'' \<or> option = ''-control-port'' \<or> option = ''-video-port'' \<or>
     option = ''-http-port'' \<or> option = ''-jpeg-quality''"

definition gateway_config_defaults :: GatewayConfig where
  "gateway_config_defaults =
     \<lparr>cfg_bind_address = ''0.0.0.0'', cfg_port = 3389, cfg_certificate = ''/root/nanokvm-rdp/cert.pem'',
      cfg_private_key = ''/root/nanokvm-rdp/key.pem'', cfg_width = 1920, cfg_height = 1080, cfg_bitrate = 8000,
      cfg_control_port = 3390, cfg_video_port = 5004, cfg_http_port = 8080, cfg_jpeg_quality = 8,
      cfg_direct_gfx = False, cfg_swap_alt_command = False\<rparr>"

text \<open>One option with its value: the error text, or the changed configuration.\<close>

definition set_number ::
  "string \<Rightarrow> string \<Rightarrow> u64 \<Rightarrow> u64 \<Rightarrow> nat \<Rightarrow> string \<Rightarrow> (u64 \<Rightarrow> GatewayConfig) \<Rightarrow> string + GatewayConfig" where
  "set_number option value minimum maximum error_size error assign =
     (case parse_option_number option value minimum maximum error_size error of
        Inl message \<Rightarrow> Inl message
      | Inr parsed \<Rightarrow> Inr (assign parsed))"

definition apply_value_option ::
  "GatewayConfig \<Rightarrow> string \<Rightarrow> string \<Rightarrow> nat \<Rightarrow> string \<Rightarrow> string + GatewayConfig" where
  "apply_value_option config option value error_size error =
     (if option = ''-listen'' then
        (case parse_listen config value of
           None \<Rightarrow> Inl (set_error error_size error (''Invalid value for -listen: '' @ value))
         | Some changed \<Rightarrow> Inr changed)
      else if option = ''-cert'' then Inr (config\<lparr>cfg_certificate := value\<rparr>)
      else if option = ''-key'' then Inr (config\<lparr>cfg_private_key := value\<rparr>)
      else if option = ''-width'' then
        set_number option value 1 8192 error_size error (\<lambda>parsed. config\<lparr>cfg_width := ucast parsed\<rparr>)
      else if option = ''-height'' then
        set_number option value 1 8192 error_size error (\<lambda>parsed. config\<lparr>cfg_height := ucast parsed\<rparr>)
      else if option = ''-bitrate'' then
        set_number option value 1 65535 error_size error (\<lambda>parsed. config\<lparr>cfg_bitrate := ucast parsed\<rparr>)
      else if option = ''-control-port'' then
        set_number option value 1 65535 error_size error (\<lambda>parsed. config\<lparr>cfg_control_port := ucast parsed\<rparr>)
      else if option = ''-video-port'' then
        set_number option value 1 65535 error_size error (\<lambda>parsed. config\<lparr>cfg_video_port := ucast parsed\<rparr>)
      else if option = ''-http-port'' then
        set_number option value 1 65535 error_size error (\<lambda>parsed. config\<lparr>cfg_http_port := ucast parsed\<rparr>)
      else if option = ''-jpeg-quality'' then
        set_number option value 2 31 error_size error (\<lambda>parsed. config\<lparr>cfg_jpeg_quality := uint parsed\<rparr>)
      else Inl (set_error error_size error (''Unknown option: '' @ option)))"

fun parse_arguments ::
  "GatewayConfig \<Rightarrow> string list \<Rightarrow> nat \<Rightarrow> string \<Rightarrow> bool \<times> GatewayConfig \<times> string" where
  "parse_arguments config [] error_size error = (True, config, error)"
| "parse_arguments config (option # rest) error_size error =
     (if option = ''-direct-gfx'' then
        parse_arguments (config\<lparr>cfg_direct_gfx := True\<rparr>) rest error_size error
      else if option = ''-swap-alt-command'' then
        parse_arguments (config\<lparr>cfg_swap_alt_command := True\<rparr>) rest error_size error
      else if \<not> is_value_option option then
        (False, config, set_error error_size error (''Unknown option: '' @ option))
      else case rest of
        [] \<Rightarrow> (False, config, set_error error_size error (''Missing value for '' @ option))
      | value # others \<Rightarrow>
          (case apply_value_option config option value error_size error of
             Inl message \<Rightarrow> (False, config, message)
           | Inr changed \<Rightarrow> parse_arguments changed others error_size error))"

text \<open>\<open>argv\<close> with the program name in front; an empty \<open>argv\<close> has no argument either.\<close>

definition gateway_config_parse ::
  "GatewayConfig \<Rightarrow> string list \<Rightarrow> nat \<Rightarrow> string \<Rightarrow> bool \<times> GatewayConfig \<times> string" where
  "gateway_config_parse config argv error_size error =
     parse_arguments config (tl argv) error_size (if 0 < error_size then [] else error)"

definition gateway_config_print_usage :: "string \<Rightarrow> string" where
  "gateway_config_print_usage executable =
     ''Usage: '' @ executable @
     '' [-listen host:port] [-cert file] [-key file] [-width n] [-height n] '' @
     ''[-bitrate n] [-control-port n] [-video-port n] [-http-port n] '' @
     ''[-jpeg-quality n] [-direct-gfx] [-swap-alt-command]'' @ [CHR 0x0A]"

section \<open>Decimal numbers\<close>

definition is_digit :: "char \<Rightarrow> bool" where
  "is_digit c \<longleftrightarrow> 48 \<le> (of_char c :: nat) \<and> (of_char c :: nat) \<le> 57"

definition digit_value :: "char \<Rightarrow> nat" where
  "digit_value c = of_char c - 48"

fun decimal_value :: "nat \<Rightarrow> string \<Rightarrow> nat" where
  "decimal_value acc [] = acc"
| "decimal_value acc (c # cs) = decimal_value (acc * 10 + digit_value c) cs"

lemma decimal_value_mono: "acc \<le> decimal_value acc cs"
proof (induction cs arbitrary: acc)
  case (Cons c cs)
  have "acc \<le> acc * 10 + digit_value c" by simp
  also have "\<dots> \<le> decimal_value (acc * 10 + digit_value c) cs" by (rule Cons.IH)
  finally show ?case by simp
qed simp

lemma digit_value_le: "is_digit c \<Longrightarrow> digit_value c \<le> 9"
  unfolding is_digit_def digit_value_def by linarith

lemma digit_step:
  assumes "is_digit c" and "9 \<le> maximum"
  defines "digit \<equiv> (of_nat (of_char c - 48) :: u64)"
  shows "(maximum - digit) div 10 < result \<longleftrightarrow> unat maximum < unat result * 10 + digit_value c"
    and "\<not> (maximum - digit) div 10 < result \<Longrightarrow> unat (result * 10 + digit) = unat result * 10 + digit_value c"
proof -
  have le9: "digit_value c \<le> 9" using assms(1) by (rule digit_value_le)
  have d: "unat digit = digit_value c"
    using le9 unfolding digit_def digit_value_def by (simp add: unsigned_of_nat take_bit_nat_eq_self)
  have "digit_value c \<le> unat maximum" using le9 assms(2) by (simp add: word_le_nat_alt)
  then have "digit \<le> maximum" using d by (simp add: word_le_nat_alt)
  then have sub: "unat (maximum - digit) = unat maximum - digit_value c"
    using d by (simp add: unat_sub)
  have cmp: "(maximum - digit) div 10 < result \<longleftrightarrow> (unat maximum - digit_value c) div 10 < unat result"
    by (simp add: word_less_nat_alt unat_div sub)
  with \<open>digit_value c \<le> unat maximum\<close>
  show "(maximum - digit) div 10 < result \<longleftrightarrow> unat maximum < unat result * 10 + digit_value c" by arith
  assume "\<not> (maximum - digit) div 10 < result"
  with cmp \<open>digit_value c \<le> unat maximum\<close> have "unat result * 10 + digit_value c \<le> unat maximum" by arith
  then have "unat result * 10 + digit_value c < 2 ^ 64"
    using unsigned_less [of maximum, where ?'a = nat] by simp
  then show "unat (result * 10 + digit) = unat result * 10 + digit_value c"
    using d by (simp add: unat_word_ariths)
qed

lemma parse_digits_exact:
  assumes "9 \<le> maximum" and "unat result \<le> unat maximum"
  shows "parse_digits maximum cs result =
     (if list_all is_digit cs \<and> decimal_value (unat result) cs \<le> unat maximum
      then Some (of_nat (decimal_value (unat result) cs)) else None)"
  using assms(2)
proof (induction cs arbitrary: result)
  case (Cons c cs)
  show ?case
  proof (cases "is_digit c")
    case True
    let ?digit = "of_nat (of_char c - 48) :: u64"
    note step = digit_step [OF True assms(1), of result]
    have guard: "\<not> ((of_char c :: nat) < 48 \<or> 57 < (of_char c :: nat))" using True by (simp add: is_digit_def)
    show ?thesis
    proof (cases "(maximum - ?digit) div 10 < result")
      case True
      then have "unat maximum < unat result * 10 + digit_value c" using step(1) by simp
      also have "\<dots> \<le> decimal_value (unat result * 10 + digit_value c) cs" by (rule decimal_value_mono)
      finally show ?thesis using True guard by (simp add: Let_def)
    next
      case False
      note grown = step(2) [OF False]
      have "unat (result * 10 + ?digit) \<le> unat maximum" using step(1) False grown by simp
      from Cons.IH [OF this] False guard grown \<open>is_digit c\<close> show ?thesis by (simp add: Let_def)
    qed
  next
    case False
    then show ?thesis by (auto simp: is_digit_def)
  qed
qed simp

lemma parse_decimal_exact:
  assumes "9 \<le> maximum"
  shows "parse_decimal value minimum maximum =
     (if value \<noteq> [] \<and> list_all is_digit value \<and> unat minimum \<le> decimal_value 0 value \<and> decimal_value 0 value \<le> unat maximum
      then Some (of_nat (decimal_value 0 value)) else None)"
proof -
  have "decimal_value 0 value \<le> unat maximum \<Longrightarrow> unat (of_nat (decimal_value 0 value) :: u64) = decimal_value 0 value"
    using unsigned_less [of maximum, where ?'a = nat]
    by (simp add: unsigned_of_nat take_bit_nat_eq_self)
  then show ?thesis
    using parse_digits_exact [OF assms, of 0 "value"]
    by (auto simp: parse_decimal_def word_less_nat_alt)
qed

lemma parse_decimal_range:
  assumes "parse_decimal value minimum maximum = Some parsed"
  shows "minimum \<le> parsed \<and> parsed \<le> maximum"
  using assms by (auto simp: parse_decimal_def not_less split: if_splits option.splits)

text \<open>The shortest decimal text of a number.\<close>

definition digit_char :: "nat \<Rightarrow> char" where
  "digit_char n = char_of (48 + n mod 10)"

function decimal :: "nat \<Rightarrow> string" where
  "decimal n = (if n < 10 then [digit_char n] else decimal (n div 10) @ [digit_char n])"
  by auto
termination by (relation "measure (\<lambda>n. n)") auto

declare decimal.simps [simp del]

lemma digit_char: "is_digit (digit_char n)" "digit_value (digit_char n) = n mod 10"
proof -
  have "(of_char (char_of (48 + n mod 10)) :: nat) = 48 + n mod 10"
    by (simp add: of_char_mod_256)
  then show "is_digit (digit_char n)" "digit_value (digit_char n) = n mod 10"
    by (simp_all add: is_digit_def digit_value_def digit_char_def)
qed

lemma decimal_value_append: "decimal_value acc (xs @ [c]) = decimal_value acc xs * 10 + digit_value c"
  by (induction xs arbitrary: acc) simp_all

lemma decimal_text: "decimal n \<noteq> [] \<and> list_all is_digit (decimal n) \<and> decimal_value 0 (decimal n) = n"
proof (induction n rule: decimal.induct)
  case (1 n)
  show ?case
  proof (cases "n < 10")
    case True
    then show ?thesis by (subst (1 2 3) decimal.simps) (simp add: digit_char)
  next
    case False
    from 1 [OF False] show ?thesis
      using False by (subst (1 2 3) decimal.simps) (simp add: digit_char decimal_value_append)
  qed
qed

lemma parse_decimal_decimal:
  assumes "9 \<le> maximum" and "unat minimum \<le> n" and "n \<le> unat maximum"
  shows "parse_decimal (decimal n) minimum maximum = Some (of_nat n)"
  using parse_decimal_exact [OF assms(1), of "decimal n" minimum] decimal_text [of n] assms(2,3) by simp

section \<open>Well-formed configurations\<close>

definition config_ok :: "GatewayConfig \<Rightarrow> bool" where
  "config_ok config \<longleftrightarrow>
     cfg_bind_address config \<noteq> [] \<and> length (cfg_bind_address config) < BIND_ADDRESS_SIZE \<and>
     0 < cfg_port config \<and> 0 < cfg_control_port config \<and> 0 < cfg_video_port config \<and> 0 < cfg_http_port config \<and>
     0 < cfg_width config \<and> cfg_width config \<le> 8192 \<and> 0 < cfg_height config \<and> cfg_height config \<le> 8192 \<and>
     0 < cfg_bitrate config \<and> 2 \<le> cfg_jpeg_quality config \<and> cfg_jpeg_quality config \<le> 31"

lemma narrow_range:
  fixes parsed :: u64
  assumes "1 \<le> parsed" and "parsed \<le> limit" and "limit \<le> 65535"
  shows "0 < (ucast parsed :: u16) \<and> (ucast parsed :: u16) \<le> ucast limit"
proof -
  have small: "unat limit < 2 ^ 16" "unat parsed \<le> unat limit" using assms by (simp_all add: word_le_nat_alt)
  then have "unat (ucast parsed :: u16) = unat parsed" "unat (ucast limit :: u16) = unat limit"
    by (simp_all add: unsigned_ucast_eq take_bit_nat_eq_self)
  with small assms(1) show ?thesis by (simp add: word_le_nat_alt word_less_nat_alt)
qed

lemmas port_range = narrow_range [where limit = 65535, simplified]
lemmas size_range = narrow_range [where limit = 8192, simplified]

lemma quality_range: "2 \<le> (parsed :: u64) \<Longrightarrow> parsed \<le> 31 \<Longrightarrow> 2 \<le> uint parsed \<and> uint parsed \<le> 31"
  by (simp add: word_le_def)

lemma set_number_ok:
  assumes "\<And>parsed. minimum \<le> parsed \<Longrightarrow> parsed \<le> maximum \<Longrightarrow> P (assign parsed)"
    and "set_number option value minimum maximum error_size error assign = Inr changed"
  shows "P changed"
  using assms parse_decimal_range
  by (auto simp: set_number_def parse_option_number_def split: option.splits sum.splits)

lemma parse_listen_ok:
  assumes "config_ok config" and "parse_listen config value = Some changed"
  shows "config_ok changed"
proof -
  obtain host port_text port where
    "split_last (CHR '':'') value = Some (host, port_text)" "host \<noteq> []" "length host < BIND_ADDRESS_SIZE"
    "parse_decimal port_text 1 65535 = Some port"
    and changed: "changed = config\<lparr>cfg_bind_address := host, cfg_port := ucast port\<rparr>"
    using assms(2) by (auto simp: parse_listen_def split: option.splits if_splits)
  with parse_decimal_range port_range [of port] assms(1) show ?thesis by (auto simp: config_ok_def)
qed

lemma set_field_ok:
  assumes "config_ok config"
  shows
    "set_number option value 1 8192 error_size error (\<lambda>parsed. config\<lparr>cfg_width := ucast parsed\<rparr>) = Inr changed \<Longrightarrow> config_ok changed"
    "set_number option value 1 8192 error_size error (\<lambda>parsed. config\<lparr>cfg_height := ucast parsed\<rparr>) = Inr changed \<Longrightarrow> config_ok changed"
    "set_number option value 1 65535 error_size error (\<lambda>parsed. config\<lparr>cfg_bitrate := ucast parsed\<rparr>) = Inr changed \<Longrightarrow> config_ok changed"
    "set_number option value 1 65535 error_size error (\<lambda>parsed. config\<lparr>cfg_control_port := ucast parsed\<rparr>) = Inr changed \<Longrightarrow> config_ok changed"
    "set_number option value 1 65535 error_size error (\<lambda>parsed. config\<lparr>cfg_video_port := ucast parsed\<rparr>) = Inr changed \<Longrightarrow> config_ok changed"
    "set_number option value 1 65535 error_size error (\<lambda>parsed. config\<lparr>cfg_http_port := ucast parsed\<rparr>) = Inr changed \<Longrightarrow> config_ok changed"
    "set_number option value 2 31 error_size error (\<lambda>parsed. config\<lparr>cfg_jpeg_quality := uint parsed\<rparr>) = Inr changed \<Longrightarrow> config_ok changed"
  by (erule set_number_ok [where P = config_ok, rotated],
      use assms in \<open>simp add: config_ok_def port_range size_range quality_range\<close>)+

lemma apply_value_option_ok:
  assumes ok: "config_ok config" and run: "apply_value_option config option value error_size error = Inr changed"
  shows "config_ok changed"
proof -
  consider "option = ''-listen''" | "option = ''-cert'' \<or> option = ''-key''" | "option = ''-width''" | "option = ''-height''"
    | "option = ''-bitrate''" | "option = ''-control-port''" | "option = ''-video-port''" | "option = ''-http-port''"
    | "option = ''-jpeg-quality''"
    using run by (auto simp: apply_value_option_def split: if_splits)
  then show ?thesis
  proof cases
    case 1
    with run ok show ?thesis by (auto simp: apply_value_option_def split: option.splits intro: parse_listen_ok)
  next
    case 2
    with run ok show ?thesis by (auto simp: apply_value_option_def config_ok_def)
  qed (use run set_field_ok [OF ok] in \<open>simp add: apply_value_option_def; blast\<close>)+
qed

lemma error_text:
  assumes "message \<noteq> []"
  shows "(1 < error_size \<longrightarrow> set_error error_size error message \<noteq> []) \<and>
     (0 < error_size \<longrightarrow> length (set_error error_size error message) < error_size)"
  using assms by (auto simp: set_error_def)

lemma apply_value_option_error:
  assumes "apply_value_option config option value error_size error = Inl message"
  shows "(1 < error_size \<longrightarrow> message \<noteq> []) \<and> (0 < error_size \<longrightarrow> length message < error_size)"
proof -
  obtain reason where "message = set_error error_size error reason" "reason \<noteq> []"
    using assms
    by (auto simp: apply_value_option_def set_number_def parse_option_number_def
        split: if_splits option.splits sum.splits)
  with error_text show ?thesis by simp
qed

lemma parse_arguments_sound:
  assumes "config_ok config" and "parse_arguments config args error_size error = (ok, config', error')"
  shows "config_ok config' \<and> (ok \<longrightarrow> error' = error) \<and>
     (\<not> ok \<longrightarrow> (1 < error_size \<longrightarrow> error' \<noteq> []) \<and> (0 < error_size \<longrightarrow> length error' < error_size))"
  using assms
proof (induction config args error_size error rule: parse_arguments.induct)
  case (2 config option rest error_size error)
  consider (direct) "option = ''-direct-gfx''" | (swap) "option = ''-swap-alt-command''"
    | (unknown) "\<not> is_value_option option" "option \<noteq> ''-direct-gfx''" "option \<noteq> ''-swap-alt-command''"
    | (missing) "is_value_option option" "rest = []"
    | (more_text) val others where "is_value_option option" "rest = val # others"
    by (cases rest) auto
  then show ?case
  proof cases
    case direct
    with 2 show ?thesis by (simp add: config_ok_def)
  next
    case swap
    with 2 show ?thesis by (simp add: config_ok_def)
  next
    case unknown
    with 2 show ?thesis using error_text [of "''Unknown option: '' @ option" error_size error] by auto
  next
    case missing
    then have "option \<noteq> ''-direct-gfx''" "option \<noteq> ''-swap-alt-command''" by (auto simp: is_value_option_def)
    with missing 2 show ?thesis using error_text [of "''Missing value for '' @ option" error_size error] by auto
  next
    case more_text
    then have other: "option \<noteq> ''-direct-gfx''" "option \<noteq> ''-swap-alt-command''" by (auto simp: is_value_option_def)
    show ?thesis
    proof (cases "apply_value_option config option val error_size error")
      case (Inl message)
      with more_text other 2 apply_value_option_error [OF Inl] show ?thesis by auto
    next
      case (Inr changed)
      have "config_ok changed" using 2(4) Inr by (rule apply_value_option_ok)
      with 2 more_text other Inr show ?thesis by simp
    qed
  qed
qed simp

lemma defaults_ok: "config_ok gateway_config_defaults"
  by (simp add: config_ok_def gateway_config_defaults_def BIND_ADDRESS_SIZE_def)

section \<open>Rendering a configuration\<close>

definition render_config :: "GatewayConfig \<Rightarrow> string list" where
  "render_config c =
     [''nanokvm-rdp'', ''-listen'', cfg_bind_address c @ CHR '':'' # decimal (unat (cfg_port c)),
      ''-cert'', cfg_certificate c, ''-key'', cfg_private_key c,
      ''-width'', decimal (unat (cfg_width c)), ''-height'', decimal (unat (cfg_height c)),
      ''-bitrate'', decimal (unat (cfg_bitrate c)), ''-control-port'', decimal (unat (cfg_control_port c)),
      ''-video-port'', decimal (unat (cfg_video_port c)), ''-http-port'', decimal (unat (cfg_http_port c)),
      ''-jpeg-quality'', decimal (nat (cfg_jpeg_quality c))] @
     (if cfg_direct_gfx c then [''-direct-gfx''] else []) @
     (if cfg_swap_alt_command c then [''-swap-alt-command''] else [])"

lemma split_last_append: "c \<notin> set after \<Longrightarrow> split_last c (before @ c # after) = Some (before, after)"
proof (induction before)
  case Nil
  then have "split_last c after = None" by (induction after) auto
  then show ?case by simp
qed simp

lemma colon_no_digit: "list_all is_digit cs \<Longrightarrow> CHR '':'' \<notin> set cs"
  by (auto simp: list_all_iff is_digit_def)

lemma parse_word:
  fixes w :: u16
  assumes "0 < w" and "unat w \<le> unat maximum" and "9 \<le> maximum"
  shows "\<exists>parsed. parse_decimal (decimal (unat w)) 1 maximum = Some parsed \<and> ucast parsed = w"
proof -
  have "1 \<le> unat w" using assms(1) by (simp add: word_less_nat_alt)
  then have "parse_decimal (decimal (unat w)) 1 maximum = Some (of_nat (unat w))"
    using assms by (intro parse_decimal_decimal) simp_all
  moreover have "(ucast (of_nat (unat w) :: u64) :: u16) = w"
    by (rule bit_word_eqI) (simp add: bit_simps)
  ultimately show ?thesis by blast
qed

lemma set_word:
  fixes w :: u16
  assumes "0 < w" and "unat w \<le> unat maximum" and "9 \<le> maximum" and "\<And>parsed. assign parsed = changed (ucast parsed)"
  shows "set_number option (decimal (unat w)) 1 maximum error_size error assign = Inr (changed w)"
  using parse_word [OF assms(1-3)] assms(4) by (auto simp: set_number_def parse_option_number_def)

lemma listen_render:
  assumes "config_ok c"
  shows "parse_listen config (cfg_bind_address c @ CHR '':'' # decimal (unat (cfg_port c))) =
     Some (config\<lparr>cfg_bind_address := cfg_bind_address c, cfg_port := cfg_port c\<rparr>)"
proof -
  obtain parsed where parsed: "parse_decimal (decimal (unat (cfg_port c))) 1 65535 = Some parsed" "ucast parsed = cfg_port c"
    using parse_word [of "cfg_port c" 65535] unsigned_less [of "cfg_port c", where ?'a = nat] assms
    by (auto simp: config_ok_def)
  have port: "decimal (unat (cfg_port c)) \<noteq> []" "CHR '':'' \<notin> set (decimal (unat (cfg_port c)))"
    using decimal_text [of "unat (cfg_port c)"] colon_no_digit by auto
  have host: "cfg_bind_address c \<noteq> []" "\<not> BIND_ADDRESS_SIZE \<le> length (cfg_bind_address c)"
    using assms by (auto simp: config_ok_def)
  show ?thesis
    unfolding parse_listen_def split_last_append [OF port(2)] using parsed port(1) host by simp
qed

lemma quality_render:
  assumes "2 \<le> q" and "q \<le> 31"
  shows "set_number option (decimal (nat q)) 2 31 error_size error (\<lambda>parsed. config\<lparr>cfg_jpeg_quality := uint parsed\<rparr>) =
     Inr (config\<lparr>cfg_jpeg_quality := q\<rparr>)"
proof -
  have "parse_decimal (decimal (nat q)) 2 31 = Some (of_nat (nat q))"
    using assms by (intro parse_decimal_decimal) simp_all
  moreover have "uint (of_nat (nat q) :: u64) = q"
    using assms by (simp add: unsigned_of_int take_bit_int_eq_self)
  ultimately show ?thesis by (simp add: set_number_def parse_option_number_def)
qed

lemma render_words:
  assumes "config_ok c"
  shows "0 < cfg_width c" "unat (cfg_width c) \<le> unat (8192 :: u64)" "0 < cfg_height c" "unat (cfg_height c) \<le> unat (8192 :: u64)"
    "0 < cfg_bitrate c" "0 < cfg_control_port c" "0 < cfg_video_port c" "0 < cfg_http_port c"
    "2 \<le> cfg_jpeg_quality c" "cfg_jpeg_quality c \<le> 31"
  using assms by (simp_all add: config_ok_def word_le_nat_alt)

lemma u16_in_range: "unat (w :: u16) \<le> 65535"
  using unsigned_less [of w, where ?'a = nat] by simp

lemma render_options:
  assumes "config_ok c"
  shows
    "apply_value_option config ''-listen'' (cfg_bind_address c @ CHR '':'' # decimal (unat (cfg_port c))) error_size error =
       Inr (config\<lparr>cfg_bind_address := cfg_bind_address c, cfg_port := cfg_port c\<rparr>)"
    "apply_value_option config ''-cert'' (cfg_certificate c) error_size error = Inr (config\<lparr>cfg_certificate := cfg_certificate c\<rparr>)"
    "apply_value_option config ''-key'' (cfg_private_key c) error_size error = Inr (config\<lparr>cfg_private_key := cfg_private_key c\<rparr>)"
    "apply_value_option config ''-width'' (decimal (unat (cfg_width c))) error_size error = Inr (config\<lparr>cfg_width := cfg_width c\<rparr>)"
    "apply_value_option config ''-height'' (decimal (unat (cfg_height c))) error_size error = Inr (config\<lparr>cfg_height := cfg_height c\<rparr>)"
    "apply_value_option config ''-bitrate'' (decimal (unat (cfg_bitrate c))) error_size error = Inr (config\<lparr>cfg_bitrate := cfg_bitrate c\<rparr>)"
    "apply_value_option config ''-control-port'' (decimal (unat (cfg_control_port c))) error_size error =
       Inr (config\<lparr>cfg_control_port := cfg_control_port c\<rparr>)"
    "apply_value_option config ''-video-port'' (decimal (unat (cfg_video_port c))) error_size error =
       Inr (config\<lparr>cfg_video_port := cfg_video_port c\<rparr>)"
    "apply_value_option config ''-http-port'' (decimal (unat (cfg_http_port c))) error_size error =
       Inr (config\<lparr>cfg_http_port := cfg_http_port c\<rparr>)"
    "apply_value_option config ''-jpeg-quality'' (decimal (nat (cfg_jpeg_quality c))) error_size error =
       Inr (config\<lparr>cfg_jpeg_quality := cfg_jpeg_quality c\<rparr>)"
  using render_words [OF assms]
  by (simp_all add: apply_value_option_def listen_render [OF assms] set_word u16_in_range quality_render)

lemma switch_off:
  "\<not> cfg_direct_gfx d \<Longrightarrow> d\<lparr>cfg_direct_gfx := False\<rparr> = d"
  "\<not> cfg_swap_alt_command d \<Longrightarrow> d\<lparr>cfg_swap_alt_command := False\<rparr> = d"
  by (cases d, simp)+

section \<open>Properties\<close>

text \<open>
  C31: The number parser accepts exactly the non-empty texts of decimal digits whose value lies in the
  range, leading zeros included, and returns that value; its overflow test never lets an intermediate
  result wrap around, for every upper limit of at least 9 up to the full range of \<open>unsigned long\<close>.
\<close>

theorem parse_decimal_accepts:
  assumes "9 \<le> maximum"
  shows "parse_decimal value minimum maximum = Some parsed \<longleftrightarrow>
     value \<noteq> [] \<and> list_all is_digit value \<and> unat minimum \<le> decimal_value 0 value \<and>
     decimal_value 0 value \<le> unat maximum \<and> unat parsed = decimal_value 0 value"
proof -
  have "decimal_value 0 value \<le> unat maximum \<Longrightarrow> unat (of_nat (decimal_value 0 value) :: u64) = decimal_value 0 value"
    using unsigned_less [of maximum, where ?'a = nat] by (simp add: unsigned_of_nat take_bit_nat_eq_self)
  then show ?thesis
    unfolding parse_decimal_exact [OF assms] by (auto simp: word_unat_eq_iff)
qed

theorem parse_decimal_accepts_witness:
  "parse_decimal ''00443'' 1 65535 = Some 443 \<and> parse_decimal ''65536'' 1 65535 \<noteq> Some 0"
  using parse_decimal_accepts [of 65535 "''00443''" 1 443] parse_decimal_accepts [of 65535 "''65536''" 1 0]
  by (simp add: is_digit_def digit_value_def)

text \<open>
  C29: Whatever the command line, the configuration that comes out of the parser is well formed, also when
  the parse failed half way: ports, sizes, bit rate and JPEG quality lie in their ranges and the bind
  address fits its array. A parse that succeeds leaves no error text, one that fails leaves a text
  that fits the buffer and is not empty if the buffer has room for a character.
\<close>

theorem gateway_config_well_formed:
  assumes "gateway_config_parse gateway_config_defaults argv error_size error = (ok, config, error')"
  shows "config_ok config \<and> (0 < error_size \<longrightarrow> length error' < error_size \<and> (ok \<longrightarrow> error' = [])) \<and>
     (1 < error_size \<longrightarrow> ok = (error' = []))"
  using parse_arguments_sound [OF defaults_ok assms [unfolded gateway_config_parse_def]]
  by (auto split: if_splits)

theorem gateway_config_well_formed_witness:
  "\<exists>config error'. gateway_config_parse gateway_config_defaults
       [''nanokvm-rdp'', ''-width'', ''1280'', ''-jpeg-quality'', ''32''] 64 [] = (False, config, error') \<and>
     config_ok config \<and> cfg_width config = 1280 \<and> error' \<noteq> []"
proof -
  let ?argv = "[''nanokvm-rdp'', ''-width'', ''1280'', ''-jpeg-quality'', ''32'']"
  have run: "gateway_config_parse gateway_config_defaults ?argv 64 [] =
      (False, gateway_config_defaults\<lparr>cfg_width := 1280\<rparr>, ''Invalid value for -jpeg-quality: 32'')"
    by (simp add: gateway_config_parse_def is_value_option_def apply_value_option_def set_number_def
        parse_option_number_def parse_decimal_def Let_def set_error_def)
  from gateway_config_well_formed [OF run] run show ?thesis by simp
qed

text \<open>
  C30: Every well-formed configuration can be given on the command line: rendering it as options and
  parsing them, in the presence of any earlier well-formed configuration whose switches are off,
  yields that configuration.
\<close>

theorem gateway_config_roundtrip:
  assumes "config_ok c" and "\<not> cfg_direct_gfx base" and "\<not> cfg_swap_alt_command base" and "0 < error_size"
  shows "gateway_config_parse base (render_config c) error_size error = (True, c, [])"
proof -
  have switches: "c = base\<lparr>cfg_bind_address := cfg_bind_address c, cfg_port := cfg_port c, cfg_certificate := cfg_certificate c,
      cfg_private_key := cfg_private_key c, cfg_width := cfg_width c, cfg_height := cfg_height c, cfg_bitrate := cfg_bitrate c,
      cfg_control_port := cfg_control_port c, cfg_video_port := cfg_video_port c, cfg_http_port := cfg_http_port c,
      cfg_jpeg_quality := cfg_jpeg_quality c, cfg_direct_gfx := cfg_direct_gfx c, cfg_swap_alt_command := cfg_swap_alt_command c\<rparr>"
    by (cases base; cases c) simp
  have "parse_arguments base (tl (render_config c)) error_size [] = (True, c, [])"
    using assms(2,3)
    by (subst (2) switches) (simp add: render_config_def is_value_option_def render_options [OF assms(1)] switch_off)
  with assms(4) show ?thesis by (simp add: gateway_config_parse_def)
qed

theorem gateway_config_roundtrip_witness:
  "gateway_config_parse gateway_config_defaults (render_config (gateway_config_defaults\<lparr>cfg_http_port := 8443, cfg_direct_gfx := True\<rparr>))
     64 [] = (True, gateway_config_defaults\<lparr>cfg_http_port := 8443, cfg_direct_gfx := True\<rparr>, [])"
  by (rule gateway_config_roundtrip)
    (simp_all add: config_ok_def gateway_config_defaults_def BIND_ADDRESS_SIZE_def)

end
