(* ===== verification/HidKeys.thy ===== *)
theory HidKeys
  imports Prelude
begin

text \<open>
  The tables and pure functions of the HID side (\<open>hid.c\<close>): pointer scaling and buttons, scan codes,
  the keys that type a character, Hangul decomposition, UTF-8 and the quoting of pasted text. A
  \<open>switch\<close> or a designated initialiser is an association list in the order of the source. The text of
  a C string is the list of its bytes as characters.
\<close>

section \<open>Flags\<close>

definition PTR_FLAGS_WHEEL :: u16 where "PTR_FLAGS_WHEEL = 0x0200"
definition PTR_FLAGS_WHEEL_NEGATIVE :: u16 where "PTR_FLAGS_WHEEL_NEGATIVE = 0x0100"
definition PTR_FLAGS_HWHEEL :: u16 where "PTR_FLAGS_HWHEEL = 0x0400"
definition PTR_FLAGS_DOWN :: u16 where "PTR_FLAGS_DOWN = 0x8000"
definition PTR_FLAGS_BUTTON1 :: u16 where "PTR_FLAGS_BUTTON1 = 0x1000"
definition PTR_FLAGS_BUTTON2 :: u16 where "PTR_FLAGS_BUTTON2 = 0x2000"
definition PTR_FLAGS_BUTTON3 :: u16 where "PTR_FLAGS_BUTTON3 = 0x4000"
definition PTR_XFLAGS_BUTTON1 :: u16 where "PTR_XFLAGS_BUTTON1 = 0x0001"
definition PTR_XFLAGS_BUTTON2 :: u16 where "PTR_XFLAGS_BUTTON2 = 0x0002"
definition WHEEL_ROTATION_MASK :: u16 where "WHEEL_ROTATION_MASK = 0x01FF"
definition HID_MOUSE_BUTTONS_MASK :: byte where "HID_MOUSE_BUTTONS_MASK = 0x07"
definition HID_TOUCH_BUTTONS_MASK :: byte where "HID_TOUCH_BUTTONS_MASK = 0x1f"
definition HID_MODIFIER_RIGHT_ALT :: byte where "HID_MODIFIER_RIGHT_ALT = 0x40"

lemmas ptr_flags = PTR_FLAGS_WHEEL_def PTR_FLAGS_WHEEL_NEGATIVE_def PTR_FLAGS_HWHEEL_def PTR_FLAGS_DOWN_def
  PTR_FLAGS_BUTTON1_def PTR_FLAGS_BUTTON2_def PTR_FLAGS_BUTTON3_def PTR_XFLAGS_BUTTON1_def PTR_XFLAGS_BUTTON2_def
  WHEEL_ROTATION_MASK_def

section \<open>Pointer\<close>

definition hid_scale_absolute :: "u16 \<Rightarrow> u32 \<Rightarrow> u16" where
  "hid_scale_absolute value dimension =
     (if dimension \<le> 1 then 0x3fff
      else let scaled = (ucast value * 0x7fff) div (dimension - 1);
               scaled1 = (if scaled < 1 then 1 else scaled);
               scaled2 = (if 0x7fff < scaled1 then 0x7fff else scaled1)
           in ucast scaled2)"

definition hid_clamp_absolute :: "u16 \<Rightarrow> u16 \<Rightarrow> u16" where
  "hid_clamp_absolute value dimension =
     (if dimension = 0 then 0 else if value < dimension then value else dimension - 1)"

definition hid_pointer_flags_from_extended :: "u16 \<Rightarrow> u16" where
  "hid_pointer_flags_from_extended flags = flags AND (PTR_FLAGS_DOWN OR PTR_XFLAGS_BUTTON1 OR PTR_XFLAGS_BUTTON2)"

definition button_bits :: "u16 list" where
  "button_bits = [PTR_FLAGS_BUTTON1, PTR_FLAGS_BUTTON2, PTR_FLAGS_BUTTON3, PTR_XFLAGS_BUTTON1, PTR_XFLAGS_BUTTON2]"

definition apply_button :: "u16 \<Rightarrow> byte \<Rightarrow> nat \<Rightarrow> byte" where
  "apply_button flags buttons i =
     (if flags AND (button_bits ! i) \<noteq> 0
      then if flags AND PTR_FLAGS_DOWN \<noteq> 0 then buttons OR push_bit i 1 else buttons AND NOT (push_bit i 1)
      else buttons)"

definition hid_pointer_buttons :: "byte \<Rightarrow> u16 \<Rightarrow> byte" where
  "hid_pointer_buttons buttons flags = foldl (apply_button flags) buttons [0..<5]"

definition touch_buttons :: "byte \<Rightarrow> byte" where
  "touch_buttons buttons = buttons AND 0x18"

definition write_touch_position :: "byte list \<Rightarrow> u16 \<Rightarrow> u16 \<Rightarrow> byte list" where
  "write_touch_position report x y =
     poke report 1 [ucast (x AND 0xff), ucast (drop_bit 8 x), ucast (y AND 0xff), ucast (drop_bit 8 y)]"

text \<open>Signed division of C truncates towards zero.\<close>

definition wheel_detents :: "u16 \<Rightarrow> int" where
  "wheel_detents flags =
     (let delta0 = uint (flags AND WHEEL_ROTATION_MASK);
          delta = (if (flags AND WHEEL_ROTATION_MASK) AND PTR_FLAGS_WHEEL_NEGATIVE \<noteq> 0 then delta0 - 0x200 else delta0);
          detents = sgn delta * (\<bar>delta\<bar> div 120)
      in if detents = 0 \<and> delta \<noteq> 0 then (if 0 < delta then 1 else - 1) else detents)"

section \<open>Scan codes\<close>

definition hid_map_scancode :: "byte \<Rightarrow> bool \<Rightarrow> bool \<Rightarrow> byte \<times> bool" where
  "hid_map_scancode code extended swap_alt_command =
     (if \<not> swap_alt_command then (code, extended)
      else if code = 0x38 then (if extended then 0x5c else 0x5b, True)
      else if extended \<and> code = 0x5b then (0x38, False)
      else if extended \<and> code = 0x5c then (0x38, True)
      else (code, extended))"

definition normal :: "(byte \<times> byte) list" where
  "normal =
     [(0x01, 0x29), (0x02, 0x1e), (0x03, 0x1f), (0x04, 0x20), (0x05, 0x21), (0x06, 0x22),
      (0x07, 0x23), (0x08, 0x24), (0x09, 0x25), (0x0a, 0x26), (0x0b, 0x27), (0x0c, 0x2d),
      (0x0d, 0x2e), (0x0e, 0x2a), (0x0f, 0x2b), (0x10, 0x14), (0x11, 0x1a), (0x12, 0x08),
      (0x13, 0x15), (0x14, 0x17), (0x15, 0x1c), (0x16, 0x18), (0x17, 0x0c), (0x18, 0x12),
      (0x19, 0x13), (0x1a, 0x2f), (0x1b, 0x30), (0x1c, 0x28), (0x1e, 0x04), (0x1f, 0x16),
      (0x20, 0x07), (0x21, 0x09), (0x22, 0x0a), (0x23, 0x0b), (0x24, 0x0d), (0x25, 0x0e),
      (0x26, 0x0f), (0x27, 0x33), (0x28, 0x34), (0x29, 0x35), (0x2b, 0x31), (0x2c, 0x1d),
      (0x2d, 0x1b), (0x2e, 0x06), (0x2f, 0x19), (0x30, 0x05), (0x31, 0x11), (0x32, 0x10),
      (0x33, 0x36), (0x34, 0x37), (0x35, 0x38), (0x37, 0x55), (0x39, 0x2c), (0x3a, 0x39),
      (0x3b, 0x3a), (0x3c, 0x3b), (0x3d, 0x3c), (0x3e, 0x3d), (0x3f, 0x3e), (0x40, 0x3f),
      (0x41, 0x40), (0x42, 0x41), (0x43, 0x42), (0x44, 0x43), (0x45, 0x53), (0x46, 0x47),
      (0x47, 0x5f), (0x48, 0x60), (0x49, 0x61), (0x4a, 0x56), (0x4b, 0x5c), (0x4c, 0x5d),
      (0x4d, 0x5e), (0x4e, 0x57), (0x4f, 0x59), (0x50, 0x5a), (0x51, 0x5b), (0x52, 0x62),
      (0x53, 0x63), (0x56, 0x64), (0x54, 0x67), (0x59, 0x4c), (0x5c, 0x49), (0x5d, 0x4d),
      (0x5e, 0x4b), (0x5f, 0x4e), (0x60, 0x4a), (0x61, 0x4f), (0x62, 0x50), (0x63, 0x51),
      (0x64, 0x52), (0x65, 0x4c), (0x66, 0x65), (0x57, 0x44), (0x58, 0x45)]"

text \<open>Usage and modifier of the extended codes.\<close>

definition extended_keys :: "(byte \<times> byte \<times> byte) list" where
  "extended_keys =
     [(0x1c, 0x58, 0), (0x1d, 0, 0x10), (0x35, 0x54, 0), (0x37, 0x46, 0), (0x38, 0, HID_MODIFIER_RIGHT_ALT), (0x47, 0x4a, 0),
      (0x48, 0x52, 0), (0x49, 0x4b, 0), (0x4b, 0x50, 0), (0x4d, 0x4f, 0), (0x4f, 0x4d, 0), (0x50, 0x51, 0),
      (0x51, 0x4e, 0), (0x52, 0x49, 0), (0x53, 0x4c, 0), (0x5b, 0, 0x08), (0x5c, 0, 0x80), (0x5d, 0x65, 0),
      (0x5e, 0x66, 0), (0x5f, 0x82, 0), (0x63, 0x81, 0)]"

definition modifier_keys :: "(byte \<times> byte) list" where
  "modifier_keys = [(0x1d, 0x01), (0x2a, 0x02), (0x36, 0x20), (0x38, 0x04)]"

text \<open>\<open>Some (usage, modifier)\<close> when the function returns true; its outputs are zero otherwise.\<close>

definition hid_translate_scancode :: "byte \<Rightarrow> bool \<Rightarrow> (byte \<times> byte) option" where
  "hid_translate_scancode code extended =
     (if extended then map_of extended_keys code
      else case map_of modifier_keys code of
        Some modifier \<Rightarrow> Some (0, modifier)
      | None \<Rightarrow>
          if 128 \<le> code then None
          else case map_of normal code of None \<Rightarrow> None | Some usage \<Rightarrow> Some (usage, 0))"

section \<open>Keys that type a character\<close>

record HidTextKey =
  tk_modifier :: byte
  tk_usage :: byte

definition punctuation_keys :: "(byte \<times> byte \<times> byte) list" where
  "punctuation_keys =
     [(0x08, 0, 0x2a), (0x09, 0, 0x2b), (0x0a, 0, 0x28), (0x0d, 0, 0x28), (0x1b, 0, 0x29), (0x20, 0, 0x2c),
      (0x2d, 0, 0x2d), (0x5f, 0x02, 0x2d), (0x3d, 0, 0x2e), (0x2b, 0x02, 0x2e), (0x5b, 0, 0x2f), (0x7b, 0x02, 0x2f),
      (0x5d, 0, 0x30), (0x7d, 0x02, 0x30), (0x5c, 0, 0x31), (0x7c, 0x02, 0x31), (0x3b, 0, 0x33), (0x3a, 0x02, 0x33),
      (0x27, 0, 0x34), (0x22, 0x02, 0x34), (0x60, 0, 0x35), (0x7e, 0x02, 0x35), (0x2c, 0, 0x36), (0x3c, 0x02, 0x36),
      (0x2e, 0, 0x37), (0x3e, 0x02, 0x37), (0x2f, 0, 0x38), (0x3f, 0x02, 0x38), (0x21, 0x02, 0x1e), (0x40, 0x02, 0x1f),
      (0x23, 0x02, 0x20), (0x24, 0x02, 0x21), (0x25, 0x02, 0x22), (0x5e, 0x02, 0x23), (0x26, 0x02, 0x24), (0x2a, 0x02, 0x25),
      (0x28, 0x02, 0x26), (0x29, 0x02, 0x27)]"

definition ascii_to_hid :: "byte \<Rightarrow> HidTextKey option" where
  "ascii_to_hid character =
     (if 0x61 \<le> character \<and> character \<le> 0x7a then Some \<lparr>tk_modifier = 0, tk_usage = 0x04 + character - 0x61\<rparr>
      else if 0x41 \<le> character \<and> character \<le> 0x5a then Some \<lparr>tk_modifier = 0x02, tk_usage = 0x04 + character - 0x41\<rparr>
      else if 0x31 \<le> character \<and> character \<le> 0x39 then Some \<lparr>tk_modifier = 0, tk_usage = 0x1e + character - 0x31\<rparr>
      else if character = 0x30 then Some \<lparr>tk_modifier = 0, tk_usage = 0x27\<rparr>
      else case map_of punctuation_keys character of
        None \<Rightarrow> None
      | Some (modifier, usage) \<Rightarrow> Some \<lparr>tk_modifier = modifier, tk_usage = usage\<rparr>)"

definition jamo_keys :: "(u32 \<times> string) list" where
  "jamo_keys =
     [(0x3131, ''r''), (0x3132, ''R''), (0x3133, ''rt''), (0x3134, ''s''), (0x3135, ''sw''), (0x3136, ''sg''),
      (0x3137, ''e''), (0x3138, ''E''), (0x3139, ''f''), (0x313a, ''fr''), (0x313b, ''fa''), (0x313c, ''fq''),
      (0x313d, ''ft''), (0x313e, ''fx''), (0x313f, ''fv''), (0x3140, ''fg''), (0x3141, ''a''), (0x3142, ''q''),
      (0x3143, ''Q''), (0x3144, ''qt''), (0x3145, ''t''), (0x3146, ''T''), (0x3147, ''d''), (0x3148, ''w''),
      (0x3149, ''W''), (0x314a, ''c''), (0x314b, ''z''), (0x314c, ''x''), (0x314d, ''v''), (0x314e, ''g''),
      (0x314f, ''k''), (0x3150, ''o''), (0x3151, ''i''), (0x3152, ''O''), (0x3153, ''j''), (0x3154, ''p''),
      (0x3155, ''u''), (0x3156, ''P''), (0x3157, ''h''), (0x3158, ''hk''), (0x3159, ''ho''), (0x315a, ''hl''),
      (0x315b, ''y''), (0x315c, ''n''), (0x315d, ''nj''), (0x315e, ''np''), (0x315f, ''nl''), (0x3160, ''b''),
      (0x3161, ''m''), (0x3162, ''ml''), (0x3163, ''l'')]"

definition hangul_jamo_sequence :: "u32 \<Rightarrow> string option" where
  "hangul_jamo_sequence codepoint = map_of jamo_keys codepoint"

definition lead_keys :: "string list" where
  "lead_keys =
     [''r'', ''R'', ''s'', ''e'', ''E'', ''f'', ''a'', ''q'', ''Q'', ''t'', ''T'', ''d'', ''w'', ''W'',
      ''c'', ''z'', ''x'', ''v'', ''g'']"

definition vowel_keys :: "string list" where
  "vowel_keys =
     [''k'', ''o'', ''i'', ''O'', ''j'', ''p'', ''u'', ''P'', ''h'', ''hk'', ''ho'', ''hl'', ''y'', ''n'',
      ''nj'', ''np'', ''nl'', ''b'', ''m'', ''ml'', ''l'']"

definition trail_keys :: "string list" where
  "trail_keys =
     ['''', ''r'', ''R'', ''rt'', ''s'', ''sw'', ''sg'', ''e'', ''f'', ''fr'', ''fa'', ''fq'', ''ft'', ''fx'',
      ''fv'', ''fg'', ''a'', ''q'', ''qt'', ''t'', ''T'', ''d'', ''w'', ''c'', ''z'', ''x'', ''v'', ''g'']"

definition codepoint_to_hangul_sequences :: "u32 \<Rightarrow> (string \<times> string \<times> string) option" where
  "codepoint_to_hangul_sequences codepoint =
     (if codepoint < 0xac00 \<or> 0xd7a3 < codepoint then None
      else let offset = codepoint - 0xac00;
               lead_index = offset div (21 * 28);
               vowel_index = (offset mod (21 * 28)) div 28;
               trail_index = offset mod 28
           in Some (lead_keys ! unat lead_index, vowel_keys ! unat vowel_index, trail_keys ! unat trail_index))"

section \<open>UTF-8\<close>

definition is_utf8_continuation :: "byte \<Rightarrow> bool" where
  "is_utf8_continuation b \<longleftrightarrow> b AND 0xc0 = 0x80"

text \<open>The code point and the offset behind it, or \<open>None\<close> for a malformed sequence.\<close>

definition utf8_decode :: "byte list \<Rightarrow> nat \<Rightarrow> (u32 \<times> nat) option" where
  "utf8_decode text offset =
     (if length text \<le> offset then None
      else let first = text ! offset; next = offset + 1 in
        if first < 0x80 then Some (ucast first, next)
        else if 0xc2 \<le> first \<and> first \<le> 0xdf then
          (if length text \<le> next \<or> \<not> is_utf8_continuation (text ! next) then None
           else Some (push_bit 6 (ucast (first AND 0x1f)) OR ucast (text ! next AND 0x3f), next + 1))
        else if 0xe0 \<le> first \<and> first \<le> 0xef then
          (if length text \<le> next + 1 \<or> \<not> is_utf8_continuation (text ! next) \<or>
              \<not> is_utf8_continuation (text ! (next + 1)) \<or>
              (first = 0xe0 \<and> text ! next < 0xa0) \<or> (first = 0xed \<and> 0x9f < text ! next) then None
           else let second = text ! next; third = text ! (next + 1) in
             Some (push_bit 12 (ucast (first AND 0x0f)) OR push_bit 6 (ucast (second AND 0x3f)) OR
                   ucast (third AND 0x3f), next + 2))
        else if 0xf0 \<le> first \<and> first \<le> 0xf4 then
          (if length text \<le> next + 2 \<or> \<not> is_utf8_continuation (text ! next) \<or>
              \<not> is_utf8_continuation (text ! (next + 1)) \<or> \<not> is_utf8_continuation (text ! (next + 2)) \<or>
              (first = 0xf0 \<and> text ! next < 0x90) \<or> (first = 0xf4 \<and> 0x8f < text ! next) then None
           else let second = text ! next; third = text ! (next + 1); fourth = text ! (next + 2) in
             Some (push_bit 18 (ucast (first AND 0x07)) OR push_bit 12 (ucast (second AND 0x3f)) OR
                   push_bit 6 (ucast (third AND 0x3f)) OR ucast (fourth AND 0x3f), next + 3))
        else None)"

definition utf8_encode :: "u32 \<Rightarrow> byte list option" where
  "utf8_encode codepoint =
     (if 0x10ffff < codepoint \<or> (0xd800 \<le> codepoint \<and> codepoint \<le> 0xdfff) then None
      else if codepoint \<le> 0x7f then Some [ucast codepoint]
      else if codepoint \<le> 0x7ff then
        Some [ucast (0xc0 OR drop_bit 6 codepoint), ucast (0x80 OR (codepoint AND 0x3f))]
      else if codepoint \<le> 0xffff then
        Some [ucast (0xe0 OR drop_bit 12 codepoint), ucast (0x80 OR (drop_bit 6 codepoint AND 0x3f)),
              ucast (0x80 OR (codepoint AND 0x3f))]
      else
        Some [ucast (0xf0 OR drop_bit 18 codepoint), ucast (0x80 OR (drop_bit 12 codepoint AND 0x3f)),
              ucast (0x80 OR (drop_bit 6 codepoint AND 0x3f)), ucast (0x80 OR (codepoint AND 0x3f))])"

text \<open>
  The payload of the paste device: the character between quotes, with quotes and backslashes escaped,
  and a line feed. The guards are those of the 32-byte buffer.
\<close>

definition PASTE_PAYLOAD_SIZE :: nat where
  "PASTE_PAYLOAD_SIZE = 32"

fun quote_bytes :: "byte list \<Rightarrow> byte list \<Rightarrow> byte list option" where
  "quote_bytes payload [] = Some payload"
| "quote_bytes payload (b # rest) =
     (if b = 0x27 \<or> b = 0x5c then
        (if PASTE_PAYLOAD_SIZE \<le> length payload + 2 then None
         else quote_bytes (payload @ [0x5c, b]) rest)
      else if PASTE_PAYLOAD_SIZE \<le> length payload + 1 then None
      else quote_bytes (payload @ [b]) rest)"

definition paste_payload :: "u32 \<Rightarrow> byte list option" where
  "paste_payload codepoint =
     (case utf8_encode codepoint of
        None \<Rightarrow> None
      | Some encoded \<Rightarrow>
          (case quote_bytes [0x27] encoded of
             None \<Rightarrow> None
           | Some payload \<Rightarrow>
               if PASTE_PAYLOAD_SIZE < length payload + 2 then None else Some (payload @ [0x27, 0x0a])))"

section \<open>Pointer lemmas\<close>

lemma scale_unat:
  assumes "1 < dimension"
  shows "unat (hid_scale_absolute v dimension) = max 1 (min 0x7fff (unat v * 0x7fff div (unat dimension - 1)))"
proof -
  have "unat v < 2 ^ 16" using unsigned_less [of v, where ?'a = nat] by simp
  then have product: "unat (ucast v * 0x7fff :: u32) = unat v * 0x7fff"
    by (simp add: unat_word_ariths unat_ucast_up)
  have "unat (dimension - 1) = unat dimension - 1"
    using assms by (simp add: unat_sub word_le_nat_alt word_less_nat_alt)
  then have scaled: "unat ((ucast v * 0x7fff) div (dimension - 1)) = unat v * 0x7fff div (unat dimension - 1)"
    by (simp add: unat_div product)
  have small: "unat w \<le> 0x7fff \<Longrightarrow> unat (ucast w :: u16) = unat w" for w :: u32
    by (simp add: unsigned_ucast_eq take_bit_nat_eq_self)
  have "\<not> dimension \<le> 1" using assms by simp
  then show ?thesis
    unfolding hid_scale_absolute_def if_not_P [OF \<open>\<not> dimension \<le> 1\<close>] Let_def
    by (auto simp: word_less_nat_alt scaled small max_def min_def not_le)
qed

lemma bit_apply_button:
  "bit (apply_button flags buttons i) n =
     (if n = i \<and> n < 8 \<and> flags AND (button_bits ! i) \<noteq> 0 then flags AND PTR_FLAGS_DOWN \<noteq> 0 else bit buttons n)"
  by (auto simp: apply_button_def bit_simps dest: bit_imp_le_length)

lemma bit_pointer_buttons:
  "bit (hid_pointer_buttons buttons flags) n =
     (if n < 5 \<and> flags AND (button_bits ! n) \<noteq> 0 then flags AND PTR_FLAGS_DOWN \<noteq> 0 else bit buttons n)"
proof -
  have "n < k \<and> k \<le> 5 \<Longrightarrow> bit (foldl (apply_button flags) buttons [0..<k]) n =
      (if flags AND (button_bits ! n) \<noteq> 0 then flags AND PTR_FLAGS_DOWN \<noteq> 0 else bit buttons n)"
    and "k \<le> n \<Longrightarrow> bit (foldl (apply_button flags) buttons [0..<k]) n = bit buttons n" for k
    by (induction k) (auto simp: bit_apply_button less_Suc_eq)
  from this [of 5] show ?thesis by (cases "n < 5") (simp_all add: hid_pointer_buttons_def)
qed

lemma rotation_range: "uint (flags AND WHEEL_ROTATION_MASK) < 512"
proof -
  have "flags AND WHEEL_ROTATION_MASK \<le> WHEEL_ROTATION_MASK" by (rule word_and_le1)
  then show ?thesis by (simp add: word_le_def WHEEL_ROTATION_MASK_def)
qed

lemma negative_rotation:
  "(flags AND WHEEL_ROTATION_MASK) AND PTR_FLAGS_WHEEL_NEGATIVE \<noteq> 0 \<longleftrightarrow> 256 \<le> uint (flags AND WHEEL_ROTATION_MASK)"
proof -
  let ?r = "flags AND WHEEL_ROTATION_MASK"
  have "?r AND PTR_FLAGS_WHEEL_NEGATIVE \<noteq> 0 \<longleftrightarrow> bit ?r 8"
  proof -
    have exp: "PTR_FLAGS_WHEEL_NEGATIVE = 2 ^ 8" by (simp add: PTR_FLAGS_WHEEL_NEGATIVE_def)
    show ?thesis unfolding exp and_exp_eq_0_iff_not_bit by simp
  qed
  also have "\<dots> \<longleftrightarrow> odd (uint ?r div 256)" using bit_uint_iff [of ?r 8] bit_iff_odd [of "uint ?r" 8] by simp
  also have "\<dots> \<longleftrightarrow> 256 \<le> uint ?r"
  proof -
    have "uint ?r div 256 = 0 \<or> uint ?r div 256 = 1" using rotation_range [of flags] by auto
    with rotation_range [of flags] show ?thesis by auto
  qed
  finally show ?thesis .
qed

lemma detents_range: "- 3 < wheel_detents flags \<and> wheel_detents flags < 3"
  using rotation_range [of flags] negative_rotation [of flags]
  by (auto simp: wheel_detents_def Let_def sgn_if abs_if)

section \<open>UTF-8 lemmas\<close>

lemma continuation_range: "is_utf8_continuation b \<longleftrightarrow> 128 \<le> unat b \<and> unat b < 192"
proof -
  have "(b AND 0xc0) OR (b AND 0x3f) = b AND (0xc0 OR 0x3f)" by (simp only: and.commute [of b] bit.conj_disj_distrib2)
  moreover have "(b AND 0xc0) AND (b AND 0x3f) = b AND (b AND (0xc0 AND 0x3f))" by (simp only: and.assoc and.left_commute)
  ultimately have split: "b = (b AND 0xc0) + (b AND 0x3f)" by (simp add: disjunctive_add_eq_or)
  then have "b - (b AND 0x3f) = b AND 0xc0" by (metis add_diff_cancel_right')
  moreover have "b AND 0x3f \<le> b" by (rule word_and_le2)
  ultimately have "unat (b AND 0xc0) = unat b - unat (b AND 0x3f)" by (metis unat_sub)
  moreover have "unat (b AND 0x3f) = unat b mod 64" by (simp add: unsigned_and_eq nat_and_masks)
  ultimately have "unat (b AND 0xc0) = unat b - unat b mod 64" by simp
  moreover have "b AND 0xc0 = 0x80 \<longleftrightarrow> unat (b AND 0xc0) = 128" by (simp add: word_unat_eq_iff)
  moreover have "unat b < 256" using unsigned_less [of b, where ?'a = nat] by simp
  ultimately show ?thesis by (simp add: is_utf8_continuation_def minus_mod_eq_mult_div) linarith
qed

lemma unat_continuation: "unat (ucast (0x80 OR (w AND 0x3f) :: u32) :: byte) = 128 + unat w mod 64"
  by (subst unat_tagged [where k = 6 and a = 2]) (simp_all add: unsigned_and_eq nat_and_masks)

lemma unat_lead2: "unat w < 32 \<Longrightarrow> unat (ucast (0xc0 OR w :: u32) :: byte) = 192 + unat w"
  by (subst unat_tagged [where k = 6 and a = 3]) simp_all

lemma unat_lead3: "unat w < 16 \<Longrightarrow> unat (ucast (0xe0 OR w :: u32) :: byte) = 224 + unat w"
  by (subst unat_tagged [where k = 5 and a = 7]) simp_all

lemma unat_lead4: "unat w < 8 \<Longrightarrow> unat (ucast (0xf0 OR w :: u32) :: byte) = 240 + unat w"
  by (subst unat_tagged [where k = 4 and a = 15]) simp_all

lemma unat_ucast_byte: "unat (ucast (b :: byte) :: u32) = unat b"
  by (rule unat_ucast_up) simp

lemma unat_byte_fields:
  "unat ((b :: byte) AND 0x3f) = unat b mod 64" "unat (b AND 0x1f) = unat b mod 32"
  "unat (b AND 0x0f) = unat b mod 16" "unat (b AND 0x07) = unat b mod 8"
  by (simp_all add: unsigned_and_eq nat_and_masks)

lemma unat_join2:
  "unat (push_bit 6 (ucast ((a :: byte) AND 0x1f)) OR ucast ((b :: byte) AND 0x3f) :: u32) = unat a mod 32 * 64 + unat b mod 64"
  by (subst unat_shift_or) (simp_all add: unat_ucast_byte unat_byte_fields)

lemma unat_join3:
  "unat (push_bit 12 (ucast ((a :: byte) AND 0x0f)) OR push_bit 6 (ucast ((b :: byte) AND 0x3f)) OR ucast ((c :: byte) AND 0x3f) :: u32)
     = unat a mod 16 * 4096 + unat b mod 64 * 64 + unat c mod 64"
proof -
  have inner: "unat (push_bit 6 (ucast (b AND 0x3f)) OR ucast (c AND 0x3f) :: u32) = unat b mod 64 * 64 + unat c mod 64"
    by (subst unat_shift_or) (simp_all add: unat_ucast_byte unat_byte_fields)
  have "unat b mod 64 < 64" "unat c mod 64 < 64" by simp_all
  then have "unat b mod 64 * 64 + unat c mod 64 < 2 ^ 12" by simp
  then show ?thesis
    by (subst unat_shift_or) (simp_all add: inner unat_ucast_byte unat_byte_fields)
qed
lemma unat_join4:
  "unat (push_bit 18 (ucast ((a :: byte) AND 0x07)) OR push_bit 12 (ucast ((b :: byte) AND 0x3f)) OR
      push_bit 6 (ucast ((c :: byte) AND 0x3f)) OR ucast ((d :: byte) AND 0x3f) :: u32)
     = unat a mod 8 * 262144 + unat b mod 64 * 4096 + unat c mod 64 * 64 + unat d mod 64"
proof -
  have bounds: "unat b mod 64 < 64" "unat c mod 64 < 64" "unat d mod 64 < 64" "unat a mod 8 < 8" by simp_all
  have last2: "unat (push_bit 6 (ucast (c AND 0x3f)) OR ucast (d AND 0x3f) :: u32) = unat c mod 64 * 64 + unat d mod 64"
    by (subst unat_shift_or) (simp_all add: unat_ucast_byte unat_byte_fields)
  have last3: "unat (push_bit 12 (ucast (b AND 0x3f)) OR push_bit 6 (ucast (c AND 0x3f)) OR ucast (d AND 0x3f) :: u32)
      = unat b mod 64 * 4096 + (unat c mod 64 * 64 + unat d mod 64)"
    using bounds by (subst unat_shift_or) (simp_all add: last2 unat_ucast_byte unat_byte_fields)
  show ?thesis
    using bounds by (subst unat_shift_or) (simp_all add: last3 unat_ucast_byte unat_byte_fields)
qed

text \<open>The encoding as numbers, and when a sequence of bytes decodes.\<close>

lemma tag_mod:
  "(p :: nat) < 64 \<Longrightarrow> (128 + p) mod 64 = p" "p < 32 \<Longrightarrow> (192 + p) mod 32 = p"
  "p < 16 \<Longrightarrow> (224 + p) mod 16 = p" "p < 8 \<Longrightarrow> (240 + p) mod 8 = p"
  using mod_mult_self3 [of 2 64 p] mod_mult_self3 [of 6 32 p] mod_mult_self3 [of 14 16 p] mod_mult_self3 [of 30 8 p]
  by simp_all

lemma decode_two:
  assumes "Suc off < length text" and "unat (text ! off) = 192 + p" and "2 \<le> p" and "p < 32"
    and "unat (text ! Suc off) = 128 + q" and "q < 64" and "unat cp = p * 64 + q"
  shows "utf8_decode text off = Some (cp, Suc (Suc off))"
  using assms
  by (simp add: utf8_decode_def Let_def word_less_nat_alt word_le_nat_alt continuation_range word_unat_eq_iff unat_join2 tag_mod)

lemma decode_three:
  assumes "Suc (Suc off) < length text" and first: "unat (text ! off) = 224 + p" and "p < 16"
    and second: "unat (text ! Suc off) = 128 + q" and "q < 64" and "unat (text ! Suc (Suc off)) = 128 + r" and "r < 64"
    and "p = 0 \<longrightarrow> 32 \<le> q" and "p = 13 \<longrightarrow> q < 32" and "unat cp = p * 4096 + q * 64 + r"
  shows "utf8_decode text off = Some (cp, Suc (Suc (Suc off)))"
proof -
  have "\<not> (text ! off = 0xe0 \<and> text ! Suc off < 0xa0)" "\<not> (text ! off = 0xed \<and> 0x9f < text ! Suc off)"
    using first second assms(8,9) by (auto simp: word_less_nat_alt word_unat_eq_iff)
  moreover have "push_bit 12 (ucast (text ! off AND 0x0f)) OR push_bit 6 (ucast (text ! Suc off AND 0x3f)) OR
      ucast (text ! Suc (Suc off) AND 0x3f) = cp"
    unfolding word_unat_eq_iff unat_join3 using assms by (simp add: tag_mod)
  moreover have "\<not> text ! off < 0x80" "\<not> text ! off \<le> 0xdf" "0xe0 \<le> text ! off" "text ! off \<le> 0xef"
    "is_utf8_continuation (text ! Suc off)" "is_utf8_continuation (text ! Suc (Suc off))"
    using assms by (simp_all add: word_less_nat_alt word_le_nat_alt continuation_range)
  ultimately show ?thesis using assms(1) unfolding utf8_decode_def Let_def by (simp del: not_less not_le)
qed

lemma decode_four:
  assumes "Suc (Suc (Suc off)) < length text" and first: "unat (text ! off) = 240 + p" and "p < 5"
    and second: "unat (text ! Suc off) = 128 + q" and "q < 64" and "unat (text ! Suc (Suc off)) = 128 + r" and "r < 64"
    and "unat (text ! Suc (Suc (Suc off))) = 128 + s" and "s < 64"
    and "p = 0 \<longrightarrow> 16 \<le> q" and "p = 4 \<longrightarrow> q < 16" and "unat cp = p * 262144 + q * 4096 + r * 64 + s"
  shows "utf8_decode text off = Some (cp, Suc (Suc (Suc (Suc off))))"
proof -
  have "\<not> (text ! off = 0xf0 \<and> text ! Suc off < 0x90)" "\<not> (text ! off = 0xf4 \<and> 0x8f < text ! Suc off)"
    using first second assms(10,11) by (auto simp: word_less_nat_alt word_unat_eq_iff)
  moreover have "push_bit 18 (ucast (text ! off AND 0x07)) OR push_bit 12 (ucast (text ! Suc off AND 0x3f)) OR
      push_bit 6 (ucast (text ! Suc (Suc off) AND 0x3f)) OR ucast (text ! Suc (Suc (Suc off)) AND 0x3f) = cp"
    unfolding word_unat_eq_iff unat_join4 using assms by (simp add: tag_mod)
  moreover have "\<not> text ! off < 0x80" "\<not> text ! off \<le> 0xdf" "\<not> text ! off \<le> 0xef" "0xf0 \<le> text ! off" "text ! off \<le> 0xf4"
    "is_utf8_continuation (text ! Suc off)" "is_utf8_continuation (text ! Suc (Suc off))"
    "is_utf8_continuation (text ! Suc (Suc (Suc off)))"
    using assms by (simp_all add: word_less_nat_alt word_le_nat_alt continuation_range)
  ultimately show ?thesis
    using assms(1) unfolding utf8_decode_def Let_def by (simp del: not_less not_le add: numeral_eq_Suc)
qed

text \<open>A code point that UTF-8 can carry, and the numbers of its bytes.\<close>

definition scalar :: "nat \<Rightarrow> bool" where
  "scalar n \<longleftrightarrow> n \<le> 0x10ffff \<and> \<not> (0xd800 \<le> n \<and> n \<le> 0xdfff)"

lemma utf8_encode_None: "utf8_encode cp = None \<longleftrightarrow> \<not> scalar (unat cp)"
  by (auto simp: utf8_encode_def scalar_def word_less_nat_alt word_le_nat_alt)

lemma utf8_encode_cases:
  assumes "utf8_encode cp = Some bs"
  obtains (one) "unat cp < 128" and "bs = [ucast cp]"
  | (two) "128 \<le> unat cp" "unat cp < 2048" and "map unat bs = [192 + unat cp div 64, 128 + unat cp mod 64]"
  | (three) "2048 \<le> unat cp" "unat cp < 65536" "\<not> (0xd800 \<le> unat cp \<and> unat cp \<le> 0xdfff)"
      and "map unat bs = [224 + unat cp div 4096, 128 + unat cp div 64 mod 64, 128 + unat cp mod 64]"
  | (four) "65536 \<le> unat cp" "unat cp < 0x110000"
      and "map unat bs = [240 + unat cp div 262144, 128 + unat cp div 4096 mod 64, 128 + unat cp div 64 mod 64, 128 + unat cp mod 64]"
proof -
  have ok: "\<not> (0x10ffff < cp \<or> (0xd800 \<le> cp \<and> cp \<le> 0xdfff))"
    using assms by (auto simp: utf8_encode_def split: if_splits)
  note enc = assms [unfolded utf8_encode_def if_not_P [OF ok]]
  consider "cp \<le> 0x7f" | "\<not> cp \<le> 0x7f" "cp \<le> 0x7ff" | "\<not> cp \<le> 0x7ff" "cp \<le> 0xffff" | "\<not> cp \<le> 0xffff" by blast
  then show thesis
  proof cases
    case 1
    with enc show thesis by (intro one) (simp_all add: word_le_nat_alt)
  next
    case 2
    then have "unat (drop_bit 6 cp) < 32" by (simp add: unat_drop_bit word_le_nat_alt)
    with enc 2 show thesis
      by (intro two) (auto simp: word_le_nat_alt unat_lead2 unat_continuation unat_drop_bit)
  next
    case 3
    then have "unat (drop_bit 12 cp) < 16" by (simp add: unat_drop_bit word_le_nat_alt)
    with enc 3 ok show thesis
      by (intro three) (auto simp: word_le_nat_alt unat_lead3 unat_continuation unat_drop_bit)
  next
    case 4
    then have "unat (drop_bit 18 cp) < 8" using ok by (simp add: unat_drop_bit word_le_nat_alt word_less_nat_alt)
    with enc 4 ok show thesis
      by (intro four) (auto simp: word_le_nat_alt word_less_nat_alt unat_lead4 unat_continuation unat_drop_bit)
  qed
qed

lemma digits64: "(n :: nat) div 4096 * 4096 + n div 64 mod 64 * 64 + n mod 64 = n"
proof -
  have "n div 4096 * 4096 = n div 64 div 64 * 64 * 64" by (simp add: div_mult2_eq)
  then show ?thesis by (metis div_mult_mod_eq add_mult_distrib)
qed

lemma digits4096: "(n :: nat) div 262144 * 262144 + n div 4096 mod 64 * 4096 + n div 64 mod 64 * 64 + n mod 64 = n"
proof -
  have "n div 262144 * 262144 + n div 4096 mod 64 * 4096 = n div 4096 * 4096"
    using div_mult_mod_eq [of "n div 4096" 64] by (simp add: div_mult2_eq [symmetric] add_mult_distrib [symmetric])
  with digits64 [of n] show ?thesis by simp
qed

lemma decode_encoded:
  assumes "utf8_encode cp = Some bs"
  shows "utf8_decode (pre @ bs @ rest) (length pre) = Some (cp, length pre + length bs)"
proof -
  let ?text = "pre @ bs @ rest" and ?off = "length pre"
  have at: "i < length bs \<Longrightarrow> ?text ! (?off + i) = bs ! i" for i by (simp add: nth_append)
  have unat_at: "i < length bs \<Longrightarrow> unat (?text ! (?off + i)) = map unat bs ! i" for i using at [of i] by simp
  from assms show ?thesis
  proof (cases rule: utf8_encode_cases)
    case one
    have "(ucast cp :: byte) < 0x80" "(ucast (ucast cp :: byte) :: u32) = cp"
      using one(1) by (simp_all add: word_less_nat_alt word_unat_eq_iff unsigned_ucast_eq unsigned_take_bit_eq take_bit_nat_eq_self)
    with one(2) show ?thesis by (simp add: utf8_decode_def Let_def nth_append)
  next
    case two
    have len: "length bs = 2" using arg_cong [OF two(3), of length] by simp
    have "unat (?text ! ?off) = 192 + unat cp div 64" "unat (?text ! Suc ?off) = 128 + unat cp mod 64"
      using two(3) len unat_at [of 0] unat_at [of 1] by simp_all
    then have "utf8_decode ?text ?off = Some (cp, Suc (Suc ?off))"
      using two(1,2) len by (intro decode_two [where p = "unat cp div 64" and q = "unat cp mod 64"]) simp_all
    with len show ?thesis by simp
  next
    case three
    have len: "length bs = 3" using arg_cong [OF three(4), of length] by simp
    let ?p = "unat cp div 4096" and ?q = "unat cp div 64 mod 64"
    have sum: "unat cp = ?p * 4096 + ?q * 64 + unat cp mod 64" by (simp add: digits64)
    have small: "unat cp mod 64 < 64" "?q < 64" "?p < 16" using three(2) by simp_all
    have q: "?p = 0 \<longrightarrow> 32 \<le> ?q" "?p = 13 \<longrightarrow> ?q < 32" using sum small three(1-3) by linarith+
    have "unat (?text ! ?off) = 224 + ?p" "unat (?text ! Suc ?off) = 128 + ?q" "unat (?text ! Suc (Suc ?off)) = 128 + unat cp mod 64"
      using three(4) len unat_at [of 0] unat_at [of 1] unat_at [of 2] by simp_all
    from decode_three [OF _ this(1) small(3) this(2) small(2) this(3) small(1) q sum] len show ?thesis by simp
  next
    case four
    have len: "length bs = 4" using arg_cong [OF four(3), of length] by simp
    let ?p = "unat cp div 262144" and ?q = "unat cp div 4096 mod 64" and ?r = "unat cp div 64 mod 64"
    have sum: "unat cp = ?p * 262144 + ?q * 4096 + ?r * 64 + unat cp mod 64" by (simp add: digits4096)
    have small: "unat cp mod 64 < 64" "?r < 64" "?q < 64" "?p < 5" using four(2) by simp_all
    have q: "?p = 0 \<longrightarrow> 16 \<le> ?q" "?p = 4 \<longrightarrow> ?q < 16" using sum small four(1,2) by linarith+
    have "unat (?text ! ?off) = 240 + ?p" "unat (?text ! Suc ?off) = 128 + ?q" "unat (?text ! Suc (Suc ?off)) = 128 + ?r"
      "unat (?text ! Suc (Suc (Suc ?off))) = 128 + unat cp mod 64"
      using four(3) len unat_at [of 0] unat_at [of 1] unat_at [of 2] unat_at [of "Suc (Suc (Suc 0))"] by simp_all
    from decode_four [OF _ this(1) small(4) this(2) small(3) this(3) small(2) this(4) small(1) q sum] len show ?thesis by simp
  qed
qed

lemma guard_Some: "(if c then None else Some x) = Some y \<longleftrightarrow> \<not> c \<and> x = y"
  by simp

lemma decode_cases:
  assumes "utf8_decode text off = Some (cp, off')"
  obtains (one) "off < length text" "off' = Suc off" "text ! off < 0x80" "cp = ucast (text ! off)"
  | (two) p q where "Suc off < length text" "off' = Suc (Suc off)" "unat (text ! off) = 192 + p" "2 \<le> p" "p < 32"
      "unat (text ! Suc off) = 128 + q" "q < 64" "unat cp = p * 64 + q"
  | (three) p q r where "Suc (Suc off) < length text" "off' = Suc (Suc (Suc off))" "unat (text ! off) = 224 + p" "p < 16"
      "unat (text ! Suc off) = 128 + q" "q < 64" "unat (text ! Suc (Suc off)) = 128 + r" "r < 64"
      "p = 0 \<longrightarrow> 32 \<le> q" "p = 13 \<longrightarrow> q < 32" "unat cp = p * 4096 + q * 64 + r"
  | (four) p q r s where "Suc (Suc (Suc off)) < length text" "off' = Suc (Suc (Suc (Suc off)))" "unat (text ! off) = 240 + p" "p < 5"
      "unat (text ! Suc off) = 128 + q" "q < 64" "unat (text ! Suc (Suc off)) = 128 + r" "r < 64"
      "unat (text ! Suc (Suc (Suc off))) = 128 + s" "s < 64"
      "p = 0 \<longrightarrow> 16 \<le> q" "p = 4 \<longrightarrow> q < 16" "unat cp = p * 262144 + q * 4096 + r * 64 + s"
proof -
  have tagged: "is_utf8_continuation b \<Longrightarrow> \<exists>q. unat b = 128 + q \<and> q < 64" for b
    by (rule exI [of _ "unat b - 128"]) (auto simp: continuation_range)
  let ?first = "text ! off"
  have room: "off < length text" by (rule ccontr) (use assms in \<open>simp add: utf8_decode_def\<close>)
  note dec = assms [unfolded utf8_decode_def if_not_P [OF room [unfolded not_le [symmetric]]] Let_def]
  have "?first < 0x80 \<or> (0xc2 \<le> ?first \<and> ?first \<le> 0xdf) \<or> (0xe0 \<le> ?first \<and> ?first \<le> 0xef) \<or> (0xf0 \<le> ?first \<and> ?first \<le> 0xf4)"
  proof (rule ccontr)
    assume none: "\<not> ?thesis"
    then have f: "\<not> ?first < 0x80" "\<not> (0xc2 \<le> ?first \<and> ?first \<le> 0xdf)" "\<not> (0xe0 \<le> ?first \<and> ?first \<le> 0xef)"
      "\<not> (0xf0 \<le> ?first \<and> ?first \<le> 0xf4)"
      by blast+
    from dec [unfolded if_not_P [OF f(1)] if_not_P [OF f(2)] if_not_P [OF f(3)] if_not_P [OF f(4)]] show False by simp
  qed
  then consider "?first < 0x80" | "\<not> ?first < 0x80" "0xc2 \<le> ?first \<and> ?first \<le> 0xdf"
    | "\<not> ?first < 0x80" "\<not> (0xc2 \<le> ?first \<and> ?first \<le> 0xdf)" "0xe0 \<le> ?first \<and> ?first \<le> 0xef"
    | "\<not> ?first < 0x80" "\<not> (0xc2 \<le> ?first \<and> ?first \<le> 0xdf)" "\<not> (0xe0 \<le> ?first \<and> ?first \<le> 0xef)" "0xf0 \<le> ?first \<and> ?first \<le> 0xf4"
    by blast
  then show thesis
  proof cases
    case 1
    with dec room show thesis by (intro one) simp_all
  next
    case 2
    note dec [unfolded if_not_P [OF 2(1)] if_P [OF 2(2)] guard_Some prod.inject]
    then have "Suc off < length text" "is_utf8_continuation (text ! Suc off)" "off' = Suc (Suc off)"
      and cp: "cp = push_bit 6 (ucast (?first AND 0x1f)) OR ucast (text ! Suc off AND 0x3f)"
      by (simp_all add: not_le)
    moreover from this(2) obtain q where "unat (text ! Suc off) = 128 + q" "q < 64" using tagged by blast
    moreover define p where "p = unat ?first - 192"
    moreover have "unat ?first = 192 + p" "2 \<le> p" "p < 32" using 2(2) by (auto simp: word_le_nat_alt p_def)
    ultimately show thesis by (intro two [of p q]) (simp_all add: unat_join2 tag_mod)
  next
    case 3
    note dec [unfolded if_not_P [OF 3(1)] if_not_P [OF 3(2)] if_P [OF 3(3)] guard_Some prod.inject]
    then have len: "Suc (Suc off) < length text" "off' = Suc (Suc (Suc off))"
      and cont: "is_utf8_continuation (text ! Suc off)" "is_utf8_continuation (text ! Suc (Suc off))"
      and low: "\<not> (?first = 0xe0 \<and> text ! Suc off < 0xa0)" "\<not> (?first = 0xed \<and> 0x9f < text ! Suc off)"
      and cp: "cp = push_bit 12 (ucast (?first AND 0x0f)) OR push_bit 6 (ucast (text ! Suc off AND 0x3f)) OR
          ucast (text ! Suc (Suc off) AND 0x3f)"
      by (simp_all add: not_le)
    from cont obtain q r where qr: "unat (text ! Suc off) = 128 + q" "q < 64" "unat (text ! Suc (Suc off)) = 128 + r" "r < 64"
      using tagged [of "text ! Suc off"] tagged [of "text ! Suc (Suc off)"] by blast
    define p where "p = unat ?first - 224"
    have p: "unat ?first = 224 + p" "p < 16" using 3(3) by (auto simp: word_le_nat_alt p_def)
    have "unat cp = p * 4096 + q * 64 + r" unfolding cp unat_join3 using p qr by (simp add: tag_mod)
    with len qr p low show thesis
      by (intro three [of p q r]) (auto simp: word_less_nat_alt word_unat_eq_iff)
  next
    case 4
    note dec [unfolded if_not_P [OF 4(1)] if_not_P [OF 4(2)] if_not_P [OF 4(3)] if_P [OF 4(4)] guard_Some prod.inject]
    then have len: "Suc (Suc (Suc off)) < length text" "off' = Suc (Suc (Suc (Suc off)))"
      and cont: "is_utf8_continuation (text ! Suc off)" "is_utf8_continuation (text ! Suc (Suc off))"
        "is_utf8_continuation (text ! Suc (Suc (Suc off)))"
      and low: "\<not> (?first = 0xf0 \<and> text ! Suc off < 0x90)" "\<not> (?first = 0xf4 \<and> 0x8f < text ! Suc off)"
      and cp: "cp = push_bit 18 (ucast (?first AND 0x07)) OR push_bit 12 (ucast (text ! Suc off AND 0x3f)) OR
          push_bit 6 (ucast (text ! Suc (Suc off) AND 0x3f)) OR ucast (text ! Suc (Suc (Suc off)) AND 0x3f)"
      by (simp_all add: not_le numeral_eq_Suc)
    from cont obtain q r s where qr: "unat (text ! Suc off) = 128 + q" "q < 64" "unat (text ! Suc (Suc off)) = 128 + r" "r < 64"
        "unat (text ! Suc (Suc (Suc off))) = 128 + s" "s < 64"
      using tagged [of "text ! Suc off"] tagged [of "text ! Suc (Suc off)"] tagged [of "text ! Suc (Suc (Suc off))"] by blast
    define p where "p = unat ?first - 240"
    have p: "unat ?first = 240 + p" "p < 5" using 4(4) by (auto simp: word_le_nat_alt p_def)
    have "unat cp = p * 262144 + q * 4096 + r * 64 + s" unfolding cp unat_join4 using p qr by (simp add: tag_mod)
    with len qr p low show thesis
      by (intro four [of p q r s]) (auto simp: word_less_nat_alt word_unat_eq_iff)
  qed
qed

lemma unat_list_inject: "map unat xs = map unat (ys :: byte list) \<Longrightarrow> xs = ys"
  by (rule map_injective [where f = unat]) (auto intro!: injI simp: word_unat_eq_iff)

lemma slices:
  "off < length text \<Longrightarrow> take (Suc 0) (drop off text) = [text ! off]"
  "Suc off < length text \<Longrightarrow> take (Suc (Suc 0)) (drop off text) = [text ! off, text ! Suc off]"
  "Suc (Suc off) < length text \<Longrightarrow> take (Suc (Suc (Suc 0))) (drop off text) = [text ! off, text ! Suc off, text ! Suc (Suc off)]"
  "Suc (Suc (Suc off)) < length text \<Longrightarrow> take (Suc (Suc (Suc (Suc 0)))) (drop off text) =
     [text ! off, text ! Suc off, text ! Suc (Suc off), text ! Suc (Suc (Suc off))]"
  by (simp_all add: Cons_nth_drop_Suc [symmetric] numeral_eq_Suc)

lemma tag_div:
  "(q :: nat) < 64 \<Longrightarrow> (p * 64 + q) div 64 = p" "q < 64 \<Longrightarrow> (p * 64 + q) mod 64 = q"
  by simp_all

lemma three_digits:
  assumes "(q :: nat) < 64" and "r < 64" and "n = p * 4096 + q * 64 + r"
  shows "n div 4096 = p" "n div 64 mod 64 = q" "n mod 64 = r"
proof -
  have split: "n = (p * 64 + q) * 64 + r" using assms(3) by simp
  have "n div 64 = p * 64 + q" unfolding split using assms(2) by (rule tag_div)
  moreover have "n mod 64 = r" unfolding split using assms(2) by (rule tag_div)
  moreover have "n div 4096 = n div 64 div 64" by (simp add: div_mult2_eq [symmetric])
  ultimately show "n div 4096 = p" "n div 64 mod 64 = q" "n mod 64 = r" using assms(1) by simp_all
qed

lemma encode_decoded:
  assumes "utf8_decode text off = Some (cp, off')"
  shows "off < off' \<and> off' \<le> length text \<and> utf8_encode cp = Some (take (off' - off) (drop off text))"
proof -
  have encode: "utf8_encode cp = Some bs" if "scalar (unat cp)" and "\<And>cs. utf8_encode cp = Some cs \<Longrightarrow> cs = bs" for bs
    using that utf8_encode_None [of cp] by (cases "utf8_encode cp") auto
  from assms show ?thesis
  proof (cases rule: decode_cases)
    case one
    then have small: "unat cp < 128" by (simp add: word_less_nat_alt unat_ucast_byte)
    have "ucast cp = text ! off" unfolding one(4) by (rule bit_word_eqI) (simp add: bit_simps)
    then have "utf8_encode cp = Some [text ! off]"
      using small by (intro encode) (auto simp: scalar_def elim!: utf8_encode_cases)
    with one show ?thesis by (simp add: slices)
  next
    case (two p q)
    then have n: "unat cp div 64 = p" "unat cp mod 64 = q" "128 \<le> unat cp" "unat cp < 2048" by simp_all
    have "utf8_encode cp = Some [text ! off, text ! Suc off]"
    proof (rule encode)
      show "scalar (unat cp)" using n(4) by (simp add: scalar_def)
      fix cs assume "utf8_encode cp = Some cs"
      then show "cs = [text ! off, text ! Suc off]"
        using n two by (cases rule: utf8_encode_cases) (simp_all add: unat_list_inject)
    qed
    with two(1,2) slices [of off "text"] show ?thesis by (simp add: numeral_eq_Suc)
  next
    case (three p q r)
    note n = three_digits [OF three(6,8,11)]
    have "\<not> (0xd800 \<le> unat cp \<and> unat cp \<le> 0xdfff)"
    proof
      assume surrogate: "0xd800 \<le> unat cp \<and> unat cp \<le> 0xdfff"
      have "\<not> p \<le> 12" "\<not> 14 \<le> p" using surrogate three(6,8,11) by linarith+
      then have "p = 13" by simp
      with surrogate three(8,10,11) show False by linarith
    qed
    moreover have "2048 \<le> unat cp" "unat cp < 65536" using three(4,6,8,9,11) by linarith+
    ultimately have range: "2048 \<le> unat cp" "unat cp < 65536" "\<not> (0xd800 \<le> unat cp \<and> unat cp \<le> 0xdfff)" by blast+
    have "utf8_encode cp = Some [text ! off, text ! Suc off, text ! Suc (Suc off)]"
    proof (rule encode)
      show "scalar (unat cp)" using range by (simp add: scalar_def)
      fix cs assume "utf8_encode cp = Some cs"
      then show "cs = [text ! off, text ! Suc off, text ! Suc (Suc off)]"
        using range n three(3,5,7) by (cases rule: utf8_encode_cases) (simp_all add: unat_list_inject)
    qed
    with three(1,2) slices [of off "text"] show ?thesis by (simp add: numeral_eq_Suc)
  next
    case (four p q r s)
    have "unat cp = (p * 64 + q) * 4096 + r * 64 + s" using four(13) by simp
    note n = three_digits [OF four(8,10) this]
    have "unat cp div 262144 = unat cp div 4096 div 64" by (simp add: div_mult2_eq [symmetric])
    with n(1) four(6) have n': "unat cp div 262144 = p" "unat cp div 4096 mod 64 = q" by simp_all
    have range: "65536 \<le> unat cp" "unat cp < 0x110000" using four(4,6,8,10,11,12,13) by linarith+
    have "utf8_encode cp = Some [text ! off, text ! Suc off, text ! Suc (Suc off), text ! Suc (Suc (Suc off))]"
    proof (rule encode)
      show "scalar (unat cp)" using range by (simp add: scalar_def)
      fix cs assume "utf8_encode cp = Some cs"
      then show "cs = [text ! off, text ! Suc off, text ! Suc (Suc off), text ! Suc (Suc (Suc off))]"
        using range n(2,3) n' four(3,5,7,9) by (cases rule: utf8_encode_cases) (simp_all add: unat_list_inject)
    qed
    with four(1,2) slices [of off "text"] show ?thesis by (simp add: numeral_eq_Suc)
  qed
qed

section \<open>Key lemmas\<close>

text \<open>The US layout: what a keyboard with this layout types for a usage, without and with shift.\<close>

definition us_plain :: "byte list" where
  "us_plain = [0x31, 0x32, 0x33, 0x34, 0x35, 0x36, 0x37, 0x38, 0x39, 0x30, 0x0a, 0x1b, 0x08, 0x09, 0x20, 0x2d, 0x3d,
     0x5b, 0x5d, 0x5c, 0x00, 0x3b, 0x27, 0x60, 0x2c, 0x2e, 0x2f]"

definition us_shift :: "byte list" where
  "us_shift = [0x21, 0x40, 0x23, 0x24, 0x25, 0x5e, 0x26, 0x2a, 0x28, 0x29, 0x0a, 0x1b, 0x08, 0x09, 0x20, 0x5f, 0x2b,
     0x7b, 0x7d, 0x7c, 0x00, 0x3a, 0x22, 0x7e, 0x3c, 0x3e, 0x3f]"

definition us_layout :: "HidTextKey \<Rightarrow> byte option" where
  "us_layout key =
     (let usage = unat (tk_usage key); shifted = (tk_modifier key = 0x02) in
      if tk_modifier key \<noteq> 0 \<and> \<not> shifted then None
      else if 4 \<le> usage \<and> usage < 30 then Some (of_nat ((if shifted then 0x41 else 0x61) + (usage - 4)))
      else if 30 \<le> usage \<and> usage < 57 then Some ((if shifted then us_shift else us_plain) ! (usage - 30))
      else None)"

definition typeable :: "byte \<Rightarrow> bool" where
  "typeable c \<longleftrightarrow> (0x20 \<le> c \<and> c \<le> 0x7e) \<or> c = 0x08 \<or> c = 0x09 \<or> c = 0x0a \<or> c = 0x0d \<or> c = 0x1b"

lemma punctuation_layout:
  "list_all (\<lambda>(c, modifier, usage). typeable c \<and>
     us_layout \<lparr>tk_modifier = modifier, tk_usage = usage\<rparr> = Some (if c = 0x0d then 0x0a else c)) punctuation_keys"
  unfolding punctuation_keys_def us_layout_def us_plain_def us_shift_def typeable_def Let_def by simp

lemma punctuation_complete:
  "list_all (\<lambda>n. map_of punctuation_keys (of_nat n) \<noteq> None)
     ([8, 9, 10, 13, 27] @ [32..<48] @ [58..<65] @
      [91..<97] @ [123..<127])"
  unfolding punctuation_keys_def by simp

lemma ascii_typeable:
  assumes "typeable c"
  obtains key where "ascii_to_hid c = Some key"
proof (cases "(0x61 \<le> c \<and> c \<le> 0x7a) \<or> (0x41 \<le> c \<and> c \<le> 0x5a) \<or> (0x31 \<le> c \<and> c \<le> 0x39) \<or> c = 0x30")
  case True
  then have "ascii_to_hid c \<noteq> None" by (elim disjE) (simp_all add: ascii_to_hid_def)
  then show thesis using that by blast
next
  case False
  have "unat c = 8 \<or> unat c = 9 \<or> unat c = 10 \<or> unat c = 13 \<or> unat c = 27 \<or> (32 \<le> unat c \<and> unat c \<le> 126)"
    and "\<not> (97 \<le> unat c \<and> unat c \<le> 122)" "\<not> (65 \<le> unat c \<and> unat c \<le> 90)" "\<not> (48 \<le> unat c \<and> unat c \<le> 57)"
    using assms False by (auto simp: typeable_def word_le_nat_alt word_unat_eq_iff)
  then have "unat c \<in> set ([8, 9, 10, 13, 27] @ [32..<48] @
      [58..<65] @ [91..<97] @ [123..<127])"
    unfolding set_append set_upt by auto
  then have "map_of punctuation_keys (of_nat (unat c)) \<noteq> None"
    using punctuation_complete unfolding list_all_iff by blast
  then obtain modifier usage where "map_of punctuation_keys c = Some (modifier, usage)" by auto
  with False have "ascii_to_hid c \<noteq> None" by (simp add: ascii_to_hid_def)
  then show thesis using that by blast
qed

lemma plain_digits: "i < 9 \<Longrightarrow> us_plain ! i = of_nat (49 + i)"
proof -
  have "list_all (\<lambda>i. us_plain ! i = of_nat (49 + i)) [0, 1, 2, 3, 4, 5, 6, 7, 8]" by (simp add: us_plain_def)
  moreover assume "i < 9"
  then have "i \<in> set [0, 1, 2, 3, 4, 5, 6, 7, 8]" by auto
  ultimately show ?thesis unfolding list_all_iff by blast
qed

lemma ascii_layout:
  assumes "ascii_to_hid c = Some key"
  shows "typeable c \<and> us_layout key = Some (if c = 0x0d then 0x0a else c)"
proof -
  consider "0x61 \<le> c \<and> c \<le> 0x7a" | "0x41 \<le> c \<and> c \<le> 0x5a" | "0x31 \<le> c \<and> c \<le> 0x39" | "c = 0x30"
    | "\<not> (0x61 \<le> c \<and> c \<le> 0x7a)" "\<not> (0x41 \<le> c \<and> c \<le> 0x5a)" "\<not> (0x31 \<le> c \<and> c \<le> 0x39)" "c \<noteq> 0x30" by blast
  then show ?thesis
  proof cases
    case 5
    then obtain modifier usage where "(c, modifier, usage) \<in> set punctuation_keys"
      and "key = \<lparr>tk_modifier = modifier, tk_usage = usage\<rparr>"
      using assms by (auto simp: ascii_to_hid_def split: option.splits dest: map_of_SomeD)
    with bspec [OF punctuation_layout [unfolded list_all_iff] this(1)] show ?thesis by simp
  next
    case 4
    with assms have "key = \<lparr>tk_modifier = 0, tk_usage = 0x27\<rparr>" by (simp add: ascii_to_hid_def)
    with 4 show ?thesis by (simp add: us_layout_def us_plain_def typeable_def)
  next
    case 1
    then have n: "97 \<le> unat c" "unat c \<le> 122" by (simp_all add: word_le_nat_alt)
    have key: "key = \<lparr>tk_modifier = 0, tk_usage = 0x04 + c - 0x61\<rparr>" using 1 assms by (simp add: ascii_to_hid_def)
    then have "unat (tk_usage key) = unat c - 93" using n by (simp add: unat_sub word_le_nat_alt)
    moreover have "4 \<le> unat c - 93" "unat c - 93 < 30" "97 + (unat c - 93 - 4) = unat c" using n by linarith+
    ultimately have "us_layout key = Some c" using key by (simp add: us_layout_def)
    moreover have "typeable c" "c \<noteq> 0x0d" using n by (auto simp: typeable_def word_le_nat_alt word_unat_eq_iff)
    ultimately show ?thesis by simp
  next
    case 2
    then have n: "65 \<le> unat c" "unat c \<le> 90" by (simp_all add: word_le_nat_alt)
    have upper: "\<not> (0x61 \<le> c \<and> c \<le> 0x7a)" using n by (simp add: word_le_nat_alt)
    have key: "key = \<lparr>tk_modifier = 0x02, tk_usage = 0x04 + c - 0x41\<rparr>"
      using assms unfolding ascii_to_hid_def if_not_P [OF upper] if_P [OF 2] by simp
    then have "unat (tk_usage key) = unat c - 61" using n by (simp add: unat_sub word_le_nat_alt)
    moreover have "4 \<le> unat c - 61" "unat c - 61 < 30" "65 + (unat c - 61 - 4) = unat c" using n by linarith+
    ultimately have "us_layout key = Some c" using key by (simp add: us_layout_def)
    moreover have "typeable c" "c \<noteq> 0x0d" using n by (auto simp: typeable_def word_le_nat_alt word_unat_eq_iff)
    ultimately show ?thesis by simp
  next
    case 3
    then have n: "49 \<le> unat c" "unat c \<le> 57" by (simp_all add: word_le_nat_alt)
    have digit: "\<not> (0x61 \<le> c \<and> c \<le> 0x7a)" "\<not> (0x41 \<le> c \<and> c \<le> 0x5a)" using n by (simp_all add: word_le_nat_alt)
    have key: "key = \<lparr>tk_modifier = 0, tk_usage = 0x1e + c - 0x31\<rparr>"
      using assms unfolding ascii_to_hid_def if_not_P [OF digit(1)] if_not_P [OF digit(2)] if_P [OF 3] by simp
    then have "unat (tk_usage key) = unat c - 19" using n by (simp add: unat_sub word_le_nat_alt)
    moreover have "\<not> unat c - 19 < 30" "unat c - 19 < 57" using n by linarith+
    moreover have "us_plain ! (unat c - 49) = c" using plain_digits [of "unat c - 49"] n by simp
    ultimately have "us_layout key = Some c" using key by (simp add: us_layout_def Let_def)
    moreover have "typeable c" "c \<noteq> 0x0d" using n by (auto simp: typeable_def word_le_nat_alt word_unat_eq_iff)
    ultimately show ?thesis by simp
  qed
qed

section \<open>Hangul lemmas\<close>

definition syllable :: "nat \<Rightarrow> nat \<Rightarrow> nat \<Rightarrow> u32" where
  "syllable l v t = of_nat (0xac00 + (l * 21 + v) * 28 + t)"

lemma syllable_index:
  fixes l v t :: nat
  assumes "l < 19" and "v < 21" and "t < 28"
  defines "n \<equiv> (l * 21 + v) * 28 + t"
  shows "n < 11172" "n div 588 = l" "n mod 588 div 28 = v" "n mod 28 = t"
proof -
  have n: "n = l * 588 + (v * 28 + t)" unfolding n_def by (simp add: algebra_simps)
  have small: "v * 28 + t < 588" using assms(2,3) by linarith
  show "n < 11172" using n small assms(1) by linarith
  show "n div 588 = l" "n mod 588 div 28 = v" using n small assms(3) by simp_all
  show "n mod 28 = t" unfolding n_def mod_mult_self3 using assms(3) by simp
qed

lemma syllable_sequences:
  assumes "l < 19" and "v < 21" and "t < 28"
  shows "codepoint_to_hangul_sequences (syllable l v t) = Some (lead_keys ! l, vowel_keys ! v, trail_keys ! t)"
proof -
  note index = syllable_index [OF assms]
  have cp: "unat (syllable l v t) = 0xac00 + (l * 21 + v) * 28 + t"
    unfolding syllable_def by (rule unat_of_nat_small) (use index(1) in simp)
  then have guard: "\<not> (syllable l v t < 0xac00 \<or> 0xd7a3 < syllable l v t)"
    using index(1) by (simp add: word_less_nat_alt)
  have "unat (syllable l v t - 0xac00) = (l * 21 + v) * 28 + t" using cp by (simp add: unat_sub word_le_nat_alt)
  with index show ?thesis
    unfolding codepoint_to_hangul_sequences_def if_not_P [OF guard] Let_def by (simp add: unat_div unat_mod)
qed

lemma syllable_exists:
  assumes "codepoint_to_hangul_sequences cp = Some keys"
  shows "\<exists>l v t. l < 19 \<and> v < 21 \<and> t < 28 \<and> cp = syllable l v t"
proof -
  define n where "n = unat cp - 0xac00"
  have "\<not> (cp < 0xac00 \<or> 0xd7a3 < cp)" using assms by (auto simp: codepoint_to_hangul_sequences_def split: if_splits)
  then have n: "unat cp = 0xac00 + n" "n < 11172" by (auto simp: n_def word_less_nat_alt)
  have "n = (n div 588 * 21 + n mod 588 div 28) * 28 + n mod 28"
  proof -
    have join: "a = b * 588 + m \<Longrightarrow> m = c * 28 + d \<Longrightarrow> a = (b * 21 + c) * 28 + d" for a b c d m :: nat by simp
    have "n = n div 588 * 588 + n mod 588" by simp
    moreover have "n mod 588 = n mod 588 div 28 * 28 + n mod 588 mod 28" by simp
    moreover have "n mod 588 mod 28 = n mod 28" by (rule mod_mod_cancel) simp
    ultimately show ?thesis using join [of n "n div 588" "n mod 588" "n mod 588 div 28" "n mod 28"] by simp
  qed
  then have "0xac00 + (n div 588 * 21 + n mod 588 div 28) * 28 + n mod 28 = unat cp" using n(1) by linarith
  then have "unat cp = unat (syllable (n div 588) (n mod 588 div 28) (n mod 28))"
    unfolding syllable_def by simp
  moreover have "n div 588 < 19" "n mod 588 div 28 < 21" "n mod 28 < 28" using n(2) by (simp_all add: less_mult_imp_div_less)
  ultimately show ?thesis by (metis word_unat_eq_iff)
qed

definition letters :: "string \<Rightarrow> bool" where
  "letters keys \<longleftrightarrow> list_all (\<lambda>c. let b = of_char c :: byte in (0x61 \<le> b \<and> b \<le> 0x7a) \<or> (0x41 \<le> b \<and> b \<le> 0x5a)) keys"

lemma hangul_letters:
  "list_all letters (lead_keys @ vowel_keys @ trail_keys @ map snd jamo_keys)"
  unfolding lead_keys_def vowel_keys_def trail_keys_def jamo_keys_def letters_def Let_def by simp

lemma letters_typeable:
  assumes "letters keys" and "c \<in> set keys"
  shows "ascii_to_hid (of_char c) \<noteq> None"
  using assms by (auto simp: letters_def Let_def list_all_iff ascii_to_hid_def)

section \<open>Properties\<close>

text \<open>
  C25: UTF-8 encoding and decoding are inverse to each other. What the encoder produces for a code point is
  decoded to that code point, wherever it stands in a text; and whatever the decoder accepts is exactly
  the encoding of the code point it returns, so overlong forms, surrogates and values above U+10FFFF are
  never accepted and the decoder never reads past the end of the text.
\<close>

theorem utf8_roundtrip:
  "(utf8_encode cp = Some bs \<longrightarrow> utf8_decode (pre @ bs @ rest) (length pre) = Some (cp, length pre + length bs)) \<and>
   (utf8_decode text off = Some (cp, off') \<longrightarrow>
      off < off' \<and> off' \<le> length text \<and> utf8_encode cp = Some (take (off' - off) (drop off text)))"
  using decode_encoded encode_decoded by blast

theorem utf8_roundtrip_witness:
  "utf8_decode [0x41, 0xed, 0x95, 0x9c] 1 = Some (0xd55c, 4) \<and> utf8_encode 0xd55c = Some [0xed, 0x95, 0x9c]"
proof -
  have enc: "utf8_encode 0xd55c = Some [0xed, 0x95, 0x9c]" by (simp add: utf8_encode_def)
  with utf8_roundtrip [of "0xd55c" "[0xed, 0x95, 0x9c]" "[0x41]" "[]" "[]" 0 0] show ?thesis by simp
qed

text \<open>
  C26: The key chosen for an ASCII character is the one that types it on a US keyboard, and there is one
  exactly for the printable characters and for backspace, tab, line feed, carriage return (which types
  the same key as line feed) and escape.
\<close>

theorem ascii_keys_type_character:
  "map_option us_layout (ascii_to_hid c) =
     (if typeable c then Some (Some (if c = 0x0d then 0x0a else c)) else None)"
proof (cases "ascii_to_hid c")
  case None
  then have "\<not> typeable c" using ascii_typeable [of c] by fastforce
  with None show ?thesis by simp
next
  case (Some key)
  with ascii_layout show ?thesis by fastforce
qed

text \<open>
  C27: Every precomposed Hangul syllable is taken apart into its lead, vowel and trail letters: the syllable
  with the indices l, v and t gives the l-th lead, the v-th vowel and the t-th trail sequence; every code
  point that is taken apart is such a syllable; and every key of every sequence is a letter that can be
  typed.
\<close>

theorem hangul_decomposition:
  assumes "l < 19" and "v < 21" and "t < 28"
  shows "codepoint_to_hangul_sequences (syllable l v t) = Some (lead_keys ! l, vowel_keys ! v, trail_keys ! t) \<and>
     (\<forall>cp. codepoint_to_hangul_sequences cp \<noteq> None \<longleftrightarrow> (\<exists>l v t. l < 19 \<and> v < 21 \<and> t < 28 \<and> cp = syllable l v t)) \<and>
     list_all (\<lambda>c. ascii_to_hid (of_char c) \<noteq> None) (lead_keys ! l @ vowel_keys ! v @ trail_keys ! t)"
proof (intro conjI)
  show "codepoint_to_hangul_sequences (syllable l v t) = Some (lead_keys ! l, vowel_keys ! v, trail_keys ! t)"
    using assms by (rule syllable_sequences)
  show "\<forall>cp. codepoint_to_hangul_sequences cp \<noteq> None \<longleftrightarrow> (\<exists>l v t. l < 19 \<and> v < 21 \<and> t < 28 \<and> cp = syllable l v t)"
    using syllable_exists syllable_sequences by (metis option.distinct(1) option.exhaust)
  have "length lead_keys = 19" "length vowel_keys = 21" "length trail_keys = 28"
    by (simp_all add: lead_keys_def vowel_keys_def trail_keys_def)
  then have "letters (lead_keys ! l)" "letters (vowel_keys ! v)" "letters (trail_keys ! t)"
    using hangul_letters assms by (simp_all add: list_all_iff)
  then show "list_all (\<lambda>c. ascii_to_hid (of_char c) \<noteq> None) (lead_keys ! l @ vowel_keys ! v @ trail_keys ! t)"
    using letters_typeable unfolding list_all_iff set_append by blast
qed

theorem hangul_decomposition_witness:
  "codepoint_to_hangul_sequences 0xd55c = Some (''g'', ''k'', ''s'')"
proof -
  have "(0xd55c :: u32) = syllable 18 0 4" by (simp add: syllable_def)
  then show ?thesis using hangul_decomposition [of 18 0 4] by (simp add: lead_keys_def vowel_keys_def trail_keys_def)
qed

text \<open>
  C28: Scaling a pixel coordinate to the range of the absolute pointer never leaves 1 to 32767, keeps the
  order of coordinates, sends the first pixel to 1 and the last one to 32767, and the multiplication
  does not overflow.
\<close>

theorem pointer_scaling:
  assumes "1 < dimension" and "x \<le> y"
  shows "1 \<le> hid_scale_absolute x dimension \<and> hid_scale_absolute y dimension \<le> 0x7fff \<and>
     hid_scale_absolute x dimension \<le> hid_scale_absolute y dimension \<and>
     hid_scale_absolute 0 dimension = 1 \<and> (unat y = unat dimension - 1 \<longrightarrow> hid_scale_absolute y dimension = 0x7fff) \<and>
     unat (hid_scale_absolute x dimension) = max 1 (min 0x7fff (unat x * 0x7fff div (unat dimension - 1)))"
proof -
  note scale = scale_unat [OF assms(1)]
  have "unat x * 0x7fff div (unat dimension - 1) \<le> unat y * 0x7fff div (unat dimension - 1)"
    using assms(2) by (intro div_le_mono) (simp add: word_le_nat_alt)
  moreover have "unat y = unat dimension - 1 \<Longrightarrow> unat y * 0x7fff div (unat dimension - 1) = 0x7fff"
    using assms(1) by (simp add: word_less_nat_alt)
  ultimately show ?thesis by (auto simp: word_le_nat_alt word_unat_eq_iff scale)
qed

theorem pointer_scaling_witness:
  "hid_scale_absolute 1919 1920 = 0x7fff \<and> hid_scale_absolute 0 1920 = 1"
  using pointer_scaling [of 1920 1919 1919] by simp

end
