(* ===== verification/HidDevice.thy ===== *)
theory HidDevice
  imports HidKeys
begin

text \<open>
  The output side of \<open>hid.c\<close>: the USB gadget devices as the operating system shows them, the two report
  queues and the code that pumps them. The operating system answers from lists (the clock, \<open>open\<close> with
  its \<open>fstat\<close>, \<open>poll\<close>, \<open>write\<close>, and \<open>read\<close> on the feedback device); when a list is exhausted the clock
  stands still, no device can be opened, \<open>poll\<close> finds the device writable, \<open>write\<close> takes everything and
  \<open>read\<close> finds nothing. \<open>os_log\<close> holds the reports the devices have taken whole, in order, under the
  path of the device.
\<close>

section \<open>Operating system\<close>

datatype hid_write = Accepted nat | Refused errno

text \<open>An opened descriptor, whether its \<open>fstat\<close> works, and whether it is a character device.\<close>

datatype open_answer = Opened nat bool bool | OpenFailed errno

text \<open>\<open>PollEvents bad\<close>: the call returned an event; \<open>bad\<close> for an error, a hang-up or an invalid descriptor.\<close>

datatype poll_answer = PollFailed errno | PollNothing | PollEvents bool

record HidOs =
  os_clock :: "u64 list"
  os_now :: u64
  os_opens :: "open_answer list"
  os_polls :: "poll_answer list"
  os_writes :: "hid_write list"
  os_reads :: "recv_answer list"
  os_errno :: errno
  os_closed :: "int list"
  os_log :: "(string \<times> byte list) list"

definition hid_now :: "HidOs \<Rightarrow> u64 \<times> HidOs" where
  "hid_now os =
     (case os_clock os of
        [] \<Rightarrow> (os_now os, os)
      | t # rest \<Rightarrow> (t, os\<lparr>os_clock := rest, os_now := t\<rparr>))"

definition sys_close :: "int \<Rightarrow> HidOs \<Rightarrow> HidOs" where
  "sys_close fd os = os\<lparr>os_closed := os_closed os @ [fd]\<rparr>"

definition sys_poll :: "HidOs \<Rightarrow> poll_answer \<times> HidOs" where
  "sys_poll os =
     (case os_polls os of
        [] \<Rightarrow> (PollEvents False, os)
      | PollFailed e # rest \<Rightarrow> (PollFailed e, os\<lparr>os_polls := rest, os_errno := e\<rparr>)
      | answer # rest \<Rightarrow> (answer, os\<lparr>os_polls := rest\<rparr>))"

definition sys_open :: "HidOs \<Rightarrow> (nat \<times> bool \<times> bool) option \<times> HidOs" where
  "sys_open os =
     (case os_opens os of
        [] \<Rightarrow> (None, os\<lparr>os_errno := ENODEV\<rparr>)
      | OpenFailed e # rest \<Rightarrow> (None, os\<lparr>os_opens := rest, os_errno := e\<rparr>)
      | Opened fd stat_ok character_device # rest \<Rightarrow>
          (Some (fd, stat_ok, character_device), os\<lparr>os_opens := rest\<rparr>))"

text \<open>One \<open>write\<close>: the number of bytes taken, or \<open>None\<close> with \<open>errno\<close> set.\<close>

definition sys_write :: "string \<Rightarrow> byte list \<Rightarrow> HidOs \<Rightarrow> nat option \<times> HidOs" where
  "sys_write path report os =
     (let (answer, rest) = (case os_writes os of [] \<Rightarrow> (Accepted (length report), []) | a # rest \<Rightarrow> (a, rest));
          os1 = os\<lparr>os_writes := rest\<rparr>
      in case answer of
           Accepted n \<Rightarrow>
             let written = min n (length report) in
             (Some written, if written = length report then os1\<lparr>os_log := os_log os1 @ [(path, report)]\<rparr> else os1)
         | Refused e \<Rightarrow> (None, os1\<lparr>os_errno := e\<rparr>))"

section \<open>Reports, queues and the HID state\<close>

definition HID_REPORT_QUEUE_CAPACITY :: nat where "HID_REPORT_QUEUE_CAPACITY = 256"
definition HID_REPORT_STALL_TIMEOUT_MS :: u64 where "HID_REPORT_STALL_TIMEOUT_MS = 1000"
definition HID_KEEPALIVE_INTERVAL_MS :: u64 where "HID_KEEPALIVE_INTERVAL_MS = 300000"

record HidReport =
  rep_data :: "byte list"
  rep_endpoint :: byte
  rep_length :: nat
  rep_delay_ms :: u16
  rep_motion :: bool
  rep_paste_codepoint :: u32
  rep_queued_at :: u64

record HidReportQueue =
  q_reports :: "HidReport list"
  q_head :: nat
  q_count :: nat
  q_ready_at :: u64
  q_blocked_at :: u64
  q_inflight_endpoint :: byte

text \<open>\<open>usages\<close> is an array indexed by a byte; \<open>int8_t\<close> fields are integers.\<close>

record HidState =
  hid_modifiers :: byte
  hid_usages :: "byte \<Rightarrow> bool"
  hid_keyboard_queue :: HidReportQueue
  hid_pointer_queue :: HidReportQueue
  hid_keyboard_delay_ms :: u16
  hid_keyboard_paste_codepoint :: u32
  hid_reports_sent :: u64
  hid_write_retries :: u64
  hid_write_errors :: u64
  hid_queue_overflows :: u64
  hid_max_queue_age_ms :: u64
  hid_feedback_reports :: u64
  hid_feedback_errors :: u64
  hid_feedback_retry_at :: u64
  hid_keyboard_leds :: byte
  hid_submitted_state :: "byte list"
  hid_last_x :: u16
  hid_last_y :: u16
  hid_keepalive_at :: u64
  hid_keepalive_dx :: int
  hid_buttons :: byte
  hid_mouse_buttons :: byte
  hid_keyboard_desynced :: bool
  hid_wheel_delta :: int
  hid_pan_delta :: int
  hid_absolute_report_length :: nat
  hid_keyboard_fd :: int
  hid_keyboard_feedback_fd :: int
  hid_mouse_fd :: int
  hid_touch_fd :: int
  hid_paste_fd :: int
  hid_keyboard_path :: string
  hid_mouse_path :: string
  hid_touch_path :: string
  hid_paste_path :: string

datatype HidQueueId = KeyboardQueue | PointerQueue

fun the_queue :: "HidQueueId \<Rightarrow> HidState \<Rightarrow> HidReportQueue" where
  "the_queue KeyboardQueue hid = hid_keyboard_queue hid"
| "the_queue PointerQueue hid = hid_pointer_queue hid"

fun set_queue :: "HidQueueId \<Rightarrow> HidReportQueue \<Rightarrow> HidState \<Rightarrow> HidState" where
  "set_queue KeyboardQueue q hid = hid\<lparr>hid_keyboard_queue := q\<rparr>"
| "set_queue PointerQueue q hid = hid\<lparr>hid_pointer_queue := q\<rparr>"

section \<open>Device files\<close>

definition is_hid_gadget :: "string \<Rightarrow> bool" where
  "is_hid_gadget path \<longleftrightarrow> take 9 path = ''/dev/hidg''"

datatype HidSlot = KeyboardSlot | MouseSlot | TouchSlot | PasteSlot

fun slot_fd :: "HidSlot \<Rightarrow> HidState \<Rightarrow> int" where
  "slot_fd KeyboardSlot hid = hid_keyboard_fd hid"
| "slot_fd MouseSlot hid = hid_mouse_fd hid"
| "slot_fd TouchSlot hid = hid_touch_fd hid"
| "slot_fd PasteSlot hid = hid_paste_fd hid"

fun set_slot_fd :: "HidSlot \<Rightarrow> int \<Rightarrow> HidState \<Rightarrow> HidState" where
  "set_slot_fd KeyboardSlot fd hid = hid\<lparr>hid_keyboard_fd := fd\<rparr>"
| "set_slot_fd MouseSlot fd hid = hid\<lparr>hid_mouse_fd := fd\<rparr>"
| "set_slot_fd TouchSlot fd hid = hid\<lparr>hid_touch_fd := fd\<rparr>"
| "set_slot_fd PasteSlot fd hid = hid\<lparr>hid_paste_fd := fd\<rparr>"

definition hid_fd_slot :: "HidState \<Rightarrow> string \<Rightarrow> HidSlot option" where
  "hid_fd_slot hid path =
     (if path = hid_keyboard_path hid then Some KeyboardSlot
      else if path = hid_mouse_path hid then Some MouseSlot
      else if path = hid_touch_path hid then Some TouchSlot
      else if hid_paste_path hid \<noteq> [] \<and> path = hid_paste_path hid then Some PasteSlot
      else None)"

definition open_hid_fd :: "string \<Rightarrow> HidOs \<Rightarrow> int \<times> HidOs" where
  "open_hid_fd path os =
     (case sys_open os of
        (None, os1) \<Rightarrow> (- 1, os1)
      | (Some (fd, stat_ok, character_device), os1) \<Rightarrow>
          if \<not> stat_ok \<or> (is_hid_gadget path \<and> \<not> character_device)
          then (- 1, (sys_close (int fd) os1)\<lparr>os_errno := ENODEV\<rparr>)
          else (int fd, os1))"

definition open_keyboard_feedback :: "string \<Rightarrow> HidOs \<Rightarrow> int \<times> HidOs" where
  "open_keyboard_feedback path os =
     (if \<not> is_hid_gadget path then (- 1, os)
      else case sys_open os of
        (None, os1) \<Rightarrow> (- 1, os1)
      | (Some (fd, stat_ok, character_device), os1) \<Rightarrow>
          if \<not> stat_ok \<or> \<not> character_device then (- 1, sys_close (int fd) os1) else (int fd, os1))"

definition hid_fd :: "HidState \<Rightarrow> string \<Rightarrow> HidOs \<Rightarrow> int \<times> HidState \<times> HidOs" where
  "hid_fd hid path os =
     (let slot = hid_fd_slot hid path;
          reopen = (\<lambda>hid os. case open_hid_fd path os of
                      (fd, os1) \<Rightarrow>
                        (fd, (case slot of Some s \<Rightarrow> if 0 \<le> fd then set_slot_fd s fd hid else hid | None \<Rightarrow> hid), os1))
      in case slot of
           None \<Rightarrow> reopen hid os
         | Some s \<Rightarrow>
             if slot_fd s hid < 0 then reopen hid os
             else case sys_poll os of
               (answer, os1) \<Rightarrow>
                 if answer = PollNothing \<or> answer = PollEvents False then (slot_fd s hid, hid, os1)
                 else reopen (set_slot_fd s (- 1) hid) (sys_close (slot_fd s hid) os1))"

text \<open>The \<open>do\<close>-\<open>while\<close> around \<open>write\<close>: repeat while interrupted. The list of answers gets shorter.\<close>

function write_retrying :: "string \<Rightarrow> byte list \<Rightarrow> HidOs \<Rightarrow> nat option \<times> HidOs" where
  "write_retrying path report os =
     (case sys_write path report os of
        (None, os1) \<Rightarrow> if os_errno os1 = EINTR then write_retrying path report os1 else (None, os1)
      | (Some written, os1) \<Rightarrow> (Some written, os1))"
  by pat_completeness auto
termination
  by (relation "measure (\<lambda>(path, report, os). length (os_writes os))")
     (auto simp: sys_write_def Let_def split: list.splits hid_write.splits if_splits)

declare write_retrying.simps [simp del]

text \<open>Whether the whole report was written, and whether a failed write is worth retrying.\<close>

definition write_open_report :: "int \<Rightarrow> string \<Rightarrow> byte list \<Rightarrow> HidOs \<Rightarrow> bool \<times> bool \<times> HidOs" where
  "write_open_report fd path report os =
     (if fd < 0 then (False, False, os)
      else case write_retrying path report os of
        (written, os1) \<Rightarrow>
          if written = Some (length report) then (True, False, os1)
          else (False, os_errno os1 = EAGAIN \<or> os_errno os1 = EWOULDBLOCK, os1))"

definition write_hid_report :: "HidState \<Rightarrow> string \<Rightarrow> byte list \<Rightarrow> HidOs \<Rightarrow> bool \<times> HidState \<times> HidOs" where
  "write_hid_report hid path report os =
     (let slot = hid_fd_slot hid path;
          (fd, hid1, os1) = (case slot of Some s \<Rightarrow> hid_fd hid path os
                             | None \<Rightarrow> (case open_hid_fd path os of (fd, os1) \<Rightarrow> (fd, hid, os1)));
          (wrote, retryable, os2) = write_open_report fd path report os1;
          (hid3, os3) = (case slot of
                           Some s \<Rightarrow>
                             if \<not> wrote \<and> 0 \<le> fd \<and> \<not> retryable
                             then (set_slot_fd s (- 1) hid1, (sys_close fd os2)\<lparr>os_errno := EIO\<rparr>)
                             else (hid1, os2)
                         | None \<Rightarrow> (hid1, if 0 \<le> fd then sys_close fd os2 else os2))
      in (wrote, hid3, os3))"

definition write_paste_codepoint :: "HidState \<Rightarrow> u32 \<Rightarrow> HidOs \<Rightarrow> bool \<times> HidState \<times> HidOs" where
  "write_paste_codepoint hid codepoint os =
     (if hid_paste_fd hid < 0 then (False, hid, os)
      else case paste_payload codepoint of
        None \<Rightarrow> (False, hid, os)
      | Some payload \<Rightarrow> write_hid_report hid (hid_paste_path hid) payload os)"

section \<open>Pumping a queue\<close>

definition endpoint_fd :: "HidState \<Rightarrow> byte \<Rightarrow> int" where
  "endpoint_fd hid endpoint =
     (if endpoint = 1 then hid_keyboard_fd hid else if endpoint = 2 then hid_mouse_fd hid else hid_touch_fd hid)"

definition endpoint_path :: "HidState \<Rightarrow> byte \<Rightarrow> string" where
  "endpoint_path hid endpoint =
     (if endpoint = 1 then hid_keyboard_path hid else if endpoint = 2 then hid_mouse_path hid else hid_touch_path hid)"

definition head_report :: "HidReportQueue \<Rightarrow> HidReport" where
  "head_report q = q_reports q ! q_head q"

text \<open>
  Wait for the endpoint that was used before, if it is another one: \<open>Some ok\<close> when the pump has to
  return, \<open>None\<close> when it can go on.
\<close>

definition await_previous :: "HidQueueId \<Rightarrow> u64 \<Rightarrow> HidState \<Rightarrow> HidOs \<Rightarrow> bool option \<times> HidState \<times> HidOs" where
  "await_previous w now hid os =
     (let q = the_queue w hid; inflight = q_inflight_endpoint q in
      if inflight = 0 \<or> inflight = rep_endpoint (head_report q) then (None, hid, os)
      else
        let (answer, os1) = (if endpoint_fd hid inflight < 0 then (PollFailed (os_errno os), os) else sys_poll os) in
        if answer = PollNothing \<or> answer = PollFailed EINTR then
          (Some True, (if q_blocked_at q = 0 then set_queue w (q\<lparr>q_blocked_at := now\<rparr>) hid else hid), os1)
        else if answer \<noteq> PollEvents False then
          (Some False, hid\<lparr>hid_write_errors := hid_write_errors hid + 1\<rparr>, os1)
        else (None, set_queue w (q\<lparr>q_inflight_endpoint := 0\<rparr>) hid, os1))"

definition clear_paste :: "HidReportQueue \<Rightarrow> HidReportQueue" where
  "clear_paste q = q\<lparr>q_reports := (q_reports q)[q_head q := (head_report q)\<lparr>rep_paste_codepoint := 0\<rparr>]\<rparr>"

definition pop_report :: "HidReportQueue \<Rightarrow> HidReportQueue" where
  "pop_report q = q\<lparr>q_head := (q_head q + 1) mod HID_REPORT_QUEUE_CAPACITY, q_count := q_count q - 1\<rparr>"

text \<open>The pasted text of the report at the head, before its keys.\<close>

definition paste_head :: "HidQueueId \<Rightarrow> u64 \<Rightarrow> HidState \<Rightarrow> HidOs \<Rightarrow> bool option \<times> HidState \<times> HidOs" where
  "paste_head w now hid os =
     (case write_paste_codepoint hid (rep_paste_codepoint (head_report (the_queue w hid))) os of
        (False, hid1, os1) \<Rightarrow> (Some False, hid1\<lparr>hid_write_errors := hid_write_errors hid1 + 1\<rparr>, os1)
      | (True, hid1, os1) \<Rightarrow>
          (Some True, set_queue w ((clear_paste (the_queue w hid1))\<lparr>q_ready_at := now + 30\<rparr>) hid1, os1))"

text \<open>The head is submitted: account for it and take it off the queue.\<close>

definition submitted :: "HidQueueId \<Rightarrow> u64 \<Rightarrow> HidState \<Rightarrow> HidState" where
  "submitted w now hid =
     (let q = the_queue w hid; report = head_report q;
          age = now - rep_queued_at report;
          hid1 = hid\<lparr>hid_submitted_state := (hid_submitted_state hid)[unat (rep_endpoint report - 1) := rep_data report ! 0],
                     hid_max_queue_age_ms := (if hid_max_queue_age_ms hid < age then age else hid_max_queue_age_ms hid),
                     hid_reports_sent := hid_reports_sent hid + 1\<rparr>
      in set_queue w (pop_report (q\<lparr>q_blocked_at := 0, q_inflight_endpoint := rep_endpoint report,
                                     q_ready_at := now + ucast (rep_delay_ms report)\<rparr>)) hid1)"

definition write_head :: "HidQueueId \<Rightarrow> u64 \<Rightarrow> HidState \<Rightarrow> HidOs \<Rightarrow> bool option \<times> HidState \<times> HidOs" where
  "write_head w now hid os =
     (let report = head_report (the_queue w hid) in
      case write_hid_report hid (endpoint_path hid (rep_endpoint report)) (take (rep_length report) (rep_data report)) os of
        (True, hid1, os1) \<Rightarrow> (None, submitted w now hid1, os1)
      | (False, hid1, os1) \<Rightarrow>
          let q = the_queue w hid1;
              q1 = (if q_blocked_at q = 0 then q\<lparr>q_blocked_at := now\<rparr> else q) in
          if os_errno os1 = EAGAIN \<or> os_errno os1 = EWOULDBLOCK then
            (Some True, set_queue w q1 (hid1\<lparr>hid_write_retries := hid_write_retries hid1 + 1\<rparr>), os1)
          else
            (Some False, set_queue w (q1\<lparr>q_ready_at := now + 100\<rparr>) (hid1\<lparr>hid_write_errors := hid_write_errors hid1 + 1\<rparr>), os1))"

text \<open>One turn of the loop for a non-empty queue.\<close>

definition flush_one :: "HidQueueId \<Rightarrow> HidState \<Rightarrow> HidOs \<Rightarrow> bool option \<times> HidState \<times> HidOs" where
  "flush_one w hid os0 =
     (let (now, os) = hid_now os0; q = the_queue w hid in
      if now < q_ready_at q then (Some True, hid, os)
      else if q_blocked_at q \<noteq> 0 \<and> HID_REPORT_STALL_TIMEOUT_MS \<le> now - q_blocked_at q then
        (Some False, hid\<lparr>hid_write_errors := hid_write_errors hid + 1\<rparr>, os)
      else case await_previous w now hid os of
        (Some ok, hid1, os1) \<Rightarrow> (Some ok, hid1, os1)
      | (None, hid1, os1) \<Rightarrow>
          if rep_paste_codepoint (head_report (the_queue w hid1)) \<noteq> 0 then paste_head w now hid1 os1
          else write_head w now hid1 os1)"

subsection \<open>The pump ends\<close>

definition fds_only :: "HidState \<Rightarrow> HidState \<Rightarrow> bool" where
  "fds_only hid hid' \<longleftrightarrow>
     (\<exists>a b c d. hid' = hid\<lparr>hid_keyboard_fd := a, hid_mouse_fd := b, hid_touch_fd := c, hid_paste_fd := d\<rparr>)"

lemma fds_only_refl [simp]: "fds_only hid hid"
  unfolding fds_only_def
  by (rule exI [of _ "hid_keyboard_fd hid"], rule exI [of _ "hid_mouse_fd hid"],
      rule exI [of _ "hid_touch_fd hid"], rule exI [of _ "hid_paste_fd hid"]) simp

lemma fds_only_trans: "fds_only a b \<Longrightarrow> fds_only b c \<Longrightarrow> fds_only a c"
  unfolding fds_only_def by (elim exE, simp) blast

lemma fds_only_slot [simp]: "fds_only hid (set_slot_fd s fd hid)"
  by (cases s; cases hid) (auto simp: fds_only_def)

lemma set_slot_fd_again [simp]: "set_slot_fd s a (set_slot_fd s b hid) = set_slot_fd s a hid"
  by (cases s) simp_all

lemma hid_fd_only: "hid_fd hid path os = (fd, hid', os') \<Longrightarrow> fds_only hid hid'"
  by (auto simp: hid_fd_def Let_def split: option.splits prod.splits if_splits intro: fds_only_trans)

lemma write_hid_report_only: "write_hid_report hid path report os = (wrote, hid', os') \<Longrightarrow> fds_only hid hid'"
  by (auto simp: write_hid_report_def Let_def split: option.splits prod.splits if_splits
      dest!: hid_fd_only intro: fds_only_trans)

lemma write_paste_only: "write_paste_codepoint hid codepoint os = (wrote, hid', os') \<Longrightarrow> fds_only hid hid'"
  by (auto simp: write_paste_codepoint_def split: if_splits option.splits dest: write_hid_report_only)

lemma the_queue_set [simp]: "the_queue w (set_queue w q hid) = q"
  by (cases w) simp_all

lemma the_queue_counters [simp]:
  "the_queue w (hid\<lparr>hid_write_errors := n\<rparr>) = the_queue w hid"
  "the_queue w (hid\<lparr>hid_write_retries := n\<rparr>) = the_queue w hid"
  "the_queue w (hid\<lparr>hid_queue_overflows := n\<rparr>) = the_queue w hid"
  by (cases w; simp)+

lemma overflows_fds: "fds_only hid hid' \<Longrightarrow> hid_queue_overflows hid' = hid_queue_overflows hid"
  by (auto simp: fds_only_def)

lemma overflows_set_queue [simp]: "hid_queue_overflows (set_queue w q hid) = hid_queue_overflows hid"
  by (cases w) simp_all

lemma the_queue_submitted:
  "the_queue w (hid\<lparr>hid_submitted_state := st, hid_max_queue_age_ms := m, hid_reports_sent := n\<rparr>) = the_queue w hid"
  by (cases w) simp_all

lemma the_queue_fds: "fds_only hid hid' \<Longrightarrow> the_queue w hid' = the_queue w hid"
  by (cases w) (auto simp: fds_only_def)

lemma await_previous_count:
  "await_previous w now hid os = (r, hid', os') \<Longrightarrow> q_count (the_queue w hid') = q_count (the_queue w hid)"
  by (auto simp: await_previous_def Let_def split: if_splits prod.splits)

lemma flush_one_count:
  assumes "flush_one w hid os = (None, hid', os')" and "q_count (the_queue w hid) \<noteq> 0"
  shows "q_count (the_queue w hid') < q_count (the_queue w hid)"
proof -
  obtain now os1 hid1 os2 where "await_previous w now hid os1 = (None, hid1, os2)"
    and "write_head w now hid1 os2 = (None, hid', os')"
    using assms(1)
    by (auto simp: flush_one_def paste_head_def Let_def split: if_splits prod.splits option.splits bool.splits)
  moreover from this(2) obtain hid2 where "fds_only hid1 hid2" "hid' = submitted w now hid2"
    by (auto simp: write_head_def Let_def split: prod.splits bool.splits if_splits dest: write_hid_report_only)
  ultimately have "q_count (the_queue w hid2) = q_count (the_queue w hid)"
    and "q_count (the_queue w hid') = q_count (the_queue w hid2) - 1"
    using await_previous_count the_queue_fds by (metis, simp add: submitted_def pop_report_def Let_def)
  with assms(2) show ?thesis by simp
qed

function flush_reports :: "HidQueueId \<Rightarrow> HidState \<Rightarrow> HidOs \<Rightarrow> bool \<times> HidState \<times> HidOs" where
  "flush_reports w hid os =
     (if q_count (the_queue w hid) = 0 then (True, hid, os)
      else case flush_one w hid os of
        (Some ok, hid1, os1) \<Rightarrow> (ok, hid1, os1)
      | (None, hid1, os1) \<Rightarrow> flush_reports w hid1 os1)"
  by pat_completeness auto
termination
  by (relation "measure (\<lambda>(w, hid, os). q_count (the_queue w hid))") (auto intro: flush_one_count [OF sym])

declare flush_reports.simps [simp del]

section \<open>Queueing a report\<close>

definition last_slot :: "HidReportQueue \<Rightarrow> nat" where
  "last_slot q = (q_head q + q_count q - 1) mod HID_REPORT_QUEUE_CAPACITY"

definition push_report :: "HidReportQueue \<Rightarrow> HidReport \<Rightarrow> HidReportQueue" where
  "push_report q r =
     q\<lparr>q_reports := (q_reports q)[(q_head q + q_count q) mod HID_REPORT_QUEUE_CAPACITY := r], q_count := q_count q + 1\<rparr>"

definition mergeable :: "HidReportQueue \<Rightarrow> byte \<Rightarrow> byte list \<Rightarrow> bool \<Rightarrow> bool" where
  "mergeable q endpoint data motion \<longleftrightarrow>
     motion \<and> 0 < q_count q \<and>
     (let previous = q_reports q ! last_slot q in
      rep_motion previous \<and> rep_endpoint previous = endpoint \<and> rep_data previous ! 0 = data ! 0)"

definition merge_last :: "HidReportQueue \<Rightarrow> byte list \<Rightarrow> HidReportQueue" where
  "merge_last q data =
     (let previous = q_reports q ! last_slot q in
      q\<lparr>q_reports := (q_reports q)[last_slot q := previous\<lparr>rep_data := poke (rep_data previous) 0 data\<rparr>]\<rparr>)"

definition path_endpoint :: "HidState \<Rightarrow> string \<Rightarrow> byte" where
  "path_endpoint hid path = (if path = hid_keyboard_path hid then 1 else if path = hid_mouse_path hid then 2 else 3)"

definition new_report :: "HidQueueId \<Rightarrow> HidState \<Rightarrow> string \<Rightarrow> byte list \<Rightarrow> bool \<Rightarrow> u16 \<Rightarrow> u64 \<Rightarrow> HidReport" where
  "new_report w hid path data motion delay_ms now =
     \<lparr>rep_data = poke (replicate 8 0) 0 data, rep_endpoint = path_endpoint hid path, rep_length = length data,
      rep_delay_ms = delay_ms, rep_motion = motion,
      rep_paste_codepoint = (if w = KeyboardQueue then hid_keyboard_paste_codepoint hid else 0), rep_queued_at = now\<rparr>"

definition queue_report ::
  "HidQueueId \<Rightarrow> HidState \<Rightarrow> string \<Rightarrow> byte list \<Rightarrow> bool \<Rightarrow> u16 \<Rightarrow> HidOs \<Rightarrow> bool \<times> HidState \<times> HidOs" where
  "queue_report w hid path data motion delay_ms os =
     (if mergeable (the_queue w hid) (path_endpoint hid path) data motion then
        flush_reports w (set_queue w (merge_last (the_queue w hid) data) hid) os
      else
        let (hid1, os1) = (if q_count (the_queue w hid) = HID_REPORT_QUEUE_CAPACITY
                           then (case flush_reports w hid os of (ok, hid1, os1) \<Rightarrow> (hid1, os1)) else (hid, os)) in
        if q_count (the_queue w hid1) = HID_REPORT_QUEUE_CAPACITY then
          (False, hid1\<lparr>hid_queue_overflows := hid_queue_overflows hid1 + 1\<rparr>, os1)
        else
          let (now, os2) = hid_now os1 in
          flush_reports w
            (set_queue w (push_report (the_queue w hid1) (new_report w hid1 path data motion delay_ms now)) hid1) os2)"

section \<open>The ring as a bounded queue\<close>

text \<open>
  The contract of a bounded first-in first-out queue with an operation on its first and on its last
  element. The pump and the producers rely on nothing else of the ring.
\<close>

locale bounded_fifo =
  fixes contents :: "'q \<Rightarrow> 'r list"
    and capacity :: nat
    and wf :: "'q \<Rightarrow> bool"
    and first_of :: "'q \<Rightarrow> 'r"
    and last_of :: "'q \<Rightarrow> 'r"
    and push :: "'q \<Rightarrow> 'r \<Rightarrow> 'q"
    and pop :: "'q \<Rightarrow> 'q"
    and set_first :: "'q \<Rightarrow> 'r \<Rightarrow> 'q"
    and set_last :: "'q \<Rightarrow> 'r \<Rightarrow> 'q"
  assumes bounded: "wf q \<Longrightarrow> length (contents q) \<le> capacity"
    and first: "wf q \<Longrightarrow> contents q \<noteq> [] \<Longrightarrow> first_of q = hd (contents q)"
    and last: "wf q \<Longrightarrow> contents q \<noteq> [] \<Longrightarrow> last_of q = last (contents q)"
    and push: "wf q \<Longrightarrow> length (contents q) < capacity \<Longrightarrow> wf (push q r) \<and> contents (push q r) = contents q @ [r]"
    and pop: "wf q \<Longrightarrow> contents q \<noteq> [] \<Longrightarrow> wf (pop q) \<and> contents (pop q) = tl (contents q)"
    and set_first: "wf q \<Longrightarrow> contents q \<noteq> [] \<Longrightarrow> wf (set_first q r) \<and> contents (set_first q r) = r # tl (contents q)"
    and set_last: "wf q \<Longrightarrow> contents q \<noteq> [] \<Longrightarrow> wf (set_last q r) \<and> contents (set_last q r) = butlast (contents q) @ [r]"
begin

lemma pop_split: "wf q \<Longrightarrow> contents q \<noteq> [] \<Longrightarrow> contents q = first_of q # contents (pop q)"
  using first pop by (cases "contents q") auto

lemma push_pop_length:
  "wf q \<Longrightarrow> contents q \<noteq> [] \<Longrightarrow> length (contents (pop (push (pop q) r))) < capacity"
  using pop [of q] push [of "pop q" r] pop [of "push (pop q) r"] bounded [of q]
  by (cases "contents q") auto

end

definition ring_ok :: "HidReportQueue \<Rightarrow> bool" where
  "ring_ok q \<longleftrightarrow>
     length (q_reports q) = HID_REPORT_QUEUE_CAPACITY \<and> q_head q < HID_REPORT_QUEUE_CAPACITY \<and>
     q_count q \<le> HID_REPORT_QUEUE_CAPACITY"

definition pending :: "HidReportQueue \<Rightarrow> HidReport list" where
  "pending q = map (\<lambda>i. q_reports q ! ((q_head q + i) mod HID_REPORT_QUEUE_CAPACITY)) [0..<q_count q]"

definition set_head :: "HidReportQueue \<Rightarrow> HidReport \<Rightarrow> HidReportQueue" where
  "set_head q r = q\<lparr>q_reports := (q_reports q)[q_head q := r]\<rparr>"

definition set_last_report :: "HidReportQueue \<Rightarrow> HidReport \<Rightarrow> HidReportQueue" where
  "set_last_report q r = q\<lparr>q_reports := (q_reports q)[last_slot q := r]\<rparr>"

lemma length_pending [simp]: "length (pending q) = q_count q"
  by (simp add: pending_def)

lemma pending_empty [simp]: "pending q = [] \<longleftrightarrow> q_count q = 0"
  by (simp add: pending_def)

text \<open>Two places of the ring less than its size apart are different slots.\<close>

lemma slot_eq_iff:
  "h < HID_REPORT_QUEUE_CAPACITY \<Longrightarrow> i < HID_REPORT_QUEUE_CAPACITY \<Longrightarrow> j < HID_REPORT_QUEUE_CAPACITY \<Longrightarrow>
     (h + i) mod HID_REPORT_QUEUE_CAPACITY = (h + j) mod HID_REPORT_QUEUE_CAPACITY \<longleftrightarrow> i = j"
  unfolding HID_REPORT_QUEUE_CAPACITY_def by (auto simp: mod_if split: if_splits)

lemma slot_bound [simp]: "n mod HID_REPORT_QUEUE_CAPACITY < HID_REPORT_QUEUE_CAPACITY"
  by (simp add: HID_REPORT_QUEUE_CAPACITY_def)

lemma pending_nth: "i < q_count q \<Longrightarrow> pending q ! i = q_reports q ! ((q_head q + i) mod HID_REPORT_QUEUE_CAPACITY)"
  by (simp add: pending_def)

lemma pending_update:
  assumes "ring_ok q" and "k < HID_REPORT_QUEUE_CAPACITY" and "i < q_count q"
  shows "pending (q\<lparr>q_reports := (q_reports q)[(q_head q + k) mod HID_REPORT_QUEUE_CAPACITY := r]\<rparr>) ! i =
     (if i = k then r else pending q ! i)"
proof -
  have "i < HID_REPORT_QUEUE_CAPACITY" using assms(1,3) by (simp add: ring_ok_def)
  with assms slot_eq_iff [of "q_head q" i k] show ?thesis
    by (auto simp: pending_nth ring_ok_def nth_list_update)
qed

interpretation ring: bounded_fifo pending HID_REPORT_QUEUE_CAPACITY ring_ok head_report "\<lambda>q. q_reports q ! last_slot q"
  push_report pop_report set_head set_last_report
proof
  fix q r assume ok: "ring_ok q"
  then have head: "q_head q < HID_REPORT_QUEUE_CAPACITY" and count: "q_count q \<le> HID_REPORT_QUEUE_CAPACITY"
    by (simp_all add: ring_ok_def)
  show "length (pending q) \<le> HID_REPORT_QUEUE_CAPACITY" using count by simp
  { assume "length (pending q) < HID_REPORT_QUEUE_CAPACITY"
    then have room: "q_count q < HID_REPORT_QUEUE_CAPACITY" by simp
    have "pending (push_report q r) ! i = (pending q @ [r]) ! i" if "i < q_count q + 1" for i
    proof -
      let ?q = "q\<lparr>q_reports := (q_reports q)[(q_head q + q_count q) mod HID_REPORT_QUEUE_CAPACITY := r]\<rparr>"
      show ?thesis
      proof (cases "i < q_count q")
        case True
        then have "pending (push_report q r) ! i = pending ?q ! i" by (simp add: pending_nth push_report_def)
        with pending_update [OF ok room True, of r] True show ?thesis by (simp add: nth_append)
      next
        case False
        with that have "i = q_count q" by simp
        then show ?thesis using ok by (simp add: pending_nth push_report_def nth_append ring_ok_def)
      qed
    qed
    then have "pending (push_report q r) = pending q @ [r]"
      by (intro nth_equalityI) (simp_all add: push_report_def)
    moreover have "ring_ok (push_report q r)" using ok room by (simp add: ring_ok_def push_report_def)
    ultimately show "ring_ok (push_report q r) \<and> pending (push_report q r) = pending q @ [r]" by simp
  next
    assume "pending q \<noteq> []"
    then have some: "0 < q_count q" by simp
    show "head_report q = hd (pending q)"
      using some head by (simp add: hd_conv_nth head_report_def pending_nth)
    show "q_reports q ! last_slot q = last (pending q)"
      using some by (simp add: last_conv_nth pending_nth last_slot_def)
    have "pending (pop_report q) ! i = tl (pending q) ! i" if "i < q_count q - 1" for i
    proof -
      have "((q_head q + 1) mod HID_REPORT_QUEUE_CAPACITY + i) mod HID_REPORT_QUEUE_CAPACITY =
          (q_head q + Suc i) mod HID_REPORT_QUEUE_CAPACITY"
        by (simp add: mod_add_left_eq)
      with that show ?thesis by (simp add: pending_nth pop_report_def nth_tl)
    qed
    then have "pending (pop_report q) = tl (pending q)" by (intro nth_equalityI) (simp_all add: pop_report_def)
    moreover have "ring_ok (pop_report q)" using ok by (auto simp: ring_ok_def pop_report_def)
    ultimately show "ring_ok (pop_report q) \<and> pending (pop_report q) = tl (pending q)" by simp
    have "pending (set_head q r) ! i = (r # tl (pending q)) ! i" if "i < q_count q" for i
      using pending_update [OF ok, of 0 i r] that head some count
      by (cases i) (simp_all add: set_head_def nth_tl)
    then have "pending (set_head q r) = r # tl (pending q)"
      using some by (intro nth_equalityI) (simp_all add: set_head_def)
    moreover have "ring_ok (set_head q r)" using ok by (simp add: ring_ok_def set_head_def)
    ultimately show "ring_ok (set_head q r) \<and> pending (set_head q r) = r # tl (pending q)" by simp
    have "pending (set_last_report q r) ! i = (butlast (pending q) @ [r]) ! i" if "i < q_count q" for i
      using pending_update [OF ok, of "q_count q - 1" i r] that some count
      by (auto simp: set_last_report_def last_slot_def nth_append nth_butlast)
    then have "pending (set_last_report q r) = butlast (pending q) @ [r]"
      using some by (intro nth_equalityI) (simp_all add: set_last_report_def)
    moreover have "ring_ok (set_last_report q r)" using ok by (simp add: ring_ok_def set_last_report_def)
    ultimately show "ring_ok (set_last_report q r) \<and> pending (set_last_report q r) = butlast (pending q) @ [r]" by simp
  }
qed

lemma clear_paste_set: "clear_paste q = set_head q ((head_report q)\<lparr>rep_paste_codepoint := 0\<rparr>)"
  by (simp add: clear_paste_def set_head_def)

lemma merge_last_set:
  "merge_last q data = set_last_report q ((q_reports q ! last_slot q)\<lparr>rep_data := poke (rep_data (q_reports q ! last_slot q)) 0 data\<rparr>)"
  by (simp add: merge_last_def set_last_report_def Let_def)

section \<open>What the pump leaves alone\<close>

text \<open>
  Everything of the state that input decides: the keys and buttons held, the position, the pending
  deltas, the device paths. Pumping a queue changes none of it.
\<close>

definition input_state where
  "input_state hid =
     ((hid_modifiers hid, hid_usages hid, hid_keyboard_delay_ms hid, hid_keyboard_paste_codepoint hid),
      (hid_last_x hid, hid_last_y hid, hid_keepalive_at hid, hid_keepalive_dx hid),
      (hid_buttons hid, hid_mouse_buttons hid, hid_wheel_delta hid, hid_pan_delta hid, hid_absolute_report_length hid),
      (hid_keyboard_path hid, hid_mouse_path hid, hid_touch_path hid, hid_paste_path hid))"

lemma input_state_set_queue [simp]: "input_state (set_queue w q hid) = input_state hid"
  by (cases w) (simp_all add: input_state_def)

lemma input_state_counters [simp]:
  "input_state (hid\<lparr>hid_write_errors := n\<rparr>) = input_state hid"
  "input_state (hid\<lparr>hid_write_retries := n\<rparr>) = input_state hid"
  "input_state (hid\<lparr>hid_queue_overflows := n\<rparr>) = input_state hid"
  "input_state (hid\<lparr>hid_submitted_state := st, hid_max_queue_age_ms := m, hid_reports_sent := n\<rparr>) = input_state hid"
  by (simp_all add: input_state_def)

lemma input_state_fds: "fds_only hid hid' \<Longrightarrow> input_state hid' = input_state hid"
  by (auto simp: fds_only_def input_state_def)

lemma input_state_paths:
  "input_state hid' = input_state hid \<Longrightarrow>
     hid_keyboard_path hid' = hid_keyboard_path hid \<and> hid_mouse_path hid' = hid_mouse_path hid \<and>
     hid_touch_path hid' = hid_touch_path hid \<and> hid_paste_path hid' = hid_paste_path hid \<and>
     hid_absolute_report_length hid' = hid_absolute_report_length hid"
  by (simp add: input_state_def)

lemma endpoint_path_cong: "input_state hid' = input_state hid \<Longrightarrow> endpoint_path hid' e = endpoint_path hid e"
  by (drule input_state_paths) (simp add: endpoint_path_def)

section \<open>What the devices receive\<close>

definition wire :: "HidState \<Rightarrow> HidReport \<Rightarrow> string \<times> byte list" where
  "wire hid r = (endpoint_path hid (rep_endpoint r), take (rep_length r) (rep_data r))"

fun on_queue :: "HidQueueId \<Rightarrow> HidState \<Rightarrow> string \<Rightarrow> bool" where
  "on_queue KeyboardQueue hid path \<longleftrightarrow> path = hid_keyboard_path hid"
| "on_queue PointerQueue hid path \<longleftrightarrow> path = hid_mouse_path hid \<or> path = hid_touch_path hid"

text \<open>The reports of a queue: those its devices have taken, then those still waiting.\<close>

definition stream :: "HidQueueId \<Rightarrow> HidState \<Rightarrow> HidOs \<Rightarrow> (string \<times> byte list) list" where
  "stream w hid os = filter (\<lambda>e. on_queue w hid (fst e)) (os_log os) @ map (wire hid) (pending (the_queue w hid))"

definition endpoint_length :: "HidState \<Rightarrow> byte \<Rightarrow> nat" where
  "endpoint_length hid endpoint =
     (if endpoint = 1 then 8 else if endpoint = 2 then 4 else hid_absolute_report_length hid)"

fun endpoint_on :: "HidQueueId \<Rightarrow> byte \<Rightarrow> bool" where
  "endpoint_on KeyboardQueue e \<longleftrightarrow> e = 1"
| "endpoint_on PointerQueue e \<longleftrightarrow> e = 2 \<or> e = 3"

definition report_ok :: "HidState \<Rightarrow> HidQueueId \<Rightarrow> HidReport \<Rightarrow> bool" where
  "report_ok hid w r \<longleftrightarrow>
     length (rep_data r) = 8 \<and> rep_length r = endpoint_length hid (rep_endpoint r) \<and>
     endpoint_on w (rep_endpoint r)"

definition queue_ok :: "HidState \<Rightarrow> HidQueueId \<Rightarrow> HidReportQueue \<Rightarrow> bool" where
  "queue_ok hid w q \<longleftrightarrow> ring_ok q \<and> list_all (report_ok hid w) (pending q)"

definition paths_ok :: "HidState \<Rightarrow> bool" where
  "paths_ok hid \<longleftrightarrow>
     distinct [hid_keyboard_path hid, hid_mouse_path hid, hid_touch_path hid, hid_paste_path hid] \<and>
     (hid_absolute_report_length hid = 6 \<or> hid_absolute_report_length hid = 7)"

definition queues_ok :: "HidState \<Rightarrow> bool" where
  "queues_ok hid \<longleftrightarrow> (\<forall>w. queue_ok hid w (the_queue w hid)) \<and> paths_ok hid"

lemma paths_ok_cong: "input_state hid' = input_state hid \<Longrightarrow> paths_ok hid' = paths_ok hid"
  by (drule input_state_paths) (simp add: paths_ok_def)

lemma on_queue_cong: "input_state hid' = input_state hid \<Longrightarrow> on_queue w hid' = on_queue w hid"
  by (drule input_state_paths, cases w) (auto simp: fun_eq_iff)

lemma wire_cong:
  assumes "input_state hid' = input_state hid"
  shows "wire hid' = wire hid"
  by (rule ext) (simp add: wire_def endpoint_path_cong [OF assms])

lemma queue_ok_cong:
  assumes "input_state hid' = input_state hid"
  shows "queue_ok hid' = queue_ok hid"
proof -
  have "report_ok hid' = report_ok hid"
    using input_state_paths [OF assms] by (intro ext) (simp add: report_ok_def endpoint_length_def)
  then show ?thesis by (intro ext) (simp add: queue_ok_def)
qed

lemma report_fields [simp]:
  "report_ok hid w (r\<lparr>rep_paste_codepoint := cp\<rparr>) = report_ok hid w r"
  "wire hid (r\<lparr>rep_paste_codepoint := cp\<rparr>) = wire hid r"
  by (simp_all add: report_ok_def wire_def)

lemma wire_on_queue:
  assumes "paths_ok hid" and "report_ok hid w r"
  shows "on_queue w' hid (fst (wire hid r)) \<longleftrightarrow> w' = w"
  using assms by (cases w; cases w') (auto simp: paths_ok_def report_ok_def wire_def endpoint_path_def)

lemma paste_off_queue: "paths_ok hid \<Longrightarrow> \<not> on_queue w hid (hid_paste_path hid)"
  by (cases w) (auto simp: paths_ok_def)

lemma write_retrying_log:
  "write_retrying path report os = (written, os') \<Longrightarrow>
     os_log os' = os_log os @ (if written = Some (length report) then [(path, report)] else [])"
proof (induction path report os rule: write_retrying.induct)
  case (1 path report os)
  obtain first os1 where first: "sys_write path report os = (first, os1)" by (rule prod.exhaust)
  have log1: "os_log os1 = os_log os @ (if first = Some (length report) then [(path, report)] else [])"
    using first by (auto simp: sys_write_def Let_def split: list.splits hid_write.splits if_splits)
  show ?case
  proof (cases "first = None \<and> os_errno os1 = EINTR")
    case True
    then have "write_retrying path report os1 = (written, os')"
      using 1(2) first by (subst (asm) write_retrying.simps) simp
    from 1(1) [OF first [symmetric] _ _ this] True log1 show ?thesis by simp
  next
    case False
    then have "written = first" "os' = os1"
      using 1(2) first by (subst (asm) write_retrying.simps, auto split: option.splits if_splits)+
    with log1 show ?thesis by simp
  qed
qed

lemma sys_poll_log [simp]: "os_log (snd (sys_poll os)) = os_log os"
  by (simp add: sys_poll_def split: list.split poll_answer.split)

lemma sys_close_log [simp]: "os_log (sys_close fd os) = os_log os"
  by (simp add: sys_close_def)

lemma hid_now_log [simp]: "os_log (snd (hid_now os)) = os_log os"
  by (simp add: hid_now_def split: list.split)

lemma open_hid_fd_log [simp]: "os_log (snd (open_hid_fd path os)) = os_log os"
  by (simp add: open_hid_fd_def sys_open_def split: list.split open_answer.split)

lemma hid_fd_log [simp]: "os_log (snd (snd (hid_fd hid path os))) = os_log os"
  by (simp add: hid_fd_def Let_def case_prod_beta split: option.split)

lemma write_open_report_log:
  "os_log (snd (snd (write_open_report fd path report os))) =
     os_log os @ (if fst (write_open_report fd path report os) then [(path, report)] else [])"
  using write_retrying_log [of path report os, OF surjective_pairing]
  by (simp add: write_open_report_def case_prod_beta)

lemma write_hid_report_log:
  assumes "write_hid_report hid path report os = (wrote, hid', os')"
  shows "os_log os' = os_log os @ (if wrote then [(path, report)] else [])"
proof -
  have "os_log (snd (snd (write_hid_report hid path report os))) =
      os_log os @ (if fst (write_hid_report hid path report os) then [(path, report)] else [])"
    by (simp add: write_hid_report_def Let_def case_prod_beta write_open_report_log split: option.split)
  with assms show ?thesis by simp
qed

section \<open>The pump moves reports and does nothing else\<close>

lemma stream_step:
  assumes "input_state hid' = input_state hid" and "os_log os' = os_log os @ entries"
    and "filter (\<lambda>e. on_queue w hid (fst e)) entries @ map (wire hid) (pending (the_queue w hid')) =
         map (wire hid) (pending (the_queue w hid))"
  shows "stream w hid' os' = stream w hid os"
  using assms(2,3) unfolding stream_def on_queue_cong [OF assms(1)] wire_cong [OF assms(1)] by simp

text \<open>Which of the waiting reports are motion: only the front of that list can go away.\<close>

definition motions :: "HidQueueId \<Rightarrow> HidState \<Rightarrow> bool list" where
  "motions w hid = map rep_motion (pending (the_queue w hid))"

definition pumped :: "HidQueueId \<Rightarrow> HidState \<Rightarrow> HidOs \<Rightarrow> HidState \<Rightarrow> HidOs \<Rightarrow> bool" where
  "pumped w hid os hid' os' \<longleftrightarrow>
     input_state hid' = input_state hid \<and> (\<forall>w'. w' \<noteq> w \<longrightarrow> the_queue w' hid' = the_queue w' hid) \<and>
     hid_queue_overflows hid' = hid_queue_overflows hid \<and>
     (queues_ok hid \<longrightarrow> queues_ok hid' \<and> (\<forall>w'. stream w' hid' os' = stream w' hid os) \<and>
        (\<exists>k. motions w hid' = drop k (motions w hid)))"

lemma pumped_refl: "pumped w hid os hid os"
  by (simp add: pumped_def exI [of _ 0])

lemma pumped_trans: "pumped w hid os hid1 os1 \<Longrightarrow> pumped w hid1 os1 hid2 os2 \<Longrightarrow> pumped w hid os hid2 os2"
  by (auto simp: pumped_def)

lemma the_queue_set_other [simp]: "w' \<noteq> w \<Longrightarrow> the_queue w' (set_queue w q hid) = the_queue w' hid"
  by (cases w; cases w') simp_all

text \<open>A step of the pump whose effect is known on the queue it works on.\<close>

lemma pumpedI:
  assumes same: "input_state hid' = input_state hid" and others: "\<And>w'. w' \<noteq> w \<Longrightarrow> the_queue w' hid' = the_queue w' hid"
    and log: "os_log os' = os_log os @ entries"
    and step: "queues_ok hid \<Longrightarrow>
      queue_ok hid w (the_queue w hid') \<and> filter (\<lambda>e. on_queue w hid (fst e)) entries @ map (wire hid) (pending (the_queue w hid')) =
        map (wire hid) (pending (the_queue w hid)) \<and> (\<forall>w'. w' \<noteq> w \<longrightarrow> filter (\<lambda>e. on_queue w' hid (fst e)) entries = []) \<and>
      (\<exists>k. motions w hid' = drop k (motions w hid))"
    and overflows: "hid_queue_overflows hid' = hid_queue_overflows hid"
  shows "pumped w hid os hid' os'"
  unfolding pumped_def
proof (intro conjI allI impI)
  fix w' assume ok: "queues_ok hid"
  show "queues_ok hid'"
    using step [OF ok] ok others unfolding queues_ok_def paths_ok_cong [OF same] queue_ok_cong [OF same] by metis
  show "stream w' hid' os' = stream w' hid os"
    using step [OF ok] others [of w'] by (cases "w' = w") (auto intro: stream_step [OF same log])
qed (use same others overflows step in auto)

lemma silent_pumped:
  assumes "input_state hid' = input_state hid" and "\<And>w'. w' \<noteq> w \<Longrightarrow> the_queue w' hid' = the_queue w' hid"
    and "os_log os' = os_log os"
    and "pending (the_queue w hid') = pending (the_queue w hid)" and "ring_ok (the_queue w hid') = ring_ok (the_queue w hid)"
    and "hid_queue_overflows hid' = hid_queue_overflows hid"
  shows "pumped w hid os hid' os'"
  using assms by (intro pumpedI [where entries = "[]"]) (auto simp: queues_ok_def queue_ok_def motions_def intro: exI [of _ 0])

lemma fds_pumped: "fds_only hid hid' \<Longrightarrow> os_log os' = os_log os \<Longrightarrow> pumped w hid os hid' os'"
  by (intro silent_pumped) (simp_all add: input_state_fds the_queue_fds overflows_fds)

lemma pending_fields [simp]:
  "pending (q\<lparr>q_blocked_at := b\<rparr>) = pending q" "pending (q\<lparr>q_inflight_endpoint := e\<rparr>) = pending q"
  "pending (q\<lparr>q_ready_at := t\<rparr>) = pending q"
  "ring_ok (q\<lparr>q_blocked_at := b\<rparr>) = ring_ok q" "ring_ok (q\<lparr>q_inflight_endpoint := e\<rparr>) = ring_ok q"
  "ring_ok (q\<lparr>q_ready_at := t\<rparr>) = ring_ok q"
  by (simp_all add: pending_def ring_ok_def)

lemma await_previous_pumped:
  assumes "await_previous w now hid os = (r, hid', os')"
  shows "pumped w hid os hid' os'"
proof -
  have "os_log (snd (snd (await_previous w now hid os))) = os_log os"
    by (simp add: await_previous_def Let_def case_prod_beta)
  moreover have "\<exists>q n. hid' = hid \<or> hid' = hid\<lparr>hid_write_errors := n\<rparr> \<or>
      (hid' = set_queue w q hid \<and> pending q = pending (the_queue w hid) \<and> ring_ok q = ring_ok (the_queue w hid))"
  proof -
    have "hid' = hid \<or> hid' = hid\<lparr>hid_write_errors := hid_write_errors hid + 1\<rparr> \<or>
        hid' = set_queue w ((the_queue w hid)\<lparr>q_blocked_at := now\<rparr>) hid \<or>
        hid' = set_queue w ((the_queue w hid)\<lparr>q_inflight_endpoint := 0\<rparr>) hid"
      using assms by (auto simp: await_previous_def Let_def case_prod_beta split: if_splits)
    then show ?thesis by (elim disjE) (auto intro: exI [of _ "the_queue w hid"])
  qed
  ultimately show ?thesis using assms by (intro silent_pumped) auto
qed

lemma error_pumped: "pumped w hid os (hid\<lparr>hid_write_errors := n\<rparr>) os" "pumped w hid os (hid\<lparr>hid_write_retries := n\<rparr>) os"
  by (intro silent_pumped; simp)+

lemma paste_head_pumped:
  assumes "paste_head w now hid os = (r, hid', os')" and some: "q_count (the_queue w hid) \<noteq> 0"
  shows "pumped w hid os hid' os'"
proof -
  let ?cp = "rep_paste_codepoint (head_report (the_queue w hid))"
  obtain wrote hid1 os1 where paste: "write_paste_codepoint hid ?cp os = (wrote, hid1, os1)" by (metis prod_cases3)
  then have fds: "fds_only hid hid1" by (rule write_paste_only)
  have log: "os_log os1 = os_log os \<or> (\<exists>payload. os_log os1 = os_log os @ [(hid_paste_path hid, payload)])"
    using paste by (auto simp: write_paste_codepoint_def split: if_splits option.splits dest!: write_hid_report_log)
  then obtain entries where entries: "os_log os1 = os_log os @ entries"
    "entries = [] \<or> (\<exists>payload. entries = [(hid_paste_path hid, payload)])" by auto
  note q = the_queue_fds [OF fds]
  show ?thesis
  proof (cases wrote)
    case True
    let ?q = "(clear_paste (the_queue w hid))\<lparr>q_ready_at := now + 30\<rparr>"
    have final: "hid' = set_queue w ?q hid1" "os' = os1" using assms(1) paste True q by (simp_all add: paste_head_def)
    show ?thesis
    proof (rule pumpedI)
      show "input_state hid' = input_state hid" using final input_state_fds [OF fds] by simp
      show "w' \<noteq> w \<Longrightarrow> the_queue w' hid' = the_queue w' hid" for w' using final q by simp
      show "os_log os' = os_log os @ entries" using final entries by simp
      assume ok: "queues_ok hid"
      then have ring: "ring_ok (the_queue w hid)" and reports: "list_all (report_ok hid w) (pending (the_queue w hid))"
        and paths: "paths_ok hid" by (simp_all add: queues_ok_def queue_ok_def)
      obtain first rest where split: "pending (the_queue w hid) = first # rest"
        using some by (metis list.exhaust pending_empty)
      then have head: "head_report (the_queue w hid) = first" using ring.first [OF ring] by simp
      have "ring_ok ?q" "pending ?q = first\<lparr>rep_paste_codepoint := 0\<rparr> # rest"
        using ring.set_first [OF ring, of "first\<lparr>rep_paste_codepoint := 0\<rparr>"] split
        by (simp_all add: clear_paste_set head)
      moreover have "filter (\<lambda>e. on_queue w' hid (fst e)) entries = []" for w'
        using entries(2) paste_off_queue [OF paths] by auto
      ultimately show "queue_ok hid w (the_queue w hid') \<and>
          filter (\<lambda>e. on_queue w hid (fst e)) entries @ map (wire hid) (pending (the_queue w hid')) =
            map (wire hid) (pending (the_queue w hid)) \<and>
          (\<forall>w'. w' \<noteq> w \<longrightarrow> filter (\<lambda>e. on_queue w' hid (fst e)) entries = []) \<and>
          (\<exists>k. motions w hid' = drop k (motions w hid))"
        using final split reports by (simp add: queue_ok_def motions_def exI [of _ 0])
    qed (use final overflows_fds [OF fds] in simp)
  next
    case False
    have final: "hid' = hid1\<lparr>hid_write_errors := hid_write_errors hid1 + 1\<rparr>" "os' = os1"
      using assms(1) paste False by (simp_all add: paste_head_def)
    show ?thesis
    proof (rule pumpedI)
      show "input_state hid' = input_state hid" using final input_state_fds [OF fds] by simp
      show "the_queue w' hid' = the_queue w' hid" for w' using final q by simp
      show "os_log os' = os_log os @ entries" using final entries by simp
      assume "queues_ok hid"
      then show "queue_ok hid w (the_queue w hid') \<and>
          filter (\<lambda>e. on_queue w hid (fst e)) entries @ map (wire hid) (pending (the_queue w hid')) =
            map (wire hid) (pending (the_queue w hid)) \<and>
          (\<forall>w'. w' \<noteq> w \<longrightarrow> filter (\<lambda>e. on_queue w' hid (fst e)) entries = []) \<and>
          (\<exists>k. motions w hid' = drop k (motions w hid))"
        using entries(2) paste_off_queue [of hid] final q by (auto simp: queues_ok_def motions_def intro: exI [of _ 0])
    qed (use final overflows_fds [OF fds] in simp)
  qed
qed

lemma write_head_pumped:
  assumes "write_head w now hid os = (r, hid', os')" and some: "q_count (the_queue w hid) \<noteq> 0"
  shows "pumped w hid os hid' os'"
proof -
  let ?report = "head_report (the_queue w hid)"
  obtain wrote hid1 os1 where written: "write_hid_report hid (endpoint_path hid (rep_endpoint ?report))
      (take (rep_length ?report) (rep_data ?report)) os = (wrote, hid1, os1)" by (metis prod_cases3)
  then have fds: "fds_only hid hid1" by (rule write_hid_report_only)
  have log: "os_log os1 = os_log os @ (if wrote then [wire hid ?report] else [])"
    using write_hid_report_log [OF written] by (simp add: wire_def)
  note q = the_queue_fds [OF fds]
  show ?thesis
  proof (cases wrote)
    case True
    have final: "hid' = submitted w now hid1" "os' = os1" using assms(1) written True by (simp_all add: write_head_def)
    then have queue: "the_queue w hid' = pop_report ((the_queue w hid)\<lparr>q_blocked_at := 0,
        q_inflight_endpoint := rep_endpoint ?report, q_ready_at := now + ucast (rep_delay_ms ?report)\<rparr>)"
      and same: "input_state hid' = input_state hid" and others: "\<And>w'. w' \<noteq> w \<Longrightarrow> the_queue w' hid' = the_queue w' hid"
      using q input_state_fds [OF fds] by (simp_all add: submitted_def Let_def the_queue_submitted)
    show ?thesis
    proof (rule pumpedI [OF same others])
      show "os_log os' = os_log os @ [wire hid ?report]" using final log True by simp
      show "hid_queue_overflows hid' = hid_queue_overflows hid"
        unfolding final using overflows_fds [OF fds] by (simp add: submitted_def Let_def)
      assume ok: "queues_ok hid"
      then have ring: "ring_ok (the_queue w hid)" and reports: "list_all (report_ok hid w) (pending (the_queue w hid))"
        and paths: "paths_ok hid" by (simp_all add: queues_ok_def queue_ok_def)
      let ?q = "(the_queue w hid)\<lparr>q_blocked_at := 0, q_inflight_endpoint := rep_endpoint ?report,
          q_ready_at := now + ucast (rep_delay_ms ?report)\<rparr>"
      have pop: "ring_ok (pop_report ?q) \<and> pending (pop_report ?q) = tl (pending ?q)"
        using some by (intro ring.pop) (simp_all add: ring)
      obtain rest where split: "pending (the_queue w hid) = ?report # rest"
        using some ring.first [OF ring] by (metis list.exhaust_sel pending_empty)
      then have "report_ok hid w ?report" using reports by simp
      from wire_on_queue [OF paths this] pop split reports queue
      show "queue_ok hid w (the_queue w hid') \<and>
          filter (\<lambda>e. on_queue w hid (fst e)) [wire hid ?report] @ map (wire hid) (pending (the_queue w hid')) =
            map (wire hid) (pending (the_queue w hid)) \<and>
          (\<forall>w'. w' \<noteq> w \<longrightarrow> filter (\<lambda>e. on_queue w' hid (fst e)) [wire hid ?report] = []) \<and>
          (\<exists>k. motions w hid' = drop k (motions w hid))"
        by (simp add: queue_ok_def motions_def exI [of _ "Suc 0"])
    qed
  next
    case False
    have "pumped w hid os hid1 os1" using fds log False by (intro fds_pumped) simp_all
    moreover have "pumped w hid1 os1 hid' os'"
      using assms(1) written False by (intro silent_pumped) (auto simp: write_head_def Let_def split: if_splits)
    ultimately show ?thesis by (rule pumped_trans)
  qed
qed

lemma flush_one_pumped:
  assumes "flush_one w hid os = (r, hid', os')" and some: "q_count (the_queue w hid) \<noteq> 0"
  shows "pumped w hid os hid' os'"
proof -
  obtain now os1 where clock: "hid_now os = (now, os1)" by (rule prod.exhaust)
  then have log: "os_log os1 = os_log os" using hid_now_log [of os] by simp
  have start: "pumped w hid os hid os1" using log by (intro silent_pumped) simp_all
  obtain waiting hid1 os2 where await: "await_previous w now hid os1 = (waiting, hid1, os2)" by (metis prod_cases3)
  note awaited = pumped_trans [OF start await_previous_pumped [OF await]]
  have count: "q_count (the_queue w hid1) \<noteq> 0" using await_previous_count [OF await] some by simp
  have "(hid' = hid \<and> os' = os1) \<or> (hid' = hid\<lparr>hid_write_errors := hid_write_errors hid + 1\<rparr> \<and> os' = os1) \<or>
      (hid' = hid1 \<and> os' = os2) \<or> paste_head w now hid1 os2 = (r, hid', os') \<or> write_head w now hid1 os2 = (r, hid', os')"
    using assms(1) clock await by (auto simp: flush_one_def Let_def split: if_splits option.splits)
  then consider "hid' = hid" "os' = os1" | "hid' = hid\<lparr>hid_write_errors := hid_write_errors hid + 1\<rparr>" "os' = os1"
    | "hid' = hid1" "os' = os2" | "paste_head w now hid1 os2 = (r, hid', os')" | "write_head w now hid1 os2 = (r, hid', os')"
    by blast
  then show ?thesis
  proof cases
    case 2
    with pumped_trans [OF start error_pumped(1)] show ?thesis by simp
  next
    case 4
    with paste_head_pumped [OF _ count] awaited show ?thesis using pumped_trans by blast
  next
    case 5
    with write_head_pumped [OF _ count] awaited show ?thesis using pumped_trans by blast
  qed (use start awaited in simp_all)
qed

lemma flush_reports_pumped: "flush_reports w hid os = (ok, hid', os') \<Longrightarrow> pumped w hid os hid' os'"
proof (induction w hid os rule: flush_reports.induct)
  case (1 w hid os)
  show ?case
  proof (cases "q_count (the_queue w hid) = 0")
    case True
    with 1(2) show ?thesis by (simp add: flush_reports.simps pumped_refl)
  next
    case False
    obtain r hid1 os1 where step: "flush_one w hid os = (r, hid1, os1)" by (metis prod_cases3)
    note one = flush_one_pumped [OF step False]
    show ?thesis
    proof (cases r)
      case None
      then have "flush_reports w hid1 os1 = (ok, hid', os')" using 1(2) False step by (simp add: flush_reports.simps [of w hid])
      from 1(1) [OF False step [symmetric] None refl this] one show ?thesis using pumped_trans by blast
    next
      case (Some ok1)
      with 1(2) False step one show ?thesis by (simp add: flush_reports.simps [of w hid])
    qed
  qed
qed

section \<open>A report that is accepted goes to the end of its stream\<close>

text \<open>
  The three outcomes: the report is appended; a motion report takes the place of the last one, which
  is a waiting motion report of the same device with the same buttons; or the queue is full and
  nothing changes.
\<close>

definition appended :: "HidQueueId \<Rightarrow> HidState \<Rightarrow> HidOs \<Rightarrow> string \<Rightarrow> byte list \<Rightarrow> HidState \<Rightarrow> HidOs \<Rightarrow> bool" where
  "appended w hid os path data hid' os' \<longleftrightarrow> stream w hid' os' = stream w hid os @ [(path, data)]"

definition merged :: "HidQueueId \<Rightarrow> HidState \<Rightarrow> HidOs \<Rightarrow> string \<Rightarrow> byte list \<Rightarrow> HidState \<Rightarrow> HidOs \<Rightarrow> bool" where
  "merged w hid os path data hid' os' \<longleftrightarrow>
     q_count (the_queue w hid) \<noteq> 0 \<and> rep_motion (last (pending (the_queue w hid))) \<and>
     (\<exists>before old. stream w hid os = before @ [(path, old)] \<and> old ! 0 = data ! 0 \<and>
        stream w hid' os' = before @ [(path, data)])"

lemma endpoint_of_path:
  assumes "paths_ok hid" and "on_queue w hid path"
  shows "endpoint_path hid (path_endpoint hid path) = path"
    and "endpoint_on w (path_endpoint hid path)"
  using assms by (cases w; auto simp: paths_ok_def path_endpoint_def endpoint_path_def)+

lemma endpoint_length_bounds: "paths_ok hid \<Longrightarrow> 0 < endpoint_length hid e \<and> endpoint_length hid e \<le> 8"
  by (auto simp: paths_ok_def endpoint_length_def)

lemma poke_front: "length data \<le> length buf \<Longrightarrow> take (length data) (poke buf 0 data) = data"
  using take_poke [of 0 buf data] by simp

lemma drop_snoc: "\<exists>n. drop j (drop k xs @ [x]) = drop n (xs @ [x])"
proof (cases "k \<le> length xs")
  case True
  then have "drop k xs @ [x] = drop k (xs @ [x])" by simp
  then show ?thesis by (metis drop_drop)
next
  case False
  then have "drop k xs @ [x] = drop (length xs) (xs @ [x])" by simp
  then show ?thesis by (metis drop_drop)
qed

lemma pushed_stream:
  fixes motion delay_ms now
  assumes "queues_ok hid" and "on_queue w hid path" and "length data = endpoint_length hid (path_endpoint hid path)"
    and "q_count (the_queue w hid) < HID_REPORT_QUEUE_CAPACITY"
  defines "hid1 \<equiv> set_queue w (push_report (the_queue w hid) (new_report w hid path data motion delay_ms now)) hid"
  shows "queues_ok hid1 \<and> stream w hid1 os = stream w hid os @ [(path, data)] \<and>
     (\<forall>w'. w' \<noteq> w \<longrightarrow> stream w' hid1 os = stream w' hid os) \<and> input_state hid1 = input_state hid \<and>
     map rep_motion (pending (the_queue w hid1)) = map rep_motion (pending (the_queue w hid)) @ [motion]"
proof -
  let ?r = "new_report w hid path data motion delay_ms now"
  have paths: "paths_ok hid" and ring: "ring_ok (the_queue w hid)" and reports: "list_all (report_ok hid w) (pending (the_queue w hid))"
    using assms(1) by (simp_all add: queues_ok_def queue_ok_def)
  have same: "input_state hid1 = input_state hid" by (simp add: hid1_def)
  have len: "length data \<le> 8" using endpoint_length_bounds [OF paths] assms(3) by simp
  have push: "ring_ok (the_queue w hid1)" "pending (the_queue w hid1) = pending (the_queue w hid) @ [?r]"
    using ring.push [OF ring] assms(4) by (simp_all add: hid1_def)
  have r: "report_ok hid w ?r" "wire hid ?r = (path, data)"
    using endpoint_of_path [OF paths assms(2)] assms(3) len poke_front [of data "replicate 8 0"]
    by (simp_all add: report_ok_def new_report_def wire_def)
  have "queue_ok hid1 w' (the_queue w' hid1)" for w'
  proof (cases "w' = w")
    case True
    with push reports r show ?thesis unfolding queue_ok_cong [OF same] by (simp add: queue_ok_def)
  next
    case False
    with assms(1) show ?thesis unfolding queue_ok_cong [OF same] by (simp add: hid1_def queues_ok_def)
  qed
  then have "queues_ok hid1" using paths paths_ok_cong [OF same] by (simp add: queues_ok_def)
  moreover have "stream w hid1 os = stream w hid os @ [(path, data)]"
    unfolding stream_def on_queue_cong [OF same] wire_cong [OF same] by (simp add: push r)
  moreover have "\<forall>w'. w' \<noteq> w \<longrightarrow> stream w' hid1 os = stream w' hid os"
    unfolding stream_def on_queue_cong [OF same] wire_cong [OF same] by (simp add: hid1_def)
  moreover have "map rep_motion (pending (the_queue w hid1)) = map rep_motion (pending (the_queue w hid)) @ [motion]"
    by (simp add: push new_report_def)
  ultimately show ?thesis using same by blast
qed

lemma merged_stream:
  assumes "queues_ok hid" and "on_queue w hid path" and "length data = endpoint_length hid (path_endpoint hid path)"
    and merge: "mergeable (the_queue w hid) (path_endpoint hid path) data motion"
  defines "hid1 \<equiv> set_queue w (merge_last (the_queue w hid) data) hid"
  shows "queues_ok hid1 \<and> (\<forall>w'. w' \<noteq> w \<longrightarrow> stream w' hid1 os = stream w' hid os) \<and> input_state hid1 = input_state hid \<and>
     (\<exists>before old. stream w hid os = before @ [(path, old)] \<and> old ! 0 = data ! 0 \<and> stream w hid1 os = before @ [(path, data)]) \<and>
     q_count (the_queue w hid) \<noteq> 0 \<and> rep_motion (last (pending (the_queue w hid))) \<and>
     map rep_motion (pending (the_queue w hid1)) = map rep_motion (pending (the_queue w hid))"
proof -
  let ?q = "the_queue w hid"
  let ?p = "q_reports ?q ! last_slot ?q"
  let ?r = "?p\<lparr>rep_data := poke (rep_data ?p) 0 data\<rparr>"
  have paths: "paths_ok hid" and ring: "ring_ok ?q" and reports: "list_all (report_ok hid w) (pending ?q)"
    using assms(1) by (simp_all add: queues_ok_def queue_ok_def)
  have same: "input_state hid1 = input_state hid" by (simp add: hid1_def)
  have some: "q_count ?q \<noteq> 0" and prev: "rep_motion ?p" "rep_endpoint ?p = path_endpoint hid path" "rep_data ?p ! 0 = data ! 0"
    using merge by (simp_all add: mergeable_def Let_def)
  have last: "?p = last (pending ?q)" using ring.last [OF ring] some by simp
  then have p: "report_ok hid w ?p" using reports some by (metis last_in_set list_all_iff pending_empty)
  then have len: "length (rep_data ?p) = 8" "rep_length ?p = length data" using prev assms(3) by (simp_all add: report_ok_def)
  have bounds: "0 < length data" "length data \<le> 8" using endpoint_length_bounds [OF paths] assms(3) by simp_all
  have set: "ring_ok (the_queue w hid1)" "pending (the_queue w hid1) = butlast (pending ?q) @ [?r]"
    using ring.set_last [OF ring] some by (simp_all add: hid1_def merge_last_set)
  have r: "report_ok hid w ?r" "wire hid ?r = (path, data)"
    using p len bounds prev endpoint_of_path [OF paths assms(2)] poke_front [of data "rep_data ?p"]
    by (simp_all add: report_ok_def wire_def)
  have old: "wire hid ?p = (path, take (length data) (rep_data ?p))" "take (length data) (rep_data ?p) ! 0 = data ! 0"
    using len bounds prev endpoint_of_path [OF paths assms(2)] by (simp_all add: wire_def)
  have split: "pending ?q = butlast (pending ?q) @ [?p]" using some last by simp
  have "queue_ok hid1 w' (the_queue w' hid1)" for w'
  proof (cases "w' = w")
    case True
    have "list_all (report_ok hid w) (butlast (pending ?q))" using reports by (auto simp: list_all_iff dest: in_set_butlastD)
    with True set r show ?thesis unfolding queue_ok_cong [OF same] by (simp add: queue_ok_def)
  next
    case False
    with assms(1) show ?thesis unfolding queue_ok_cong [OF same] by (simp add: hid1_def queues_ok_def)
  qed
  then have "queues_ok hid1" using paths paths_ok_cong [OF same] by (simp add: queues_ok_def)
  moreover have "\<forall>w'. w' \<noteq> w \<longrightarrow> stream w' hid1 os = stream w' hid os"
    unfolding stream_def on_queue_cong [OF same] wire_cong [OF same] by (simp add: hid1_def)
  moreover let ?before = "filter (\<lambda>e. on_queue w hid (fst e)) (os_log os) @ map (wire hid) (butlast (pending ?q))"
  have "stream w hid os = ?before @ [(path, take (length data) (rep_data ?p))]"
    unfolding stream_def by (subst split) (simp add: old)
  moreover have "stream w hid1 os = ?before @ [(path, data)]"
    unfolding stream_def on_queue_cong [OF same] wire_cong [OF same] by (simp add: set r)
  moreover have "map rep_motion (pending (the_queue w hid1)) = map rep_motion (pending ?q)"
    by (subst split) (simp add: set)
  ultimately show ?thesis using same some prev(1) last old(2) by metis
qed

lemma queue_report_outcome:
  assumes ok: "queues_ok hid" and path: "on_queue w hid path"
    and len: "length data = endpoint_length hid (path_endpoint hid path)"
    and run: "queue_report w hid path data motion delay_ms os = (accepted, hid', os')"
  shows "queues_ok hid' \<and> input_state hid' = input_state hid \<and>
     (\<forall>w'. w' \<noteq> w \<longrightarrow> stream w' hid' os' = stream w' hid os \<and> motions w' hid' = motions w' hid) \<and>
     (if hid_queue_overflows hid' = hid_queue_overflows hid
      then (appended w hid os path data hid' os' \<and> (\<exists>k. motions w hid' = drop k (motions w hid @ [motion]))) \<or>
           (motion \<and> merged w hid os path data hid' os' \<and> (\<exists>k. motions w hid' = drop k (motions w hid)))
      else \<not> accepted \<and> stream w hid' os' = stream w hid os \<and> (\<exists>k. motions w hid' = drop k (motions w hid)))"
proof (cases "mergeable (the_queue w hid) (path_endpoint hid path) data motion")
  case True
  let ?hid1 = "set_queue w (merge_last (the_queue w hid) data) hid"
  note m = merged_stream [OF ok path len True, of os]
  have "flush_reports w ?hid1 os = (accepted, hid', os')" using run True by (simp add: queue_report_def)
  from flush_reports_pumped [OF this] m
  have "queues_ok hid'" "input_state hid' = input_state hid" "\<forall>w'. stream w' hid' os' = stream w' ?hid1 os"
    "\<exists>k. motions w hid' = drop k (motions w ?hid1)" "\<forall>w'. w' \<noteq> w \<longrightarrow> motions w' hid' = motions w' hid"
    "hid_queue_overflows hid' = hid_queue_overflows hid"
    by (simp_all add: pumped_def motions_def)
  moreover have motion using True by (simp add: mergeable_def)
  moreover have "motions w ?hid1 = motions w hid" using m by (simp add: motions_def)
  ultimately show ?thesis using m by (simp add: merged_def)
next
  case False
  obtain hid1 os1 where made: "(hid1, os1) = (if q_count (the_queue w hid) = HID_REPORT_QUEUE_CAPACITY
      then (case flush_reports w hid os of (f, hid1, os1) \<Rightarrow> (hid1, os1)) else (hid, os))"
    by (metis prod.exhaust)
  have "pumped w hid os hid1 os1"
  proof (cases "q_count (the_queue w hid) = HID_REPORT_QUEUE_CAPACITY")
    case True
    obtain f hid2 os2 where f: "flush_reports w hid os = (f, hid2, os2)" by (metis prod_cases3)
    with made True flush_reports_pumped [OF f] show ?thesis by simp
  qed (use made in \<open>simp add: pumped_refl\<close>)
  then have room: "queues_ok hid1" "input_state hid1 = input_state hid" "\<And>w'. stream w' hid1 os1 = stream w' hid os"
    "\<And>w'. w' \<noteq> w \<Longrightarrow> motions w' hid1 = motions w' hid" "\<exists>k. motions w hid1 = drop k (motions w hid)"
    "hid_queue_overflows hid1 = hid_queue_overflows hid"
    using ok by (simp_all add: pumped_def motions_def)
  show ?thesis
  proof (cases "q_count (the_queue w hid1) = HID_REPORT_QUEUE_CAPACITY")
    case True
    have result: "\<not> accepted" "hid' = hid1\<lparr>hid_queue_overflows := hid_queue_overflows hid1 + 1\<rparr>" "os' = os1"
      using run False made [symmetric] True by (auto simp: queue_report_def Let_def)
    have same: "input_state hid' = input_state hid1" using result by simp
    have "stream w' hid' os' = stream w' hid1 os1" "motions w' hid' = motions w' hid1" for w'
      unfolding stream_def on_queue_cong [OF same] wire_cong [OF same] motions_def using result by simp_all
    moreover have "queues_ok hid'"
      using room(1) result(2) unfolding queues_ok_def paths_ok_cong [OF same] queue_ok_cong [OF same] by simp
    ultimately show ?thesis using room result same by simp
  next
    case not_full: False
    obtain now os2 where clock: "hid_now os1 = (now, os2)" by (rule prod.exhaust)
    let ?r = "new_report w hid1 path data motion delay_ms now"
    let ?hid2 = "set_queue w (push_report (the_queue w hid1) ?r) hid1"
    have flush: "flush_reports w ?hid2 os2 = (accepted, hid', os')"
      using run False made [symmetric] not_full clock by (simp add: queue_report_def Let_def)
    have count: "q_count (the_queue w hid1) < HID_REPORT_QUEUE_CAPACITY"
      using room(1) not_full by (simp add: queues_ok_def queue_ok_def ring_ok_def le_neq_implies_less)
    have "on_queue w hid1 path" "length data = endpoint_length hid1 (path_endpoint hid1 path)"
      using path len input_state_paths [OF room(2)] on_queue_cong [OF room(2)]
      by (simp_all add: endpoint_length_def path_endpoint_def)
    note pushed = pushed_stream [OF room(1) this count, of motion delay_ms now os2]
    have log: "stream w' hid1 os2 = stream w' hid1 os1" for w'
      using hid_now_log [of os1] clock by (simp add: stream_def)
    from flush_reports_pumped [OF flush] pushed
    have final: "queues_ok hid'" "input_state hid' = input_state hid1" "\<forall>w'. stream w' hid' os' = stream w' ?hid2 os2"
      "\<exists>k. motions w hid' = drop k (motions w ?hid2)" "\<forall>w'. w' \<noteq> w \<longrightarrow> motions w' hid' = motions w' hid1"
      "hid_queue_overflows hid' = hid_queue_overflows hid1"
      by (simp_all add: pumped_def motions_def)
    have "motions w ?hid2 = motions w hid1 @ [motion]" using pushed by (simp add: motions_def new_report_def)
    moreover obtain k where "motions w hid1 = drop k (motions w hid)" using room(5) by blast
    ultimately obtain j k where "motions w hid' = drop j (drop k (motions w hid) @ [motion])" using final(4) by auto
    then have "\<exists>k. motions w hid' = drop k (motions w hid @ [motion])"
      using drop_snoc by metis
    with final pushed log room show ?thesis by (simp add: appended_def)
  qed
qed

end
