(* ===== verification/Hid.thy ===== *)
theory Hid
  imports HidDevice
begin

text \<open>
  The operations of \<open>hid.c\<close> that the agent calls: initialisation, keyboard, text, pointer, wheel, keep
  alive, flushing, synchronisation and release. Each takes the HID state and the operating system and
  returns them changed, with the result of the C function in front.
\<close>

section \<open>Initialisation\<close>

text \<open>\<open>strtol\<close> with base 10, as far as its value is concerned.\<close>

fun digits_value :: "int \<Rightarrow> string \<Rightarrow> int" where
  "digits_value acc [] = acc"
| "digits_value acc (c # cs) =
     (if 48 \<le> (of_char c :: nat) \<and> (of_char c :: nat) \<le> 57
      then digits_value (acc * 10 + int (of_char c - 48)) cs else acc)"

definition strtol10 :: "string \<Rightarrow> int" where
  "strtol10 s =
     (case dropWhile (\<lambda>c. c \<in> set [CHR 0x20, CHR 0x09, CHR 0x0A, CHR 0x0B, CHR 0x0C, CHR 0x0D]) s of
        [] \<Rightarrow> 0
      | c # cs \<Rightarrow>
          if c = CHR ''-'' then - digits_value 0 cs
          else if c = CHR ''+'' then digits_value 0 cs
          else digits_value 0 (c # cs))"

fun has_pan :: "byte list \<Rightarrow> bool" where
  "has_pan (a # b # c # rest) = ((a = 0x0a \<and> b = 0x38 \<and> c = 0x02) \<or> has_pan (b # c # rest))"
| "has_pan _ = False"

text \<open>
  The environment variable, if set, and the first 96 bytes of the report descriptor, \<open>None\<close> if it
  cannot be opened, are arguments.
\<close>

definition absolute_report_length :: "string option \<Rightarrow> byte list option \<Rightarrow> string \<Rightarrow> nat" where
  "absolute_report_length configured descriptor path =
     (let fallback = (if path \<noteq> ''/dev/hidg2'' then 6
                      else case descriptor of
                        None \<Rightarrow> 6
                      | Some bytes \<Rightarrow> if length (take 96 bytes) < 8 then 6 else if has_pan (take 96 bytes) then 7 else 6)
      in case configured of
           None \<Rightarrow> fallback
         | Some text \<Rightarrow> if text \<noteq> [] \<and> (strtol10 text = 6 \<or> strtol10 text = 7) then nat (strtol10 text) else fallback)"

definition empty_report :: HidReport where
  "empty_report = \<lparr>rep_data = replicate 8 0, rep_endpoint = 0, rep_length = 0, rep_delay_ms = 0, rep_motion = False,
     rep_paste_codepoint = 0, rep_queued_at = 0\<rparr>"

definition empty_queue :: HidReportQueue where
  "empty_queue = \<lparr>q_reports = replicate HID_REPORT_QUEUE_CAPACITY empty_report, q_head = 0, q_count = 0, q_ready_at = 0,
     q_blocked_at = 0, q_inflight_endpoint = 0\<rparr>"

definition PATH_SIZE :: nat where "PATH_SIZE = 128"
definition PASTE_PATH_SIZE :: nat where "PASTE_PATH_SIZE = 160"

definition hid_init ::
  "string option \<Rightarrow> string option \<Rightarrow> string option \<Rightarrow> string option \<Rightarrow> byte list option \<Rightarrow> HidOs \<Rightarrow> HidState \<times> HidOs" where
  "hid_init keyboard mouse touch configured descriptor os0 =
     (let keyboard_path = take (PATH_SIZE - 1) (case keyboard of Some p \<Rightarrow> p | None \<Rightarrow> ''/dev/hidg0'');
          mouse_path = take (PATH_SIZE - 1) (case mouse of Some p \<Rightarrow> p | None \<Rightarrow> ''/dev/hidg1'');
          touch_path = take (PATH_SIZE - 1) (case touch of Some p \<Rightarrow> p | None \<Rightarrow> ''/dev/hidg2'');
          paste_path = take (PASTE_PATH_SIZE - 1) (keyboard_path @ ''.paste'');
          (now, os1) = hid_now os0;
          (keyboard_fd, os2) = open_hid_fd keyboard_path os1;
          (feedback_fd, os3) = open_keyboard_feedback keyboard_path os2;
          (mouse_fd, os4) = open_hid_fd mouse_path os3;
          (touch_fd, os5) = open_hid_fd touch_path os4;
          (paste_fd, os6) = open_hid_fd paste_path os5
      in (\<lparr>hid_modifiers = 0, hid_usages = (\<lambda>_. False), hid_keyboard_queue = empty_queue, hid_pointer_queue = empty_queue,
           hid_keyboard_delay_ms = 0, hid_keyboard_paste_codepoint = 0, hid_reports_sent = 0, hid_write_retries = 0,
           hid_write_errors = 0, hid_queue_overflows = 0, hid_max_queue_age_ms = 0, hid_feedback_reports = 0,
           hid_feedback_errors = 0, hid_feedback_retry_at = 0, hid_keyboard_leds = 0, hid_submitted_state = [0, 0, 0],
           hid_last_x = 0x3fff, hid_last_y = 0x3fff, hid_keepalive_at = now + HID_KEEPALIVE_INTERVAL_MS,
           hid_keepalive_dx = 1, hid_buttons = 0, hid_mouse_buttons = 0, hid_keyboard_desynced = False,
           hid_wheel_delta = 0, hid_pan_delta = 0,
           hid_absolute_report_length = absolute_report_length configured descriptor touch_path,
           hid_keyboard_fd = keyboard_fd, hid_keyboard_feedback_fd = feedback_fd, hid_mouse_fd = mouse_fd,
           hid_touch_fd = touch_fd, hid_paste_fd = paste_fd, hid_keyboard_path = keyboard_path,
           hid_mouse_path = mouse_path, hid_touch_path = touch_path, hid_paste_path = paste_path\<rparr>, os6))"

section \<open>Keyboard\<close>

definition reset_keyboard_state :: "HidState \<Rightarrow> bool \<Rightarrow> HidState" where
  "reset_keyboard_state hid desynced =
     hid\<lparr>hid_usages := (\<lambda>_. False), hid_modifiers := 0, hid_keyboard_desynced := desynced\<rparr>"

text \<open>The usages held, in the order the loop visits them.\<close>

definition keys_down :: "(byte \<Rightarrow> bool) \<Rightarrow> byte list" where
  "keys_down usages = filter usages (map of_nat [0..<256])"

definition keyboard_report :: "HidState \<Rightarrow> byte list" where
  "keyboard_report hid =
     (let keys = take 6 (keys_down (hid_usages hid)) in
      [hid_modifiers hid, 0] @ keys @ replicate (6 - length keys) 0)"

definition update_desynced :: "HidState \<Rightarrow> HidState" where
  "update_desynced hid = hid\<lparr>hid_keyboard_desynced := 0 < q_count (hid_keyboard_queue hid)\<rparr>"

definition send_keyboard :: "HidState \<Rightarrow> HidOs \<Rightarrow> bool \<times> HidState \<times> HidOs" where
  "send_keyboard hid os =
     (case queue_report KeyboardQueue hid (hid_keyboard_path hid) (keyboard_report hid) False (hid_keyboard_delay_ms hid) os of
        (ok, hid1, os1) \<Rightarrow> (ok, update_desynced hid1, os1))"

definition hid_keyboard_pending :: "HidState \<Rightarrow> bool" where
  "hid_keyboard_pending hid \<longleftrightarrow> 0 < q_count (hid_keyboard_queue hid)"

definition hid_keyboard_flush :: "HidState \<Rightarrow> HidOs \<Rightarrow> HidState \<times> HidOs" where
  "hid_keyboard_flush hid os =
     (case flush_reports KeyboardQueue hid os of (ok, hid1, os1) \<Rightarrow> (update_desynced hid1, os1))"

definition hid_pending :: "HidState \<Rightarrow> bool" where
  "hid_pending hid \<longleftrightarrow> q_count (hid_keyboard_queue hid) \<noteq> 0 \<or> q_count (hid_pointer_queue hid) \<noteq> 0"

definition sys_read_feedback :: "HidOs \<Rightarrow> recv_answer \<times> HidOs" where
  "sys_read_feedback os =
     (case os_reads os of
        [] \<Rightarrow> (RecvErr EAGAIN, os\<lparr>os_errno := EAGAIN\<rparr>)
      | Got bytes # rest \<Rightarrow> (Got (take 64 bytes), os\<lparr>os_reads := rest\<rparr>)
      | RecvErr e # rest \<Rightarrow> (RecvErr e, os\<lparr>os_reads := rest, os_errno := e\<rparr>))"

text \<open>At most \<open>batches\<close> reads of the feedback device.\<close>

fun feedback_batch :: "nat \<Rightarrow> u64 \<Rightarrow> HidState \<Rightarrow> HidOs \<Rightarrow> HidState \<times> HidOs" where
  "feedback_batch 0 now hid os = (hid, os)"
| "feedback_batch (Suc batches) now hid os =
     (case sys_read_feedback os of
        (answer, os1) \<Rightarrow>
          (case answer of
             Got (b # bytes) \<Rightarrow>
               feedback_batch batches now
                 (hid\<lparr>hid_feedback_reports := hid_feedback_reports hid + 1, hid_keyboard_leds := b AND 0x1f\<rparr>) os1
           | RecvErr e \<Rightarrow>
               if e = EINTR then feedback_batch batches now hid os1
               else if e = EAGAIN \<or> e = EWOULDBLOCK then (hid, os1)
               else (hid\<lparr>hid_feedback_errors := hid_feedback_errors hid + 1, hid_keyboard_feedback_fd := - 1,
                         hid_feedback_retry_at := now + 1000\<rparr>, sys_close (hid_keyboard_feedback_fd hid) os1)
           | Got [] \<Rightarrow>
               (hid\<lparr>hid_feedback_errors := hid_feedback_errors hid + 1, hid_keyboard_feedback_fd := - 1,
                    hid_feedback_retry_at := now + 1000\<rparr>, sys_close (hid_keyboard_feedback_fd hid) os1)))"

definition drain_keyboard_feedback :: "HidState \<Rightarrow> HidOs \<Rightarrow> HidState \<times> HidOs" where
  "drain_keyboard_feedback hid os0 =
     (let (now, os1) = hid_now os0;
          (hid1, os2) =
            (if hid_keyboard_feedback_fd hid < 0 \<and> hid_feedback_retry_at hid \<le> now then
               (case open_keyboard_feedback (hid_keyboard_path hid) os1 of
                  (fd, os2) \<Rightarrow> (hid\<lparr>hid_keyboard_feedback_fd := fd, hid_feedback_retry_at := now + 1000\<rparr>, os2))
             else (hid, os1))
      in if hid_keyboard_feedback_fd hid1 < 0 then (hid1, os2) else feedback_batch 32 now hid1 os2)"

definition hid_flush :: "HidState \<Rightarrow> HidOs \<Rightarrow> bool \<times> HidState \<times> HidOs" where
  "hid_flush hid os =
     (let (hid1, os1) = drain_keyboard_feedback hid os;
          (keyboard, hid2, os2) = flush_reports KeyboardQueue hid1 os1;
          (pointer, hid3, os3) = flush_reports PointerQueue hid2 os2
      in (keyboard \<and> pointer, update_desynced hid3, os3))"

datatype poll_event = POLLOUT | POLLIN

definition queue_pollfd :: "HidState \<Rightarrow> u64 \<Rightarrow> HidReportQueue \<Rightarrow> (int \<times> poll_event) list" where
  "queue_pollfd hid now q =
     (if q_count q = 0 \<or> now < q_ready_at q then []
      else let own = rep_endpoint (head_report q);
               endpoint = (if q_inflight_endpoint q \<noteq> 0 \<and> q_inflight_endpoint q \<noteq> own then q_inflight_endpoint q else own);
               fd = endpoint_fd hid endpoint
           in if 0 \<le> fd then [(fd, POLLOUT)] else [])"

definition hid_pollfds :: "HidState \<Rightarrow> HidOs \<Rightarrow> (int \<times> poll_event) list \<times> HidOs" where
  "hid_pollfds hid os0 =
     (let (now, os) = hid_now os0 in
      (queue_pollfd hid now (hid_keyboard_queue hid) @ queue_pollfd hid now (hid_pointer_queue hid) @
       (if 0 \<le> hid_keyboard_feedback_fd hid then [(hid_keyboard_feedback_fd hid, POLLIN)] else []), os))"

text \<open>\<open>idle_ms\<close> is compared as an unsigned 64-bit number, so a negative one counts as very large.\<close>

definition shorten_timeout :: "u64 \<Rightarrow> int \<Rightarrow> HidReportQueue \<Rightarrow> int" where
  "shorten_timeout now idle_ms q =
     (if q_count q = 0 then idle_ms
      else let delay = (if now < q_ready_at q then q_ready_at q - now else 5) in
        if delay < of_int idle_ms then sint (ucast delay :: 32 word) else idle_ms)"

definition hid_poll_timeout :: "HidState \<Rightarrow> int \<Rightarrow> HidOs \<Rightarrow> int \<times> HidOs" where
  "hid_poll_timeout hid idle_ms os0 =
     (let (now, os) = hid_now os0 in
      (shorten_timeout now (shorten_timeout now idle_ms (hid_keyboard_queue hid)) (hid_pointer_queue hid), os))"

definition key_held :: "HidState \<Rightarrow> byte \<Rightarrow> byte \<Rightarrow> bool" where
  "key_held hid usage modifier = (if modifier \<noteq> 0 then hid_modifiers hid AND modifier \<noteq> 0 else hid_usages hid usage)"

definition set_key :: "HidState \<Rightarrow> byte \<Rightarrow> byte \<Rightarrow> bool \<Rightarrow> HidState" where
  "set_key hid usage modifier release =
     (if modifier \<noteq> 0
      then if release then hid\<lparr>hid_modifiers := hid_modifiers hid AND NOT modifier\<rparr>
           else hid\<lparr>hid_modifiers := hid_modifiers hid OR modifier\<rparr>
      else hid\<lparr>hid_usages := (hid_usages hid)(usage := \<not> release)\<rparr>)"

definition hid_scancode :: "HidState \<Rightarrow> byte \<Rightarrow> bool \<Rightarrow> bool \<Rightarrow> HidOs \<Rightarrow> bool \<times> HidState \<times> HidOs" where
  "hid_scancode hid code extended release os =
     (case hid_translate_scancode code extended of
        None \<Rightarrow> (True, hid, os)
      | Some (usage, modifier) \<Rightarrow>
          if key_held hid usage modifier = (\<not> release) then (True, hid, os)
          else send_keyboard (set_key hid usage modifier release) os)"

section \<open>Release and synchronisation of the pointer\<close>

text \<open>A C integer stored into an \<open>int8_t\<close>, and an \<open>int8_t\<close> read as a byte.\<close>

definition to_int8 :: "int \<Rightarrow> int" where
  "to_int8 x = sint (of_int x :: byte)"

definition pointer_queue_busy :: "HidState \<Rightarrow> bool" where
  "pointer_queue_busy hid \<longleftrightarrow> q_count (hid_pointer_queue hid) \<noteq> 0"

definition write_absolute_now :: "HidState \<Rightarrow> byte list \<Rightarrow> HidOs \<Rightarrow> bool \<times> HidState \<times> HidOs" where
  "write_absolute_now hid report os =
     (if pointer_queue_busy hid \<or> q_inflight_endpoint (hid_pointer_queue hid) \<noteq> 0 \<or> hid_touch_fd hid < 0
      then (False, hid, os)
      else case sys_write (hid_touch_path hid) report os of
        (written, os1) \<Rightarrow>
          if written \<noteq> Some (length report) then (False, hid, os1)
          else (True, hid\<lparr>hid_submitted_state := (hid_submitted_state hid)[2 := report ! 0],
                          hid_reports_sent := hid_reports_sent hid + 1\<rparr>, os1))"

definition absolute_report :: "HidState \<Rightarrow> byte list" where
  "absolute_report hid =
     (let report = (write_touch_position [touch_buttons (hid_buttons hid), 0, 0, 0, 0, 0, 0] (hid_last_x hid) (hid_last_y hid))
                     [5 := of_int (hid_wheel_delta hid)];
          report1 = (if hid_absolute_report_length hid = 7 then report[6 := of_int (hid_pan_delta hid)] else report)
      in take (hid_absolute_report_length hid) report1)"

definition clear_deltas :: "HidState \<Rightarrow> HidState" where
  "clear_deltas hid = hid\<lparr>hid_wheel_delta := 0, hid_pan_delta := 0\<rparr>"

definition send_absolute :: "HidState \<Rightarrow> bool \<Rightarrow> HidOs \<Rightarrow> bool \<times> HidState \<times> HidOs" where
  "send_absolute hid motion os =
     (let report = absolute_report hid;
          pure_motion = (motion \<and> hid_wheel_delta hid = 0 \<and> hid_pan_delta hid = 0);
          (now, hid1, os1) = (if pure_motion then write_absolute_now hid report os else (False, hid, os))
      in if now then (True, hid1, os1)
         else case queue_report PointerQueue hid1 (hid_touch_path hid1) report pure_motion 0 os1 of
           (ok, hid2, os2) \<Rightarrow> (ok, clear_deltas hid2, os2))"

definition relative_report :: "HidState \<Rightarrow> int \<Rightarrow> int \<Rightarrow> int \<Rightarrow> byte list" where
  "relative_report hid dx dy wheel = [hid_buttons hid AND HID_MOUSE_BUTTONS_MASK, of_int dx, of_int dy, of_int wheel]"

definition send_relative :: "HidState \<Rightarrow> int \<Rightarrow> int \<Rightarrow> int \<Rightarrow> HidOs \<Rightarrow> bool \<times> HidState \<times> HidOs" where
  "send_relative hid dx dy wheel os =
     queue_report PointerQueue hid (hid_mouse_path hid) (relative_report hid dx dy wheel) False 0 os"

definition hid_synchronize :: "HidState \<Rightarrow> HidOs \<Rightarrow> bool \<times> HidState \<times> HidOs" where
  "hid_synchronize hid os =
     (let hid1 = (reset_keyboard_state (hid\<lparr>hid_keyboard_delay_ms := 0, hid_keyboard_paste_codepoint := 0\<rparr>) False)
                   \<lparr>hid_buttons := 0, hid_mouse_buttons := 0, hid_wheel_delta := 0, hid_pan_delta := 0\<rparr>;
          (keyboard_ok, hid2, os2) = send_keyboard hid1 os;
          (mouse_ok, hid3, os3) = queue_report PointerQueue hid2 (hid_mouse_path hid2) [0, 0, 0, 0] False 0 os2;
          (absolute_ok, hid4, os4) = send_absolute hid3 False os3
      in (keyboard_ok \<and> mouse_ok \<and> absolute_ok, hid4, os4))"

definition hid_release_all :: "HidState \<Rightarrow> HidOs \<Rightarrow> HidState \<times> HidOs" where
  "hid_release_all hid os =
     (case hid_synchronize (hid\<lparr>hid_keyboard_queue := empty_queue, hid_pointer_queue := empty_queue\<rparr>) os of
        (ok, hid1, os1) \<Rightarrow> (hid1, os1))"

section \<open>Text\<close>

definition tap_text_key :: "HidState \<Rightarrow> HidTextKey \<Rightarrow> HidOs \<Rightarrow> bool \<times> HidState \<times> HidOs" where
  "tap_text_key hid key os =
     (let saved_modifiers = hid_modifiers hid; saved_usage = hid_usages hid (tk_usage key);
          hid1 = hid\<lparr>hid_modifiers := saved_modifiers OR tk_modifier key, hid_usages := (hid_usages hid)(tk_usage key := True)\<rparr>
      in case send_keyboard hid1 os of
           (ok, hid2, os2) \<Rightarrow>
             if \<not> ok then (False, hid2, os2)
             else send_keyboard (hid2\<lparr>hid_modifiers := saved_modifiers,
                                      hid_usages := (hid_usages hid2)(tk_usage key := saved_usage)\<rparr>) os2)"

fun type_ascii_sequence :: "HidState \<Rightarrow> string \<Rightarrow> HidOs \<Rightarrow> bool \<times> HidState \<times> HidOs" where
  "type_ascii_sequence hid [] os = (True, hid, os)"
| "type_ascii_sequence hid (c # cs) os =
     (case ascii_to_hid (of_char c) of
        None \<Rightarrow> (False, hid, os)
      | Some key \<Rightarrow>
          (case tap_text_key hid key os of
             (ok, hid1, os1) \<Rightarrow> if ok then type_ascii_sequence hid1 cs os1 else (False, hid1, os1)))"

definition type_sequences :: "HidState \<Rightarrow> string list \<Rightarrow> HidOs \<Rightarrow> bool \<times> HidState \<times> HidOs" where
  "type_sequences hid sequences os =
     foldl (\<lambda>(ok, hid, os) keys. if ok then type_ascii_sequence hid keys os else (ok, hid, os)) (True, hid, os) sequences"

definition type_codepoint :: "HidState \<Rightarrow> u32 \<Rightarrow> HidOs \<Rightarrow> bool \<times> HidState \<times> HidOs" where
  "type_codepoint hid codepoint os =
     (case (if codepoint \<le> 0x7f then ascii_to_hid (ucast codepoint) else None) of
        Some key \<Rightarrow> tap_text_key hid key os
      | None \<Rightarrow>
          (case codepoint_to_hangul_sequences codepoint of
             Some (lead, vowel, trail) \<Rightarrow> type_sequences hid [lead, vowel, trail] os
           | None \<Rightarrow>
               (case hangul_jamo_sequence codepoint of
                  Some keys \<Rightarrow> type_ascii_sequence hid keys os
                | None \<Rightarrow> (False, hid, os))))"

definition paste_codepoint :: "HidState \<Rightarrow> u32 \<Rightarrow> HidOs \<Rightarrow> bool \<times> HidState \<times> HidOs" where
  "paste_codepoint hid codepoint os =
     (if hid_paste_fd hid < 0 then (False, hid, os)
      else
        let saved = hid_modifiers hid;
            hid1 = hid\<lparr>hid_modifiers := 0x08, hid_usages := (\<lambda>_. False)(0x19 := True), hid_keyboard_paste_codepoint := codepoint\<rparr>
        in case send_keyboard hid1 os of
             (queued, hid2, os2) \<Rightarrow>
               let hid3 = hid2\<lparr>hid_keyboard_paste_codepoint := 0\<rparr> in
               if \<not> queued then (False, hid3, os2)
               else send_keyboard (hid3\<lparr>hid_usages := (hid_usages hid3)(0x19 := False), hid_modifiers := saved\<rparr>) os2)"

definition typed_directly :: "u32 \<Rightarrow> bool" where
  "typed_directly codepoint \<longleftrightarrow>
     codepoint \<le> 0x7f \<or> (0xac00 \<le> codepoint \<and> codepoint \<le> 0xd7a3) \<or> hangul_jamo_sequence codepoint \<noteq> None"

definition enter_codepoint :: "HidState \<Rightarrow> u32 \<Rightarrow> HidOs \<Rightarrow> bool \<times> HidState \<times> HidOs" where
  "enter_codepoint hid codepoint os =
     (if typed_directly codepoint then type_codepoint hid codepoint os else paste_codepoint hid codepoint os)"

lemma utf8_decode_progress: "utf8_decode text offset = Some (codepoint, next) \<Longrightarrow> offset < next"
  using encode_decoded by blast

function type_from :: "HidState \<Rightarrow> byte list \<Rightarrow> nat \<Rightarrow> HidOs \<Rightarrow> bool \<times> HidState \<times> HidOs" where
  "type_from hid text offset os =
     (if length text \<le> offset then (True, hid, os)
      else case utf8_decode text offset of
        None \<Rightarrow> (False, hid, os)
      | Some (codepoint, next) \<Rightarrow>
          (case enter_codepoint hid codepoint os of
             (ok, hid1, os1) \<Rightarrow> if ok then type_from hid1 text next os1 else (False, hid1, os1)))"
  by pat_completeness auto
termination
  by (relation "measure (\<lambda>(hid, text, offset, os). length text - offset)")
     (auto dest!: utf8_decode_progress)

declare type_from.simps [simp del]

definition hid_type_utf8 :: "HidState \<Rightarrow> byte list \<Rightarrow> HidOs \<Rightarrow> bool \<times> HidState \<times> HidOs" where
  "hid_type_utf8 hid text os =
     (if text = [] then (False, hid, os)
      else
        let hid1 = hid\<lparr>hid_keyboard_delay_ms := 20\<rparr>;
            finish = (\<lambda>(ok, hid2, os2).
              let hid3 = hid2\<lparr>hid_keyboard_delay_ms := 0\<rparr> in
              if ok then (True, hid3, os2)
              else case hid_release_all hid3 os2 of (hid4, os4) \<Rightarrow> (False, hid4, os4))
        in case (if length text = 1 \<and> hid_modifiers hid1 \<noteq> 0 then ascii_to_hid (text ! 0) else None) of
             Some shortcut \<Rightarrow> finish (tap_text_key hid1 shortcut os)
           | None \<Rightarrow>
               (case send_keyboard (reset_keyboard_state hid1 False) os of
                  (ok, hid2, os2) \<Rightarrow> finish (if ok then type_from hid2 text 0 os2 else (False, hid2, os2))))"

section \<open>Pointer\<close>

definition hid_keepalive :: "HidState \<Rightarrow> u64 \<Rightarrow> HidOs \<Rightarrow> bool \<times> HidState \<times> HidOs" where
  "hid_keepalive hid now_ms os =
     (if now_ms < hid_keepalive_at hid \<or> hid_pending hid \<or> hid_buttons hid \<noteq> 0 \<or> hid_modifiers hid \<noteq> 0 then (True, hid, os)
      else if keys_down (hid_usages hid) \<noteq> [] then (True, hid, os)
      else
        case send_relative (hid\<lparr>hid_keepalive_at := now_ms + HID_KEEPALIVE_INTERVAL_MS\<rparr>) (hid_keepalive_dx hid) 0 0 os of
          (ok, hid1, os1) \<Rightarrow>
            (ok, if ok then hid1\<lparr>hid_keepalive_dx := to_int8 (- hid_keepalive_dx hid1)\<rparr> else hid1, os1))"

definition any_button_flag :: u16 where
  "any_button_flag =
     PTR_FLAGS_BUTTON1 OR PTR_FLAGS_BUTTON2 OR PTR_FLAGS_BUTTON3 OR PTR_XFLAGS_BUTTON1 OR PTR_XFLAGS_BUTTON2"

definition hid_absolute :: "HidState \<Rightarrow> u16 \<Rightarrow> u16 \<Rightarrow> u32 \<Rightarrow> u32 \<Rightarrow> u16 \<Rightarrow> HidOs \<Rightarrow> bool \<times> HidState \<times> HidOs" where
  "hid_absolute hid x y width height flags os =
     (let previous = hid_buttons hid;
          buttons = hid_pointer_buttons previous flags;
          hid1 = hid\<lparr>hid_buttons := buttons, hid_mouse_buttons := buttons,
                     hid_last_x := hid_scale_absolute x width, hid_last_y := hid_scale_absolute y height\<rparr>;
          motion = (flags AND any_button_flag = 0)
      in case send_absolute hid1 motion os of
           (ok, hid2, os2) \<Rightarrow>
             if \<not> ok then (False, hid2, os2)
             else if (previous XOR hid_buttons hid2) AND HID_MOUSE_BUTTONS_MASK = 0 then (True, hid2, os2)
             else send_relative hid2 0 0 0 os2)"

definition chunk :: "int \<Rightarrow> int" where
  "chunk x = (if 127 < x then 127 else if x < - 127 then - 127 else x)"

lemma chunk_shrinks:
  "x \<noteq> 0 \<or> y \<noteq> 0 \<Longrightarrow> nat \<bar>x - chunk x\<bar> + nat \<bar>y - chunk y\<bar> < nat \<bar>x\<bar> + nat \<bar>y\<bar>"
  by (auto simp: chunk_def)

function relative_loop :: "HidState \<Rightarrow> int \<Rightarrow> int \<Rightarrow> HidOs \<Rightarrow> bool \<times> HidState \<times> HidOs" where
  "relative_loop hid x y os =
     (if x = 0 \<and> y = 0 then (True, hid, os)
      else case send_relative hid (chunk x) (chunk y) 0 os of
        (ok, hid1, os1) \<Rightarrow> if \<not> ok then (False, hid1, os1) else relative_loop hid1 (x - chunk x) (y - chunk y) os1)"
  by pat_completeness auto
termination
  by (relation "measure (\<lambda>(hid, x, y, os). nat \<bar>x\<bar> + nat \<bar>y\<bar>)") (simp, use chunk_shrinks in auto)

declare relative_loop.simps [simp del]

definition hid_relative :: "HidState \<Rightarrow> int \<Rightarrow> int \<Rightarrow> byte \<Rightarrow> HidOs \<Rightarrow> bool \<times> HidState \<times> HidOs" where
  "hid_relative hid x y buttons os =
     (let next = buttons AND HID_TOUCH_BUTTONS_MASK;
          changed = hid_buttons hid XOR next;
          hid1 = hid\<lparr>hid_buttons := next, hid_mouse_buttons := next\<rparr>;
          (sent, hid2, os2) = (if changed AND 0x18 \<noteq> 0 then send_absolute hid1 False os else (True, hid1, os))
      in if \<not> sent then (False, hid2, os2)
         else if x = 0 \<and> y = 0 then
           (if changed AND HID_MOUSE_BUTTONS_MASK = 0 then (True, hid2, os2) else send_relative hid2 0 0 0 os2)
         else relative_loop hid2 x y os2)"

definition hid_wheel :: "HidState \<Rightarrow> u16 \<Rightarrow> HidOs \<Rightarrow> bool \<times> HidState \<times> HidOs" where
  "hid_wheel hid flags os =
     (let vertical = (flags AND PTR_FLAGS_WHEEL \<noteq> 0); horizontal = (flags AND PTR_FLAGS_HWHEEL \<noteq> 0);
          detents = wheel_detents flags
      in if \<not> vertical \<and> \<not> horizontal then (True, hid, os)
         else if horizontal \<and> \<not> vertical then
           (if hid_absolute_report_length hid \<noteq> 7 then (True, hid, os)
            else send_absolute (hid\<lparr>hid_pan_delta := to_int8 detents\<rparr>) False os)
         else send_relative hid 0 0 (to_int8 detents) os)"

end
