(* ===== verification/HidRuns.thy ===== *)
theory HidRuns
  imports Hid
begin

text \<open>
  What the HID operations do to the reports the USB host receives. \<open>stream\<close> is the sequence of reports of
  a queue, delivered ones first; an operation that succeeds appends its reports to it, and nothing
  takes a report away except an explicit release. The properties here are about whole runs: any number
  of operations, with any answers of the devices.
\<close>

section \<open>Updates of the input state\<close>

definition same_device :: "HidState \<Rightarrow> HidState \<Rightarrow> bool" where
  "same_device hid hid' \<longleftrightarrow>
     (\<forall>w. the_queue w hid' = the_queue w hid) \<and> hid_keyboard_path hid' = hid_keyboard_path hid \<and>
     hid_mouse_path hid' = hid_mouse_path hid \<and> hid_touch_path hid' = hid_touch_path hid \<and>
     hid_paste_path hid' = hid_paste_path hid \<and> hid_absolute_report_length hid' = hid_absolute_report_length hid"

lemma all_queues: "(\<forall>w. P w) \<longleftrightarrow> P KeyboardQueue \<and> P PointerQueue"
  using HidQueueId.exhaust by metis

lemma same_device_cong:
  assumes "same_device hid hid'"
  shows "queues_ok hid' = queues_ok hid" "stream w hid' os = stream w hid os" "motions w hid' = motions w hid"
proof -
  have on: "on_queue w' hid' = on_queue w' hid" for w'
    using assms by (cases w') (auto simp: same_device_def fun_eq_iff)
  have wire: "wire hid' = wire hid" using assms by (auto simp: same_device_def wire_def endpoint_path_def fun_eq_iff)
  have report: "report_ok hid' = report_ok hid"
    using assms by (auto simp: same_device_def report_ok_def endpoint_length_def fun_eq_iff)
  show "stream w hid' os = stream w hid os" "motions w hid' = motions w hid"
    using assms unfolding stream_def motions_def on wire by (simp_all add: same_device_def)
  show "queues_ok hid' = queues_ok hid"
    using assms unfolding queues_ok_def queue_ok_def report by (simp add: same_device_def paths_ok_def)
qed

lemma same_device_updates [simp]:
  "same_device hid (hid\<lparr>hid_modifiers := m\<rparr>)" "same_device hid (hid\<lparr>hid_usages := u\<rparr>)"
  "same_device hid (hid\<lparr>hid_modifiers := m, hid_usages := u\<rparr>)"
  "same_device hid (hid\<lparr>hid_keyboard_delay_ms := d\<rparr>)"
  "same_device hid (hid\<lparr>hid_keyboard_paste_codepoint := c\<rparr>)"
  "same_device hid (hid\<lparr>hid_buttons := b, hid_mouse_buttons := b'\<rparr>)"
  "same_device hid (hid\<lparr>hid_keepalive_at := t\<rparr>)" "same_device hid (hid\<lparr>hid_keepalive_dx := i\<rparr>)"
  "same_device hid (hid\<lparr>hid_pan_delta := p\<rparr>)"
  "same_device hid (update_desynced hid)" "same_device hid (reset_keyboard_state hid d')" "same_device hid (clear_deltas hid)"
  "same_device hid (set_key hid usage modifier release)"
  "same_device hid (hid\<lparr>hid_modifiers := m, hid_usages := u, hid_keyboard_paste_codepoint := c\<rparr>)"
  "same_device hid (hid\<lparr>hid_buttons := b, hid_mouse_buttons := b', hid_last_x := x, hid_last_y := y\<rparr>)"
  "same_device hid (hid\<lparr>hid_submitted_state := st, hid_reports_sent := n\<rparr>)"
  unfolding same_device_def all_queues
  by (simp_all add: update_desynced_def reset_keyboard_state_def clear_deltas_def set_key_def)

lemma same_device_trans: "same_device a b \<Longrightarrow> same_device b c \<Longrightarrow> same_device a c"
  by (simp add: same_device_def)

section \<open>Runs of queue operations\<close>

text \<open>
  A report as a producer hands it in: device, bytes, and whether it is motion. A motion report may be
  superseded by a later one of the same device with the same buttons.
\<close>

type_synonym request = "string \<times> byte list \<times> bool"

fun supersedes :: "request \<Rightarrow> request \<Rightarrow> bool" where
  "supersedes (p, d, m) (p', d', m') \<longleftrightarrow> m \<and> m' \<and> p = p' \<and> d ! 0 = d' ! 0"

text \<open>\<open>thinned all kept\<close>: \<open>kept\<close> is \<open>all\<close> without some reports, each of which the next one in \<open>all\<close> supersedes.\<close>

fun thinned :: "request list \<Rightarrow> request list \<Rightarrow> bool" where
  "thinned [] kept = (kept = [])"
| "thinned (r # rs) kept =
     ((kept \<noteq> [] \<and> hd kept = r \<and> thinned rs (tl kept)) \<or> (rs \<noteq> [] \<and> supersedes r (hd rs) \<and> thinned rs kept))"

fun on_wire :: "request \<Rightarrow> string \<times> byte list" where
  "on_wire (p, d, m) = (p, d)"

fun is_motion :: "request \<Rightarrow> bool" where
  "is_motion (p, d, m) = m"

lemma thinned_snoc: "thinned rs kept \<Longrightarrow> thinned (rs @ [r]) (kept @ [r])"
  by (induction rs kept rule: thinned.induct) auto

lemma thinned_empty: "thinned rs kept \<Longrightarrow> (rs = []) = (kept = [])"
  by (induction rs kept rule: thinned.induct) auto

lemma thinned_merge: "thinned rs (kept @ [b]) \<Longrightarrow> supersedes b r \<Longrightarrow> thinned (rs @ [r]) (kept @ [r])"
proof (induction rs arbitrary: kept)
  case (Cons a rs)
  from Cons.prems(1) consider
    (keep) "hd (kept @ [b]) = a" "thinned rs (tl (kept @ [b]))" | (skip) "rs \<noteq> []" "supersedes a (hd rs)" "thinned rs (kept @ [b])"
    by auto
  then show ?case
  proof cases
    case keep
    show ?thesis
    proof (cases kept)
      case Nil
      with keep have "a = b" "rs = []" using thinned_empty [of rs "[]"] by auto
      with Nil Cons.prems(2) show ?thesis by simp
    next
      case (Cons k ks)
      with keep Cons.IH [of ks] Cons.prems(2) show ?thesis by simp
    qed
  next
    case skip
    with Cons.IH [OF skip(3) Cons.prems(2)] show ?thesis by simp
  qed
qed simp

lemma thinned_stable: "thinned rs kept \<Longrightarrow> filter (\<lambda>r. \<not> is_motion r) rs = filter (\<lambda>r. \<not> is_motion r) kept"
proof (induction rs kept rule: thinned.induct)
  case (2 r rs kept)
  then show ?case by (cases r; cases "hd rs"; cases kept) auto
qed simp

datatype queue_op =
    Enqueue HidQueueId string "byte list" bool u16
  | WriteNow "byte list"
  | Pump HidQueueId

text \<open>The run remembers, per queue, the reports that were not rejected for lack of room.\<close>

type_synonym run_state = "HidState \<times> HidOs \<times> (HidQueueId \<Rightarrow> request list)"

fun queue_step :: "run_state \<Rightarrow> queue_op \<Rightarrow> run_state" where
  "queue_step (hid, os, taken) (Enqueue w path data motion delay_ms) =
     (case queue_report w hid path data motion delay_ms os of
        (ok, hid1, os1) \<Rightarrow>
          (hid1, os1, if hid_queue_overflows hid1 = hid_queue_overflows hid
                      then taken(w := taken w @ [(path, data, motion)]) else taken))"
| "queue_step (hid, os, taken) (WriteNow data) =
     (case write_absolute_now hid data os of
        (ok, hid1, os1) \<Rightarrow>
          (hid1, os1, if ok then taken(PointerQueue := taken PointerQueue @ [(hid_touch_path hid, data, True)]) else taken))"
| "queue_step (hid, os, taken) (Pump w) =
     (case flush_reports w hid os of (ok, hid1, os1) \<Rightarrow> (hid1, os1, taken))"

text \<open>The producers hand in reports of the length of the device, on the queue of the device.\<close>

fun op_ok :: "HidState \<Rightarrow> queue_op \<Rightarrow> bool" where
  "op_ok hid (Enqueue w path data motion delay_ms) \<longleftrightarrow>
     on_queue w hid path \<and> length data = endpoint_length hid (path_endpoint hid path)"
| "op_ok hid (WriteNow data) \<longleftrightarrow> length data = hid_absolute_report_length hid"
| "op_ok hid (Pump w) \<longleftrightarrow> True"

definition accounted :: "run_state \<Rightarrow> HidQueueId \<Rightarrow> bool" where
  "accounted s w \<longleftrightarrow>
     (case s of (hid, os, taken) \<Rightarrow>
        \<exists>kept k. thinned (taken w) kept \<and> map on_wire kept = stream w hid os \<and> motions w hid = drop k (map is_motion kept))"

lemma accounted_append:
  assumes "accounted (hid, os, taken) w" and "stream w hid' os' = stream w hid os @ [(path, data)]"
    and "motions w hid' = drop k (motions w hid @ [motion])"
  shows "accounted (hid', os', taken(w := taken w @ [(path, data, motion)])) w"
proof -
  obtain kept j where kept: "thinned (taken w) kept" "map on_wire kept = stream w hid os" "motions w hid = drop j (map is_motion kept)"
    using assms(1) by (auto simp: accounted_def)
  have "\<exists>n. motions w hid' = drop n (map is_motion (kept @ [(path, data, motion)]))"
    using drop_snoc [of k j "map is_motion kept" motion] assms(3) kept(3) by simp
  then show ?thesis
    using thinned_snoc [OF kept(1)] kept(2) assms(2) unfolding accounted_def by fastforce
qed

lemma accounted_merge:
  assumes "accounted (hid, os, taken) w" and m: "merged w hid os path data hid' os'"
    and "motions w hid' = drop k (motions w hid)"
  shows "accounted (hid', os', taken(w := taken w @ [(path, data, True)])) w"
proof -
  obtain kept j where kept: "thinned (taken w) kept" "map on_wire kept = stream w hid os" "motions w hid = drop j (map is_motion kept)"
    using assms(1) by (auto simp: accounted_def)
  obtain front old where old: "stream w hid os = front @ [(path, old)]" "old ! 0 = data ! 0" "stream w hid' os' = front @ [(path, data)]"
    using m by (auto simp: merged_def)
  have "kept \<noteq> []" using kept(2) old(1) by auto
  then obtain before b where kept_split: "kept = before @ [b]" by (cases kept rule: rev_cases) auto
  with kept(2) old(1) have split: "kept = before @ [b]" "on_wire b = (path, old)" "map on_wire before = front" by simp_all
  have some: "motions w hid \<noteq> []" and last: "last (motions w hid)"
    using m by (auto simp: merged_def motions_def last_map simp flip: pending_empty)
  have "j < length (map is_motion kept)" using some kept(3) by auto
  then have "last (motions w hid) = is_motion b" using kept(3) split(1) by (simp add: last_drop)
  with last have flag: "is_motion b" by simp
  then have b: "b = (path, old, True)" using split(2) by (cases b) simp
  have "supersedes b (path, data, True)" using b old(2) by simp
  then have thin: "thinned (taken w @ [(path, data, True)]) (before @ [(path, data, True)])"
    using thinned_merge kept(1) split(1) by blast
  have "map is_motion (before @ [(path, data, True)]) = map is_motion kept" using split(1) b by simp
  then have "\<exists>n. motions w hid' = drop n (map is_motion (before @ [(path, data, True)]))"
    using assms(3) kept(3) by auto
  then show ?thesis using thin split(3) old(3) unfolding accounted_def by fastforce
qed

lemma accounted_drop:
  assumes "accounted (hid, os, taken) w" and "stream w hid' os' = stream w hid os" and "motions w hid' = drop k (motions w hid)"
  shows "accounted (hid', os', taken) w"
  using assms unfolding accounted_def by (force simp: add.commute)

lemma accounted_other: "taken' w = taken w \<Longrightarrow> accounted (hid, os, taken') w = accounted (hid, os, taken) w"
  by (simp add: accounted_def)

text \<open>What a run keeps: the queues are well formed, the devices are the same, every report is accounted for.\<close>

definition run_ok :: "HidState \<Rightarrow> run_state \<Rightarrow> bool" where
  "run_ok base s \<longleftrightarrow>
     (case s of (hid, os, taken) \<Rightarrow> queues_ok hid \<and> input_state hid = input_state base) \<and> (\<forall>w. accounted s w)"

lemma op_ok_cong:
  assumes "input_state hid = input_state base"
  shows "op_ok hid e = op_ok base e"
  using input_state_paths [OF assms] on_queue_cong [OF assms]
  by (cases e) (simp_all add: endpoint_length_def path_endpoint_def)

lemma enqueue_ok:
  assumes ok: "run_ok base (hid, os, taken)" and op: "op_ok hid (Enqueue w path data motion delay_ms)"
  shows "run_ok base (queue_step (hid, os, taken) (Enqueue w path data motion delay_ms))"
proof -
  obtain accepted hid' os' where run: "queue_report w hid path data motion delay_ms os = (accepted, hid', os')"
    by (metis prod_cases3)
  have acc: "accounted (hid, os, taken) v" for v using ok by (simp add: run_ok_def)
  have pre: "queues_ok hid" "on_queue w hid path" "length data = endpoint_length hid (path_endpoint hid path)"
    using ok op by (simp_all add: run_ok_def)
  note out = queue_report_outcome [OF pre run]
  let ?taken = "if hid_queue_overflows hid' = hid_queue_overflows hid
    then taken(w := taken w @ [(path, data, motion)]) else taken"
  have others: "accounted (hid', os', ?taken) v" if "v \<noteq> w" for v
    using acc [of v] out that by (simp add: accounted_def)
  have own: "accounted (hid', os', ?taken) w"
  proof (cases "hid_queue_overflows hid' = hid_queue_overflows hid")
    case True
    with out consider
      (append) k where "appended w hid os path data hid' os'" "motions w hid' = drop k (motions w hid @ [motion])" |
      (merge) k where motion "merged w hid os path data hid' os'" "motions w hid' = drop k (motions w hid)" by auto
    then show ?thesis
    proof cases
      case append
      then show ?thesis using True accounted_append [OF acc] by (simp add: appended_def)
    next
      case merge
      then show ?thesis using True accounted_merge [OF acc] by simp
    qed
  next
    case False
    with out show ?thesis using accounted_drop [OF acc] by auto
  qed
  have "accounted (hid', os', ?taken) v" for v using own others by (cases "v = w") blast+
  moreover have "queues_ok hid'" "input_state hid' = input_state base" using out ok by (simp_all add: run_ok_def)
  ultimately show ?thesis using run by (simp add: run_ok_def)
qed

lemma pump_ok:
  assumes ok: "run_ok base (hid, os, taken)"
  shows "run_ok base (queue_step (hid, os, taken) (Pump w))"
proof -
  obtain accepted hid' os' where run: "flush_reports w hid os = (accepted, hid', os')" by (metis prod_cases3)
  have acc: "accounted (hid, os, taken) v" for v using ok by (simp add: run_ok_def)
  from flush_reports_pumped [OF run] ok
  have out: "queues_ok hid'" "input_state hid' = input_state hid" "\<And>v. stream v hid' os' = stream v hid os"
    "\<exists>k. motions w hid' = drop k (motions w hid)" "\<And>v. v \<noteq> w \<Longrightarrow> the_queue v hid' = the_queue v hid"
    by (simp_all add: pumped_def run_ok_def)
  have "\<exists>k. motions v hid' = drop k (motions v hid)" for v
    using out(4) out(5) [of v] by (cases "v = w") (auto simp: motions_def intro: exI [of _ 0])
  then have "accounted (hid', os', taken) v" for v using accounted_drop [OF acc out(3)] by blast
  then show ?thesis using out(1,2) ok run by (simp add: run_ok_def)
qed

lemma sys_write_log: "os_log (snd (sys_write path report os)) =
    (if fst (sys_write path report os) = Some (length report) then os_log os @ [(path, report)] else os_log os)"
  by (auto simp: sys_write_def Let_def split: list.splits hid_write.splits)

lemma write_now_ok:
  assumes ok: "run_ok base (hid, os, taken)"
  shows "run_ok base (queue_step (hid, os, taken) (WriteNow data))"
proof -
  have acc: "accounted (hid, os, taken) v" for v using ok by (simp add: run_ok_def)
  obtain wrote os' where sys: "sys_write (hid_touch_path hid) data os = (wrote, os')" by (rule prod.exhaust)
  let ?now = "\<not> pointer_queue_busy hid \<and> q_inflight_endpoint (hid_pointer_queue hid) = 0 \<and> 0 \<le> hid_touch_fd hid"
  let ?hid' = "hid\<lparr>hid_submitted_state := (hid_submitted_state hid)[2 := data ! 0], hid_reports_sent := hid_reports_sent hid + 1\<rparr>"
  have dev: "same_device hid ?hid'" by simp
  note same = same_device_cong [OF dev]
  have log: "os_log os' = (if wrote = Some (length data) then os_log os @ [(hid_touch_path hid, data)] else os_log os)"
    using sys_write_log [of "hid_touch_path hid" data os] sys by simp
  consider (no) "\<not> ?now" | (failed) "?now" "wrote \<noteq> Some (length data)" | (written) "?now" "wrote = Some (length data)" by blast
  then show ?thesis
  proof cases
    case no
    then have "write_absolute_now hid data os = (False, hid, os)" by (auto simp: write_absolute_now_def)
    with ok show ?thesis by simp
  next
    case failed
    then have "write_absolute_now hid data os = (False, hid, os')" using sys by (simp add: write_absolute_now_def)
    moreover have "accounted (hid, os', taken) v" for v using acc [of v] log failed(2) by (simp add: accounted_def stream_def)
    ultimately show ?thesis using ok by (simp add: run_ok_def)
  next
    case written
    then have now: "write_absolute_now hid data os = (True, ?hid', os')" using sys by (simp add: write_absolute_now_def)
    have idle: "pending (the_queue PointerQueue hid) = []" using written(1) by (simp add: pointer_queue_busy_def)
    have paths: "paths_ok hid" using ok by (simp add: run_ok_def queues_ok_def)
    let ?taken = "taken(PointerQueue := taken PointerQueue @ [(hid_touch_path hid, data, True)])"
    have "accounted (?hid', os', ?taken) PointerQueue"
    proof (rule accounted_append [where k = "Suc (length (motions PointerQueue hid))", OF acc])
      show "stream PointerQueue ?hid' os' = stream PointerQueue hid os @ [(hid_touch_path hid, data)]"
        unfolding same using idle log written(2) by (simp add: stream_def del: pending_empty)
      show "motions PointerQueue ?hid' = drop (Suc (length (motions PointerQueue hid))) (motions PointerQueue hid @ [True])"
        unfolding same using idle by (simp add: motions_def del: pending_empty)
    qed
    moreover have "accounted (?hid', os', ?taken) KeyboardQueue"
    proof (rule accounted_drop [where k = 0])
      show "accounted (hid, os, ?taken) KeyboardQueue" using acc [of KeyboardQueue] by (simp add: accounted_def)
      show "stream KeyboardQueue ?hid' os' = stream KeyboardQueue hid os"
        unfolding same using log written(2) paths by (auto simp: stream_def paths_ok_def)
      show "motions KeyboardQueue ?hid' = drop 0 (motions KeyboardQueue hid)" unfolding same by simp
    qed
    moreover have "queues_ok ?hid'" "input_state ?hid' = input_state base" using ok same by (simp_all add: run_ok_def input_state_def)
    ultimately show ?thesis using now by (simp add: run_ok_def all_queues)
  qed
qed

lemma queue_step_ok: "run_ok base s \<Longrightarrow> op_ok base e \<Longrightarrow> run_ok base (queue_step s e)"
proof -
  assume ok: "run_ok base s" and op: "op_ok base e"
  obtain hid os taken where s: "s = (hid, os, taken)" by (metis prod_cases3)
  have op': "op_ok hid e" using ok op s op_ok_cong [of hid base e] by (simp add: run_ok_def)
  show ?thesis using ok op' enqueue_ok pump_ok write_now_ok unfolding s by (cases e) blast+
qed

lemma queue_run_ok: "run_ok base s \<Longrightarrow> list_all (op_ok base) es \<Longrightarrow> run_ok base (foldl queue_step s es)"
  by (induction es arbitrary: s) (simp_all add: queue_step_ok)

section \<open>What an operation adds to the streams\<close>

definition same_paths :: "HidState \<Rightarrow> HidState \<Rightarrow> bool" where
  "same_paths hid hid' \<longleftrightarrow>
     hid_keyboard_path hid' = hid_keyboard_path hid \<and> hid_mouse_path hid' = hid_mouse_path hid \<and>
     hid_touch_path hid' = hid_touch_path hid \<and> hid_paste_path hid' = hid_paste_path hid \<and>
     hid_absolute_report_length hid' = hid_absolute_report_length hid"

lemma same_device_paths: "same_device hid hid' \<Longrightarrow> same_paths hid hid'"
  by (simp add: same_device_def same_paths_def)

lemma input_same_paths: "input_state hid' = input_state hid \<Longrightarrow> same_paths hid hid'"
  by (drule input_state_paths) (simp add: same_paths_def)

text \<open>\<open>emitted w rs\<close>: the stream of queue \<open>w\<close> grew by \<open>rs\<close>, the other one is unchanged.\<close>

definition emitted ::
  "HidQueueId \<Rightarrow> (string \<times> byte list) list \<Rightarrow> HidState \<Rightarrow> HidOs \<Rightarrow> HidState \<Rightarrow> HidOs \<Rightarrow> bool" where
  "emitted w reports hid os hid' os' \<longleftrightarrow>
     queues_ok hid' \<and> same_paths hid hid' \<and> stream w hid' os' = stream w hid os @ reports \<and>
     (\<forall>w'. w' \<noteq> w \<longrightarrow> stream w' hid' os' = stream w' hid os)"

lemma emitted_trans:
  "emitted w rs hid os hid1 os1 \<Longrightarrow> emitted w rs' hid1 os1 hid2 os2 \<Longrightarrow> emitted w (rs @ rs') hid os hid2 os2"
  by (simp add: emitted_def same_paths_def)

lemma emitted_device:
  assumes "same_device hid hid'" and "queues_ok hid"
  shows "emitted w [] hid os hid' os"
  using same_device_cong [OF assms(1)] same_device_paths [OF assms(1)] assms(2) by (simp add: emitted_def)

lemma emitted_after: "emitted w rs hid os hid1 os1 \<Longrightarrow> same_device hid1 hid2 \<Longrightarrow> emitted w rs hid os hid2 os1"
  using emitted_trans [of w rs hid os hid1 os1 "[]"] emitted_device by (fastforce simp: emitted_def)

lemma emitted_before:
  assumes "same_device hid hid1" and "emitted w rs hid1 os hid2 os2"
  shows "emitted w rs hid os hid2 os2"
  using same_device_cong [OF assms(1)] same_device_paths [OF assms(1)] assms(2) by (simp add: emitted_def same_paths_def)

lemma emitted_ok: "emitted w rs hid os hid' os' \<Longrightarrow> queues_ok hid'"
  by (simp add: emitted_def)

lemma report_emitted:
  assumes "queues_ok hid" and "on_queue w hid path" and "length data = endpoint_length hid (path_endpoint hid path)"
    and "queue_report w hid path data False delay_ms os = (ok, hid', os')"
  shows "input_state hid' = input_state hid"
    and "emitted w (if hid_queue_overflows hid' = hid_queue_overflows hid then [(path, data)] else []) hid os hid' os'"
    and "ok \<Longrightarrow> hid_queue_overflows hid' = hid_queue_overflows hid"
  using queue_report_outcome [OF assms] input_same_paths [of hid' hid]
  by (auto simp: emitted_def appended_def split: if_splits)

text \<open>A queue with room takes the report.\<close>

lemma queue_report_room:
  assumes "q_count (the_queue w hid) < HID_REPORT_QUEUE_CAPACITY" and "queue_report w hid path data motion delay_ms os = (ok, hid', os')"
  shows "hid_queue_overflows hid' = hid_queue_overflows hid"
proof -
  obtain now os1 where clock: "hid_now os = (now, os1)" by (rule prod.exhaust)
  have "\<exists>q os1. flush_reports w (set_queue w q hid) os1 = (ok, hid', os')"
    using assms clock by (auto simp: queue_report_def Let_def split: if_splits)
  then show ?thesis by (auto dest!: flush_reports_pumped simp: pumped_def)
qed

subsection \<open>Keyboard reports\<close>

lemma length_keyboard_report [simp]: "length (keyboard_report hid) = 8"
  by (simp add: keyboard_report_def Let_def)

lemma keyboard_path_on: "on_queue KeyboardQueue hid (hid_keyboard_path hid)"
  "endpoint_length hid (path_endpoint hid (hid_keyboard_path hid)) = 8"
  by (simp_all add: endpoint_length_def path_endpoint_def)

definition keyboard_entry :: "HidState \<Rightarrow> string \<times> byte list" where
  "keyboard_entry hid = (hid_keyboard_path hid, keyboard_report hid)"

lemma input_state_desynced [simp]: "input_state (update_desynced hid) = input_state hid"
  by (simp add: update_desynced_def input_state_def)

lemma send_keyboard_emitted:
  assumes "queues_ok hid" and "send_keyboard hid os = (ok, hid', os')"
  shows "input_state hid' = input_state hid"
    and "emitted KeyboardQueue (if hid_queue_overflows hid' = hid_queue_overflows hid then [keyboard_entry hid] else []) hid os hid' os'"
    and "ok \<Longrightarrow> hid_queue_overflows hid' = hid_queue_overflows hid"
proof -
  obtain hid1 where run: "queue_report KeyboardQueue hid (hid_keyboard_path hid) (keyboard_report hid) False
      (hid_keyboard_delay_ms hid) os = (ok, hid1, os')" and hid': "hid' = update_desynced hid1"
    using assms(2) by (auto simp: send_keyboard_def split: prod.splits)
  note sent = report_emitted [OF assms(1) keyboard_path_on(1) _ run]
  have count: "hid_queue_overflows hid' = hid_queue_overflows hid1" by (simp add: hid' update_desynced_def)
  show "input_state hid' = input_state hid" using sent(1) by (simp add: hid' keyboard_path_on(2))
  show "ok \<Longrightarrow> hid_queue_overflows hid' = hid_queue_overflows hid" using sent(3) count by (simp add: keyboard_path_on(2))
  show "emitted KeyboardQueue (if hid_queue_overflows hid' = hid_queue_overflows hid then [keyboard_entry hid] else []) hid os hid' os'"
    unfolding count keyboard_entry_def unfolding hid'
    by (rule emitted_after [OF sent(2)]) (simp_all add: keyboard_path_on(2))
qed

lemma send_keyboard_ok:
  assumes "queues_ok hid" and "send_keyboard hid os = (True, hid', os')"
  shows "input_state hid' = input_state hid" "emitted KeyboardQueue [keyboard_entry hid] hid os hid' os'"
  using send_keyboard_emitted [OF assms] by simp_all

subsection \<open>Pointer reports\<close>

lemma length_absolute_report [simp]: "paths_ok hid \<Longrightarrow> length (absolute_report hid) = hid_absolute_report_length hid"
  by (auto simp: absolute_report_def write_touch_position_def Let_def paths_ok_def)

lemma mouse_path_on:
  "paths_ok hid \<Longrightarrow> on_queue PointerQueue hid (hid_mouse_path hid)"
  "paths_ok hid \<Longrightarrow> endpoint_length hid (path_endpoint hid (hid_mouse_path hid)) = 4"
  by (auto simp: endpoint_length_def path_endpoint_def paths_ok_def)

lemma touch_path_on:
  "paths_ok hid \<Longrightarrow> on_queue PointerQueue hid (hid_touch_path hid)"
  "paths_ok hid \<Longrightarrow> endpoint_length hid (path_endpoint hid (hid_touch_path hid)) = hid_absolute_report_length hid"
  by (auto simp: endpoint_length_def path_endpoint_def paths_ok_def)

lemma queues_paths: "queues_ok hid \<Longrightarrow> paths_ok hid"
  by (simp add: queues_ok_def)

lemma mouse_report_emitted:
  assumes "queues_ok hid" and "length data = 4" and "queue_report PointerQueue hid (hid_mouse_path hid) data False 0 os = (ok, hid', os')"
  shows "input_state hid' = input_state hid"
    and "emitted PointerQueue (if hid_queue_overflows hid' = hid_queue_overflows hid then [(hid_mouse_path hid, data)] else []) hid os hid' os'"
    and "ok \<Longrightarrow> hid_queue_overflows hid' = hid_queue_overflows hid"
  using report_emitted [OF assms(1) mouse_path_on(1) _ assms(3)] assms(1,2) by (auto simp: mouse_path_on queues_paths)

lemma send_relative_ok:
  assumes "queues_ok hid" and "send_relative hid dx dy wheel os = (True, hid', os')"
  shows "input_state hid' = input_state hid" "emitted PointerQueue [(hid_mouse_path hid, relative_report hid dx dy wheel)] hid os hid' os'"
  using mouse_report_emitted [OF assms(1) _ assms(2) [unfolded send_relative_def]] by (simp_all add: relative_report_def)

lemma send_absolute_emitted:
  assumes "queues_ok hid" and "send_absolute hid False os = (ok, hid', os')"
  shows "input_state hid' = input_state (clear_deltas hid)"
    and "emitted PointerQueue (if hid_queue_overflows hid' = hid_queue_overflows hid then [(hid_touch_path hid, absolute_report hid)] else [])
           hid os hid' os'"
    and "ok \<Longrightarrow> hid_queue_overflows hid' = hid_queue_overflows hid"
proof -
  obtain hid1 where run: "queue_report PointerQueue hid (hid_touch_path hid) (absolute_report hid) False 0 os = (ok, hid1, os')"
    and hid': "hid' = clear_deltas hid1"
    using assms(2) by (auto simp: send_absolute_def Let_def split: prod.splits)
  have paths: "paths_ok hid" using assms(1) by (rule queues_paths)
  note sent = report_emitted [OF assms(1) touch_path_on(1) [OF paths] _ run]
  have len: "length (absolute_report hid) = endpoint_length hid (path_endpoint hid (hid_touch_path hid))"
    using paths by (simp add: touch_path_on)
  have count: "hid_queue_overflows hid' = hid_queue_overflows hid1" by (simp add: hid' clear_deltas_def)
  show "input_state hid' = input_state (clear_deltas hid)"
    using sent(1) [OF len] by (simp add: hid' clear_deltas_def input_state_def)
  show "ok \<Longrightarrow> hid_queue_overflows hid' = hid_queue_overflows hid" using sent(3) [OF len] count by simp
  show "emitted PointerQueue (if hid_queue_overflows hid' = hid_queue_overflows hid then [(hid_touch_path hid, absolute_report hid)] else [])
           hid os hid' os'"
    unfolding count unfolding hid' by (rule emitted_after [OF sent(2) [OF len]]) simp
qed

section \<open>The initial state\<close>

lemma absolute_length: "absolute_report_length configured descriptor path = 6 \<or> absolute_report_length configured descriptor path = 7"
  by (auto simp: absolute_report_length_def Let_def split: option.splits)

lemma empty_queue_ok: "queue_ok hid w empty_queue" "pending empty_queue = []"
  by (simp_all add: queue_ok_def ring_ok_def empty_queue_def pending_def HID_REPORT_QUEUE_CAPACITY_def)

lemma hid_init_fields:
  assumes "hid_init (Some keyboard) (Some mouse) (Some touch) configured descriptor os = (hid, os')"
  shows "\<forall>w. the_queue w hid = empty_queue" and "hid_keyboard_path hid = take 127 keyboard" "hid_mouse_path hid = take 127 mouse"
    "hid_touch_path hid = take 127 touch" "hid_paste_path hid = take 159 (take 127 keyboard @ ''.paste'')"
    "hid_absolute_report_length hid = absolute_report_length configured descriptor (take 127 touch)"
    "hid_modifiers hid = 0" "hid_usages hid = (\<lambda>_. False)" "hid_buttons hid = 0"
  using assms unfolding all_queues by (auto simp: hid_init_def Let_def PATH_SIZE_def PASTE_PATH_SIZE_def split: prod.splits)

lemma hid_init_ok:
  assumes "hid_init (Some keyboard) (Some mouse) (Some touch) configured descriptor os = (hid, os')"
    and "distinct [take 127 keyboard, take 127 mouse, take 127 touch, take 159 (take 127 keyboard @ ''.paste'')]"
  shows "queues_ok hid"
  using hid_init_fields [OF assms(1)] assms(2) absolute_length by (simp add: queues_ok_def paths_ok_def empty_queue_ok)

text \<open>The devices of the appliance, all of which open.\<close>

definition sample_os :: HidOs where
  "sample_os = \<lparr>os_clock = [], os_now = 5000, os_opens = [Opened 3 True True, Opened 4 True True, Opened 5 True True,
     Opened 6 True True, Opened 7 True True], os_polls = [], os_writes = [], os_reads = [], os_errno = EAGAIN, os_closed = [], os_log = []\<rparr>"

definition sample_hid :: HidState where
  "sample_hid = fst (hid_init (Some ''/dev/hidg0'') (Some ''/dev/hidg1'') (Some ''/dev/hidg2'') None None sample_os)"

lemma sample_fields:
  "hid_keyboard_path sample_hid = ''/dev/hidg0''" "hid_mouse_path sample_hid = ''/dev/hidg1''" "hid_touch_path sample_hid = ''/dev/hidg2''"
  "hid_modifiers sample_hid = 0" "hid_usages sample_hid = (\<lambda>_. False)" "hid_buttons sample_hid = 0" "the_queue w sample_hid = empty_queue"
  "hid_absolute_report_length sample_hid = 6" "queues_ok sample_hid"
proof -
  obtain os' where run: "hid_init (Some ''/dev/hidg0'') (Some ''/dev/hidg1'') (Some ''/dev/hidg2'') None None sample_os = (sample_hid, os')"
    unfolding sample_hid_def by (metis prod.collapse)
  note f = hid_init_fields [OF run]
  show "hid_keyboard_path sample_hid = ''/dev/hidg0''" "hid_mouse_path sample_hid = ''/dev/hidg1''" "hid_touch_path sample_hid = ''/dev/hidg2''"
    "hid_modifiers sample_hid = 0" "hid_usages sample_hid = (\<lambda>_. False)" "hid_buttons sample_hid = 0" "the_queue w sample_hid = empty_queue"
    "hid_absolute_report_length sample_hid = 6"
    using f by (simp_all add: absolute_report_length_def)
  show "queues_ok sample_hid" by (rule hid_init_ok [OF run]) simp
qed

lemma sample_stream: "os_log os = [] \<Longrightarrow> stream w sample_hid os = []"
  by (simp add: stream_def sample_fields(7) empty_queue_ok)

section \<open>Properties\<close>

text \<open>
  C16: No report is lost, invented, duplicated or reordered. In any run of producers and pumps over both
  queues, with any behaviour of the devices and of the clock (interrupted, refused, short or failing
  writes, errors of poll, stalls, full queues), the reports of a queue, those its devices took followed
  by those still waiting, are the reports accepted for that queue in order, except that a motion
  report may have been replaced by a directly following motion report of the same device with the same
  buttons. In particular the reports that are not motion (keys, clicks, wheel) are there exactly once.
\<close>

theorem hid_reports_accounted:
  assumes "queues_ok hid" and "\<forall>w. q_count (the_queue w hid) = 0" and "os_log os = []"
    and "list_all (op_ok hid) es" and "foldl queue_step (hid, os, \<lambda>_. []) es = (hid', os', taken)"
  shows "\<exists>kept. thinned (taken w) kept \<and> map on_wire kept = stream w hid' os' \<and>
     filter (\<lambda>r. \<not> is_motion r) kept = filter (\<lambda>r. \<not> is_motion r) (taken w)"
proof -
  have "accounted (hid, os, \<lambda>_. []) v" for v
    using assms(2,3) by (auto simp: accounted_def stream_def motions_def pending_def)
  then have "run_ok hid (hid, os, \<lambda>_. [])" using assms(1) by (simp add: run_ok_def)
  from queue_run_ok [OF this assms(4)] assms(5) have "accounted (hid', os', taken) w" by (simp add: run_ok_def)
  then show ?thesis using thinned_stable by (fastforce simp: accounted_def)
qed

definition sample_ops :: "queue_op list" where
  "sample_ops =
     [Enqueue PointerQueue ''/dev/hidg2'' [0, 1, 0, 1, 0, 0] True 0, Enqueue PointerQueue ''/dev/hidg2'' [0, 2, 0, 2, 0, 0] True 0,
      Enqueue PointerQueue ''/dev/hidg1'' [1, 0, 0, 0] False 0, Pump PointerQueue]"

theorem hid_reports_accounted_witness:
  "case foldl queue_step (sample_hid, sample_os\<lparr>os_writes := [Refused EAGAIN, Refused EAGAIN]\<rparr>, \<lambda>_. []) sample_ops of
     (hid, os, taken) \<Rightarrow>
       map fst (taken PointerQueue) = [''/dev/hidg2'', ''/dev/hidg2'', ''/dev/hidg1''] \<and>
       (\<exists>kept. thinned (taken PointerQueue) kept \<and> map on_wire kept = stream PointerQueue hid os \<and>
          filter (\<lambda>r. \<not> is_motion r) kept = filter (\<lambda>r. \<not> is_motion r) (taken PointerQueue))"
proof -
  let ?os = "sample_os\<lparr>os_writes := [Refused EAGAIN, Refused EAGAIN]\<rparr>"
  obtain hid os taken where run: "foldl queue_step (sample_hid, ?os, \<lambda>_. []) sample_ops = (hid, os, taken)" by (metis prod_cases3)
  have ops: "list_all (op_ok sample_hid) sample_ops"
    by (simp add: sample_ops_def sample_fields endpoint_length_def path_endpoint_def)
  have "map fst ((snd (snd (foldl queue_step (sample_hid, ?os, \<lambda>_. []) sample_ops))) PointerQueue) = [''/dev/hidg2'', ''/dev/hidg2'', ''/dev/hidg1'']"
    by code_simp
  with hid_reports_accounted [OF sample_fields(9) _ _ ops run, of PointerQueue] run show ?thesis
    by (simp add: sample_fields empty_queue_def sample_os_def)
qed

end
