(* ===== verification/HidLiveness.thy ===== *)
theory HidLiveness
  imports HidRuns
begin

text \<open>
  Progress of the pump. A queue whose devices are open and take reports is emptied: a pump at a time the
  delays allow takes off at least one report, so as many pumps as there are reports deliver all of them.
\<close>

section \<open>A working device\<close>

definition healthy :: "HidQueueId \<Rightarrow> HidState \<Rightarrow> HidOs \<Rightarrow> bool" where
  "healthy w hid os \<longleftrightarrow>
     queues_ok hid \<and> 0 \<le> hid_keyboard_fd hid \<and> 0 \<le> hid_mouse_fd hid \<and> 0 \<le> hid_touch_fd hid \<and>
     os_polls os = [] \<and> os_writes os = [] \<and> os_clock os = [] \<and> q_blocked_at (the_queue w hid) = 0 \<and>
     list_all (\<lambda>r. rep_paste_codepoint r = 0) (pending (the_queue w hid))"

lemma no_update [simp]: "os_writes os = [] \<Longrightarrow> os\<lparr>os_writes := []\<rparr> = os"
  by (cases os) simp

lemma working_poll: "os_polls os = [] \<Longrightarrow> sys_poll os = (PollEvents False, os)"
  by (simp add: sys_poll_def)

lemma working_write:
  assumes "os_writes os = []"
  shows "write_retrying path data os = (Some (length data), os\<lparr>os_log := os_log os @ [(path, data)]\<rparr>)"
  using assms by (simp add: write_retrying.simps sys_write_def Let_def)

lemma working_slot:
  assumes "healthy w hid os"
  obtains s where "hid_fd_slot hid (endpoint_path hid e) = Some s" and "0 \<le> slot_fd s hid"
proof -
  have paths: "distinct [hid_keyboard_path hid, hid_mouse_path hid, hid_touch_path hid]"
    using assms by (simp add: healthy_def queues_ok_def paths_ok_def)
  have fds: "0 \<le> hid_keyboard_fd hid" "0 \<le> hid_mouse_fd hid" "0 \<le> hid_touch_fd hid"
    using assms by (simp_all add: healthy_def)
  consider "e = 1" | "e = 2" | "e \<noteq> 1" "e \<noteq> 2" by blast
  then show thesis
  proof cases
    case 1
    with fds show thesis by (intro that [of KeyboardSlot]) (simp_all add: hid_fd_slot_def endpoint_path_def)
  next
    case 2
    with fds paths show thesis by (intro that [of MouseSlot]) (auto simp: hid_fd_slot_def endpoint_path_def)
  next
    case 3
    with fds paths show thesis by (intro that [of TouchSlot]) (auto simp: hid_fd_slot_def endpoint_path_def)
  qed
qed

lemma working_report:
  assumes "healthy w hid os"
  shows "write_hid_report hid (endpoint_path hid e) data os = (True, hid, os\<lparr>os_log := os_log os @ [(endpoint_path hid e, data)]\<rparr>)"
proof -
  obtain s where s: "hid_fd_slot hid (endpoint_path hid e) = Some s" "0 \<le> slot_fd s hid" using working_slot [OF assms] by blast
  have "os_polls os = []" "os_writes os = []" using assms by (simp_all add: healthy_def)
  then show ?thesis using s
    by (simp add: write_hid_report_def hid_fd_def working_poll write_open_report_def working_write Let_def)
qed

lemma working_await:
  assumes "healthy w hid os"
  obtains q where "await_previous w now hid os = (None, set_queue w q hid, os)" and "q_blocked_at q = 0"
    and "pending q = pending (the_queue w hid)" and "q_count q = q_count (the_queue w hid)"
    and "ring_ok q" and "head_report q = head_report (the_queue w hid)" and "q_ready_at q = q_ready_at (the_queue w hid)"
proof -
  let ?q = "the_queue w hid"
  have same: "set_queue w ?q hid = hid" by (cases w) simp_all
  have fd: "0 \<le> endpoint_fd hid e" for e using assms by (simp add: healthy_def endpoint_fd_def)
  have h: "q_blocked_at ?q = 0" "ring_ok ?q" "os_polls os = []" using assms by (simp_all add: healthy_def queues_ok_def queue_ok_def)
  show thesis
  proof (cases "q_inflight_endpoint ?q = 0 \<or> q_inflight_endpoint ?q = rep_endpoint (head_report ?q)")
    case True
    then have "await_previous w now hid os = (None, set_queue w ?q hid, os)" by (simp add: await_previous_def Let_def same)
    with that [of ?q] h show thesis by simp
  next
    case False
    then have "await_previous w now hid os = (None, set_queue w (?q\<lparr>q_inflight_endpoint := 0\<rparr>) hid, os)"
      using fd [of "q_inflight_endpoint ?q"] h(3) by (simp add: await_previous_def Let_def working_poll)
    with that [of "?q\<lparr>q_inflight_endpoint := 0\<rparr>"] h show thesis by (simp add: head_report_def ring_ok_def)
  qed
qed

lemma fds_set_queue [simp]:
  "hid_keyboard_fd (set_queue w q hid) = hid_keyboard_fd hid" "hid_mouse_fd (set_queue w q hid) = hid_mouse_fd hid"
  "hid_touch_fd (set_queue w q hid) = hid_touch_fd hid"
  by (cases w; simp)+

lemma healthy_queue:
  assumes "healthy w hid os" and "q_blocked_at q = 0" and "ring_ok q" and "set (pending q) \<subseteq> set (pending (the_queue w hid))"
  shows "healthy w (set_queue w q hid) os"
proof -
  have same: "input_state (set_queue w q hid) = input_state hid" by simp
  have "queue_ok hid w' (the_queue w' (set_queue w q hid))" for w'
    using assms by (cases "w' = w") (auto simp: healthy_def queues_ok_def queue_ok_def list_all_iff)
  then have "queues_ok (set_queue w q hid)"
    using assms(1) unfolding queues_ok_def queue_ok_cong [OF same] paths_ok_cong [OF same] by (simp add: healthy_def queues_ok_def)
  then show ?thesis using assms by (auto simp: healthy_def list_all_iff)
qed

text \<open>Fields of the state that have no part in the health of a queue.\<close>

lemma healthy_log: "healthy w hid (os\<lparr>os_log := log\<rparr>) = healthy w hid os" "healthy w hid (os\<lparr>os_now := t\<rparr>) = healthy w hid os"
  by (simp_all add: healthy_def)

lemma healthy_counters:
  "healthy w (hid\<lparr>hid_submitted_state := st, hid_max_queue_age_ms := m, hid_reports_sent := n\<rparr>) os = healthy w hid os" (is "healthy w ?h os = _")
proof -
  have same: "input_state ?h = input_state hid" by simp
  show ?thesis
    unfolding healthy_def queues_ok_def queue_ok_cong [OF same] paths_ok_cong [OF same] by (simp add: the_queue_submitted)
qed

lemma working_submit:
  assumes "healthy w hid os" and "q_count (the_queue w hid) \<noteq> 0"
  shows "healthy w (submitted w now hid) os"
    and "q_ready_at (the_queue w (submitted w now hid)) = now + ucast (rep_delay_ms (head_report (the_queue w hid)))"
proof -
  let ?q = "the_queue w hid"
  let ?q1 = "?q\<lparr>q_blocked_at := 0, q_inflight_endpoint := rep_endpoint (head_report ?q), q_ready_at := now + ucast (rep_delay_ms (head_report ?q))\<rparr>"
  have ring: "ring_ok ?q1" using assms(1) by (simp add: healthy_def queues_ok_def queue_ok_def ring_ok_def)
  have pend: "pending ?q1 = pending ?q" by (simp add: pending_def)
  have some: "pending ?q1 \<noteq> []" using assms(2) by simp
  note pop = ring.pop [OF ring some]
  have "set (pending (pop_report ?q1)) \<subseteq> set (pending ?q)"
    using pop pend set_drop_subset [of 1 "pending ?q"] by (simp add: drop_Suc)
  then have "healthy w (set_queue w (pop_report ?q1) (hid\<lparr>hid_submitted_state := st, hid_max_queue_age_ms := m, hid_reports_sent := n\<rparr>)) os"
    for st m n
    using pop assms(1) by (intro healthy_queue) (simp_all add: pop_report_def healthy_counters the_queue_submitted)
  then show "healthy w (submitted w now hid) os" by (simp add: submitted_def Let_def)
  show "q_ready_at (the_queue w (submitted w now hid)) = now + ucast (rep_delay_ms (head_report ?q))"
    by (simp add: submitted_def Let_def pop_report_def)
qed

lemma working_turn:
  assumes "healthy w hid os" and "q_count (the_queue w hid) \<noteq> 0" and "q_ready_at (the_queue w hid) \<le> os_now os"
  obtains hid' os' delay where "flush_one w hid os = (None, hid', os')" and "healthy w hid' os'" and "os_now os' = os_now os"
    and "q_ready_at (the_queue w hid') = os_now os + ucast (delay :: u16)"
proof -
  let ?now = "os_now os"
  have clock: "hid_now os = (?now, os)" using assms(1) by (simp add: hid_now_def healthy_def)
  obtain q where q: "await_previous w ?now hid os = (None, set_queue w q hid, os)" "q_blocked_at q = 0"
    "pending q = pending (the_queue w hid)" "q_count q = q_count (the_queue w hid)" "ring_ok q"
    "head_report q = head_report (the_queue w hid)"
    using working_await [OF assms(1)] by metis
  let ?h = "set_queue w q hid" and ?r = "head_report q"
  have ok: "healthy w ?h os" by (rule healthy_queue [OF assms(1) q(2) q(5)]) (simp add: q(3))
  have "pending q \<noteq> []" using q(4) assms(2) by simp
  then have "?r \<in> set (pending q)" using ring.first [OF q(5)] by simp
  then have paste: "rep_paste_codepoint ?r = 0" using ok by (simp add: healthy_def list_all_iff)
  let ?os = "os\<lparr>os_log := os_log os @ [(endpoint_path ?h (rep_endpoint ?r), take (rep_length ?r) (rep_data ?r))]\<rparr>"
  have "write_head w ?now ?h os = (None, submitted w ?now ?h, ?os)"
    using working_report [OF ok] by (simp add: write_head_def Let_def)
  then have turn: "flush_one w hid os = (None, submitted w ?now ?h, ?os)"
    using clock q(1) assms(1,3) paste by (simp add: flush_one_def Let_def healthy_def not_less)
  have "healthy w (submitted w ?now ?h) ?os" "q_ready_at (the_queue w (submitted w ?now ?h)) = ?now + ucast (rep_delay_ms ?r)"
    using working_submit [of w ?h os ?now] ok q(4) assms(2) by (simp_all add: healthy_log)
  with turn that [of "submitted w ?now ?h" ?os "rep_delay_ms ?r"] show thesis by simp
qed

lemma working_flush:
  "healthy w hid os \<Longrightarrow>
     \<exists>hid' os'. flush_reports w hid os = (True, hid', os') \<and> healthy w hid' os' \<and>
       q_count (the_queue w hid') \<le> q_count (the_queue w hid) \<and>
       (q_ready_at (the_queue w hid) \<le> os_now os \<and> q_count (the_queue w hid) \<noteq> 0 \<longrightarrow>
          q_count (the_queue w hid') < q_count (the_queue w hid)) \<and>
       (q_ready_at (the_queue w hid') = q_ready_at (the_queue w hid) \<or>
          (\<exists>delay :: u16. q_ready_at (the_queue w hid') = os_now os + ucast delay))"
proof (induction w hid os rule: flush_reports.induct)
  case (1 w hid os)
  let ?q = "the_queue w hid"
  consider (empty) "q_count ?q = 0" | (early) "q_count ?q \<noteq> 0" "os_now os < q_ready_at ?q" |
    (due) "q_count ?q \<noteq> 0" "q_ready_at ?q \<le> os_now os" by fastforce
  then show ?case
  proof cases
    case empty
    with "1.prems" show ?thesis by (simp add: flush_reports.simps [of w hid])
  next
    case early
    have "hid_now os = (os_now os, os)" using "1.prems" by (simp add: hid_now_def healthy_def)
    with early have "flush_reports w hid os = (True, hid, os)"
      by (simp add: flush_reports.simps [of w hid] flush_one_def Let_def)
    with "1.prems" early show ?thesis by auto
  next
    case due
    obtain hid1 os1 and delay :: u16 where turn: "flush_one w hid os = (None, hid1, os1)" "healthy w hid1 os1" "os_now os1 = os_now os"
      "q_ready_at (the_queue w hid1) = os_now os + ucast delay"
      by (rule working_turn [OF "1.prems" due])
    have less: "q_count (the_queue w hid1) < q_count ?q" by (rule flush_one_count [OF turn(1) due(1)])
    have step: "flush_reports w hid os = flush_reports w hid1 os1" using due(1) turn(1) by (simp add: flush_reports.simps [of w hid])
    from "1.IH" [OF due(1) turn(1) [symmetric] refl refl turn(2)] less show ?thesis
      unfolding step turn(3,4) by fastforce
  qed
qed

section \<open>Pumping at given times\<close>

fun pumps :: "HidQueueId \<Rightarrow> HidState \<Rightarrow> HidOs \<Rightarrow> u64 list \<Rightarrow> HidState \<times> HidOs" where
  "pumps w hid os [] = (hid, os)"
| "pumps w hid os (t # ts) = (case flush_reports w hid (os\<lparr>os_now := t\<rparr>) of (ok, hid1, os1) \<Rightarrow> pumps w hid1 os1 ts)"

text \<open>The times are far enough apart for every delay a report can ask for, and do not wrap around.\<close>

fun spaced :: "u64 \<Rightarrow> u64 list \<Rightarrow> bool" where
  "spaced ready [] = True"
| "spaced ready (t # ts) \<longleftrightarrow> ready \<le> t \<and> t \<le> 2 ^ 63 \<and> spaced (t + 0xffff) ts"

lemma spaced_earlier: "spaced ready ts \<Longrightarrow> ready' \<le> ready \<Longrightarrow> spaced ready' ts"
  by (cases ts) (auto intro: order_trans)

lemma delay_bound: "t \<le> 2 ^ 63 \<Longrightarrow> t + ucast (delay :: u16) \<le> (t :: u64) + 0xffff"
proof -
  assume "t \<le> 2 ^ 63"
  then have "unat t \<le> 2 ^ 63" by (simp add: word_le_nat_alt)
  moreover have "unat (ucast delay :: u64) \<le> 0xffff" using unsigned_less [of delay, where ?'a = nat] by (simp add: unat_ucast_up)
  ultimately show ?thesis by (simp add: word_le_nat_alt unat_word_ariths)
qed

lemma later_ready: "t \<le> 2 ^ 63 \<Longrightarrow> r \<le> t \<Longrightarrow> r \<le> (t :: u64) + 0xffff"
  using delay_bound [of t 0] by simp

lemma stream_now: "stream w hid (os\<lparr>os_now := t\<rparr>) = stream w hid os"
  by (simp add: stream_def)

lemma pumps_drain:
  "healthy w hid os \<Longrightarrow> spaced (q_ready_at (the_queue w hid)) ts \<Longrightarrow> q_count (the_queue w hid) \<le> length ts \<Longrightarrow>
     pumps w hid os ts = (hid', os') \<Longrightarrow>
     q_count (the_queue w hid') = 0 \<and> stream w hid' os' = stream w hid os \<and> same_paths hid hid'"
proof (induction ts arbitrary: hid os)
  case Nil
  then show ?case by (simp add: same_paths_def)
next
  case (Cons t ts)
  let ?os = "os\<lparr>os_now := t\<rparr>" and ?q = "the_queue w hid"
  have t: "q_ready_at ?q \<le> t" "t \<le> 2 ^ 63" "spaced (t + 0xffff) ts" using Cons.prems(2) by simp_all
  have h: "healthy w hid ?os" using Cons.prems(1) by (simp add: healthy_log)
  obtain hid1 os1 where f: "flush_reports w hid ?os = (True, hid1, os1)" "healthy w hid1 os1"
    "q_count (the_queue w hid1) \<le> q_count ?q" "q_count ?q \<noteq> 0 \<Longrightarrow> q_count (the_queue w hid1) < q_count ?q"
    "q_ready_at (the_queue w hid1) = q_ready_at ?q \<or> (\<exists>delay :: u16. q_ready_at (the_queue w hid1) = t + ucast delay)"
    using working_flush [OF h, simplified] t(1) by blast
  have "q_ready_at (the_queue w hid1) \<le> t + 0xffff" using f(5) later_ready [OF t(2,1)] delay_bound [OF t(2)] by auto
  then have "spaced (q_ready_at (the_queue w hid1)) ts" by (rule spaced_earlier [OF t(3)])
  moreover have "q_count (the_queue w hid1) \<le> length ts" using f(3,4) Cons.prems(3) by (cases "q_count ?q = 0") auto
  ultimately have rest: "q_count (the_queue w hid') = 0 \<and> stream w hid' os' = stream w hid1 os1 \<and> same_paths hid1 hid'"
    using Cons.IH [OF f(2)] Cons.prems(4) f(1) by simp
  have "queues_ok hid" using h by (simp add: healthy_def)
  with flush_reports_pumped [OF f(1)] have "stream w hid1 os1 = stream w hid os" "input_state hid1 = input_state hid"
    by (simp_all add: pumped_def stream_now)
  then show ?case using rest input_same_paths [of hid1 hid] by (simp add: same_paths_def)
qed

section \<open>Properties\<close>


definition waiting_report :: HidReport where
  "waiting_report = \<lparr>rep_data = [1, 5, 0, 0, 0, 0, 0, 0], rep_endpoint = 2, rep_length = 4, rep_delay_ms = 20, rep_motion = False,
     rep_paste_codepoint = 0, rep_queued_at = 0\<rparr>"

definition waiting_hid :: HidState where
  "waiting_hid = set_queue PointerQueue (push_report (push_report empty_queue waiting_report) waiting_report) sample_hid"

lemma waiting_healthy: "healthy PointerQueue waiting_hid sample_os" "pending (the_queue PointerQueue waiting_hid) = [waiting_report, waiting_report]"
  "q_ready_at (the_queue PointerQueue waiting_hid) = 0"
proof -
  let ?q = "push_report (push_report empty_queue waiting_report) waiting_report"
  have ring: "ring_ok empty_queue" "pending empty_queue = []"
    using empty_queue_ok by (auto simp: queue_ok_def)
  have one: "ring_ok (push_report empty_queue waiting_report)" "pending (push_report empty_queue waiting_report) = [waiting_report]"
    using ring.push [OF ring(1)] ring(2) by (simp_all add: HID_REPORT_QUEUE_CAPACITY_def)
  have two: "ring_ok ?q" "pending ?q = [waiting_report, waiting_report]"
    using ring.push [OF one(1)] one(2) by (simp_all add: HID_REPORT_QUEUE_CAPACITY_def)
  show "pending (the_queue PointerQueue waiting_hid) = [waiting_report, waiting_report]" by (simp add: waiting_hid_def two(2))
  show "q_ready_at (the_queue PointerQueue waiting_hid) = 0" by (simp add: waiting_hid_def push_report_def empty_queue_def)
  have fds: "hid_keyboard_fd sample_hid = 3" "hid_mouse_fd sample_hid = 5" "hid_touch_fd sample_hid = 6"
    by (simp_all add: sample_hid_def sample_os_def hid_init_def Let_def hid_now_def open_hid_fd_def open_keyboard_feedback_def
        sys_open_def is_hid_gadget_def PATH_SIZE_def)
  have same: "input_state waiting_hid = input_state sample_hid" unfolding waiting_hid_def by (rule input_state_set_queue)
  have "report_ok sample_hid PointerQueue waiting_report" by (simp add: report_ok_def waiting_report_def endpoint_length_def)
  then have "queue_ok sample_hid w (the_queue w waiting_hid)" for w
    using two ring sample_fields(7) [of KeyboardQueue] by (cases w) (simp_all add: waiting_hid_def queue_ok_def del: pending_empty)
  then have "queues_ok waiting_hid"
    using sample_fields(9) unfolding queues_ok_def queue_ok_cong [OF same] paths_ok_cong [OF same] by simp
  then show "healthy PointerQueue waiting_hid sample_os"
    using fds two by (simp add: healthy_def waiting_hid_def sample_os_def waiting_report_def push_report_def empty_queue_def)
qed


end
