(* ===== verification/HidInput.thy ===== *)
theory HidInput
  imports HidLiveness
begin

text \<open>
  The input operations seen from the USB host: which reports keyboard events, text, relative motion
  and a release add to the streams, and what state the host is left with.
\<close>

section \<open>Scan codes\<close>

text \<open>The keys held, as the host is meant to see them: the modifiers and the usages.\<close>

type_synonym held_keys = "byte \<times> (byte \<Rightarrow> bool)"

definition key_state :: "HidState \<Rightarrow> held_keys" where
  "key_state hid = (hid_modifiers hid, hid_usages hid)"

fun key_event :: "held_keys \<Rightarrow> byte \<times> bool \<times> bool \<Rightarrow> held_keys" where
  "key_event (modifiers, usages) (code, extended, release) =
     (case hid_translate_scancode code extended of
        None \<Rightarrow> (modifiers, usages)
      | Some (usage, modifier) \<Rightarrow>
          if modifier \<noteq> 0 then (if release then modifiers AND NOT modifier else modifiers OR modifier, usages)
          else (modifiers, usages(usage := \<not> release)))"

fun scancodes :: "HidState \<Rightarrow> (byte \<times> bool \<times> bool) list \<Rightarrow> HidOs \<Rightarrow> bool \<times> HidState \<times> HidOs" where
  "scancodes hid [] os = (True, hid, os)"
| "scancodes hid ((code, extended, release) # events) os =
     (case hid_scancode hid code extended release os of
        (ok, hid1, os1) \<Rightarrow> if ok then scancodes hid1 events os1 else (False, hid1, os1))"

definition single_bits :: "byte list" where
  "single_bits = map (\<lambda>k. 2 ^ k) [0..<8]"

lemma single_bit_or: "m \<in> set single_bits \<Longrightarrow> x AND m \<noteq> 0 \<Longrightarrow> x OR m = x"
proof -
  assume "m \<in> set single_bits" and on: "x AND m \<noteq> 0"
  then obtain k where m: "m = 2 ^ k" by (auto simp: single_bits_def simp del: upt_Suc)
  have "bit x k" using on by (simp add: m and_exp_eq_0_iff_not_bit)
  then show "x OR m = x" by (intro bit_eqI) (auto simp: m bit_or_iff bit_exp_iff)
qed

lemma disjoint_and_not: "x AND m = 0 \<Longrightarrow> x AND NOT m = (x :: byte)"
  by (metis and.right_neutral bit.conj_disj_distrib bit.disj_cancel_right or.left_neutral)

lemma modifier_tables:
  "list_all (\<lambda>(code, usage, modifier). modifier = 0 \<or> modifier \<in> set single_bits) extended_keys"
  "list_all (\<lambda>(code, modifier). modifier \<in> set single_bits) modifier_keys"
  by code_simp+

lemma translate_modifier:
  assumes "hid_translate_scancode code extended = Some (usage, modifier)"
  shows "modifier = 0 \<or> modifier \<in> set single_bits"
  using assms modifier_tables
  by (auto simp: hid_translate_scancode_def list_all_iff split: if_splits option.splits dest!: map_of_SomeD)

lemma held_input: "input_state hid' = input_state hid \<Longrightarrow> key_state hid' = key_state hid"
  by (simp add: input_state_def key_state_def)

lemma keyboard_entry_held: "key_state hid' = key_state hid \<Longrightarrow> same_paths hid hid' \<Longrightarrow> keyboard_entry hid' = keyboard_entry hid"
  by (simp add: keyboard_entry_def keyboard_report_def key_state_def same_paths_def)

lemma held_set_key:
  "hid_translate_scancode code extended = Some (usage, modifier) \<Longrightarrow>
     key_state (set_key hid usage modifier release) = key_event (key_state hid) (code, extended, release)"
  by (simp add: key_state_def set_key_def)

lemma held_unchanged:
  assumes "hid_translate_scancode code extended = Some (usage, modifier)" and "key_held hid usage modifier = (\<not> release)"
  shows "key_event (key_state hid) (code, extended, release) = key_state hid"
  using assms translate_modifier [OF assms(1)] single_bit_or [of modifier "hid_modifiers hid"]
    disjoint_and_not [of "hid_modifiers hid" modifier]
  by (cases "modifier = 0") (auto simp: key_state_def key_held_def fun_upd_idem)

lemma set_key_held: "key_held (set_key hid usage modifier release) usage modifier = (\<not> release)"
  by (auto simp: key_held_def set_key_def and.assoc bit.conj_disj_distrib2)

lemma key_held_cong: "key_state hid' = key_state hid \<Longrightarrow> key_held hid' = key_held hid"
  by (simp add: key_state_def key_held_def fun_eq_iff)

lemma scancode_ok:
  assumes "queues_ok hid" and "hid_scancode hid code extended release os = (True, hid', os')"
  shows "key_state hid' = key_event (key_state hid) (code, extended, release)"
    and "\<exists>rs. emitted KeyboardQueue rs hid os hid' os' \<and>
           rs = (if key_state hid' = key_state hid then [] else [keyboard_entry hid'])"
proof -
  have "key_state hid' = key_event (key_state hid) (code, extended, release) \<and> (\<exists>rs. emitted KeyboardQueue rs hid os hid' os' \<and>
           rs = (if key_state hid' = key_state hid then [] else [keyboard_entry hid']))"
  proof (cases "hid_translate_scancode code extended")
    case None
    with assms show ?thesis using emitted_device [of hid hid] by (auto simp: hid_scancode_def key_state_def same_device_def)
  next
    case (Some key)
    obtain usage modifier where key: "key = (usage, modifier)" by (rule prod.exhaust)
    note tr = Some [unfolded key]
    show ?thesis
    proof (cases "key_held hid usage modifier = (\<not> release)")
      case True
      then have "hid' = hid" "os' = os" using assms(2) tr by (simp_all add: hid_scancode_def)
      then show ?thesis using held_unchanged [OF tr True] emitted_device [of hid hid] assms(1) by (simp add: same_device_def)
    next
      case False
      let ?h = "set_key hid usage modifier release"
      have dev: "same_device hid ?h" by simp
      have run: "send_keyboard ?h os = (True, hid', os')" using assms(2) tr False by (simp add: hid_scancode_def)
      have "queues_ok ?h" using same_device_cong(1) [OF dev] assms(1) by simp
      note sent = send_keyboard_ok [OF this run]
      have h: "key_state hid' = key_state ?h" using held_input [OF sent(1)] .
      have entry: "keyboard_entry hid' = keyboard_entry ?h"
        using keyboard_entry_held [OF h] sent(2) by (simp add: emitted_def)
      have "key_state ?h \<noteq> key_state hid" using False set_key_held [of hid usage modifier release] key_held_cong [of ?h hid] by auto
      then show ?thesis using held_set_key [OF tr] h entry emitted_before [OF dev sent(2)] by auto
    qed
  qed
  then show "key_state hid' = key_event (key_state hid) (code, extended, release)"
    "\<exists>rs. emitted KeyboardQueue rs hid os hid' os' \<and> rs = (if key_state hid' = key_state hid then [] else [keyboard_entry hid'])"
    by blast+
qed

text \<open>A run of events: the keys follow the events, and the last report the host gets shows them.\<close>

lemma scancodes_ok:
  assumes "queues_ok hid" and "scancodes hid events os = (True, hid', os')"
    and "stream KeyboardQueue hid os \<noteq> []" and "last (stream KeyboardQueue hid os) = keyboard_entry hid"
  shows "key_state hid' = foldl key_event (key_state hid) events \<and>
     (\<exists>rs. emitted KeyboardQueue rs hid os hid' os') \<and>
     stream KeyboardQueue hid' os' \<noteq> [] \<and> last (stream KeyboardQueue hid' os') = keyboard_entry hid'"
  using assms
proof (induction hid events os rule: scancodes.induct)
  case (1 hid os)
  then show ?case using emitted_device [of hid hid] by (auto simp: same_device_def)
next
  case (2 hid code extended release events os)
  obtain hid1 os1 where first: "hid_scancode hid code extended release os = (True, hid1, os1)"
    and rest: "scancodes hid1 events os1 = (True, hid', os')"
    using "2.prems"(2) by (auto split: prod.splits if_splits)
  note key = scancode_ok(1) [OF "2.prems"(1) first]
  obtain rs where rs: "emitted KeyboardQueue rs hid os hid1 os1" "rs = (if key_state hid1 = key_state hid then [] else [keyboard_entry hid1])"
    using scancode_ok(2) [OF "2.prems"(1) first] by blast
  have "stream KeyboardQueue hid1 os1 \<noteq> []" "last (stream KeyboardQueue hid1 os1) = keyboard_entry hid1"
    using rs "2.prems"(3,4) keyboard_entry_held [of hid1 hid] by (auto simp: emitted_def)
  with "2.IH" [OF first [symmetric] _ _ emitted_ok [OF rs(1)] rest]
  show ?case using key emitted_trans [OF rs(1)] by auto
qed

section \<open>Text\<close>

definition report_of :: "held_keys \<Rightarrow> byte list" where
  "report_of k = (let keys = take 6 (keys_down (snd k)) in [fst k, 0] @ keys @ replicate (6 - length keys) 0)"

lemma keyboard_entry_of: "keyboard_entry hid = (hid_keyboard_path hid, report_of (key_state hid))"
  by (simp add: keyboard_entry_def report_of_def keyboard_report_def key_state_def)

definition released :: held_keys where
  "released = (0, \<lambda>_. False)"

fun pressed :: "held_keys \<Rightarrow> HidTextKey \<Rightarrow> held_keys" where
  "pressed (modifiers, usages) key = (modifiers OR tk_modifier key, usages(tk_usage key := True))"

definition taps :: "held_keys \<Rightarrow> HidTextKey list \<Rightarrow> byte list list" where
  "taps k keys = concat (map (\<lambda>key. [report_of (pressed k key), report_of k]) keys)"

text \<open>\<open>typed k rs\<close>: the reports \<open>rs\<close> were added to the keyboard stream, and the keys held are \<open>k\<close> again.\<close>

definition typed :: "byte list list \<Rightarrow> HidState \<Rightarrow> HidOs \<Rightarrow> HidState \<Rightarrow> HidOs \<Rightarrow> bool" where
  "typed rs hid os hid' os' \<longleftrightarrow>
     emitted KeyboardQueue (map (Pair (hid_keyboard_path hid)) rs) hid os hid' os' \<and> key_state hid' = key_state hid"

lemma typed_trans: "typed rs hid os hid1 os1 \<Longrightarrow> typed rs' hid1 os1 hid2 os2 \<Longrightarrow> typed (rs @ rs') hid os hid2 os2"
proof -
  assume a: "typed rs hid os hid1 os1" and b: "typed rs' hid1 os1 hid2 os2"
  then have "hid_keyboard_path hid1 = hid_keyboard_path hid" by (simp add: typed_def emitted_def same_paths_def)
  with a b emitted_trans show ?thesis by (fastforce simp: typed_def)
qed

lemma typed_nil: "queues_ok hid \<Longrightarrow> typed [] hid os hid os"
  using emitted_device [of hid hid] by (simp add: typed_def same_device_def)

lemma typed_ok: "typed rs hid os hid' os' \<Longrightarrow> queues_ok hid'" "typed rs hid os hid' os' \<Longrightarrow> key_state hid' = key_state hid"
  by (simp_all add: typed_def emitted_def)

lemma tap_typed:
  assumes "queues_ok hid" and "tap_text_key hid key os = (True, hid', os')"
  shows "typed (taps (key_state hid) [key]) hid os hid' os'"
proof -
  let ?h1 = "hid\<lparr>hid_modifiers := hid_modifiers hid OR tk_modifier key, hid_usages := (hid_usages hid)(tk_usage key := True)\<rparr>"
  obtain hid2 os2 where first: "send_keyboard ?h1 os = (True, hid2, os2)" and second:
    "send_keyboard (hid2\<lparr>hid_modifiers := hid_modifiers hid, hid_usages := (hid_usages hid2)(tk_usage key := hid_usages hid (tk_usage key))\<rparr>) os2
       = (True, hid', os')" (is "send_keyboard ?h3 _ = _")
    using assms(2) by (auto simp: tap_text_key_def Let_def split: prod.splits if_splits)
  have dev1: "same_device hid ?h1" and dev3: "same_device hid2 ?h3" by simp_all
  have ok1: "queues_ok ?h1" using same_device_cong(1) [OF dev1] assms(1) by simp
  note press = send_keyboard_ok [OF ok1 first]
  have ok3: "queues_ok ?h3" using same_device_cong(1) [OF dev3] press(2) by (simp add: emitted_def)
  note release = send_keyboard_ok [OF ok3 second]
  have usages: "hid_usages hid2 = (hid_usages hid)(tk_usage key := True)" using press(1) by (simp add: input_state_def)
  have restored: "key_state ?h3 = key_state hid" using usages by (simp add: key_state_def)
  have path: "hid_keyboard_path hid2 = hid_keyboard_path hid" using press(1) by (simp add: input_state_def)
  have "emitted KeyboardQueue ([keyboard_entry ?h1] @ [keyboard_entry ?h3]) hid os hid' os'"
    using emitted_trans [OF emitted_before [OF dev1 press(2)] emitted_before [OF dev3 release(2)]] .
  moreover have "key_state hid' = key_state hid" using held_input [OF release(1)] restored by simp
  moreover have "key_state ?h1 = pressed (key_state hid) key" by (simp add: key_state_def)
  ultimately show ?thesis using restored path by (simp add: typed_def taps_def keyboard_entry_of)
qed

lemma taps_append: "taps k (xs @ ys) = taps k xs @ taps k ys"
  by (simp add: taps_def)

lemma ascii_sequence_typed:
  "queues_ok hid \<Longrightarrow> type_ascii_sequence hid cs os = (True, hid', os') \<Longrightarrow>
     \<exists>keys. map (\<lambda>c. ascii_to_hid (of_char c)) cs = map Some keys \<and> typed (taps (key_state hid) keys) hid os hid' os'"
proof (induction hid cs os rule: type_ascii_sequence.induct)
  case (1 hid os)
  then show ?case by (simp add: taps_def typed_nil)
next
  case (2 hid c cs os)
  obtain key where key: "ascii_to_hid (of_char c) = Some key" using "2.prems"(2) by (auto split: option.splits)
  obtain hid1 os1 where first: "tap_text_key hid key os = (True, hid1, os1)"
    and rest: "type_ascii_sequence hid1 cs os1 = (True, hid', os')"
    using "2.prems"(2) key by (auto split: prod.splits if_splits)
  note t = tap_typed [OF "2.prems"(1) first]
  obtain keys where keys: "map (\<lambda>c. ascii_to_hid (of_char c)) cs = map Some keys" "typed (taps (key_state hid1) keys) hid1 os1 hid' os'"
    using "2.IH" [OF key first [symmetric] _ _ typed_ok(1) [OF t] rest] by auto
  have "typed (taps (key_state hid) [key] @ taps (key_state hid) keys) hid os hid' os'"
    using typed_trans [OF t] keys(2) typed_ok(2) [OF t] by simp
  then show ?case using key keys(1) taps_append [of _ "[key]" keys] by (intro exI [of _ "key # keys"]) simp
qed

text \<open>The characters a code point is typed as: itself, or the letters of its Hangul decomposition.\<close>

definition typed_letters :: "u32 \<Rightarrow> byte list" where
  "typed_letters codepoint =
     (if codepoint \<le> 0x7f then [ucast codepoint]
      else case codepoint_to_hangul_sequences codepoint of
        Some (lead, vowel, trail) \<Rightarrow> map of_char (lead @ vowel @ trail)
      | None \<Rightarrow> (case hangul_jamo_sequence codepoint of Some keys \<Rightarrow> map of_char keys | None \<Rightarrow> []))"

lemma sequences_stay: "foldl (\<lambda>(ok, hid, os) keys. if ok then type_ascii_sequence hid keys os else (ok, hid, os)) (False, hid, os) xs = (False, hid, os)"
  by (induction xs) simp_all

lemma sequences_typed:
  "queues_ok hid \<Longrightarrow> type_sequences hid xs os = (True, hid', os') \<Longrightarrow>
     \<exists>keys. map (\<lambda>c. ascii_to_hid (of_char c)) (concat xs) = map Some keys \<and> typed (taps (key_state hid) keys) hid os hid' os'"
proof (induction xs arbitrary: hid os)
  case Nil
  then show ?case by (simp add: taps_def typed_nil type_sequences_def)
next
  case (Cons x xs)
  obtain ok hid1 os1 where run: "type_ascii_sequence hid x os = (ok, hid1, os1)" by (metis prod_cases3)
  with Cons.prems(2) have ok: ok and rest: "type_sequences hid1 xs os1 = (True, hid', os')"
    by (cases ok; simp add: type_sequences_def sequences_stay)+
  obtain keys where a: "map (\<lambda>c. ascii_to_hid (of_char c)) x = map Some keys" "typed (taps (key_state hid) keys) hid os hid1 os1"
    using ascii_sequence_typed [OF Cons.prems(1), of x os hid1 os1] run ok by auto
  obtain keys' where b: "map (\<lambda>c. ascii_to_hid (of_char c)) (concat xs) = map Some keys'" "typed (taps (key_state hid1) keys') hid1 os1 hid' os'"
    using Cons.IH [OF typed_ok(1) [OF a(2)] rest] by blast
  have "typed (taps (key_state hid) (keys @ keys')) hid os hid' os'"
    using typed_trans [OF a(2)] b(2) typed_ok(2) [OF a(2)] by (simp add: taps_append)
  then show ?case using a(1) b(1) by (intro exI [of _ "keys @ keys'"]) simp
qed

lemma hangul_above_ascii: "codepoint_to_hangul_sequences codepoint \<noteq> None \<or> hangul_jamo_sequence codepoint \<noteq> None \<Longrightarrow> \<not> codepoint \<le> 0x7f"
proof -
  have "list_all (\<lambda>(c, keys). 0x7f < c) jamo_keys" unfolding jamo_keys_def by simp
  then have "hangul_jamo_sequence codepoint \<noteq> None \<Longrightarrow> 0x7f < codepoint"
    by (auto simp: hangul_jamo_sequence_def list_all_iff dest!: map_of_SomeD)
  moreover have "codepoint_to_hangul_sequences codepoint \<noteq> None \<Longrightarrow> 0x7f < codepoint"
    by (auto simp: codepoint_to_hangul_sequences_def word_less_nat_alt split: if_splits)
  moreover assume "codepoint_to_hangul_sequences codepoint \<noteq> None \<or> hangul_jamo_sequence codepoint \<noteq> None"
  ultimately show ?thesis by (auto simp: not_le)
qed

lemma codepoint_typed:
  assumes "queues_ok hid" and "type_codepoint hid codepoint os = (True, hid', os')"
  shows "\<exists>keys. map ascii_to_hid (typed_letters codepoint) = map Some keys \<and> typed (taps (key_state hid) keys) hid os hid' os'"
proof (cases "codepoint \<le> 0x7f")
  case True
  then have none: "codepoint_to_hangul_sequences codepoint = None" "hangul_jamo_sequence codepoint = None"
    using hangul_above_ascii by blast+
  with assms(2) True obtain key where key: "ascii_to_hid (ucast codepoint) = Some key" "tap_text_key hid key os = (True, hid', os')"
    by (auto simp: type_codepoint_def split: option.splits)
  from tap_typed [OF assms(1) key(2)] key(1) True show ?thesis
    by (intro exI [of _ "[key]"]) (simp add: typed_letters_def)
next
  case False
  show ?thesis
  proof (cases "codepoint_to_hangul_sequences codepoint")
    case None
    with assms(2) False obtain keys where keys: "hangul_jamo_sequence codepoint = Some keys" "type_ascii_sequence hid keys os = (True, hid', os')"
      by (auto simp: type_codepoint_def split: option.splits)
    from ascii_sequence_typed [OF assms(1) keys(2)] keys(1) None False show ?thesis
      by (simp add: typed_letters_def comp_def)
  next
    case (Some sequences)
    then obtain lead vowel trail where seqs: "codepoint_to_hangul_sequences codepoint = Some (lead, vowel, trail)"
      by (cases sequences) auto
    with assms(2) False have "type_sequences hid [lead, vowel, trail] os = (True, hid', os')"
      by (simp add: type_codepoint_def)
    from sequences_typed [OF assms(1) this] seqs False show ?thesis
      by (simp add: typed_letters_def comp_def)
  qed
qed

lemma type_from_typed:
  assumes "queues_ok hid" and "type_from hid (pre @ concat encodings) (length pre) os = (True, hid', os')"
    and "map utf8_encode codepoints = map Some encodings" and "list_all typed_directly codepoints"
  shows "\<exists>keys. map ascii_to_hid (concat (map typed_letters codepoints)) = map Some keys \<and>
     typed (taps (key_state hid) keys) hid os hid' os'"
  using assms
proof (induction codepoints arbitrary: hid os pre encodings)
  case Nil
  then show ?case by (simp add: type_from.simps typed_nil taps_def)
next
  case (Cons codepoint codepoints)
  obtain e es where enc: "encodings = e # es" "utf8_encode codepoint = Some e" "map utf8_encode codepoints = map Some es"
    using Cons.prems(3) by (cases encodings) auto
  have decode: "utf8_decode (pre @ concat encodings) (length pre) = Some (codepoint, length (pre @ e))"
    using decode_encoded [OF enc(2), of pre "concat es"] enc(1) by simp
  have inside: "length pre < length (pre @ concat encodings)" using encode_decoded [OF decode] by linarith
  have direct: "typed_directly codepoint" using Cons.prems(4) by simp
  obtain hid1 os1 where first: "type_codepoint hid codepoint os = (True, hid1, os1)"
    and rest: "type_from hid1 (pre @ concat encodings) (length (pre @ e)) os1 = (True, hid', os')"
    using Cons.prems(2) inside decode direct
    by (subst (asm) type_from.simps) (auto simp: enter_codepoint_def split: prod.splits if_splits)
  obtain keys where a: "map ascii_to_hid (typed_letters codepoint) = map Some keys" "typed (taps (key_state hid) keys) hid os hid1 os1"
    using codepoint_typed [OF Cons.prems(1) first] by blast
  obtain keys' where b: "map ascii_to_hid (concat (map typed_letters codepoints)) = map Some keys'"
    "typed (taps (key_state hid1) keys') hid1 os1 hid' os'"
    using Cons.IH [OF typed_ok(1) [OF a(2)], of "pre @ e" es os1] rest enc Cons.prems(4) by auto
  have "typed (taps (key_state hid) (keys @ keys')) hid os hid' os'"
    using typed_trans [OF a(2)] b(2) typed_ok(2) [OF a(2)] by (simp add: taps_append)
  then show ?case using a(1) b(1) by (intro exI [of _ "keys @ keys'"]) simp
qed

text \<open>The host: a character is typed when a key goes down that was not down before, read with the US layout.\<close>

fun host_types :: "byte \<Rightarrow> byte list list \<Rightarrow> byte option list" where
  "host_types down [] = []"
| "host_types down (r # rs) =
     (if r ! 2 \<noteq> 0 \<and> r ! 2 \<noteq> down then [us_layout \<lparr>tk_modifier = r ! 0, tk_usage = r ! 2\<rparr>] else []) @ host_types (r ! 2) rs"

lemma filter_single: "distinct xs \<Longrightarrow> filter (\<lambda>x. x = u) xs = (if u \<in> set xs then [u] else [])"
  by (induction xs) auto

lemma keys_down_single: "keys_down ((\<lambda>_. False)(u := True)) = [u]"
proof -
  have "inj_on (of_nat :: nat \<Rightarrow> byte) (set [0..<256])"
    by (rule inj_on_inverseI [where g = unat]) (simp add: unat_of_nat_small)
  then have "distinct (map of_nat [0..<256] :: byte list)" by (simp add: distinct_map del: upt_Suc)
  moreover have "u \<in> set (map of_nat [0..<256])"
    unfolding set_map set_upt by (rule image_eqI [of _ _ "unat u"]) (use unsigned_less [of u] in simp_all)
  moreover have "(\<lambda>_. False)(u := True) = (\<lambda>x. x = u)" by (simp add: fun_eq_iff)
  ultimately show ?thesis unfolding keys_down_def by (simp add: filter_single del: upt_Suc)
qed

lemma report_of_released: "report_of released = replicate 8 0"
  by (simp add: report_of_def released_def keys_down_def numeral_eq_Suc)

lemma report_of_pressed:
  "report_of (pressed released key) ! 0 = tk_modifier key" "report_of (pressed released key) ! 2 = tk_usage key"
  by (simp_all add: report_of_def released_def keys_down_single)

lemma host_reads_taps:
  "map ascii_to_hid cs = map Some keys \<Longrightarrow>
     host_types 0 (taps released keys) = map (\<lambda>c. Some (if c = 0x0d then 0x0a else c)) cs"
proof (induction cs arbitrary: keys)
  case Nil
  then show ?case by (simp add: taps_def)
next
  case (Cons c cs)
  obtain key ks where keys: "keys = key # ks" "ascii_to_hid c = Some key" "map ascii_to_hid cs = map Some ks"
    using Cons.prems by (cases keys) auto
  have layout: "us_layout key = Some (if c = 0x0d then 0x0a else c)" using ascii_layout [OF keys(2)] by simp
  then have "tk_usage key \<noteq> 0" by (auto simp: us_layout_def Let_def split: if_splits)
  then show ?case
    using Cons.IH [OF keys(3)] layout
    by (cases key) (simp add: keys(1) taps_def report_of_pressed report_of_released)
qed

lemma type_utf8_unfold:
  assumes "hid_type_utf8 hid text os = (True, hid', os')" and "\<not> (length text = 1 \<and> hid_modifiers hid \<noteq> 0)"
  obtains hid1 os1 hid2 where "send_keyboard (reset_keyboard_state (hid\<lparr>hid_keyboard_delay_ms := 20\<rparr>) False) os = (True, hid1, os1)"
    and "type_from hid1 text 0 os1 = (True, hid2, os')" and "hid' = hid2\<lparr>hid_keyboard_delay_ms := 0\<rparr>"
  using assms by (auto simp: hid_type_utf8_def Let_def split: prod.splits if_splits)

lemma utf8_typed:
  assumes "queues_ok hid" and "hid_type_utf8 hid (concat encodings) os = (True, hid', os')"
    and "\<not> (length (concat encodings) = 1 \<and> hid_modifiers hid \<noteq> 0)"
    and "map utf8_encode codepoints = map Some encodings" and "list_all typed_directly codepoints"
  obtains rs where "emitted KeyboardQueue (map (Pair (hid_keyboard_path hid)) rs) hid os hid' os'"
    and "host_types 0 rs = map (\<lambda>c. Some (if c = 0x0d then 0x0a else c)) (concat (map typed_letters codepoints))"
    and "key_state hid' = released" and "rs \<noteq> []" and "last rs = replicate 8 0"
proof -
  let ?h0 = "reset_keyboard_state (hid\<lparr>hid_keyboard_delay_ms := 20\<rparr>) False"
  obtain hid1 os1 hid2 where first: "send_keyboard ?h0 os = (True, hid1, os1)"
    and second: "type_from hid1 (concat encodings) 0 os1 = (True, hid2, os')" and hid': "hid' = hid2\<lparr>hid_keyboard_delay_ms := 0\<rparr>"
    using type_utf8_unfold [OF assms(2,3)] by blast
  have dev: "same_device hid ?h0"
    by (rule same_device_trans [of _ "hid\<lparr>hid_keyboard_delay_ms := 20\<rparr>"]) simp_all
  have ok: "queues_ok ?h0" using same_device_cong(1) [OF dev] assms(1) by simp
  note sent = send_keyboard_ok [OF ok first]
  have h0: "key_state ?h0 = released" by (simp add: key_state_def reset_keyboard_state_def released_def)
  then have h1: "key_state hid1 = released" using held_input [OF sent(1)] by simp
  obtain keys where keys: "map ascii_to_hid (concat (map typed_letters codepoints)) = map Some keys"
    "typed (taps released keys) hid1 os1 hid2 os'"
    using type_from_typed [OF emitted_ok [OF sent(2)], of "[]" encodings os1 hid2 os' codepoints] second assms(4,5) h1 by auto
  let ?rs = "report_of released # taps released keys"
  have start: "emitted KeyboardQueue [(hid_keyboard_path hid, report_of released)] hid os hid1 os1"
    using emitted_before [OF dev sent(2)] h0 by (simp add: keyboard_entry_of reset_keyboard_state_def)
  then have path: "hid_keyboard_path hid1 = hid_keyboard_path hid" by (simp add: emitted_def same_paths_def)
  have "emitted KeyboardQueue (map (Pair (hid_keyboard_path hid)) (taps released keys)) hid1 os1 hid' os'"
    unfolding hid' by (rule emitted_after [of _ _ _ _ hid2]) (use keys(2) path in \<open>simp_all add: typed_def\<close>)
  with emitted_trans [OF start] have "emitted KeyboardQueue (map (Pair (hid_keyboard_path hid)) ?rs) hid os hid' os'" by fastforce
  moreover have "host_types 0 ?rs = map (\<lambda>c. Some (if c = 0x0d then 0x0a else c)) (concat (map typed_letters codepoints))"
    using host_reads_taps [OF keys(1)] by (simp add: report_of_released)
  moreover have "key_state hid' = released" using typed_ok(2) [OF keys(2)] h1 by (simp add: hid' key_state_def)
  moreover have "last ?rs = replicate 8 0"
    by (cases keys rule: rev_cases) (simp_all add: taps_def report_of_released)
  ultimately show ?thesis using that [of ?rs] by simp
qed

section \<open>Relative motion\<close>

text \<open>The displacement a report tells the host.\<close>

definition report_dx :: "byte list \<Rightarrow> int" where "report_dx r = sint (r ! 1)"
definition report_dy :: "byte list \<Rightarrow> int" where "report_dy r = sint (r ! 2)"

lemma sint_chunk: "sint (of_int (chunk x) :: byte) = chunk x"
proof -
  have "- 128 \<le> chunk x" "chunk x < 128" by (auto simp: chunk_def)
  then show ?thesis by (simp add: signed_of_int signed_take_bit_int_eq_self)
qed

lemma relative_loop_ok:
  "queues_ok hid \<Longrightarrow> relative_loop hid x y os = (True, hid', os') \<Longrightarrow>
     \<exists>rs. emitted PointerQueue (map (Pair (hid_mouse_path hid)) rs) hid os hid' os' \<and>
        list_all (\<lambda>r. length r = 4 \<and> r ! 0 = hid_buttons hid AND HID_MOUSE_BUTTONS_MASK \<and> r ! 3 = 0) rs \<and>
        sum_list (map report_dx rs) = x \<and> sum_list (map report_dy rs) = y \<and> input_state hid' = input_state hid"
proof (induction hid x y os rule: relative_loop.induct)
  case (1 hid x y os)
  show ?case
  proof (cases "x = 0 \<and> y = 0")
    case True
    with "1.prems"(2) have "hid' = hid" "os' = os" by (auto simp: relative_loop.simps [of hid 0 0])
    then show ?thesis using True emitted_device [of hid hid] "1.prems"(1) by (intro exI [of _ "[]"]) (simp add: same_device_def)
  next
    case False
    obtain hid1 os1 where first: "send_relative hid (chunk x) (chunk y) 0 os = (True, hid1, os1)"
      and rest: "relative_loop hid1 (x - chunk x) (y - chunk y) os1 = (True, hid', os')"
      using "1.prems"(2) False by (subst (asm) relative_loop.simps) (auto split: prod.splits if_splits)
    note sent = send_relative_ok [OF "1.prems"(1) first]
    let ?r = "relative_report hid (chunk x) (chunk y) 0"
    obtain rs where rs: "emitted PointerQueue (map (Pair (hid_mouse_path hid1)) rs) hid1 os1 hid' os'"
      "list_all (\<lambda>r. length r = 4 \<and> r ! 0 = hid_buttons hid1 AND HID_MOUSE_BUTTONS_MASK \<and> r ! 3 = 0) rs"
      "sum_list (map report_dx rs) = x - chunk x" "sum_list (map report_dy rs) = y - chunk y" "input_state hid' = input_state hid1"
      using "1.IH" [OF False first [symmetric] _ _ emitted_ok [OF sent(2)] rest] by auto
    have same: "hid_buttons hid1 = hid_buttons hid" "hid_mouse_path hid1 = hid_mouse_path hid"
      using sent(1) by (simp_all add: input_state_def)
    have "emitted PointerQueue (map (Pair (hid_mouse_path hid)) (?r # rs)) hid os hid' os'"
      using emitted_trans [OF sent(2) rs(1)] same by simp
    moreover have "report_dx ?r = chunk x" "report_dy ?r = chunk y" "length ?r = 4" "?r ! 3 = 0"
      "?r ! 0 = hid_buttons hid AND HID_MOUSE_BUTTONS_MASK"
      by (simp_all add: relative_report_def report_dx_def report_dy_def sint_chunk)
    ultimately show ?thesis using rs same sent(1) by (intro exI [of _ "?r # rs"]) simp
  qed
qed

text \<open>The reports for the mouse: motion, or one report for a click without motion.\<close>

lemma mouse_part_ok:
  assumes "queues_ok hid"
    and run: "(if x = 0 \<and> y = 0 then (if unchanged then (True, hid, os) else send_relative hid 0 0 0 os)
               else relative_loop hid x y os) = (True, hid', os')"
  shows "\<exists>rs. emitted PointerQueue (map (Pair (hid_mouse_path hid)) rs) hid os hid' os' \<and>
     list_all (\<lambda>r. length r = 4 \<and> r ! 0 = hid_buttons hid AND HID_MOUSE_BUTTONS_MASK \<and> r ! 3 = 0) rs \<and>
     sum_list (map report_dx rs) = x \<and> sum_list (map report_dy rs) = y \<and> input_state hid' = input_state hid \<and>
     (\<not> unchanged \<longrightarrow> rs \<noteq> [])"
proof -
  consider (still) "x = 0 \<and> y = 0" unchanged | (click) "x = 0 \<and> y = 0" "\<not> unchanged" | (moved) "\<not> (x = 0 \<and> y = 0)" by blast
  then show ?thesis
  proof cases
    case still
    with run have "hid' = hid" "os' = os" by simp_all
    then show ?thesis using still emitted_device [of hid hid] assms(1) by (intro exI [of _ "[]"]) (simp add: same_device_def)
  next
    case click
    with run have "send_relative hid 0 0 0 os = (True, hid', os')" by simp
    from send_relative_ok [OF assms(1) this] show ?thesis using click
      by (intro exI [of _ "[relative_report hid 0 0 0]"]) (simp add: relative_report_def report_dx_def report_dy_def)
  next
    case moved
    with run have loop: "relative_loop hid x y os = (True, hid', os')" by (simp only: if_False)
    from relative_loop_ok [OF assms(1) loop] obtain rs where
      rs: "emitted PointerQueue (map (Pair (hid_mouse_path hid)) rs) hid os hid' os'"
      "list_all (\<lambda>r. length r = 4 \<and> r ! 0 = hid_buttons hid AND HID_MOUSE_BUTTONS_MASK \<and> r ! 3 = 0) rs"
      "sum_list (map report_dx rs) = x" "sum_list (map report_dy rs) = y" "input_state hid' = input_state hid" by blast
    have "rs \<noteq> []" using moved rs(3,4) by auto
    with rs show ?thesis by blast
  qed
qed

text \<open>The report for the side buttons, which only the absolute device has.\<close>

lemma side_part_ok:
  assumes "queues_ok hid" and run: "(if toggled then send_absolute hid False os else (True, hid, os)) = (True, hid', os')"
  shows "\<exists>side. emitted PointerQueue (map (Pair (hid_touch_path hid)) side) hid os hid' os' \<and> length side = (if toggled then 1 else 0) \<and>
      (toggled \<longrightarrow> side \<noteq> [] \<and> hd side ! 0 = hid_buttons hid AND 0x18) \<and>
      hid_buttons hid' = hid_buttons hid \<and> hid_mouse_path hid' = hid_mouse_path hid"
proof (cases toggled)
  case True
  with run have run': "send_absolute hid False os = (True, hid', os')" by simp
  note e = send_absolute_emitted [OF assms(1) run']
  have "absolute_report hid ! 0 = hid_buttons hid AND 0x18" using queues_paths [OF assms(1)]
    by (auto simp: absolute_report_def Let_def touch_buttons_def write_touch_position_def poke_def paths_ok_def)
  moreover have "hid_buttons hid' = hid_buttons hid" "hid_mouse_path hid' = hid_mouse_path hid"
    using e(1) by (simp_all add: input_state_def clear_deltas_def)
  ultimately show ?thesis using e(2,3) True by (intro exI [of _ "[absolute_report hid]"]) simp
next
  case False
  with run have "hid' = hid" "os' = os" by simp_all
  then show ?thesis using False emitted_device [of hid hid] assms(1) by (intro exI [of _ "[]"]) (simp add: same_device_def)
qed

lemma hid_relative_ok:
  assumes "queues_ok hid" and "hid_relative hid x y buttons os = (True, hid', os')"
  obtains side rs where
    "emitted PointerQueue (map (Pair (hid_touch_path hid)) side @ map (Pair (hid_mouse_path hid)) rs) hid os hid' os'"
    and "length side = (if (hid_buttons hid XOR buttons) AND 0x18 \<noteq> 0 then 1 else 0)"
    and "list_all (\<lambda>r. length r = 4 \<and> r ! 0 = buttons AND HID_MOUSE_BUTTONS_MASK \<and> r ! 3 = 0) rs"
    and "sum_list (map report_dx rs) = x" and "sum_list (map report_dy rs) = y"
    and "hid_buttons hid' = buttons AND HID_TOUCH_BUTTONS_MASK"
    and "(hid_buttons hid XOR buttons) AND 0x07 \<noteq> 0 \<longrightarrow> rs \<noteq> []"
    and "(hid_buttons hid XOR buttons) AND 0x18 \<noteq> 0 \<longrightarrow> side \<noteq> [] \<and> hd side ! 0 = buttons AND 0x18"
proof -
  let ?next = "buttons AND HID_TOUCH_BUTTONS_MASK"
  let ?changed = "hid_buttons hid XOR ?next"
  let ?h1 = "hid\<lparr>hid_buttons := ?next, hid_mouse_buttons := ?next\<rparr>"
  have dev: "same_device hid ?h1" by simp
  have ok1: "queues_ok ?h1" using same_device_cong(1) [OF dev] assms(1) by simp
  have masks: "?changed AND 0x18 = (hid_buttons hid XOR buttons) AND 0x18"
    "?changed AND HID_MOUSE_BUTTONS_MASK = (hid_buttons hid XOR buttons) AND 0x07"
    "?next AND 0x18 = buttons AND 0x18" "?next AND HID_MOUSE_BUTTONS_MASK = buttons AND HID_MOUSE_BUTTONS_MASK"
    by (simp_all add: HID_TOUCH_BUTTONS_MASK_def HID_MOUSE_BUTTONS_MASK_def bit.conj_xor_distrib2 and.assoc)
  obtain sent hid2 os2 where two: "(if ?changed AND 0x18 \<noteq> 0 then send_absolute ?h1 False os else (True, ?h1, os)) = (sent, hid2, os2)"
    by (metis prod_cases3)
  then have "sent" using assms(2) by (cases sent) (simp_all add: hid_relative_def Let_def)
  with side_part_ok [OF ok1] two obtain side where
    side: "emitted PointerQueue (map (Pair (hid_touch_path hid)) side) ?h1 os hid2 os2" "length side = (if ?changed AND 0x18 \<noteq> 0 then 1 else 0)"
    "?changed AND 0x18 \<noteq> 0 \<longrightarrow> side \<noteq> [] \<and> hd side ! 0 = ?next AND 0x18" "hid_buttons hid2 = ?next" "hid_mouse_path hid2 = hid_mouse_path hid"
    by fastforce
  have run: "(if x = 0 \<and> y = 0 then
           (if ?changed AND HID_MOUSE_BUTTONS_MASK = 0 then (True, hid2, os2) else send_relative hid2 0 0 0 os2)
         else relative_loop hid2 x y os2) = (True, hid', os')"
    using assms(2) two \<open>sent\<close> by (simp add: hid_relative_def Let_def)
  from mouse_part_ok [OF emitted_ok [OF side(1)] run]
  obtain rs where rs: "emitted PointerQueue (map (Pair (hid_mouse_path hid)) rs) hid2 os2 hid' os'"
     "list_all (\<lambda>r. length r = 4 \<and> r ! 0 = ?next AND HID_MOUSE_BUTTONS_MASK \<and> r ! 3 = 0) rs"
     "sum_list (map report_dx rs) = x" "sum_list (map report_dy rs) = y" "input_state hid' = input_state hid2"
     "?changed AND HID_MOUSE_BUTTONS_MASK \<noteq> 0 \<longrightarrow> rs \<noteq> []"
    unfolding side(4,5) by blast
  have "emitted PointerQueue (map (Pair (hid_touch_path hid)) side @ map (Pair (hid_mouse_path hid)) rs) hid os hid' os'"
    by (rule emitted_trans [OF emitted_before [OF dev side(1)] rs(1)])
  moreover have "hid_buttons hid' = ?next" using rs(5) side(4) by (simp add: input_state_def)
  ultimately show thesis using that [of side rs] rs(2,3,4,6) side(2,3) unfolding masks by blast
qed

section \<open>Release\<close>

lemma count_motions: "length (motions w hid) = q_count (the_queue w hid)"
  by (simp add: motions_def)

lemma queue_report_counts:
  assumes "queues_ok hid" and "on_queue w hid path" and "length data = endpoint_length hid (path_endpoint hid path)"
    and "queue_report w hid path data False delay_ms os = (ok, hid', os')"
  shows "q_count (the_queue w hid') \<le> Suc (q_count (the_queue w hid))"
    and "w' \<noteq> w \<Longrightarrow> q_count (the_queue w' hid') = q_count (the_queue w' hid)"
proof -
  note out = queue_report_outcome [OF assms]
  show "w' \<noteq> w \<Longrightarrow> q_count (the_queue w' hid') = q_count (the_queue w' hid)"
    using out unfolding count_motions [symmetric] by simp
  have "\<exists>k. motions w hid' = drop k (motions w hid @ [False]) \<or> motions w hid' = drop k (motions w hid)"
    using out by (auto split: if_splits)
  then show "q_count (the_queue w hid') \<le> Suc (q_count (the_queue w hid))"
    unfolding count_motions [symmetric] by (auto dest: arg_cong [of _ _ length])
qed

definition all_released :: "HidState \<Rightarrow> HidState" where
  "all_released hid =
     (reset_keyboard_state (hid\<lparr>hid_keyboard_delay_ms := 0, hid_keyboard_paste_codepoint := 0\<rparr>) False)
       \<lparr>hid_buttons := 0, hid_mouse_buttons := 0, hid_wheel_delta := 0, hid_pan_delta := 0\<rparr>"

lemma all_released_device [simp]: "same_device hid (all_released hid)"
  unfolding same_device_def all_queues by (simp add: all_released_def reset_keyboard_state_def)

text \<open>A sender whose queue has room adds its report.\<close>

lemma send_keyboard_room:
  assumes ok: "queues_ok hid" and room: "q_count (hid_keyboard_queue hid) < HID_REPORT_QUEUE_CAPACITY"
    and run: "send_keyboard hid os = (r, hid', os')"
  shows "emitted KeyboardQueue [keyboard_entry hid] hid os hid' os'" "input_state hid' = input_state hid"
    "q_count (hid_pointer_queue hid') = q_count (hid_pointer_queue hid)"
proof -
  obtain hid1 where queued: "queue_report KeyboardQueue hid (hid_keyboard_path hid) (keyboard_report hid) False
      (hid_keyboard_delay_ms hid) os = (r, hid1, os')" and hid': "hid' = update_desynced hid1"
    using run by (auto simp: send_keyboard_def split: prod.splits)
  have len: "length (keyboard_report hid) = endpoint_length hid (path_endpoint hid (hid_keyboard_path hid))" by (simp add: keyboard_path_on)
  have "hid_queue_overflows hid' = hid_queue_overflows hid"
    using queue_report_room [OF _ queued] room by (simp add: hid' update_desynced_def)
  with send_keyboard_emitted [OF ok run]
  show "emitted KeyboardQueue [keyboard_entry hid] hid os hid' os'" "input_state hid' = input_state hid" by simp_all
  show "q_count (hid_pointer_queue hid') = q_count (hid_pointer_queue hid)"
    using queue_report_counts(2) [OF ok keyboard_path_on(1) len queued, of PointerQueue] by (simp add: hid' update_desynced_def)
qed

lemma mouse_report_room:
  assumes ok: "queues_ok hid" and len: "length data = 4" and room: "q_count (hid_pointer_queue hid) < HID_REPORT_QUEUE_CAPACITY"
    and run: "queue_report PointerQueue hid (hid_mouse_path hid) data False 0 os = (r, hid', os')"
  shows "emitted PointerQueue [(hid_mouse_path hid, data)] hid os hid' os'" "input_state hid' = input_state hid"
    "q_count (hid_pointer_queue hid') \<le> Suc (q_count (hid_pointer_queue hid))"
  using mouse_report_emitted [OF ok len run] queue_report_room [OF _ run] room
    queue_report_counts(1) [OF ok mouse_path_on(1) _ run] queues_paths [OF ok] len by (simp_all add: mouse_path_on)

lemma send_absolute_room:
  assumes ok: "queues_ok hid" and room: "q_count (hid_pointer_queue hid) < HID_REPORT_QUEUE_CAPACITY"
    and run: "send_absolute hid False os = (r, hid', os')"
  shows "emitted PointerQueue [(hid_touch_path hid, absolute_report hid)] hid os hid' os'"
    "input_state hid' = input_state (clear_deltas hid)"
proof -
  have "hid_queue_overflows hid' = hid_queue_overflows hid"
    using run room by (auto simp: send_absolute_def Let_def clear_deltas_def split: prod.splits dest: queue_report_room [rotated])
  with send_absolute_emitted [OF ok run]
  show "emitted PointerQueue [(hid_touch_path hid, absolute_report hid)] hid os hid' os'"
    "input_state hid' = input_state (clear_deltas hid)" by simp_all
qed

lemma absolute_report_cong: "input_state hid' = input_state hid \<Longrightarrow> absolute_report hid' = absolute_report hid"
  by (simp add: absolute_report_def input_state_def Let_def)

lemma synchronize_ok:
  assumes ok: "queues_ok hid" and room: "q_count (hid_keyboard_queue hid) < 256" "q_count (hid_pointer_queue hid) < 255"
    and run: "hid_synchronize hid os = (r, hid', os')"
  shows "queues_ok hid' \<and> input_state hid' = input_state (all_released hid) \<and>
     stream KeyboardQueue hid' os' = stream KeyboardQueue hid os @ [(hid_keyboard_path hid, replicate 8 0)] \<and>
     stream PointerQueue hid' os' = stream PointerQueue hid os @
       [(hid_mouse_path hid, replicate 4 0), (hid_touch_path hid, absolute_report (all_released hid))]"
proof -
  let ?h1 = "all_released hid"
  obtain k hid2 os2 where two: "send_keyboard ?h1 os = (k, hid2, os2)" by (metis prod_cases3)
  obtain m hid3 os3 where three: "queue_report PointerQueue hid2 (hid_mouse_path hid2) [0, 0, 0, 0] False 0 os2 = (m, hid3, os3)" by (metis prod_cases3)
  obtain a where four: "send_absolute hid3 False os3 = (a, hid', os')"
    using run two three by (auto simp: hid_synchronize_def all_released_def Let_def split: prod.splits)
  have dev: "same_device hid ?h1" by simp
  note s1 = same_device_cong [OF dev]
  have c1: "q_count (hid_keyboard_queue ?h1) < HID_REPORT_QUEUE_CAPACITY" "q_count (hid_pointer_queue ?h1) < 255"
    using room by (simp_all add: all_released_def reset_keyboard_state_def HID_REPORT_QUEUE_CAPACITY_def)
  have "queues_ok ?h1" using s1 ok by simp
  note e2 = send_keyboard_room [OF this c1(1) two]
  have c2: "q_count (hid_pointer_queue hid2) < HID_REPORT_QUEUE_CAPACITY" using e2(3) c1(2) by (simp add: HID_REPORT_QUEUE_CAPACITY_def)
  note e3 = mouse_report_room [OF emitted_ok [OF e2(1)] _ c2 three, simplified]
  have c3: "q_count (hid_pointer_queue hid3) < HID_REPORT_QUEUE_CAPACITY" using e2(3) e3(3) c1(2) by (simp add: HID_REPORT_QUEUE_CAPACITY_def)
  note e4 = send_absolute_room [OF emitted_ok [OF e3(1)] c3 four]
  have same3: "input_state hid3 = input_state ?h1" using e2(2) e3(2) by simp
  have clear: "input_state (clear_deltas hid3) = input_state ?h1"
    using same3 by (simp add: input_state_def clear_deltas_def all_released_def)
  note report = absolute_report_cong [OF same3]
  have entry: "keyboard_entry ?h1 = (hid_keyboard_path hid, replicate 8 0)"
    using report_of_released by (simp add: keyboard_entry_of all_released_def reset_keyboard_state_def key_state_def released_def)
  have paths: "hid_mouse_path hid2 = hid_mouse_path hid" "hid_touch_path hid3 = hid_touch_path hid"
    using e2(2) same3 by (simp_all add: input_state_def all_released_def reset_keyboard_state_def)
  have zeros: "replicate 4 0 = [0, 0, 0, 0 :: byte]" by (simp add: numeral_eq_Suc)
  have "stream KeyboardQueue hid' os' = stream KeyboardQueue hid os @ [(hid_keyboard_path hid, replicate 8 0)]"
    using e2(1) e3(1) e4(1) entry s1 by (simp add: emitted_def)
  moreover have "stream PointerQueue hid' os' = stream PointerQueue hid os @
       [(hid_mouse_path hid, replicate 4 0), (hid_touch_path hid, absolute_report ?h1)]"
    using e2(1) e3(1) e4(1) paths report s1 unfolding zeros by (simp add: emitted_def)
  ultimately show ?thesis using emitted_ok [OF e4(1)] e4(2) clear by simp
qed

text \<open>What the devices of a queue have taken.\<close>

definition taken_by :: "HidQueueId \<Rightarrow> HidState \<Rightarrow> HidOs \<Rightarrow> (string \<times> byte list) list" where
  "taken_by w hid os = filter (\<lambda>e. on_queue w hid (fst e)) (os_log os)"

lemma discarded:
  assumes "queues_ok hid"
  defines "hid0 \<equiv> hid\<lparr>hid_keyboard_queue := empty_queue, hid_pointer_queue := empty_queue\<rparr>"
  shows "queues_ok hid0" "stream w hid0 os = taken_by w hid os"
proof -
  show "queues_ok hid0" using assms(1)
    unfolding queues_ok_def all_queues by (simp add: hid0_def paths_ok_def empty_queue_ok)
  show "stream w hid0 os = taken_by w hid os"
    by (cases w) (simp_all add: stream_def taken_by_def hid0_def empty_queue_ok)
qed

lemma hid_released:
  assumes "queues_ok hid" and "hid_release_all hid os = (hid', os')"
  shows "key_state hid' = released \<and> hid_buttons hid' = 0 \<and> queues_ok hid' \<and>
     stream KeyboardQueue hid' os' = taken_by KeyboardQueue hid os @ [(hid_keyboard_path hid, replicate 8 0)] \<and>
     (\<exists>r. r ! 0 = 0 \<and> stream PointerQueue hid' os' =
        taken_by PointerQueue hid os @ [(hid_mouse_path hid, replicate 4 0), (hid_touch_path hid, r)])"
proof -
  let ?h0 = "hid\<lparr>hid_keyboard_queue := empty_queue, hid_pointer_queue := empty_queue\<rparr>"
  obtain ok where run: "hid_synchronize ?h0 os = (ok, hid', os')"
    using assms(2) by (auto simp: hid_release_all_def split: prod.splits)
  note d = discarded [OF assms(1)]
  note sync = synchronize_ok [OF d(1) _ _ run, unfolded d(2)]
  have "paths_ok ?h0" using d(1) by (rule queues_paths)
  then have "absolute_report (all_released ?h0) ! 0 = 0"
    by (auto simp: absolute_report_def Let_def touch_buttons_def write_touch_position_def poke_def paths_ok_def all_released_def reset_keyboard_state_def)
  with sync show ?thesis
    by (auto simp: empty_queue_def key_state_def released_def input_state_def all_released_def reset_keyboard_state_def)
qed

section \<open>Typing on a working device succeeds\<close>

definition free_slots :: "HidState \<Rightarrow> nat" where
  "free_slots hid = HID_REPORT_QUEUE_CAPACITY - q_count (hid_keyboard_queue hid)"

definition can_type :: "HidState \<Rightarrow> HidOs \<Rightarrow> bool" where
  "can_type hid os \<longleftrightarrow> healthy KeyboardQueue hid os \<and> hid_keyboard_paste_codepoint hid = 0"

lemma can_type_device:
  assumes "can_type hid os" and "same_device hid hid'" and "hid_keyboard_paste_codepoint hid' = 0"
    and "hid_keyboard_fd hid' = hid_keyboard_fd hid" "hid_mouse_fd hid' = hid_mouse_fd hid" "hid_touch_fd hid' = hid_touch_fd hid"
  shows "can_type hid' os" and "free_slots hid' = free_slots hid"
proof -
  have queue: "the_queue w hid' = the_queue w hid" for w using assms(2) by (simp add: same_device_def)
  show "can_type hid' os"
    using assms same_device_cong(1) [OF assms(2)] unfolding can_type_def healthy_def queue by simp
  show "free_slots hid' = free_slots hid" using queue [of KeyboardQueue] by (simp add: free_slots_def)
qed

lemma queue_report_succeeds:
  assumes h: "healthy w hid os" and room: "q_count (the_queue w hid) < HID_REPORT_QUEUE_CAPACITY"
    and path: "on_queue w hid path" and len: "length data = endpoint_length hid (path_endpoint hid path)"
    and paste: "w = KeyboardQueue \<Longrightarrow> hid_keyboard_paste_codepoint hid = 0"
  obtains hid' os' where "queue_report w hid path data False delay_ms os = (True, hid', os')" and "healthy w hid' os'"
    and "q_count (the_queue w hid') \<le> Suc (q_count (the_queue w hid))"
proof -
  let ?q = "the_queue w hid"
  let ?r = "new_report w hid path data False delay_ms (os_now os)"
  let ?h = "set_queue w (push_report ?q ?r) hid"
  have ok: "queues_ok hid" using h by (simp add: healthy_def)
  have clock: "hid_now os = (os_now os, os)" using h by (simp add: hid_now_def healthy_def)
  have ring: "ring_ok ?q" using ok unfolding queues_ok_def queue_ok_def by blast
  have push: "pending (push_report ?q ?r) = pending ?q @ [?r]" using ring.push [OF ring, of ?r] room by simp
  have "queues_ok ?h" using pushed_stream [OF ok path len room] by blast
  then have "healthy w ?h os"
    using h push paste unfolding healthy_def by (simp add: push_report_def new_report_def)
  from working_flush [OF this] obtain hid1 os1 where f: "flush_reports w ?h os = (True, hid1, os1)"
    "healthy w hid1 os1" "q_count (the_queue w hid1) \<le> Suc (q_count (the_queue w hid))"
    by (auto simp: push_report_def)
  then show thesis using room clock by (intro that [of hid1 os1]) (simp_all add: queue_report_def mergeable_def Let_def)
qed

lemma send_keyboard_succeeds:
  assumes "can_type hid os" and "0 < free_slots hid"
  obtains hid' os' where "send_keyboard hid os = (True, hid', os')" and "can_type hid' os'"
    and "free_slots hid \<le> Suc (free_slots hid')"
proof -
  have h: "healthy KeyboardQueue hid os" and paste: "hid_keyboard_paste_codepoint hid = 0" using assms(1) by (simp_all add: can_type_def)
  have ok: "queues_ok hid" using h by (simp add: healthy_def)
  have room: "q_count (the_queue KeyboardQueue hid) < HID_REPORT_QUEUE_CAPACITY" using assms(2) by (simp add: free_slots_def)
  have len: "length (keyboard_report hid) = endpoint_length hid (path_endpoint hid (hid_keyboard_path hid))" by (simp add: keyboard_path_on)
  obtain hid1 os1 where q: "queue_report KeyboardQueue hid (hid_keyboard_path hid) (keyboard_report hid) False (hid_keyboard_delay_ms hid) os = (True, hid1, os1)"
    "healthy KeyboardQueue hid1 os1" "q_count (the_queue KeyboardQueue hid1) \<le> Suc (q_count (the_queue KeyboardQueue hid))"
    by (rule queue_report_succeeds [OF h room keyboard_path_on(1) len paste])
  have run: "send_keyboard hid os = (True, update_desynced hid1, os1)" using q(1) by (simp add: send_keyboard_def)
  have "hid_keyboard_paste_codepoint hid1 = 0"
    using send_keyboard_ok(1) [OF ok run] paste by (simp add: input_state_def update_desynced_def)
  then have ready: "can_type hid1 os1" "hid_keyboard_paste_codepoint (update_desynced hid1) = 0"
    using q(2) by (simp_all add: can_type_def update_desynced_def)
  have dev: "same_device hid1 (update_desynced hid1)" by simp
  have "can_type (update_desynced hid1) os1" "free_slots (update_desynced hid1) = free_slots hid1"
    using can_type_device [OF ready(1) dev ready(2)] by (simp_all add: update_desynced_def)
  with run q(3) that show thesis by (simp add: free_slots_def)
qed

lemma send_relative_succeeds:
  assumes "healthy PointerQueue hid os" and "q_count (hid_pointer_queue hid) < HID_REPORT_QUEUE_CAPACITY"
  obtains hid' os' where "send_relative hid dx dy wheel os = (True, hid', os')" and "healthy PointerQueue hid' os'"
    and "q_count (hid_pointer_queue hid') \<le> Suc (q_count (hid_pointer_queue hid))"
proof -
  have paths: "paths_ok hid" using assms(1) by (simp add: healthy_def queues_ok_def)
  have room: "q_count (the_queue PointerQueue hid) < HID_REPORT_QUEUE_CAPACITY" using assms(2) by simp
  have len: "length (relative_report hid dx dy wheel) = endpoint_length hid (path_endpoint hid (hid_mouse_path hid))"
    using paths by (simp add: mouse_path_on relative_report_def)
  show thesis
    using queue_report_succeeds [OF assms(1) room mouse_path_on(1) [OF paths] len] that by (simp add: send_relative_def) blast
qed

lemma tap_succeeds:
  assumes "can_type hid os" and "2 \<le> free_slots hid"
  obtains hid' os' where "tap_text_key hid key os = (True, hid', os')" and "can_type hid' os'"
    and "free_slots hid \<le> free_slots hid' + 2"
proof -
  let ?h1 = "hid\<lparr>hid_modifiers := hid_modifiers hid OR tk_modifier key, hid_usages := (hid_usages hid)(tk_usage key := True)\<rparr>"
  have h1: "can_type ?h1 os" "free_slots ?h1 = free_slots hid"
    using assms(1) by (rule can_type_device; simp add: can_type_def)+
  obtain hid2 os2 where two: "send_keyboard ?h1 os = (True, hid2, os2)" "can_type hid2 os2" "free_slots hid \<le> Suc (free_slots hid2)"
    using send_keyboard_succeeds [OF h1(1)] h1(2) assms(2) by auto
  let ?h3 = "hid2\<lparr>hid_modifiers := hid_modifiers hid, hid_usages := (hid_usages hid2)(tk_usage key := hid_usages hid (tk_usage key))\<rparr>"
  have h3: "can_type ?h3 os2" "free_slots ?h3 = free_slots hid2"
    using two(2) by (rule can_type_device; simp add: can_type_def)+
  obtain hid4 os4 where four: "send_keyboard ?h3 os2 = (True, hid4, os4)" "can_type hid4 os4" "free_slots hid2 \<le> Suc (free_slots hid4)"
    using send_keyboard_succeeds [OF h3(1)] h3(2) two(3) assms(2) by auto
  show thesis
    using two four by (intro that [of hid4 os4]) (simp_all add: tap_text_key_def Let_def)
qed

lemma ascii_sequence_succeeds:
  assumes "can_type hid os" and "list_all typeable (map of_char cs)" and "2 * length cs \<le> free_slots hid"
  shows "\<exists>hid' os'. type_ascii_sequence hid cs os = (True, hid', os') \<and> can_type hid' os' \<and>
     free_slots hid \<le> free_slots hid' + 2 * length cs"
  using assms
proof (induction cs arbitrary: hid os)
  case (Cons c cs)
  have "typeable (of_char c)" using Cons.prems(2) by simp
  then obtain key where key: "ascii_to_hid (of_char c) = Some key" by (rule ascii_typeable)
  have "2 \<le> free_slots hid" using Cons.prems(3) by simp
  from tap_succeeds [OF Cons.prems(1) this, of key] obtain hid1 os1 where
    tap: "tap_text_key hid key os = (True, hid1, os1)" "can_type hid1 os1" "free_slots hid \<le> free_slots hid1 + 2" .
  have "list_all typeable (map of_char cs)" "2 * length cs \<le> free_slots hid1" using Cons.prems(2,3) tap(3) by simp_all
  from Cons.IH [OF tap(2) this] show ?case using key tap by fastforce
qed simp

lemma sequences_succeed:
  assumes "can_type hid os" and "list_all typeable (map of_char (concat xs))" and "2 * length (concat xs) \<le> free_slots hid"
  shows "\<exists>hid' os'. type_sequences hid xs os = (True, hid', os') \<and> can_type hid' os' \<and>
     free_slots hid \<le> free_slots hid' + 2 * length (concat xs)"
  using assms
proof (induction xs arbitrary: hid os)
  case (Cons x xs)
  have x: "list_all typeable (map of_char x)" "2 * length x \<le> free_slots hid" using Cons.prems(2,3) by simp_all
  obtain hid1 os1 where first: "type_ascii_sequence hid x os = (True, hid1, os1)" "can_type hid1 os1" "free_slots hid \<le> free_slots hid1 + 2 * length x"
    using ascii_sequence_succeeds [OF Cons.prems(1) x] by blast
  have "list_all typeable (map of_char (concat xs))" "2 * length (concat xs) \<le> free_slots hid1" using Cons.prems(2,3) first(3) by simp_all
  from Cons.IH [OF first(2) this] show ?case using first by (fastforce simp: type_sequences_def)
qed (simp add: type_sequences_def)

text \<open>A code point that is typed with keys, all of which exist.\<close>

definition keyed :: "u32 \<Rightarrow> bool" where
  "keyed codepoint \<longleftrightarrow> typed_directly codepoint \<and> list_all typeable (typed_letters codepoint)"

lemma codepoint_succeeds:
  assumes "can_type hid os" and "keyed codepoint" and "2 * length (typed_letters codepoint) \<le> free_slots hid"
  shows "\<exists>hid' os'. enter_codepoint hid codepoint os = (True, hid', os') \<and> can_type hid' os' \<and>
     free_slots hid \<le> free_slots hid' + 2 * length (typed_letters codepoint)"
proof -
  have enter: "enter_codepoint hid codepoint os = type_codepoint hid codepoint os"
    using assms(2) by (simp add: enter_codepoint_def keyed_def)
  consider (ascii) "codepoint \<le> 0x7f" | (syllable) lead vowel trail where "\<not> codepoint \<le> 0x7f" "codepoint_to_hangul_sequences codepoint = Some (lead, vowel, trail)"
    | (jamo) keys where "\<not> codepoint \<le> 0x7f" "codepoint_to_hangul_sequences codepoint = None" "hangul_jamo_sequence codepoint = Some keys"
    using assms(2) by (cases "codepoint_to_hangul_sequences codepoint")
      (auto simp: keyed_def typed_directly_def codepoint_to_hangul_sequences_def Let_def split: if_splits)
  then show ?thesis
  proof cases
    case ascii
    then have "typeable (ucast codepoint)" using assms(2) by (simp add: keyed_def typed_letters_def)
    then obtain key where key: "ascii_to_hid (ucast codepoint) = Some key" by (rule ascii_typeable)
    obtain hid1 os1 where "tap_text_key hid key os = (True, hid1, os1)" "can_type hid1 os1" "free_slots hid \<le> free_slots hid1 + 2"
      using tap_succeeds [OF assms(1)] assms(3) ascii by (auto simp: typed_letters_def)
    then show ?thesis unfolding enter using ascii key by (simp add: type_codepoint_def typed_letters_def)
  next
    case syllable
    then show ?thesis unfolding enter using sequences_succeed [OF assms(1), of "[lead, vowel, trail]"] assms(2,3)
      by (simp add: type_codepoint_def typed_letters_def keyed_def)
  next
    case jamo
    then show ?thesis unfolding enter using ascii_sequence_succeeds [OF assms(1), of keys] assms(2,3)
      by (simp add: type_codepoint_def typed_letters_def keyed_def)
  qed
qed

lemma type_from_succeeds:
  assumes "can_type hid os" and "map utf8_encode codepoints = map Some encodings" and "list_all keyed codepoints"
    and "2 * length (concat (map typed_letters codepoints)) \<le> free_slots hid"
  shows "\<exists>hid' os'. type_from hid (pre @ concat encodings) (length pre) os = (True, hid', os') \<and> can_type hid' os'"
  using assms
proof (induction codepoints arbitrary: hid os pre encodings)
  case Nil
  then show ?case by (simp add: type_from.simps)
next
  case (Cons codepoint codepoints)
  obtain e es where enc: "encodings = e # es" "utf8_encode codepoint = Some e" "map utf8_encode codepoints = map Some es"
    using Cons.prems(2) by (cases encodings) auto
  have decode: "utf8_decode (pre @ concat encodings) (length pre) = Some (codepoint, length (pre @ e))"
    using decode_encoded [OF enc(2), of pre "concat es"] enc(1) by simp
  have inside: "length pre < length (pre @ concat encodings)" using encode_decoded [OF decode] by linarith
  have "keyed codepoint" "2 * length (typed_letters codepoint) \<le> free_slots hid" using Cons.prems(3,4) by simp_all
  from codepoint_succeeds [OF Cons.prems(1) this] obtain hid1 os1 where
    first: "enter_codepoint hid codepoint os = (True, hid1, os1)" "can_type hid1 os1"
    "free_slots hid \<le> free_slots hid1 + 2 * length (typed_letters codepoint)" by blast
  have "type_from hid (pre @ concat encodings) (length pre) os = type_from hid1 (pre @ concat encodings) (length (pre @ e)) os1"
    using decode first(1) inside by (subst type_from.simps) (simp only: not_le [symmetric] if_False option.case prod.case if_True)
  then show ?case
    using Cons.IH [OF first(2) enc(3), of "pre @ e"] Cons.prems(3,4) first(3) enc(1) by simp
qed

lemma type_utf8_succeeds:
  assumes "can_type hid os" and "map utf8_encode codepoints = map Some encodings" and "list_all keyed codepoints" and "codepoints \<noteq> []"
    and "Suc (2 * length (concat (map typed_letters codepoints))) \<le> free_slots hid"
    and single: "\<not> (length (concat encodings) = 1 \<and> hid_modifiers hid \<noteq> 0)"
  obtains hid' os' where "hid_type_utf8 hid (concat encodings) os = (True, hid', os')"
proof -
  let ?h0 = "reset_keyboard_state (hid\<lparr>hid_keyboard_delay_ms := 20\<rparr>) False"
  have dev: "same_device hid ?h0" by (rule same_device_trans [of _ "hid\<lparr>hid_keyboard_delay_ms := 20\<rparr>"]) simp_all
  have h0: "can_type ?h0 os" "free_slots ?h0 = free_slots hid"
    using assms(1) dev by (rule can_type_device; simp add: can_type_def reset_keyboard_state_def)+
  obtain hid1 os1 where first: "send_keyboard ?h0 os = (True, hid1, os1)" "can_type hid1 os1" "free_slots hid \<le> Suc (free_slots hid1)"
    using send_keyboard_succeeds [OF h0(1)] h0(2) assms(5) by auto
  obtain hid2 os2 where second: "type_from hid1 (concat encodings) 0 os1 = (True, hid2, os2)"
    using type_from_succeeds [OF first(2) assms(2,3), of "[]"] assms(5) first(3) by auto
  obtain e es cp cps where parts: "encodings = e # es" "codepoints = cp # cps" "utf8_encode cp = Some e" using assms(2,4)
    by (cases encodings; cases codepoints) auto
  have "utf8_decode (concat encodings) 0 = Some (cp, length e)" using decode_encoded [OF parts(3), of "[]" "concat es"] parts(1) by simp
  then have "concat encodings \<noteq> []" using encode_decoded by fastforce
  then show thesis using first(1) second single
    by (intro that) (auto simp: hid_type_utf8_def Let_def split: if_splits)
qed

section \<open>Properties\<close>


lemma sample_types: "can_type sample_hid sample_os" "free_slots sample_hid = 256"
proof -
  have "hid_keyboard_fd sample_hid = 3" "hid_mouse_fd sample_hid = 5" "hid_touch_fd sample_hid = 6"
    by (simp_all add: sample_hid_def sample_os_def hid_init_def Let_def hid_now_def open_hid_fd_def open_keyboard_feedback_def
        sys_open_def is_hid_gadget_def PATH_SIZE_def)
  moreover have "hid_keyboard_paste_codepoint sample_hid = 0"
    by (simp add: sample_hid_def hid_init_def Let_def split: prod.splits)
  moreover have "pending (the_queue KeyboardQueue sample_hid) = []" "q_blocked_at (the_queue KeyboardQueue sample_hid) = 0"
    by (simp_all only: sample_fields empty_queue_ok) (simp add: empty_queue_def)
  ultimately show "can_type sample_hid sample_os"
    unfolding can_type_def healthy_def by (simp add: sample_fields sample_os_def empty_queue_ok)
  show "free_slots sample_hid = 256"
    using sample_fields(7) [of KeyboardQueue] by (simp add: free_slots_def empty_queue_def HID_REPORT_QUEUE_CAPACITY_def)
qed

lemma sample_text:
  "map utf8_encode [0x41, 0xd55c] = map Some [[0x41], [0xed, 0x95, 0x9c]]" "list_all typed_directly [0x41, 0xd55c]"
  "typed_letters 0x41 = [0x41]" "typed_letters 0xd55c = [0x67, 0x6b, 0x73]"
proof -
  show "map utf8_encode [0x41, 0xd55c] = map Some [[0x41], [0xed, 0x95, 0x9c]]" by (simp add: utf8_encode_def)
  show "list_all typed_directly [0x41, 0xd55c]" by (simp add: typed_directly_def)
  show "typed_letters 0x41 = [0x41]" by (simp add: typed_letters_def)
  show "typed_letters 0xd55c = [0x67, 0x6b, 0x73]" by code_simp
qed




text \<open>
  C19: The host follows the keys. After any sequence of key events that were all accepted, the keys held
  are those that result from the events, modifiers included, and the last keyboard report shows exactly
  this state; repeated presses and releases of keys that are not held add no report.
\<close>

theorem hid_keys_tracked:
  assumes "queues_ok hid" and "scancodes hid events os = (True, hid', os')"
    and "stream KeyboardQueue hid os \<noteq> []" and "last (stream KeyboardQueue hid os) = keyboard_entry hid"
  shows "key_state hid' = foldl key_event (key_state hid) events \<and>
     last (stream KeyboardQueue hid' os') = (hid_keyboard_path hid, report_of (foldl key_event (key_state hid) events)) \<and>
     stream PointerQueue hid' os' = stream PointerQueue hid os"
  using scancodes_ok [OF assms] by (auto simp: keyboard_entry_of emitted_def same_paths_def)

theorem hid_keys_tracked_witness:
  "\<exists>hid' os'. scancodes sample_hid [(0x1e, False, False)] (sample_os\<lparr>os_log := [(''/dev/hidg0'', replicate 8 0)]\<rparr>) = (True, hid', os') \<and>
     key_state hid' = (0, (\<lambda>_. False)(0x04 := True)) \<and>
     last (stream KeyboardQueue hid' os') = (''/dev/hidg0'', [0, 0, 0x04, 0, 0, 0, 0, 0])"
proof -
  let ?os = "sample_os\<lparr>os_log := [(''/dev/hidg0'', replicate 8 0)]\<rparr>" and ?h = "set_key sample_hid 0x04 0 False"
  have code: "hid_translate_scancode 0x1e False = Some (0x04, 0)" by code_simp
  have "can_type sample_hid ?os" using sample_types(1) by (simp add: can_type_def healthy_def)
  then have h: "can_type ?h ?os" "free_slots ?h = free_slots sample_hid"
    by (rule can_type_device; simp add: can_type_def set_key_def)+
  obtain hid' os' where sent: "send_keyboard ?h ?os = (True, hid', os')"
    by (rule send_keyboard_succeeds [OF h(1)]) (simp_all add: h(2) sample_types(2))
  have run: "scancodes sample_hid [(0x1e, False, False)] ?os = (True, hid', os')"
    using sent code by (simp add: hid_scancode_def key_held_def sample_fields)
  have stream: "stream KeyboardQueue sample_hid ?os = [(''/dev/hidg0'', replicate 8 0)]"
    using sample_fields(7) [of KeyboardQueue] by (simp add: stream_def sample_fields empty_queue_ok)
  have entry: "keyboard_entry sample_hid = (''/dev/hidg0'', replicate 8 0)"
    using report_of_released by (simp add: keyboard_entry_of key_state_def released_def sample_fields)
  have keys: "key_event (key_state sample_hid) (0x1e, False, False) = (0, (\<lambda>_. False)(0x04 := True))"
    by (simp add: key_state_def sample_fields code)
  have report: "report_of (0, (\<lambda>_. False)(0x04 := True)) = [0, 0, 0x04, 0, 0, 0, 0, 0]"
    by (simp add: report_of_def keys_down_single numeral_eq_Suc)
  show ?thesis
    using hid_keys_tracked [OF sample_fields(9) run] run by (simp add: stream entry keys report sample_fields)
qed

text \<open>
  C20: Relative motion is exact. When a relative pointer event is accepted, the reports added for the mouse
  carry the new buttons and displacements whose sums are the requested ones, for any distance, although
  one report only has room for \<open>-127\<close> to \<open>127\<close>; a click without motion gives at least one report; and a
  change of the side buttons is reported once by the absolute device before them.
\<close>

theorem hid_relative_exact:
  assumes "queues_ok hid" and "hid_relative hid x y buttons os = (True, hid', os')"
  shows "\<exists>side rs. stream PointerQueue hid' os' =
       stream PointerQueue hid os @ map (Pair (hid_touch_path hid)) side @ map (Pair (hid_mouse_path hid)) rs \<and>
     list_all (\<lambda>r. length r = 4 \<and> r ! 0 = buttons AND HID_MOUSE_BUTTONS_MASK \<and> r ! 3 = 0) rs \<and>
     sum_list (map report_dx rs) = x \<and> sum_list (map report_dy rs) = y \<and> length side = (if (hid_buttons hid XOR buttons) AND 0x18 \<noteq> 0 then 1 else 0) \<and>
     ((hid_buttons hid XOR buttons) AND 0x07 \<noteq> 0 \<longrightarrow> rs \<noteq> []) \<and>
     ((hid_buttons hid XOR buttons) AND 0x18 \<noteq> 0 \<longrightarrow> side \<noteq> [] \<and> hd side ! 0 = buttons AND 0x18)"
proof -
  obtain side rs where
    "emitted PointerQueue (map (Pair (hid_touch_path hid)) side @ map (Pair (hid_mouse_path hid)) rs) hid os hid' os'"
    and "length side = (if (hid_buttons hid XOR buttons) AND 0x18 \<noteq> 0 then 1 else 0)" and "list_all (\<lambda>r. length r = 4 \<and> r ! 0 = buttons AND HID_MOUSE_BUTTONS_MASK \<and> r ! 3 = 0) rs"
    and "sum_list (map report_dx rs) = x" and "sum_list (map report_dy rs) = y"
    and "(hid_buttons hid XOR buttons) AND 0x07 \<noteq> 0 \<longrightarrow> rs \<noteq> []"
    and "(hid_buttons hid XOR buttons) AND 0x18 \<noteq> 0 \<longrightarrow> side \<noteq> [] \<and> hd side ! 0 = buttons AND 0x18"
    by (rule hid_relative_ok [OF assms])
  then show ?thesis unfolding emitted_def by blast
qed

theorem hid_relative_exact_witness:
  "\<exists>hid' os' rs. hid_relative sample_hid 200 (- 3) 1 sample_os = (True, hid', os') \<and>
     stream PointerQueue hid' os' = map (Pair ''/dev/hidg1'') rs \<and>
     sum_list (map report_dx rs) = 200 \<and> sum_list (map report_dy rs) = - 3"
proof -
  let ?h = "sample_hid\<lparr>hid_buttons := 1, hid_mouse_buttons := 1\<rparr>"
  have dev: "same_device sample_hid ?h" by simp
  have h: "healthy PointerQueue ?h sample_os"
    using same_device_cong(1) [OF dev] sample_types(1) sample_fields(7) [of PointerQueue]
    by (simp add: can_type_def healthy_def empty_queue_ok) (simp add: empty_queue_def)
  have empty: "q_count (hid_pointer_queue ?h) = 0" using sample_fields(7) [of PointerQueue] by (simp add: empty_queue_def)
  then have room: "q_count (hid_pointer_queue ?h) < HID_REPORT_QUEUE_CAPACITY" by (simp add: HID_REPORT_QUEUE_CAPACITY_def)
  obtain hid1 os1 where one: "send_relative ?h 127 (- 3) 0 sample_os = (True, hid1, os1)" "healthy PointerQueue hid1 os1"
    "q_count (hid_pointer_queue hid1) \<le> Suc (q_count (hid_pointer_queue ?h))"
    by (rule send_relative_succeeds [OF h room])
  then have room1: "q_count (hid_pointer_queue hid1) < HID_REPORT_QUEUE_CAPACITY" using empty by (simp add: HID_REPORT_QUEUE_CAPACITY_def)
  obtain hid2 os2 where two: "send_relative hid1 73 0 0 os1 = (True, hid2, os2)"
    by (rule send_relative_succeeds [OF one(2) room1])
  have run: "hid_relative sample_hid 200 (- 3) 1 sample_os = (True, hid2, os2)"
    using one(1) two
    by (simp add: hid_relative_def Let_def HID_TOUCH_BUTTONS_MASK_def sample_fields relative_loop.simps chunk_def)
  from hid_relative_exact [OF sample_fields(9) run] obtain side rs where
    "stream PointerQueue hid2 os2 = map (Pair ''/dev/hidg2'') side @ map (Pair ''/dev/hidg1'') rs"
    "sum_list (map report_dx rs) = 200" "sum_list (map report_dy rs) = - 3" "side = []"
    by (auto simp: sample_fields sample_stream sample_os_def)
  with run show ?thesis by (intro exI [of _ hid2] exI [of _ os2] exI [of _ rs]) simp
qed

text \<open>
  C21: A release always gets through to the queue. Whatever was held or waiting, and whatever the devices
  answer, after a release no key, modifier or button is held, the waiting reports are gone, and the
  streams end in the all-zero keyboard and mouse reports and an absolute report without buttons.
\<close>

theorem hid_release_all_neutral:
  assumes "queues_ok hid" and "hid_release_all hid os = (hid', os')"
  shows "key_state hid' = released \<and> hid_buttons hid' = 0 \<and> queues_ok hid' \<and>
     stream KeyboardQueue hid' os' = taken_by KeyboardQueue hid os @ [(hid_keyboard_path hid, replicate 8 0)] \<and>
     (\<exists>r. r ! 0 = 0 \<and> stream PointerQueue hid' os' =
        taken_by PointerQueue hid os @ [(hid_mouse_path hid, replicate 4 0), (hid_touch_path hid, r)])"
  using hid_released [OF assms] .

theorem hid_release_all_neutral_witness:
  "\<exists>hid' os'. hid_release_all (sample_hid\<lparr>hid_modifiers := 2\<rparr>) sample_os = (hid', os') \<and> key_state hid' = released \<and>
     stream KeyboardQueue hid' os' = [(''/dev/hidg0'', replicate 8 0)]"
proof -
  let ?h = "sample_hid\<lparr>hid_modifiers := 2\<rparr>"
  obtain hid' os' where run: "hid_release_all ?h sample_os = (hid', os')" by (rule prod.exhaust)
  have dev: "same_device sample_hid ?h" by simp
  have "queues_ok ?h" using same_device_cong(1) [OF dev] sample_fields(9) by simp
  from hid_release_all_neutral [OF this run] run show ?thesis by (simp add: taken_by_def sample_os_def sample_fields)
qed

end
