(* ===== verification/InputRouter.thy ===== *)
theory InputRouter
  imports Protocol HidKeys
begin

text \<open>
  The input router of the gateway (\<open>input_router.c\<close>): it turns keyboard, text and pointer events into
  control messages for the agent and follows the modifiers and buttons that are down.
\<close>

section \<open>State and messages\<close>

record InputRouterMessage =
  irm_type :: byte
  irm_payload :: "byte list"
  irm_length :: u16

record InputRouter =
  ir_width :: u16
  ir_height :: u16
  ir_swap_alt_command :: bool
  ir_pointer_buttons :: byte
  ir_keyboard_modifiers :: byte
  ir_control_space_down :: bool

definition clear_message :: InputRouterMessage where
  "clear_message = \<lparr>irm_type = 0, irm_payload = replicate 12 0, irm_length = 0\<rparr>"

definition input_router_init :: "u16 \<Rightarrow> u16 \<Rightarrow> bool \<Rightarrow> InputRouter" where
  "input_router_init width height swap_alt_command =
     \<lparr>ir_width = width, ir_height = height, ir_swap_alt_command = swap_alt_command, ir_pointer_buttons = 0,
      ir_keyboard_modifiers = 0, ir_control_space_down = False\<rparr>"

section \<open>Events\<close>

definition bool_byte :: "bool \<Rightarrow> byte" where
  "bool_byte b = (if b then 1 else 0)"

definition input_router_keyboard :: "InputRouter \<Rightarrow> byte \<Rightarrow> bool \<Rightarrow> bool \<Rightarrow> InputRouter \<times> InputRouterMessage" where
  "input_router_keyboard router code extended release =
     (let (mapped_code, mapped_extended) = hid_map_scancode code extended (ir_swap_alt_command router);
          modifier = (case hid_translate_scancode mapped_code mapped_extended of None \<Rightarrow> 0 | Some (usage, modifier) \<Rightarrow> modifier);
          modifiers = (if release then ir_keyboard_modifiers router AND NOT modifier else ir_keyboard_modifiers router OR modifier);
          router1 = router\<lparr>ir_keyboard_modifiers := modifiers\<rparr>;
          router2 = (if code = 0x39 \<and> \<not> extended \<and> (modifiers AND 0x11 \<noteq> 0 \<or> ir_control_space_down router1)
                     then router1\<lparr>ir_control_space_down := \<not> release\<rparr> else router1)
      in (router2, clear_message\<lparr>irm_type := control_code CONTROL_KEY,
                      irm_payload := poke (irm_payload clear_message) 0 [mapped_code, bool_byte mapped_extended, bool_byte release],
                      irm_length := NANOKVM_KEY_PAYLOAD_SIZE\<rparr>))"

text \<open>The first component is the returned flag.\<close>

definition input_router_unicode :: "InputRouter \<Rightarrow> u16 \<Rightarrow> bool \<Rightarrow> bool \<times> InputRouterMessage" where
  "input_router_unicode router code release =
     (if release then (True, clear_message)
      else if code = 0 \<or> (0xd800 \<le> code \<and> code \<le> 0xdfff) then (False, clear_message)
      else
        let message = clear_message\<lparr>irm_type := control_code CONTROL_TEXT_UTF8\<rparr>;
            bytes = (if code \<le> 0x007f then [ucast code]
                     else if code \<le> 0x07ff then [ucast (0xc0 OR drop_bit 6 code), ucast (0x80 OR (code AND 0x3f))]
                     else [ucast (0xe0 OR drop_bit 12 code), ucast (0x80 OR (drop_bit 6 code AND 0x3f)), ucast (0x80 OR (code AND 0x3f))])
        in (True, message\<lparr>irm_payload := poke (irm_payload message) 0 bytes, irm_length := of_nat (length bytes)\<rparr>))"

definition release_state :: "InputRouter \<Rightarrow> InputRouter" where
  "release_state router = router\<lparr>ir_pointer_buttons := 0, ir_keyboard_modifiers := 0, ir_control_space_down := False\<rparr>"

definition input_router_synchronize :: "InputRouter \<Rightarrow> InputRouter \<times> InputRouterMessage" where
  "input_router_synchronize router = (release_state router, clear_message\<lparr>irm_type := control_code CONTROL_SYNCHRONIZE\<rparr>)"

definition input_router_release_all :: "InputRouter \<Rightarrow> InputRouter \<times> InputRouterMessage" where
  "input_router_release_all router = (release_state router, clear_message\<lparr>irm_type := control_code CONTROL_RELEASE_ALL\<rparr>)"

definition wheel_message :: "u16 \<Rightarrow> InputRouterMessage" where
  "wheel_message flags = clear_message\<lparr>irm_type := control_code CONTROL_WHEEL,
     irm_payload := poke (irm_payload clear_message) 0 (protocol_write_u16 flags), irm_length := 2\<rparr>"

definition input_router_absolute_pointer ::
  "InputRouter \<Rightarrow> u16 \<Rightarrow> u16 \<Rightarrow> u16 \<Rightarrow> bool \<Rightarrow> InputRouter \<times> InputRouterMessage" where
  "input_router_absolute_pointer router x y flags wheel =
     (if wheel then (router, wheel_message flags)
      else
        let router1 = router\<lparr>ir_pointer_buttons := hid_pointer_buttons (ir_pointer_buttons router) flags\<rparr>
        in (router1, clear_message\<lparr>irm_type := control_code CONTROL_POINTER_ABS,
              irm_payload := poke (irm_payload clear_message) 0
                (protocol_write_u16 (hid_clamp_absolute x (ir_width router1)) @
                 protocol_write_u16 (hid_clamp_absolute y (ir_height router1)) @
                 protocol_write_u16 (ir_width router1) @ protocol_write_u16 (ir_height router1) @ protocol_write_u16 flags),
              irm_length := 12\<rparr>))"

text \<open>The deltas are \<open>int16_t\<close>, given by their bit patterns.\<close>

definition input_router_relative_pointer ::
  "InputRouter \<Rightarrow> u16 \<Rightarrow> u16 \<Rightarrow> u16 \<Rightarrow> bool \<Rightarrow> InputRouter \<times> InputRouterMessage" where
  "input_router_relative_pointer router x_delta y_delta flags wheel =
     (if wheel then (router, wheel_message flags)
      else
        let router1 = router\<lparr>ir_pointer_buttons := hid_pointer_buttons (ir_pointer_buttons router) flags\<rparr>
        in (router1, clear_message\<lparr>irm_type := control_code CONTROL_POINTER_REL,
              irm_payload := poke (irm_payload clear_message) 0
                (protocol_write_u16 x_delta @ protocol_write_u16 y_delta @ [ir_pointer_buttons router1]),
              irm_length := 5\<rparr>))"

section \<open>Lemmas\<close>

lemma clear_payload [simp]: "irm_payload clear_message = [0, 0, 0, 0, 0, 0, 0, 0, 0, 0, 0, 0]"
  by (simp add: clear_message_def numeral_eq_Suc)

lemma write_u16_two: "protocol_write_u16 v = [ucast (drop_bit 8 v), ucast v]"
  by (simp add: protocol_write_u16_def)

lemma poke_front_lit [simp]: "poke (a # as) 0 (b # bs) = b # poke as 0 bs" "poke as 0 [] = as"
  by (simp_all add: poke_def)

text \<open>Swapping the Alt and Command keys twice gives the original key.\<close>

lemma swap_involution:
  "(case hid_map_scancode code extended swap of (c, e) \<Rightarrow> hid_map_scancode c e swap) = (code, extended)"
  by (auto simp: hid_map_scancode_def)

lemma narrow_drop: "k \<le> 24 \<Longrightarrow> (ucast (drop_bit k (ucast (c :: u16) :: u32)) :: byte) = ucast (drop_bit k c)"
  by (rule bit_eqI) (auto simp: bit_ucast_iff bit_drop_bit_eq)

lemma field_bytes:
  fixes c :: u16
  shows "(ucast (ucast c :: u32) :: byte) = ucast c"
    "(ucast (0xc0 OR drop_bit 6 (ucast c) :: u32) :: byte) = ucast (0xc0 OR drop_bit 6 c)"
    "(ucast (0xe0 OR drop_bit 12 (ucast c) :: u32) :: byte) = ucast (0xe0 OR drop_bit 12 c)"
    "(ucast (0x80 OR (drop_bit 6 (ucast c) AND 0x3f) :: u32) :: byte) = ucast (0x80 OR (drop_bit 6 c AND 0x3f))"
    "(ucast (0x80 OR (ucast c AND 0x3f) :: u32) :: byte) = ucast (0x80 OR (c AND 0x3f))"
  using narrow_drop [of 0 c] by (simp_all add: unsigned_or_eq unsigned_and_eq narrow_drop)

text \<open>A text message is the UTF-8 encoding of the code unit.\<close>

lemma unicode_utf8:
  assumes "input_router_unicode router code False = (True, message)"
  shows "utf8_encode (ucast code) = Some (take (unat (irm_length message)) (irm_payload message)) \<and>
     irm_type message = control_code CONTROL_TEXT_UTF8 \<and> length (irm_payload message) = 12 \<and> irm_length message \<noteq> 0 \<and>
     unat (irm_length message) \<le> 3"
proof -
  have small: "ucast code \<le> (0x10ffff :: u32)" "\<not> 0xffff < (ucast code :: u32)"
    using unsigned_less [of code, where ?'a = nat] by (simp_all add: word_le_nat_alt word_less_nat_alt unat_ucast_up)
  have ranges: "ucast code \<le> (0x7f :: u32) \<longleftrightarrow> code \<le> 0x7f" "ucast code \<le> (0x7ff :: u32) \<longleftrightarrow> code \<le> 0x7ff"
    "0xd800 \<le> (ucast code :: u32) \<longleftrightarrow> 0xd800 \<le> code" "ucast code \<le> (0xdfff :: u32) \<longleftrightarrow> code \<le> 0xdfff"
    by (simp_all add: word_le_nat_alt unat_ucast_up)
  have wide: "\<not> 0x10ffff < (ucast code :: u32)" "ucast code \<le> (0xffff :: u32)" using small by (simp_all add: not_less)
  note fields = field_bytes [where c = code]
  consider "code \<le> 0x7f" | "\<not> code \<le> 0x7f" "code \<le> 0x7ff" | "\<not> code \<le> 0x7f" "\<not> code \<le> 0x7ff" by blast
  then show ?thesis
  proof cases
    case 1
    then show ?thesis using assms wide by (auto simp: input_router_unicode_def utf8_encode_def Let_def ranges fields split: if_splits)
  next
    case 2
    then show ?thesis using assms wide by (auto simp: input_router_unicode_def utf8_encode_def Let_def ranges fields split: if_splits)
  next
    case 3
    then show ?thesis using assms wide by (auto simp: input_router_unicode_def utf8_encode_def Let_def ranges fields split: if_splits)
  qed
qed

end
