(* ===== verification/Agent.thy ===== *)
theory Agent
  imports HidInput InputRouter RtpH264 FrameFlow
begin

text \<open>
  The agent on the appliance (\<open>agent.c\<close>): the control connection to the gateway, the dispatcher that
  hands input to the HID devices, and the video thread that captures frames and sends them as RTP.
  Both threads work on one \<open>Agent\<close> record; a step of the video thread is a piece of its loop between two
  points where the control thread can intervene.
\<close>

section \<open>State\<close>

definition HEARTBEAT_INTERVAL_MS :: u64 where "HEARTBEAT_INTERVAL_MS = 1000"
definition HEARTBEAT_TIMEOUT_MS :: u64 where "HEARTBEAT_TIMEOUT_MS = 5000"
definition CAPTURE_FAIL_LIMIT :: u32 where "CAPTURE_FAIL_LIMIT = 50"
definition CAPTURE_REINIT_LIMIT :: u32 where "CAPTURE_REINIT_LIMIT = 3"
definition HIDG_MAJOR :: nat where "HIDG_MAJOR = 238"

definition KVM_FRAME_SPS :: int where "KVM_FRAME_SPS = 1"
definition KVM_FRAME_PPS :: int where "KVM_FRAME_PPS = 2"
definition KVM_FRAME_IDR :: int where "KVM_FRAME_IDR = 3"
definition KVM_FRAME_P :: int where "KVM_FRAME_P = 4"

lemmas kvm_frames = KVM_FRAME_SPS_def KVM_FRAME_PPS_def KVM_FRAME_IDR_def KVM_FRAME_P_def

text \<open>The vendor library: whether it is loaded, and which of its functions were found.\<close>

record KvmApi =
  kvm_handle :: bool
  kvm_init :: bool
  kvm_read_image :: bool
  kvm_free_data :: bool
  kvm_set_frame_detect :: bool

record Agent =
  ag_gateway :: "string option"
  ag_control_port :: u16
  ag_video_port :: u16
  ag_width :: u16
  ag_height :: u16
  ag_bitrate :: u16
  ag_control_fd :: int
  ag_video_fd :: int
  ag_video_address :: u32
  ag_kvm :: KvmApi
  ag_hid :: HidState
  ag_control_reader :: NanokvmControlReader
  ag_input_events :: u64
  ag_max_input_handler_ms :: u64
  ag_last_input_log_at :: u64
  ag_packetizer :: RtpH264Packetizer
  ag_streaming :: bool
  ag_wait_for_idr :: bool
  ag_timestamp :: u32
  ag_send_deadline_ms :: u64
  ag_send_retries :: u64
  ag_sent_packets :: u32
  ag_dropped_packets :: u32
  ag_capture_frames :: u32
  ag_dropped_frames :: u32
  ag_last_ping_at :: u64
  ag_last_pong_at :: u64
  ag_last_stats_at :: u64
  ag_stop_requested :: bool

text \<open>
  The operating system as the control thread sees it: the HID devices with the clock, the answers of
  the \<open>write\<close> calls of each send on the control socket, what arrives on it and what was written to it.
  A send for which no answers are listed is written at once; after the answers of a send the socket's
  send timeout fires, so the next \<open>write\<close> fails with \<open>EAGAIN\<close>.
\<close>

record AgentOs =
  ao_hid :: HidOs
  ao_writes :: "write_answer list list"
  ao_events :: "recv_event list"
  ao_sent :: "byte list"
  ao_closed :: "int list"

definition monotonic_milliseconds :: "AgentOs \<Rightarrow> u64 \<times> AgentOs" where
  "monotonic_milliseconds aos = (case hid_now (ao_hid aos) of (now, os) \<Rightarrow> (now, aos\<lparr>ao_hid := os\<rparr>))"

definition control_send :: "byte \<Rightarrow> byte list option \<Rightarrow> u16 \<Rightarrow> AgentOs \<Rightarrow> bool \<times> AgentOs" where
  "control_send type payload len aos =
     (let (answers, later) = (case ao_writes aos of [] \<Rightarrow> ([Wrote 2000], []) | a # as \<Rightarrow> (a @ [WriteErr EAGAIN], as))
      in case protocol_send answers type payload len of
           None \<Rightarrow> (False, aos\<lparr>ao_writes := later\<rparr>)
         | Some (ok, sent, shut, rest) \<Rightarrow> (ok, aos\<lparr>ao_writes := later, ao_sent := ao_sent aos @ sent\<rparr>))"

section \<open>The vendor library\<close>

text \<open>The answers of \<open>dlopen\<close> for the three candidates, and of the four \<open>dlsym\<close> calls.\<close>

definition kvm_ensure_loaded :: "bool list \<Rightarrow> bool \<times> bool \<times> bool \<times> bool \<Rightarrow> KvmApi \<Rightarrow> bool \<times> KvmApi" where
  "kvm_ensure_loaded opens symbols api =
     (if kvm_handle api then (kvm_init api \<and> kvm_read_image api \<and> kvm_free_data api \<and> kvm_set_frame_detect api, api)
      else if \<not> list_ex (\<lambda>b. b) (take 3 opens) then (False, api)
      else case symbols of
        (init, read_image, free_data, set_frame_detect) \<Rightarrow>
          (init \<and> read_image \<and> free_data \<and> set_frame_detect,
           \<lparr>kvm_handle = True, kvm_init = init, kvm_read_image = read_image, kvm_free_data = free_data,
            kvm_set_frame_detect = set_frame_detect\<rparr>))"

section \<open>Control connection\<close>

text \<open>The answers of the calls that open a connection; \<open>ca_connect\<close> is \<open>None\<close> when \<open>connect\<close> succeeds at once.\<close>

datatype connect_answer = ConnectedNow | InProgress | ConnectFailed

record ConnectAnswers =
  ca_socket :: int
  ca_address :: "u32 option"
  ca_nonblocking :: bool
  ca_connect :: connect_answer
  ca_writable :: bool
  ca_option_read :: bool
  ca_socket_error :: bool
  ca_blocking :: bool

definition hello_payload :: "Agent \<Rightarrow> byte list" where
  "hello_payload agent =
     protocol_write_u16 (ag_width agent) @ protocol_write_u16 (ag_height agent) @ protocol_write_u16 (ag_video_port agent) @
     protocol_write_u16 (of_nat RTP_H264_DEFAULT_MTU) @ [NANOKVM_AGENT_CAPABILITY_KEY_ACK]"

definition agent_close :: "int \<Rightarrow> AgentOs \<Rightarrow> AgentOs" where
  "agent_close fd aos = aos\<lparr>ao_closed := ao_closed aos @ [fd]\<rparr>"

definition connect_control :: "ConnectAnswers \<Rightarrow> Agent \<Rightarrow> AgentOs \<Rightarrow> bool \<times> Agent \<times> AgentOs" where
  "connect_control ca agent aos =
     (let fd = ca_socket ca in
      if fd < 0 then (False, agent, aos)
      else case ca_address ca of
        None \<Rightarrow> (False, agent, agent_close fd aos)
      | Some address \<Rightarrow>
          if \<not> ca_nonblocking ca then (False, agent, agent_close fd aos)
          else
            let connected = (case ca_connect ca of
                    ConnectedNow \<Rightarrow> True
                  | InProgress \<Rightarrow> ca_writable ca \<and> ca_option_read ca \<and> \<not> ca_socket_error ca
                  | ConnectFailed \<Rightarrow> False) in
            if \<not> connected \<or> \<not> ca_blocking ca then (False, agent, agent_close fd aos)
            else
              let agent1 = agent\<lparr>ag_control_reader := empty_reader, ag_video_address := address\<rparr>;
                  (sent, aos1) = control_send (control_code CONTROL_HELLO) (Some (hello_payload agent1))
                                   NANOKVM_HELLO_CAPABILITIES_PAYLOAD_SIZE aos in
              if \<not> sent then (False, agent1, agent_close fd aos1)
              else
                let (now, aos2) = monotonic_milliseconds aos1 in
                (True, agent1\<lparr>ag_control_fd := fd, ag_last_ping_at := now, ag_last_pong_at := now, ag_last_stats_at := now\<rparr>, aos2))"

text \<open>An operation on the HID state, and a release, lifted to the agent.\<close>

definition on_hid :: "(HidState \<Rightarrow> HidOs \<Rightarrow> bool \<times> HidState \<times> HidOs) \<Rightarrow> Agent \<Rightarrow> AgentOs \<Rightarrow> bool \<times> Agent \<times> AgentOs" where
  "on_hid operation agent aos =
     (case operation (ag_hid agent) (ao_hid aos) of
        (ok, hid, os) \<Rightarrow> (ok, agent\<lparr>ag_hid := hid\<rparr>, aos\<lparr>ao_hid := os\<rparr>))"

definition agent_release_all :: "Agent \<Rightarrow> AgentOs \<Rightarrow> Agent \<times> AgentOs" where
  "agent_release_all agent aos =
     (case hid_release_all (ag_hid agent) (ao_hid aos) of (hid, os) \<Rightarrow> (agent\<lparr>ag_hid := hid\<rparr>, aos\<lparr>ao_hid := os\<rparr>))"

definition disconnect_control :: "Agent \<Rightarrow> AgentOs \<Rightarrow> Agent \<times> AgentOs" where
  "disconnect_control agent aos =
     (let (agent1, aos1) = agent_release_all agent aos;
          aos2 = (if 0 \<le> ag_control_fd agent1 then agent_close (ag_control_fd agent1) aos1 else aos1)
      in (agent1\<lparr>ag_control_fd := - 1, ag_streaming := False, ag_wait_for_idr := True\<rparr>, aos2))"

definition stats_payload :: "Agent \<Rightarrow> byte list" where
  "stats_payload agent =
     protocol_write_u32 (ag_sent_packets agent) @ protocol_write_u32 (ag_dropped_packets agent) @
     protocol_write_u32 (ag_capture_frames agent) @ protocol_write_u32 (ag_dropped_frames agent)"

definition send_stats :: "Agent \<Rightarrow> AgentOs \<Rightarrow> bool \<times> AgentOs" where
  "send_stats agent aos = control_send (control_code CONTROL_STATS) (Some (stats_payload agent)) NANOKVM_STATS_PAYLOAD_SIZE aos"

section \<open>Control messages\<close>

definition key_operation :: "byte list \<Rightarrow> HidState \<Rightarrow> HidOs \<Rightarrow> bool \<times> HidState \<times> HidOs" where
  "key_operation payload hid = hid_scancode hid (payload ! 0) (payload ! 1 \<noteq> 0) (payload ! 2 \<noteq> 0)"

definition absolute_operation :: "byte list \<Rightarrow> HidState \<Rightarrow> HidOs \<Rightarrow> bool \<times> HidState \<times> HidOs" where
  "absolute_operation payload hid =
     hid_absolute hid (protocol_read_u16 payload) (protocol_read_u16 (drop 2 payload))
       (ucast (protocol_read_u16 (drop 4 payload))) (ucast (protocol_read_u16 (drop 6 payload))) (protocol_read_u16 (drop 8 payload))"

definition relative_operation :: "byte list \<Rightarrow> HidState \<Rightarrow> HidOs \<Rightarrow> bool \<times> HidState \<times> HidOs" where
  "relative_operation payload hid =
     hid_relative hid (sint (protocol_read_u16 payload)) (sint (protocol_read_u16 (drop 2 payload))) (payload ! 4)"

text \<open>The \<open>switch\<close>: the value of \<open>succeeded\<close>, and the state.\<close>

definition dispatch_control :: "NanokvmControlMessage \<Rightarrow> Agent \<Rightarrow> AgentOs \<Rightarrow> bool \<times> Agent \<times> AgentOs" where
  "dispatch_control message agent aos =
     (let type = msg_type message; len = msg_length message; payload = msg_payload message in
      if type = control_code CONTROL_START_STREAM then (True, agent\<lparr>ag_streaming := True, ag_wait_for_idr := True\<rparr>, aos)
      else if type = control_code CONTROL_STOP_STREAM then
        (True, agent_release_all (agent\<lparr>ag_streaming := False\<rparr>) aos)
      else if type = control_code CONTROL_IDR_REQUEST then (True, agent\<lparr>ag_wait_for_idr := True\<rparr>, aos)
      else if type = control_code CONTROL_KEY then
        (if len = NANOKVM_KEY_PAYLOAD_SIZE then on_hid (key_operation payload) agent aos
         else if len = NANOKVM_KEY_ACK_REQUEST_PAYLOAD_SIZE then
           (let (ok, agent1, aos1) = on_hid (key_operation payload) agent aos;
                ack = take 4 (drop 3 payload) @ [bool_byte ok];
                (sent, aos2) = control_send (control_code CONTROL_KEY_ACK) (Some ack) NANOKVM_KEY_ACK_PAYLOAD_SIZE aos1
            in (ok, agent1, aos2))
         else (True, agent, aos))
      else if type = control_code CONTROL_TEXT_UTF8 then
        (if len = 0 then (True, agent, aos)
         else case on_hid (\<lambda>hid. hid_type_utf8 hid (take (unat len) payload)) agent aos of
           (ok, agent1, aos1) \<Rightarrow> (True, if ok then (agent1, aos1) else agent_release_all agent1 aos1))
      else if type = control_code CONTROL_POINTER_ABS then
        (if len = 12 then on_hid (absolute_operation payload) agent aos else (True, agent, aos))
      else if type = control_code CONTROL_POINTER_REL then
        (if len = 5 then on_hid (relative_operation payload) agent aos else (True, agent, aos))
      else if type = control_code CONTROL_WHEEL then
        (if len = 2 then on_hid (\<lambda>hid. hid_wheel hid (protocol_read_u16 payload)) agent aos else (True, agent, aos))
      else if type = control_code CONTROL_RELEASE_ALL then (True, agent_release_all agent aos)
      else if type = control_code CONTROL_SYNCHRONIZE then on_hid hid_synchronize agent aos
      else if type = control_code CONTROL_PING then
        (case control_send (control_code CONTROL_PONG) None 0 aos of (sent, aos1) \<Rightarrow> (True, agent, aos1))
      else if type = control_code CONTROL_PONG then
        (case monotonic_milliseconds aos of (now, aos1) \<Rightarrow> (True, agent\<lparr>ag_last_pong_at := now\<rparr>, aos1))
      else (True, agent, aos))"

definition is_input_type :: "byte \<Rightarrow> bool" where
  "is_input_type type \<longleftrightarrow>
     (control_code CONTROL_KEY \<le> type \<and> type \<le> control_code CONTROL_RELEASE_ALL) \<or>
     type = control_code CONTROL_TEXT_UTF8 \<or> type = control_code CONTROL_SYNCHRONIZE"

text \<open>The state line that is logged reads the clock once more.\<close>

definition handle_control :: "NanokvmControlMessage \<Rightarrow> Agent \<Rightarrow> AgentOs \<Rightarrow> Agent \<times> AgentOs" where
  "handle_control message agent aos0 =
     (let (started, aos1) = monotonic_milliseconds aos0;
          (succeeded, agent2, aos2) = dispatch_control message agent aos1;
          type = msg_type message;
          logged = (hid_modifiers (ag_hid agent) \<noteq> hid_modifiers (ag_hid agent2) \<or>
                    hid_mouse_buttons (ag_hid agent) \<noteq> hid_mouse_buttons (ag_hid agent2) \<or>
                    type = control_code CONTROL_RELEASE_ALL \<or> type = control_code CONTROL_SYNCHRONIZE \<or> \<not> succeeded);
          aos3 = (if logged then snd (monotonic_milliseconds aos2) else aos2);
          (agent4, aos4) = (if succeeded then (agent2, aos3) else agent_release_all agent2 aos3)
      in if is_input_type type then
           let (finished, aos5) = monotonic_milliseconds aos4; elapsed = finished - started;
               agent5 = agent4\<lparr>ag_input_events := ag_input_events agent4 + 1\<rparr>
           in (if ag_max_input_handler_ms agent5 < elapsed then agent5\<lparr>ag_max_input_handler_ms := elapsed\<rparr> else agent5, aos5)
         else (agent4, aos4))"

section \<open>The control loop\<close>

text \<open>At most \<open>batch\<close> messages are handled per turn.\<close>

fun receive_batch :: "nat \<Rightarrow> Agent \<Rightarrow> AgentOs \<Rightarrow> Agent \<times> AgentOs" where
  "receive_batch 0 agent aos = (agent, aos)"
| "receive_batch (Suc batch) agent aos =
     (case protocol_receive_available (ao_events aos) (ag_control_reader agent) empty_message of
        (result, reader, message, events) \<Rightarrow>
          let agent1 = agent\<lparr>ag_control_reader := reader\<rparr>; aos1 = aos\<lparr>ao_events := events\<rparr> in
          if result < 0 then disconnect_control agent1 aos1
          else if result = 0 then (agent1, aos1)
          else case handle_control message agent1 aos1 of (agent2, aos2) \<Rightarrow> receive_batch batch agent2 aos2)"

text \<open>The variables of \<open>main\<close> that live across turns.\<close>

record AgentLoop =
  al_reconnect_at :: u64
  al_last_hid_error_log :: u64

definition service_hid :: "AgentLoop \<Rightarrow> Agent \<Rightarrow> AgentOs \<Rightarrow> AgentLoop \<times> Agent \<times> AgentOs" where
  "service_hid loop agent aos0 =
     (let (flushed, agent1, aos1) = on_hid hid_flush agent aos0;
          (kept, agent2, aos2) =
            (if flushed then
               (case monotonic_milliseconds aos1 of (now, aos2) \<Rightarrow> on_hid (\<lambda>hid. hid_keepalive hid now) agent1 aos2)
             else (False, agent1, aos1))
      in if kept then (loop, agent2, aos2)
         else
           let (error_at, aos3) = monotonic_milliseconds aos2;
               loop1 = (if 5000 \<le> error_at - al_last_hid_error_log loop then loop\<lparr>al_last_hid_error_log := error_at\<rparr> else loop)
           in (loop1, agent_release_all agent2 aos3))"

definition reconnect :: "ConnectAnswers \<Rightarrow> AgentLoop \<Rightarrow> Agent \<Rightarrow> AgentOs \<Rightarrow> AgentLoop \<times> Agent \<times> AgentOs" where
  "reconnect ca loop agent aos0 =
     (let (now, aos1) = monotonic_milliseconds aos0 in
      if ag_control_fd agent < 0 \<and> al_reconnect_at loop \<le> now then
        let (connected, agent2, aos2) = connect_control ca agent aos1;
            (later, aos3) = monotonic_milliseconds aos2
        in (loop\<lparr>al_reconnect_at := later + 1000\<rparr>, agent2, aos3)
      else (loop, agent, aos1))"

definition poll_delay :: "Agent \<Rightarrow> AgentOs \<Rightarrow> AgentOs" where
  "poll_delay agent aos =
     aos\<lparr>ao_hid := snd (hid_poll_timeout (ag_hid agent) 20 (snd (hid_pollfds (ag_hid agent) (ao_hid aos))))\<rparr>"

definition log_input :: "u64 \<Rightarrow> Agent \<Rightarrow> Agent" where
  "log_input now agent =
     (if 5000 \<le> now - ag_last_input_log_at agent
      then agent\<lparr>ag_hid := (ag_hid agent)\<lparr>hid_max_queue_age_ms := 0\<rparr>, ag_max_input_handler_ms := 0, ag_last_input_log_at := now\<rparr>
      else agent)"

definition heartbeat :: "u64 \<Rightarrow> Agent \<Rightarrow> AgentOs \<Rightarrow> Agent \<times> AgentOs" where
  "heartbeat now agent aos =
     (if ag_control_fd agent < 0 then (agent, aos)
      else if HEARTBEAT_TIMEOUT_MS < now - ag_last_pong_at agent then disconnect_control agent aos
      else
        let due = (HEARTBEAT_INTERVAL_MS \<le> now - ag_last_ping_at agent);
            (pinged, aos1) = (if due then control_send (control_code CONTROL_PING) None 0 aos else (True, aos)) in
        if \<not> pinged then disconnect_control agent aos1
        else
          let agent1 = (if due then agent\<lparr>ag_last_ping_at := now\<rparr> else agent) in
          if HEARTBEAT_INTERVAL_MS \<le> now - ag_last_stats_at agent1 then
            (case send_stats agent1 aos1 of
               (sent, aos2) \<Rightarrow>
                 if \<not> sent then disconnect_control agent1 aos2
                 else (agent1\<lparr>ag_last_stats_at := now\<rparr>, aos2))
          else (agent1, aos1))"

text \<open>One turn of the loop in \<open>main\<close>; \<open>readable\<close> is what \<open>poll\<close> reported for the control socket.\<close>

definition agent_turn :: "ConnectAnswers \<Rightarrow> bool \<Rightarrow> AgentLoop \<Rightarrow> Agent \<Rightarrow> AgentOs \<Rightarrow> AgentLoop \<times> Agent \<times> AgentOs" where
  "agent_turn ca readable loop0 agent0 aos0 =
     (let (loop1, agent1, aos1) = service_hid loop0 agent0 aos0;
          (loop2, agent2, aos2) = reconnect ca loop1 agent1 aos1;
          aos3 = poll_delay agent2 aos2;
          (agent4, aos4) = (if readable \<and> 0 \<le> ag_control_fd agent2 then receive_batch 32 agent2 aos3 else (agent2, aos3));
          (now, aos5) = monotonic_milliseconds aos4;
          (agent6, aos6) = heartbeat now (log_input now agent4) aos5
      in (loop2, agent6, aos6))"

text \<open>The loop after the last turn: flush until nothing waits or the deadline passes, at most \<open>fuel\<close> times.\<close>

fun drain_release :: "nat \<Rightarrow> u64 \<Rightarrow> Agent \<Rightarrow> AgentOs \<Rightarrow> Agent \<times> AgentOs" where
  "drain_release 0 deadline agent aos = (agent, aos)"
| "drain_release (Suc fuel) deadline agent aos =
     (if \<not> hid_pending (ag_hid agent) then (agent, aos)
      else case monotonic_milliseconds aos of
        (now, aos1) \<Rightarrow>
          if deadline \<le> now then (agent, aos1)
          else
            let aos2 = aos1\<lparr>ao_hid := snd (hid_pollfds (ag_hid agent) (ao_hid aos1))\<rparr>;
                (flushed, agent3, aos3) = on_hid hid_flush agent aos2
            in drain_release fuel deadline agent3 aos3)"

definition agent_finish :: "nat \<Rightarrow> Agent \<Rightarrow> AgentOs \<Rightarrow> Agent \<times> AgentOs" where
  "agent_finish fuel agent aos0 =
     (let (agent1, aos1) = agent_release_all agent aos0;
          (now, aos2) = monotonic_milliseconds aos1;
          (agent3, aos3) = drain_release fuel (now + 200) agent1 aos2;
          aos4 = (if 0 \<le> ag_control_fd agent3 then agent_close (ag_control_fd agent3) aos3 else aos3)
      in (agent3, if 0 \<le> ag_video_fd agent3 then agent_close (ag_video_fd agent3) aos4 else aos4))"

section \<open>Start\<close>

text \<open>\<open>strtoul\<close> with base 10: a minus sign negates modulo \<open>2^64\<close>, a number that does not fit gives \<open>ULONG_MAX\<close>.\<close>

definition strtoul10 :: "string \<Rightarrow> nat" where
  "strtoul10 s = (let v = strtol10 s in if 2 ^ 64 \<le> \<bar>v\<bar> then 2 ^ 64 - 1 else nat (v mod 2 ^ 64))"

definition argument_u16 :: "string \<Rightarrow> u16" where
  "argument_u16 s = of_nat (strtoul10 s)"

text \<open>\<open>None\<close> for the usage message and exit code 2.\<close>

fun agent_arguments :: "string list \<Rightarrow> Agent \<Rightarrow> Agent option" where
  "agent_arguments [] agent = Some agent"
| "agent_arguments (option # rest) agent =
     (case rest of
        [] \<Rightarrow> None
      | argument # others \<Rightarrow>
          if option = ''-gateway'' then agent_arguments others (agent\<lparr>ag_gateway := Some argument\<rparr>)
          else if option = ''-control-port'' then agent_arguments others (agent\<lparr>ag_control_port := argument_u16 argument\<rparr>)
          else if option = ''-video-port'' then agent_arguments others (agent\<lparr>ag_video_port := argument_u16 argument\<rparr>)
          else if option = ''-width'' then agent_arguments others (agent\<lparr>ag_width := argument_u16 argument\<rparr>)
          else if option = ''-height'' then agent_arguments others (agent\<lparr>ag_height := argument_u16 argument\<rparr>)
          else if option = ''-bitrate'' then agent_arguments others (agent\<lparr>ag_bitrate := argument_u16 argument\<rparr>)
          else None)"

definition agent_usable :: "Agent \<Rightarrow> bool" where
  "agent_usable agent \<longleftrightarrow>
     ag_gateway agent \<noteq> None \<and> ag_width agent \<noteq> 0 \<and> ag_height agent \<noteq> 0 \<and> ag_bitrate agent \<noteq> 0"

text \<open>The state before the first turn. The zero-initialised fields the code sets before use take their first value here.\<close>

definition agent_start :: "u32 \<Rightarrow> string option \<Rightarrow> byte list option \<Rightarrow> Agent \<Rightarrow> HidOs \<Rightarrow> Agent \<times> HidOs" where
  "agent_start pid configured descriptor agent os =
     (let (hid0, os1) = hid_init None None None configured descriptor os;
          (hid, os2) = hid_release_all hid0 os1
      in (agent\<lparr>ag_packetizer := rtp_h264_packetizer_init (of_nat RTP_H264_DEFAULT_MTU) pid, ag_hid := hid,
             ag_streaming := False, ag_wait_for_idr := True, ag_sent_packets := 0, ag_dropped_packets := 0,
             ag_capture_frames := 0, ag_dropped_frames := 0\<rparr>, os2))"

text \<open>The device nodes: the status of the path, and what is done to it.\<close>

datatype node_status = Missing | Node bool nat nat

datatype node_action = Unlink string | Mknod string nat nat

definition ensure_hid_node :: "node_status \<Rightarrow> bool \<Rightarrow> string \<Rightarrow> nat \<Rightarrow> node_action list" where
  "ensure_hid_node status unlinked path node_minor =
     (if status = Node True HIDG_MAJOR node_minor then []
      else if status \<noteq> Missing \<and> \<not> unlinked then [Unlink path]
      else (if status \<noteq> Missing then [Unlink path] else []) @ [Mknod path HIDG_MAJOR node_minor])"

definition ensure_hid_nodes :: "(string \<Rightarrow> node_status) \<Rightarrow> (string \<Rightarrow> bool) \<Rightarrow> node_action list" where
  "ensure_hid_nodes status unlinked =
     concat (map (\<lambda>(path, node_minor). ensure_hid_node (status path) (unlinked path) path node_minor)
       [(''/dev/hidg0'', 0), (''/dev/hidg1'', 1), (''/dev/hidg2'', 2)])"

section \<open>The video thread\<close>

datatype send_answer = SentBytes nat | SendErr errno

text \<open>What the vendor library returns for a capture: the kind, the data unless it is \<open>NULL\<close>.\<close>

type_synonym capture = "int \<times> byte list option"

record VideoOs =
  vo_clock :: "u64 list"
  vo_now :: u64
  vo_sends :: "send_answer list"
  vo_packets :: "byte list list"

definition video_now :: "VideoOs \<Rightarrow> u64 \<times> VideoOs" where
  "video_now vos = (case vo_clock vos of [] \<Rightarrow> (vo_now vos, vos) | t # rest \<Rightarrow> (t, vos\<lparr>vo_clock := rest, vo_now := t\<rparr>))"

definition sys_sendto :: "byte list \<Rightarrow> VideoOs \<Rightarrow> send_answer \<times> VideoOs" where
  "sys_sendto packet vos =
     (let (answer, rest) = (case vo_sends vos of [] \<Rightarrow> (SentBytes (length packet), []) | a # rest \<Rightarrow> (a, rest));
          vos1 = vos\<lparr>vo_sends := rest\<rparr>
      in (answer, if answer = SentBytes (length packet) then vos1\<lparr>vo_packets := vo_packets vos1 @ [packet]\<rparr> else vos1))"

definition worth_retrying :: "errno \<Rightarrow> bool" where
  "worth_retrying e \<longleftrightarrow> e = EINTR \<or> e = EAGAIN \<or> e = EWOULDBLOCK \<or> e = ENOBUFS"

definition send_error :: "send_answer \<Rightarrow> errno" where
  "send_error answer = (case answer of SentBytes n \<Rightarrow> EIO | SendErr e \<Rightarrow> e)"

function send_packet :: "Agent \<times> VideoOs \<Rightarrow> byte list \<Rightarrow> bool \<times> Agent \<times> VideoOs" where
  "send_packet (agent, vos) packet =
     (case sys_sendto packet vos of
        (answer, vos1) \<Rightarrow>
          if answer = SentBytes (length packet) then (True, agent\<lparr>ag_sent_packets := ag_sent_packets agent + 1\<rparr>, vos1)
          else
            let (now, vos2) = (if ag_stop_requested agent then (0, vos1) else video_now vos1) in
            if ag_stop_requested agent \<or> ag_send_deadline_ms agent \<le> now \<or> \<not> worth_retrying (send_error answer)
            then (False, agent\<lparr>ag_dropped_packets := ag_dropped_packets agent + 1\<rparr>, vos2)
            else send_packet (agent\<lparr>ag_send_retries := ag_send_retries agent + 1\<rparr>, vos2) packet)"
  by pat_completeness auto
termination
  by (relation "measure (\<lambda>((agent, vos), packet). length (vo_sends vos))")
     (auto simp: sys_sendto_def video_now_def Let_def split: list.splits if_splits)

declare send_packet.simps [simp del]

datatype video_point = AtHead | Reading | Sending "byte list" | Ended

record VideoLoop =
  vl_point :: video_point
  vl_capture_initialized :: bool
  vl_capture_fail_count :: u32
  vl_capture_reinit_count :: u32

definition video_loop_start :: VideoLoop where
  "video_loop_start = \<lparr>vl_point = AtHead, vl_capture_initialized = False, vl_capture_fail_count = 0, vl_capture_reinit_count = 0\<rparr>"

text \<open>From the head of the loop to the capture.\<close>

definition video_head :: "bool list \<Rightarrow> bool \<times> bool \<times> bool \<times> bool \<Rightarrow> VideoLoop \<Rightarrow> Agent \<Rightarrow> VideoLoop \<times> Agent" where
  "video_head opens symbols vl agent =
     (if ag_stop_requested agent then (vl\<lparr>vl_point := Ended, vl_capture_initialized := False\<rparr>, agent)
      else if \<not> ag_streaming agent then (vl, agent)
      else if vl_capture_initialized vl then (vl\<lparr>vl_point := Reading\<rparr>, agent)
      else case kvm_ensure_loaded opens symbols (ag_kvm agent) of
        (loaded, api) \<Rightarrow>
          (if loaded then vl\<lparr>vl_point := Reading, vl_capture_initialized := True, vl_capture_fail_count := 0\<rparr>
           else vl\<lparr>vl_capture_fail_count := 0\<rparr>, agent\<lparr>ag_kvm := api\<rparr>))"

definition capture_failed :: "VideoLoop \<Rightarrow> Agent \<Rightarrow> VideoLoop \<times> Agent" where
  "capture_failed vl agent =
     (let vl1 = vl\<lparr>vl_capture_fail_count := vl_capture_fail_count vl + 1\<rparr> in
      if vl_capture_fail_count vl1 < CAPTURE_FAIL_LIMIT then (vl1\<lparr>vl_point := AtHead\<rparr>, agent)
      else
        let vl2 = vl1\<lparr>vl_capture_reinit_count := vl_capture_reinit_count vl1 + 1\<rparr> in
        if CAPTURE_REINIT_LIMIT < vl_capture_reinit_count vl2
        then (vl2\<lparr>vl_point := Ended, vl_capture_initialized := False\<rparr>, agent\<lparr>ag_stop_requested := True\<rparr>)
        else (vl2\<lparr>vl_point := AtHead, vl_capture_initialized := False, vl_capture_fail_count := 0\<rparr>, agent))"

text \<open>After the capture: what is done with the frame is decided.\<close>

definition video_captured :: "capture \<Rightarrow> VideoLoop \<Rightarrow> Agent \<Rightarrow> VideoOs \<Rightarrow> VideoLoop \<times> Agent \<times> VideoOs" where
  "video_captured captured vl agent vos0 =
     (let (capture_started, vos1) = video_now vos0; (capture_done, vos2) = video_now vos1 in
      case captured of
        (kind, data) \<Rightarrow>
          if kind < 0 \<or> data = None \<or> data = Some [] then
            (case capture_failed vl agent of (vl1, agent1) \<Rightarrow> (vl1, agent1, vos2))
          else
            let vl1 = vl\<lparr>vl_capture_fail_count := 0, vl_capture_reinit_count := 0\<rparr>;
                agent1 = (if kind = KVM_FRAME_IDR then agent\<lparr>ag_wait_for_idr := False\<rparr> else agent);
                agent2 = agent1\<lparr>ag_capture_frames := ag_capture_frames agent1 + 1\<rparr> in
            if ag_streaming agent2 \<and>
               (kind = KVM_FRAME_SPS \<or> kind = KVM_FRAME_PPS \<or> kind = KVM_FRAME_IDR \<or>
                (\<not> ag_wait_for_idr agent2 \<and> kind = KVM_FRAME_P))
            then (vl1\<lparr>vl_point := Sending (the data)\<rparr>, agent2, vos2)
            else
              let agent3 = (if kind = KVM_FRAME_P then agent2\<lparr>ag_dropped_frames := ag_dropped_frames agent2 + 1\<rparr> else agent2)
              in (vl1\<lparr>vl_point := AtHead\<rparr>, agent3\<lparr>ag_timestamp := ag_timestamp agent3 + 9000\<rparr>, vos2))"

text \<open>The frame is sent packet by packet until one fails for good; the first component is \<open>sent\<close>.\<close>

definition video_send :: "byte list \<Rightarrow> VideoLoop \<Rightarrow> Agent \<Rightarrow> VideoOs \<Rightarrow> bool \<times> VideoLoop \<times> Agent \<times> VideoOs" where
  "video_send data vl agent vos0 =
     (let (now, vos1) = video_now vos0;
          agent1 = agent\<lparr>ag_send_deadline_ms := now + 40\<rparr>;
          (sent, packetizer, agent2, vos2) =
            rtp_h264_packetize_access_unit (ag_packetizer agent1) data (ag_timestamp agent1) (Some send_packet) (agent1, vos1);
          agent3 = agent2\<lparr>ag_packetizer := packetizer\<rparr>;
          (send_done, vos3) = video_now vos2;
          agent4 = (if sent then agent3
                    else agent3\<lparr>ag_dropped_frames := ag_dropped_frames agent3 + 1, ag_wait_for_idr := True\<rparr>)
      in (sent, vl\<lparr>vl_point := AtHead\<rparr>, agent4\<lparr>ag_timestamp := ag_timestamp agent4 + 9000\<rparr>, vos3))"

end
