(* ===== verification/AgentSafety.thy ===== *)
theory AgentSafety
  imports Agent
begin

text \<open>
  What holds of every run of the agent: no control message and no behaviour of the devices breaks the
  report queues, a lost connection releases everything, and no predicted frame is sent to a decoder
  that lacks the picture it refers to.
\<close>

section \<open>The operations of the HID output keep the queues well formed\<close>

definition keeps :: "(HidState \<Rightarrow> HidOs \<Rightarrow> bool \<times> HidState \<times> HidOs) \<Rightarrow> bool" where
  "keeps operation \<longleftrightarrow>
     (\<forall>hid os. queues_ok hid \<longrightarrow> queues_ok (fst (snd (operation hid os))))"

lemma keepsI: "(\<And>hid os ok hid' os'. queues_ok hid \<Longrightarrow> operation hid os = (ok, hid', os') \<Longrightarrow> queues_ok hid') \<Longrightarrow> keeps operation"
  unfolding keeps_def by (metis fst_conv prod_cases3 snd_conv)

lemma keepsD: "keeps operation \<Longrightarrow> queues_ok hid \<Longrightarrow> operation hid os = (ok, hid', os') \<Longrightarrow> queues_ok hid'"
  unfolding keeps_def by (metis fst_conv snd_conv)

lemma device_ok: "same_device hid hid' \<Longrightarrow> queues_ok hid \<Longrightarrow> queues_ok hid'"
  using same_device_cong(1) by blast

lemma queue_report_ok:
  "queues_ok hid \<Longrightarrow> on_queue w hid path \<Longrightarrow> length data = endpoint_length hid (path_endpoint hid path) \<Longrightarrow>
     queue_report w hid path data motion delay_ms os = (ok, hid', os') \<Longrightarrow> queues_ok hid'"
  using queue_report_outcome by blast

lemma keeps_send_keyboard: "keeps send_keyboard"
  by (rule keepsI) (use send_keyboard_emitted(2) emitted_ok in blast)

lemma keeps_send_relative: "keeps (\<lambda>hid. send_relative hid dx dy wheel)"
  by (rule keepsI, unfold send_relative_def, rule emitted_ok [OF mouse_report_emitted(2)]) (simp_all add: relative_report_def)

lemma keeps_send_absolute: "keeps (\<lambda>hid. send_absolute hid motion)"
proof (rule keepsI)
  fix hid os ok hid' os'
  assume ok: "queues_ok hid" and run: "send_absolute hid motion os = (ok, hid', os')"
  let ?pure = "motion \<and> hid_wheel_delta hid = 0 \<and> hid_pan_delta hid = 0"
  obtain now hid1 os1 where first: "(if ?pure then write_absolute_now hid (absolute_report hid) os else (False, hid, os)) = (now, hid1, os1)"
    by (metis prod_cases3)
  then have "same_device hid hid1" by (auto simp: write_absolute_now_def same_device_def all_queues split: if_splits prod.splits)
  note dev = device_ok [OF this ok] same_device_paths [OF this]
  show "queues_ok hid'"
  proof (cases now)
    case True
    then show ?thesis using run first dev by (simp add: send_absolute_def Let_def)
  next
    case False
    then obtain hid2 where queued: "queue_report PointerQueue hid1 (hid_touch_path hid1) (absolute_report hid) ?pure 0 os1 = (ok, hid2, os')"
      and hid': "hid' = clear_deltas hid2"
      using run first by (auto simp: send_absolute_def Let_def split: prod.splits)
    have "length (absolute_report hid) = endpoint_length hid1 (path_endpoint hid1 (hid_touch_path hid1))"
      using touch_path_on(2) [OF queues_paths [OF dev(1)]] queues_paths [OF ok] dev(2) by (simp add: same_paths_def)
    then have "queues_ok hid2" using queue_report_ok [OF dev(1) touch_path_on(1) _ queued] queues_paths [OF dev(1)] by simp
    then show ?thesis unfolding hid' by (rule device_ok [rotated]) simp
  qed
qed

lemma keeps_tap: "keeps (\<lambda>hid. tap_text_key hid key)"
proof (rule keepsI)
  fix hid os ok hid' os'
  assume ok: "queues_ok hid" and run: "tap_text_key hid key os = (ok, hid', os')"
  let ?h1 = "hid\<lparr>hid_modifiers := hid_modifiers hid OR tk_modifier key, hid_usages := (hid_usages hid)(tk_usage key := True)\<rparr>"
  obtain ok2 hid2 os2 where two: "send_keyboard ?h1 os = (ok2, hid2, os2)" by (metis prod_cases3)
  have "same_device hid ?h1" by simp
  from keepsD [OF keeps_send_keyboard device_ok [OF this ok] two] have ok2: "queues_ok hid2" .
  let ?h3 = "hid2\<lparr>hid_modifiers := hid_modifiers hid, hid_usages := (hid_usages hid2)(tk_usage key := hid_usages hid (tk_usage key))\<rparr>"
  have "same_device hid2 ?h3" by simp
  from device_ok [OF this ok2] have "queues_ok ?h3" .
  then show "queues_ok hid'"
    using run two ok2 keepsD [OF keeps_send_keyboard, of ?h3 os2 ok hid' os']
    by (auto simp: tap_text_key_def Let_def split: if_splits)
qed

lemma keeps_ascii_sequence: "keeps (\<lambda>hid. type_ascii_sequence hid cs)"
proof (induction cs)
  case Nil
  then show ?case by (simp add: keeps_def)
next
  case (Cons c cs)
  show ?case
  proof (rule keepsI)
    fix hid os ok hid' os'
    assume ok: "queues_ok hid" and run: "type_ascii_sequence hid (c # cs) os = (ok, hid', os')"
    show "queues_ok hid'"
    proof (cases "ascii_to_hid (of_char c)")
      case None
      then show ?thesis using run ok by simp
    next
      case (Some key)
      obtain ok1 hid1 os1 where tap: "tap_text_key hid key os = (ok1, hid1, os1)" by (metis prod_cases3)
      have ok1: "queues_ok hid1" by (rule keepsD [OF keeps_tap ok tap])
      then show ?thesis using run Some tap keepsD [OF Cons.IH ok1, of os1 ok hid' os'] by (auto split: if_splits)
    qed
  qed
qed

lemma keeps_sequences: "keeps (\<lambda>hid. type_sequences hid xs)"
proof (induction xs)
  case Nil
  then show ?case by (simp add: keeps_def type_sequences_def)
next
  case (Cons x xs)
  show ?case
  proof (rule keepsI)
    fix hid os ok hid' os'
    assume ok: "queues_ok hid" and run: "type_sequences hid (x # xs) os = (ok, hid', os')"
    obtain ok1 hid1 os1 where first: "type_ascii_sequence hid x os = (ok1, hid1, os1)" by (metis prod_cases3)
    have ok1: "queues_ok hid1" by (rule keepsD [OF keeps_ascii_sequence ok first])
    show "queues_ok hid'"
    proof (cases ok1)
      case True
      then have "type_sequences hid1 xs os1 = (ok, hid', os')" using run first by (simp add: type_sequences_def)
      then show ?thesis by (rule keepsD [OF Cons.IH ok1])
    next
      case False
      then show ?thesis using run first ok1 by (simp add: type_sequences_def sequences_stay)
    qed
  qed
qed

lemma keeps_codepoint: "keeps (\<lambda>hid. type_codepoint hid codepoint)"
  using keeps_tap keeps_sequences keeps_ascii_sequence
  by (auto simp: keeps_def type_codepoint_def split: option.splits)

lemma keeps_paste: "keeps (\<lambda>hid. paste_codepoint hid codepoint)"
proof (rule keepsI)
  fix hid os ok hid' os'
  assume ok: "queues_ok hid" and run: "paste_codepoint hid codepoint os = (ok, hid', os')"
  let ?h1 = "hid\<lparr>hid_modifiers := 0x08, hid_usages := (\<lambda>_. False)(0x19 := True), hid_keyboard_paste_codepoint := codepoint\<rparr>"
  obtain ok2 hid2 os2 where two: "send_keyboard ?h1 os = (ok2, hid2, os2)" by (metis prod_cases3)
  have "same_device hid ?h1" by simp
  from keepsD [OF keeps_send_keyboard device_ok [OF this ok] two] have ok2: "queues_ok hid2" .
  let ?h3 = "hid2\<lparr>hid_keyboard_paste_codepoint := 0\<rparr>"
  let ?h4 = "?h3\<lparr>hid_usages := (hid_usages ?h3)(0x19 := False), hid_modifiers := hid_modifiers hid\<rparr>"
  have "same_device hid2 ?h3" "same_device hid2 ?h4" by (simp_all add: same_device_def all_queues)
  from device_ok [OF this(1) ok2] device_ok [OF this(2) ok2] have ok3: "queues_ok ?h3" and ok4: "queues_ok ?h4" .
  show "queues_ok hid'"
    using run two ok ok3 ok4 keepsD [OF keeps_send_keyboard, of ?h4 os2 ok hid' os']
    by (auto simp: paste_codepoint_def Let_def split: if_splits)
qed

lemma keeps_enter: "keeps (\<lambda>hid. enter_codepoint hid codepoint)"
  using keeps_codepoint keeps_paste by (auto simp: keeps_def enter_codepoint_def)

lemma type_from_ok: "queues_ok hid \<Longrightarrow> type_from hid text offset os = (ok, hid', os') \<Longrightarrow> queues_ok hid'"
proof (induction hid "text" offset os rule: type_from.induct)
  case (1 hid bytes offset os)
  show ?case
  proof (cases "length bytes \<le> offset \<or> utf8_decode bytes offset = None")
    case True
    then show ?thesis using "1.prems" by (auto simp: type_from.simps [of hid bytes offset] split: if_splits)
  next
    case False
    then obtain cp next' where decode: "utf8_decode bytes offset = Some (cp, next')" by auto
    obtain ok1 hid1 os1 where enter: "enter_codepoint hid cp os = (ok1, hid1, os1)" by (metis prod_cases3)
    have ok1: "queues_ok hid1" by (rule keepsD [OF keeps_enter "1.prems"(1) enter])
    from "1.prems"(2) False decode enter have "(if ok1 then type_from hid1 bytes next' os1 else (False, hid1, os1)) = (ok, hid', os')"
      by (subst (asm) type_from.simps) simp
    then show ?thesis
      using ok1 "1.IH" [OF _ decode refl enter [symmetric] refl _ ok1] False by (auto split: if_splits)
  qed
qed

lemma keeps_type_from: "keeps (\<lambda>hid. type_from hid bytes offset)"
  by (rule keepsI) (rule type_from_ok)

lemma keeps_scancode: "keeps (\<lambda>hid. hid_scancode hid code extended release)"
proof (rule keepsI)
  fix hid os ok hid' os'
  assume ok: "queues_ok hid" and run: "hid_scancode hid code extended release os = (ok, hid', os')"
  have key: "queues_ok (set_key hid usage modifier release)" for usage modifier
    by (rule device_ok [OF _ ok]) simp
  show "queues_ok hid'"
    using ok run keepsD [OF keeps_send_keyboard key]
    by (cases "hid_translate_scancode code extended") (auto simp: hid_scancode_def split: if_splits)
qed

lemma keeps_synchronize: "keeps hid_synchronize"
proof (rule keepsI)
  fix hid os ok hid' os'
  assume ok: "queues_ok hid" and run: "hid_synchronize hid os = (ok, hid', os')"
  have h1: "queues_ok (all_released hid)" by (rule device_ok [OF _ ok]) simp
  obtain k hid2 os2 where two: "send_keyboard (all_released hid) os = (k, hid2, os2)" by (metis prod_cases3)
  have ok2: "queues_ok hid2" by (rule keepsD [OF keeps_send_keyboard h1 two])
  obtain m hid3 os3 where three: "queue_report PointerQueue hid2 (hid_mouse_path hid2) [0, 0, 0, 0] False 0 os2 = (m, hid3, os3)" by (metis prod_cases3)
  have ok3: "queues_ok hid3" using emitted_ok [OF mouse_report_emitted(2) [OF ok2 _ three]] by simp
  obtain a where four: "send_absolute hid3 False os3 = (a, hid', os')"
    using run two three by (auto simp: hid_synchronize_def all_released_def Let_def split: prod.splits)
  show "queues_ok hid'" by (rule keepsD [OF keeps_send_absolute ok3 four])
qed

lemma release_all_ok: "queues_ok hid \<Longrightarrow> hid_release_all hid os = (hid', os') \<Longrightarrow> queues_ok hid'"
  using hid_released by blast

lemma keeps_type_utf8: "keeps (\<lambda>hid. hid_type_utf8 hid bytes)"
proof (rule keepsI)
  fix hid os ok hid' os'
  assume ok: "queues_ok hid" and run: "hid_type_utf8 hid bytes os = (ok, hid', os')"
  let ?h1 = "hid\<lparr>hid_keyboard_delay_ms := 20\<rparr>"
  have h1: "queues_ok ?h1" by (rule device_ok [OF _ ok]) simp
  then have h2: "queues_ok (reset_keyboard_state ?h1 False)" by (rule device_ok [rotated]) simp
  have finish: "queues_ok hid'" if "queues_ok hid2" and "(if r then (True, hid2\<lparr>hid_keyboard_delay_ms := 0\<rparr>, os2)
      else case hid_release_all (hid2\<lparr>hid_keyboard_delay_ms := 0\<rparr>) os2 of (hid4, os4) \<Rightarrow> (False, hid4, os4)) = (ok, hid', os')" for r hid2 os2
  proof -
    have "queues_ok (hid2\<lparr>hid_keyboard_delay_ms := 0\<rparr>)" by (rule device_ok [OF _ that(1)]) simp
    then show ?thesis using that(2) release_all_ok by (auto split: if_splits prod.splits)
  qed
  consider (empty) "bytes = []" | (shortcut) key r hid2 os2 where "tap_text_key ?h1 key os = (r, hid2, os2)"
      "(if r then (True, hid2\<lparr>hid_keyboard_delay_ms := 0\<rparr>, os2)
        else case hid_release_all (hid2\<lparr>hid_keyboard_delay_ms := 0\<rparr>) os2 of (hid4, os4) \<Rightarrow> (False, hid4, os4)) = (ok, hid', os')"
    | (typed) k hid2 os2 r hid3 os3 where "send_keyboard (reset_keyboard_state ?h1 False) os = (k, hid2, os2)"
      "(if k then type_from hid2 bytes 0 os2 else (False, hid2, os2)) = (r, hid3, os3)"
      "(if r then (True, hid3\<lparr>hid_keyboard_delay_ms := 0\<rparr>, os3)
        else case hid_release_all (hid3\<lparr>hid_keyboard_delay_ms := 0\<rparr>) os3 of (hid4, os4) \<Rightarrow> (False, hid4, os4)) = (ok, hid', os')"
    using run by (cases "bytes = []"; cases "if length bytes = 1 \<and> hid_modifiers ?h1 \<noteq> 0 then ascii_to_hid (bytes ! 0) else None")
      (auto simp: hid_type_utf8_def Let_def split: prod.splits)
  then show "queues_ok hid'"
  proof cases
    case empty
    with run ok show ?thesis by (simp add: hid_type_utf8_def)
  next
    case shortcut
    then show ?thesis using finish keepsD [OF keeps_tap h1] by blast
  next
    case typed
    have "queues_ok hid2" by (rule keepsD [OF keeps_send_keyboard h2 typed(1)])
    then have "queues_ok hid3" using typed(2) type_from_ok by (auto split: if_splits)
    then show ?thesis using finish typed(3) by blast
  qed
qed

lemma keeps_absolute: "keeps (\<lambda>hid. hid_absolute hid x y width height flags)"
proof (rule keepsI)
  fix hid os ok hid' os'
  assume ok: "queues_ok hid" and run: "hid_absolute hid x y width height flags os = (ok, hid', os')"
  let ?b = "hid_pointer_buttons (hid_buttons hid) flags"
  let ?h1 = "hid\<lparr>hid_buttons := ?b, hid_mouse_buttons := ?b, hid_last_x := hid_scale_absolute x width, hid_last_y := hid_scale_absolute y height\<rparr>"
  have h1: "queues_ok ?h1" by (rule device_ok [OF _ ok]) simp
  obtain r hid2 os2 where two: "send_absolute ?h1 (flags AND any_button_flag = 0) os = (r, hid2, os2)" by (metis prod_cases3)
  have ok2: "queues_ok hid2" by (rule keepsD [OF keeps_send_absolute h1 two])
  show "queues_ok hid'"
    using run two ok2 keepsD [OF keeps_send_relative ok2, of 0 0 0 os2 ok hid' os'] by (auto simp: hid_absolute_def Let_def split: if_splits)
qed

lemma relative_loop_keeps: "queues_ok hid \<Longrightarrow> relative_loop hid x y os = (ok, hid', os') \<Longrightarrow> queues_ok hid'"
proof (induction hid x y os rule: relative_loop.induct)
  case (1 hid x y os)
  obtain r hid1 os1 where first: "send_relative hid (chunk x) (chunk y) 0 os = (r, hid1, os1)" by (metis prod_cases3)
  have ok1: "queues_ok hid1" by (rule keepsD [OF keeps_send_relative "1.prems"(1) first])
  show ?case
    using "1.prems" first ok1 "1.IH" [OF _ first [symmetric] refl _ ok1]
    by (auto simp: relative_loop.simps [of hid x y] split: if_splits)
qed

lemma keeps_relative: "keeps (\<lambda>hid. hid_relative hid x y buttons)"
proof (rule keepsI)
  fix hid os ok hid' os'
  assume ok: "queues_ok hid" and run: "hid_relative hid x y buttons os = (ok, hid', os')"
  let ?n = "buttons AND HID_TOUCH_BUTTONS_MASK" and ?c = "hid_buttons hid XOR (buttons AND HID_TOUCH_BUTTONS_MASK)"
  let ?h1 = "hid\<lparr>hid_buttons := ?n, hid_mouse_buttons := ?n\<rparr>"
  have h1: "queues_ok ?h1" by (rule device_ok [OF _ ok]) simp
  obtain r hid2 os2 where two: "(if ?c AND 0x18 \<noteq> 0 then send_absolute ?h1 False os else (True, ?h1, os)) = (r, hid2, os2)" by (metis prod_cases3)
  have ok2: "queues_ok hid2" using two h1 keepsD [OF keeps_send_absolute h1, of False os r hid2 os2] by (auto split: if_splits)
  show "queues_ok hid'"
    using run two ok2 keepsD [OF keeps_send_relative ok2, of 0 0 0 os2 ok hid' os'] relative_loop_keeps [OF ok2]
    by (auto simp: hid_relative_def Let_def split: if_splits)
qed

lemma keeps_wheel: "keeps (\<lambda>hid. hid_wheel hid flags)"
proof (rule keepsI)
  fix hid os ok hid' os'
  assume ok: "queues_ok hid" and run: "hid_wheel hid flags os = (ok, hid', os')"
  have "queues_ok (hid\<lparr>hid_pan_delta := to_int8 (wheel_detents flags)\<rparr>)" by (rule device_ok [OF _ ok]) simp
  from run ok keepsD [OF keeps_send_absolute this, of False os ok hid' os'] keepsD [OF keeps_send_relative ok, of 0 0 _ os ok hid' os']
  show "queues_ok hid'" by (auto simp: hid_wheel_def Let_def split: if_splits)
qed

lemma keeps_keepalive: "keeps (\<lambda>hid. hid_keepalive hid now)"
proof (rule keepsI)
  fix hid os ok hid' os'
  assume ok: "queues_ok hid" and run: "hid_keepalive hid now os = (ok, hid', os')"
  let ?h = "hid\<lparr>hid_keepalive_at := now + HID_KEEPALIVE_INTERVAL_MS\<rparr>"
  have h: "queues_ok ?h" by (rule device_ok [OF _ ok]) simp
  obtain r hid1 os1 where sent: "send_relative ?h (hid_keepalive_dx hid) 0 0 os = (r, hid1, os1)" by (metis prod_cases3)
  have ok1: "queues_ok hid1" by (rule keepsD [OF keeps_send_relative h sent])
  have "queues_ok (hid1\<lparr>hid_keepalive_dx := d\<rparr>)" for d by (rule device_ok [OF _ ok1]) simp
  with run sent ok ok1 show "queues_ok hid'" by (auto simp: hid_keepalive_def split: if_splits)
qed

lemma feedback_device: "same_device hid (fst (feedback_batch n now hid os))"
proof (induction n arbitrary: hid os)
  case 0
  then show ?case by (simp add: same_device_def)
next
  case (Suc n)
  have upd: "same_device hid (hid\<lparr>hid_feedback_reports := a, hid_keyboard_leds := b\<rparr>)"
    "same_device hid (hid\<lparr>hid_feedback_errors := a, hid_keyboard_feedback_fd := c, hid_feedback_retry_at := d\<rparr>)" "same_device hid hid" for a b c d
    by (simp_all add: same_device_def all_queues)
  show ?case
    using upd same_device_trans [OF upd(1) Suc.IH] Suc.IH
    by (auto split: prod.splits recv_answer.splits list.splits)
qed

lemma drain_device: "drain_keyboard_feedback hid os = (hid', os') \<Longrightarrow> same_device hid hid'"
proof -
  assume run: "drain_keyboard_feedback hid os = (hid', os')"
  have upd: "same_device hid (hid\<lparr>hid_keyboard_feedback_fd := a, hid_feedback_retry_at := b\<rparr>)" "same_device hid hid" for a b
    by (simp_all add: same_device_def all_queues)
  have "same_device hid h \<Longrightarrow> same_device hid (fst (feedback_batch 32 now h os2))" for h now os2
    using same_device_trans feedback_device by blast
  with run upd show ?thesis
    by (auto simp: drain_keyboard_feedback_def Let_def split: prod.splits if_splits) (metis fst_conv)+
qed

lemma keeps_flush: "keeps hid_flush"
proof (rule keepsI)
  fix hid os ok hid' os'
  assume ok: "queues_ok hid" and run: "hid_flush hid os = (ok, hid', os')"
  obtain hid1 os1 where one: "drain_keyboard_feedback hid os = (hid1, os1)" by (rule prod.exhaust)
  have ok1: "queues_ok hid1" by (rule device_ok [OF drain_device [OF one] ok])
  obtain k hid2 os2 where two: "flush_reports KeyboardQueue hid1 os1 = (k, hid2, os2)" by (metis prod_cases3)
  have ok2: "queues_ok hid2" using flush_reports_pumped [OF two] ok1 by (simp add: pumped_def)
  obtain p hid3 os3 where three: "flush_reports PointerQueue hid2 os2 = (p, hid3, os3)" by (metis prod_cases3)
  have ok3: "queues_ok hid3" using flush_reports_pumped [OF three] ok2 by (simp add: pumped_def)
  have "queues_ok (update_desynced hid3)" by (rule device_ok [OF _ ok3]) simp
  then show "queues_ok hid'" using run one two three by (simp add: hid_flush_def Let_def)
qed

lemmas keeps_operations = keeps_scancode keeps_type_utf8 keeps_absolute keeps_relative keeps_wheel keeps_synchronize keeps_keepalive keeps_flush

section \<open>The agent\<close>

definition agent_ok :: "Agent \<Rightarrow> bool" where
  "agent_ok agent \<longleftrightarrow> queues_ok (ag_hid agent) \<and> reader_ok (ag_control_reader agent)"

text \<open>Only the HID state changed, and it is well formed if it was.\<close>

definition hid_moved :: "Agent \<Rightarrow> Agent \<Rightarrow> bool" where
  "hid_moved agent agent' \<longleftrightarrow>
     (\<exists>hid. agent' = agent\<lparr>ag_hid := hid\<rparr> \<and> (queues_ok (ag_hid agent) \<longrightarrow> queues_ok hid))"

lemma hid_moved_refl: "hid_moved agent agent"
  unfolding hid_moved_def by (rule exI [of _ "ag_hid agent"]) simp

lemma hid_moved_trans: "hid_moved a b \<Longrightarrow> hid_moved b c \<Longrightarrow> hid_moved a c"
  by (auto simp: hid_moved_def)

lemma hid_moved_fields:
  assumes "hid_moved agent agent'"
  shows "ag_wait_for_idr agent' = ag_wait_for_idr agent" "ag_streaming agent' = ag_streaming agent"
    "ag_control_fd agent' = ag_control_fd agent" "ag_control_reader agent' = ag_control_reader agent"
    "ag_last_pong_at agent' = ag_last_pong_at agent" "agent_ok agent \<Longrightarrow> agent_ok agent'"
proof -
  obtain h where "agent' = agent\<lparr>ag_hid := h\<rparr>" "queues_ok (ag_hid agent) \<longrightarrow> queues_ok h" using assms unfolding hid_moved_def by blast
  then show "ag_wait_for_idr agent' = ag_wait_for_idr agent" "ag_streaming agent' = ag_streaming agent"
    "ag_control_fd agent' = ag_control_fd agent" "ag_control_reader agent' = ag_control_reader agent"
    "ag_last_pong_at agent' = ag_last_pong_at agent" "agent_ok agent \<Longrightarrow> agent_ok agent'" by (simp_all add: agent_ok_def)
qed

lemma on_hid_moved: "keeps operation \<Longrightarrow> on_hid operation agent aos = (ok, agent', aos') \<Longrightarrow> hid_moved agent agent'"
  by (auto simp: on_hid_def hid_moved_def split: prod.splits dest: keepsD)

lemma release_moved: "agent_release_all agent aos = (agent', aos') \<Longrightarrow> hid_moved agent agent'"
  by (auto simp: agent_release_all_def hid_moved_def split: prod.splits dest: release_all_ok)

text \<open>The dispatcher: apart from the HID state only the stream flags and the time of the last answer change.\<close>

definition restarts :: "NanokvmControlMessage \<Rightarrow> bool" where
  "restarts message \<longleftrightarrow>
     msg_type message = control_code CONTROL_START_STREAM \<or> msg_type message = control_code CONTROL_IDR_REQUEST"

definition dispatched :: "NanokvmControlMessage \<Rightarrow> Agent \<Rightarrow> Agent \<Rightarrow> bool" where
  "dispatched message agent agent' \<longleftrightarrow>
     (agent_ok agent \<longrightarrow> agent_ok agent') \<and> ag_control_fd agent' = ag_control_fd agent \<and>
     ag_wait_for_idr agent' = (ag_wait_for_idr agent \<or> restarts message) \<and>
     (ag_streaming agent' \<longrightarrow> ag_streaming agent \<or> ag_wait_for_idr agent')"

lemma moved_dispatched: "hid_moved agent agent' \<Longrightarrow> \<not> restarts message \<Longrightarrow> dispatched message agent agent'"
  using hid_moved_fields [of agent agent'] by (simp add: dispatched_def)

lemma keeps_payload_operations:
  "keeps (key_operation payload)" "keeps (absolute_operation payload)" "keeps (relative_operation payload)"
proof -
  have "key_operation payload = (\<lambda>hid. hid_scancode hid (payload ! 0) (payload ! 1 \<noteq> 0) (payload ! 2 \<noteq> 0))"
    "absolute_operation payload = (\<lambda>hid. hid_absolute hid (protocol_read_u16 payload) (protocol_read_u16 (drop 2 payload))
       (ucast (protocol_read_u16 (drop 4 payload))) (ucast (protocol_read_u16 (drop 6 payload))) (protocol_read_u16 (drop 8 payload)))"
    "relative_operation payload = (\<lambda>hid. hid_relative hid (sint (protocol_read_u16 payload)) (sint (protocol_read_u16 (drop 2 payload))) (payload ! 4))"
    by (simp_all add: fun_eq_iff key_operation_def absolute_operation_def relative_operation_def)
  then show "keeps (key_operation payload)" "keeps (absolute_operation payload)" "keeps (relative_operation payload)"
    using keeps_operations by simp_all
qed

lemma dispatch_control_dispatched:
  assumes run: "dispatch_control message agent aos = (ok, agent', aos')"
  shows "dispatched message agent agent'"
proof -
  let ?t = "msg_type message" and ?p = "msg_payload message"
  have moved: "dispatched message agent agent'" if "hid_moved agent agent'" "\<not> restarts message"
    using that by (rule moved_dispatched)
  have hid: "dispatched message agent agent'" if "on_hid operation agent aos = (r, agent', aos1)" "keeps operation" "\<not> restarts message" for operation r aos1
    using moved [OF on_hid_moved [OF that(2,1)] that(3)] .
  have same: "dispatched message agent agent'" if "agent' = agent" "\<not> restarts message" using moved that hid_moved_refl by simp
  consider (start) "?t = 2" | (stop) "?t = 3" | (idr) "?t = 4" | (key) "?t = 5" | (utf) "?t = 14" | (abso) "?t = 6" | (rel) "?t = 7" | (whl) "?t = 8"
    | (release) "?t = 9" | (sync) "?t = 16" | (ping) "?t = 10" | (pong) "?t = 11"
    | (other) "?t \<notin> {2, 3, 4, 5, 14, 6, 7, 8, 9, 16, 10, 11}" by blast
  then show ?thesis
  proof cases
    case start
    with run show ?thesis by (auto simp: dispatch_control_def dispatched_def restarts_def agent_ok_def)
  next
    case stop
    obtain agent1 aos1 where "agent_release_all (agent\<lparr>ag_streaming := False\<rparr>) aos = (agent1, aos1)" by (rule prod.exhaust)
    with run stop release_moved [OF this] have "hid_moved (agent\<lparr>ag_streaming := False\<rparr>) agent'" by (simp add: dispatch_control_def)
    then show ?thesis using hid_moved_fields [of "agent\<lparr>ag_streaming := False\<rparr>" agent'] stop
      by (simp add: dispatched_def restarts_def agent_ok_def)
  next
    case idr
    with run show ?thesis by (auto simp: dispatch_control_def dispatched_def restarts_def agent_ok_def)
  next
    case key
    obtain r agent1 aos1 where op: "on_hid (key_operation ?p) agent aos = (r, agent1, aos1)" by (metis prod_cases3)
    have "agent' = agent1 \<or> agent' = agent" using run key op
      by (auto simp: dispatch_control_def protocol_consts Let_def split: if_splits prod.splits)
    then show ?thesis using hid [of "key_operation ?p"] op keeps_payload_operations(1) same key by (auto simp: restarts_def)
  next
    case utf
    obtain r agent1 aos1 where op: "on_hid (\<lambda>hid. hid_type_utf8 hid (take (unat (msg_length message)) ?p)) agent aos = (r, agent1, aos1)" by (metis prod_cases3)
    have m1: "hid_moved agent agent1" by (rule on_hid_moved [OF keeps_type_utf8 op])
    obtain agent2 aos2 where rel: "agent_release_all agent1 aos1 = (agent2, aos2)" by (rule prod.exhaust)
    have m2: "hid_moved agent agent2" using hid_moved_trans [OF m1 release_moved [OF rel]] .
    have "agent' = agent \<or> agent' = agent1 \<or> agent' = agent2" using run utf op rel
      by (auto simp: dispatch_control_def Let_def split: if_splits)
    then show ?thesis using moved m1 m2 hid_moved_refl utf by (auto simp: restarts_def)
  next
    case abso
    then show ?thesis using run hid [OF _ keeps_payload_operations(2)] same
      by (auto simp: dispatch_control_def restarts_def Let_def split: if_splits)
  next
    case rel
    then show ?thesis using run hid [OF _ keeps_payload_operations(3)] same
      by (auto simp: dispatch_control_def restarts_def Let_def split: if_splits)
  next
    case whl
    then show ?thesis using run hid [OF _ keeps_wheel] same
      by (auto simp: dispatch_control_def restarts_def Let_def split: if_splits)
  next
    case release
    then have "hid_moved agent agent'" using run release_moved [of agent aos agent' aos'] by (simp add: dispatch_control_def)
    then show ?thesis using moved release by (simp add: restarts_def)
  next
    case sync
    then show ?thesis using run hid [OF _ keeps_synchronize] by (simp add: dispatch_control_def restarts_def)
  next
    case ping
    then show ?thesis using run same by (auto simp: dispatch_control_def restarts_def split: prod.splits)
  next
    case pong
    then show ?thesis using run by (auto simp: dispatch_control_def dispatched_def agent_ok_def restarts_def split: prod.splits)
  next
    case other
    then show ?thesis using run same by (simp add: dispatch_control_def restarts_def)
  qed
qed

lemma dispatched_moved: "dispatched message agent agent1 \<Longrightarrow> hid_moved agent1 agent2 \<Longrightarrow> dispatched message agent agent2"
  using hid_moved_fields [of agent1 agent2] by (auto simp: dispatched_def)

lemma handle_control_dispatched:
  assumes run: "handle_control message agent aos = (agent', aos')"
  shows "dispatched message agent agent'"
proof -
  obtain started aos1 where one: "monotonic_milliseconds aos = (started, aos1)" by (rule prod.exhaust)
  obtain ok agent2 aos2 where two: "dispatch_control message agent aos1 = (ok, agent2, aos2)" by (metis prod_cases3)
  have d2: "dispatched message agent agent2" by (rule dispatch_control_dispatched [OF two])
  let ?log = "hid_modifiers (ag_hid agent) \<noteq> hid_modifiers (ag_hid agent2) \<or> hid_mouse_buttons (ag_hid agent) \<noteq> hid_mouse_buttons (ag_hid agent2) \<or>
     msg_type message = control_code CONTROL_RELEASE_ALL \<or> msg_type message = control_code CONTROL_SYNCHRONIZE \<or> \<not> ok"
  let ?aos3 = "if ?log then snd (monotonic_milliseconds aos2) else aos2"
  obtain agent4 aos4 where four: "(if ok then (agent2, ?aos3) else agent_release_all agent2 ?aos3) = (agent4, aos4)" by (rule prod.exhaust)
  have "hid_moved agent2 agent4"
    using four release_moved [of agent2 ?aos3] hid_moved_refl by (cases ok) (auto simp del: control_code.simps)
  then have d4: "dispatched message agent agent4" by (rule dispatched_moved [OF d2])
  have "agent' \<in> {agent4, agent4\<lparr>ag_input_events := ag_input_events agent4 + 1\<rparr>} \<or>
      (\<exists>elapsed. agent' = agent4\<lparr>ag_input_events := ag_input_events agent4 + 1, ag_max_input_handler_ms := elapsed\<rparr>)"
    using run unfolding handle_control_def one two prod.case Let_def four by (auto split: if_splits prod.splits)
  with d4 show ?thesis by (auto simp: dispatched_def agent_ok_def)
qed

text \<open>The state a lost connection leaves behind.\<close>

definition disconnected :: "Agent \<Rightarrow> bool" where
  "disconnected agent \<longleftrightarrow>
     ag_control_fd agent < 0 \<and> \<not> ag_streaming agent \<and> ag_wait_for_idr agent \<and>
     key_state (ag_hid agent) = released \<and> hid_buttons (ag_hid agent) = 0"

lemma disconnect_ok:
  assumes "agent_ok agent" and "disconnect_control agent aos = (agent', aos')"
  shows "agent_ok agent' \<and> disconnected agent'"
proof -
  obtain hid os where rel: "hid_release_all (ag_hid agent) (ao_hid aos) = (hid, os)" by (rule prod.exhaust)
  have "queues_ok (ag_hid agent)" using assms(1) by (simp add: agent_ok_def)
  from hid_released [OF this rel] have "key_state hid = released" "hid_buttons hid = 0" "queues_ok hid" by simp_all
  then show ?thesis
    using assms rel by (auto simp: disconnect_control_def agent_release_all_def Let_def disconnected_def agent_ok_def)
qed

lemma receive_batch_ok:
  "agent_ok agent \<Longrightarrow> 0 \<le> ag_control_fd agent \<Longrightarrow> receive_batch n agent aos = (agent', aos') \<Longrightarrow>
     agent_ok agent' \<and> (disconnected agent' \<or> 0 \<le> ag_control_fd agent')"
proof (induction n arbitrary: agent aos)
  case (Suc n)
  obtain result reader message events where
    got: "protocol_receive_available (ao_events aos) (ag_control_reader agent) empty_message = (result, reader, message, events)"
    by (metis prod_cases4)
  let ?agent1 = "agent\<lparr>ag_control_reader := reader\<rparr>" and ?aos1 = "aos\<lparr>ao_events := events\<rparr>"
  have "reader_ok reader"
    using protocol_receive_available_ok [of "ag_control_reader agent" "ao_events aos" empty_message] Suc.prems(1) got by (simp add: agent_ok_def)
  then have ok1: "agent_ok ?agent1" using Suc.prems(1) by (simp add: agent_ok_def)
  consider (closed) "result < 0" | (idle) "result = 0" | (message) "0 < result" by linarith
  then show ?case
  proof cases
    case closed
    then show ?thesis using Suc.prems(3) got disconnect_ok [OF ok1, of ?aos1] by auto
  next
    case idle
    then show ?thesis using Suc.prems got ok1 by auto
  next
    case message
    obtain agent2 aos2 where handled: "handle_control message ?agent1 ?aos1 = (agent2, aos2)" by (rule prod.exhaust)
    have "agent_ok agent2" "0 \<le> ag_control_fd agent2"
      using handle_control_dispatched [OF handled] ok1 Suc.prems(2) by (simp_all add: dispatched_def)
    then show ?thesis using Suc.IH [of agent2 aos2] Suc.prems(3) got message handled by simp
  qed
qed simp

lemma connect_ok:
  assumes "agent_ok agent" and "connect_control ca agent aos = (ok, agent', aos')"
  shows "agent_ok agent' \<and> (if ok then 0 \<le> ag_control_fd agent' else ag_control_fd agent' = ag_control_fd agent)"
  using assms reader_ok_empty
  by (auto simp: connect_control_def agent_ok_def Let_def split: if_splits option.splits prod.splits)

lemma service_ok:
  assumes "service_hid loop agent aos = (loop', agent', aos')"
  shows "hid_moved agent agent'"
proof -
  obtain f agent1 aos1 where one: "on_hid hid_flush agent aos = (f, agent1, aos1)" by (metis prod_cases3)
  have m1: "hid_moved agent agent1" by (rule on_hid_moved [OF keeps_flush one])
  obtain now aos1' where clock: "monotonic_milliseconds aos1 = (now, aos1')" by (rule prod.exhaust)
  obtain k agent2 aos2 where two: "(if f then on_hid (\<lambda>hid. hid_keepalive hid now) agent1 aos1' else (False, agent1, aos1)) = (k, agent2, aos2)"
    by (metis prod_cases3)
  have m2: "hid_moved agent agent2"
    using two m1 hid_moved_trans [OF m1 on_hid_moved [OF keeps_keepalive]] by (auto split: if_splits)
  show ?thesis
  proof (cases k)
    case True
    then show ?thesis using assms one two clock m2 by (simp add: service_hid_def Let_def split: if_splits)
  next
    case False
    then obtain aos3 where "agent_release_all agent2 aos3 = (agent', aos')"
      using assms one two clock by (auto simp: service_hid_def Let_def split: if_splits prod.splits)
    then show ?thesis using hid_moved_trans [OF m2 release_moved] by blast
  qed
qed

lemma heartbeat_ok:
  assumes ok: "agent_ok agent" and run: "heartbeat now agent aos = (agent', aos')"
  shows "agent_ok agent' \<and> (disconnected agent' \<or> (0 \<le> ag_control_fd agent' \<and> 0 \<le> ag_control_fd agent) \<or> agent' = agent)"
proof -
  have fields: "agent_ok (agent\<lparr>ag_last_ping_at := a\<rparr>)" "agent_ok (agent\<lparr>ag_last_stats_at := b\<rparr>)"
    "agent_ok (agent\<lparr>ag_last_ping_at := a, ag_last_stats_at := b\<rparr>)" for a b using ok by (simp_all add: agent_ok_def)
  show ?thesis
    using run ok fields disconnect_ok [OF ok] disconnect_ok [OF fields(1)]
    by (auto simp: heartbeat_def Let_def split: if_splits prod.splits)
qed

lemma log_input_ok:
  "agent_ok (log_input now agent) = agent_ok agent" "ag_control_fd (log_input now agent) = ag_control_fd agent"
  "disconnected (log_input now agent) = disconnected agent"
proof -
  have "same_device (ag_hid agent) ((ag_hid agent)\<lparr>hid_max_queue_age_ms := 0\<rparr>)" by (simp add: same_device_def all_queues)
  note dev = same_device_cong(1) [OF this]
  show "agent_ok (log_input now agent) = agent_ok agent" by (simp add: log_input_def agent_ok_def dev)
  show "ag_control_fd (log_input now agent) = ag_control_fd agent" by (simp add: log_input_def)
  show "disconnected (log_input now agent) = disconnected agent" by (simp add: log_input_def disconnected_def key_state_def)
qed

lemma agent_turn_ok:
  assumes ok: "agent_ok agent" and run: "agent_turn ca readable loop agent aos = (loop', agent', aos')"
  shows "agent_ok agent' \<and> (0 \<le> ag_control_fd agent \<longrightarrow> disconnected agent' \<or> 0 \<le> ag_control_fd agent')"
proof -
  obtain loop1 agent1 aos1 where one: "service_hid loop agent aos = (loop1, agent1, aos1)" by (metis prod_cases3)
  have s1: "agent_ok agent1" "ag_control_fd agent1 = ag_control_fd agent"
    using ok hid_moved_fields [OF service_ok [OF one]] by simp_all
  obtain loop2 agent2 aos2 where two: "reconnect ca loop1 agent1 aos1 = (loop2, agent2, aos2)" by (metis prod_cases3)
  have s2: "agent_ok agent2" "0 \<le> ag_control_fd agent \<longrightarrow> agent2 = agent1"
    using two s1 connect_ok [OF s1(1)] by (auto simp: reconnect_def Let_def split: if_splits prod.splits)
  obtain agent4 aos4 where four: "(if readable \<and> 0 \<le> ag_control_fd agent2 then receive_batch 32 agent2 (poll_delay agent2 aos2)
      else (agent2, poll_delay agent2 aos2)) = (agent4, aos4)" by (rule prod.exhaust)
  have s4: "agent_ok agent4" "0 \<le> ag_control_fd agent2 \<longrightarrow> disconnected agent4 \<or> 0 \<le> ag_control_fd agent4"
    using four s2(1) receive_batch_ok [OF s2(1), of 32] by (auto split: if_splits)
  obtain now aos5 where clock: "monotonic_milliseconds aos4 = (now, aos5)" by (rule prod.exhaust)
  have last: "heartbeat now (log_input now agent4) aos5 = (agent', aos')"
    using run one two four clock by (simp add: agent_turn_def Let_def split: prod.splits)
  have "agent_ok (log_input now agent4)" using s4(1) by (simp add: log_input_ok)
  from heartbeat_ok [OF this last] s2(2) s4(2) s1(2) log_input_ok show ?thesis by auto
qed

section \<open>Which frames are sent\<close>

text \<open>
  The two threads interleaved: control messages and lost connections on one side, the pieces of the
  video loop on the other. The outcomes are what matters to the decoder at the other end: a frame
  handed to the packetizer with its kind, a frame that could not be sent, a new start.
\<close>

datatype agent_event =
    Message NanokvmControlMessage
  | Disconnect
  | Head "bool list" "bool \<times> bool \<times> bool \<times> bool"
  | Capture capture
  | Send

datatype outcome = Handed int | SendFailed | Restart

type_synonym agent_system = "Agent \<times> AgentOs \<times> VideoLoop \<times> VideoOs"

fun agent_step :: "agent_system \<Rightarrow> agent_event \<Rightarrow> agent_system \<times> outcome list" where
  "agent_step (agent, aos, vl, vos) (Message message) =
     (case handle_control message agent aos of
        (agent1, aos1) \<Rightarrow> ((agent1, aos1, vl, vos), if restarts message then [Restart] else []))"
| "agent_step (agent, aos, vl, vos) Disconnect =
     (case disconnect_control agent aos of (agent1, aos1) \<Rightarrow> ((agent1, aos1, vl, vos), [Restart]))"
| "agent_step (agent, aos, vl, vos) (Head opens symbols) =
     (if vl_point vl \<noteq> AtHead then ((agent, aos, vl, vos), [])
      else case video_head opens symbols vl agent of (vl1, agent1) \<Rightarrow> ((agent1, aos, vl1, vos), []))"
| "agent_step (agent, aos, vl, vos) (Capture captured) =
     (if vl_point vl \<noteq> Reading then ((agent, aos, vl, vos), [])
      else case video_captured captured vl agent vos of
        (vl1, agent1, vos1) \<Rightarrow>
          ((agent1, aos, vl1, vos1), case vl_point vl1 of Sending data \<Rightarrow> [Handed (fst captured)] | _ \<Rightarrow> []))"
| "agent_step (agent, aos, vl, vos) Send =
     (case vl_point vl of
        Sending data \<Rightarrow>
          (case video_send data vl agent vos of
             (sent, vl1, agent1, vos1) \<Rightarrow> ((agent1, aos, vl1, vos1), if sent then [] else [SendFailed]))
      | _ \<Rightarrow> ((agent, aos, vl, vos), []))"

fun agent_trace :: "agent_system \<Rightarrow> agent_event list \<Rightarrow> outcome list" where
  "agent_trace s [] = []"
| "agent_trace s (e # es) = (case agent_step s e of (s1, outcomes) \<Rightarrow> outcomes @ agent_trace s1 es)"

text \<open>\<open>referenced have trace\<close>: a predicted frame is only handed over after a key frame with nothing lost in between.\<close>

fun referenced :: "bool \<Rightarrow> outcome list \<Rightarrow> bool" where
  "referenced have [] = True"
| "referenced have (Handed kind # rest) =
     ((kind = KVM_FRAME_P \<longrightarrow> have) \<and> referenced (have \<or> kind = KVM_FRAME_IDR) rest)"
| "referenced have (SendFailed # rest) = referenced False rest"
| "referenced have (Restart # rest) = referenced False rest"

lemma send_packet_fields:
  "send_packet (agent, vos) packet = (ok, agent', vos') \<Longrightarrow>
     ag_wait_for_idr agent' = ag_wait_for_idr agent \<and> ag_streaming agent' = ag_streaming agent"
proof (induction "(agent, vos)" packet arbitrary: agent vos rule: send_packet.induct)
  case (1 agent vos packet)
  obtain answer vos1 where a: "sys_sendto packet vos = (answer, vos1)" by (rule prod.exhaust)
  obtain now vos2 where n: "(if ag_stop_requested agent then (0, vos1) else video_now vos1) = (now, vos2)" by (rule prod.exhaust)
  show ?case
  proof (cases "answer = SentBytes (length packet)")
    case True
    then show ?thesis using "1.prems" a by (auto simp: send_packet.simps [of agent vos packet])
  next
    case False
    let ?stop = "ag_stop_requested agent \<or> ag_send_deadline_ms agent \<le> now \<or> \<not> worth_retrying (send_error answer)"
    show ?thesis
    proof (cases ?stop)
      case True
      then show ?thesis using "1.prems" a n False by (auto simp: send_packet.simps [of agent vos packet] Let_def split: if_splits)
    next
      case go: False
      then have "send_packet (agent\<lparr>ag_send_retries := ag_send_retries agent + 1\<rparr>, vos2) packet = (ok, agent', vos')"
        using "1.prems" a n False by (auto simp: send_packet.simps [of agent vos packet] Let_def split: if_splits)
      from "1.hyps" [OF a [symmetric] False n [symmetric] refl _ this] go show ?thesis by simp
    qed
  qed
qed

text \<open>Whatever the packet callback keeps of its context, the packetizer keeps.\<close>

lemma emit_keeps:
  assumes "\<And>c p. P c \<Longrightarrow> P (snd (cb c p))" and "P c"
  shows "P (snd (snd (emit_packet pk payload marker ts (Some cb) c)))"
  using assms by (auto simp: emit_packet_def Let_def split: prod.splits) (metis snd_conv)

lemma fragments_keep:
  assumes cb: "\<And>c p. P c \<Longrightarrow> P (snd (cb c p))"
  shows "P c \<Longrightarrow> callback = Some cb \<Longrightarrow> P (snd (snd (packetize_fragments pk nal limit offset ts marker callback c)))"
proof (induction pk nal limit offset ts marker callback c rule: packetize_fragments.induct)
  case (1 pk nal limit offset ts marker callback c)
  show ?case
  proof (cases "offset < length nal \<and> limit \<noteq> 0")
    case True
    let ?f = "if length nal - offset < limit then length nal - offset else limit"
    obtain ok pk1 c1 where e: "emit_packet pk (fragment_payload nal offset ?f) (marker \<and> offset + ?f = length nal) ts callback c = (ok, pk1, c1)"
      by (metis prod_cases3)
    have c1: "P c1" using emit_keeps [of P cb c] cb "1.prems" e by (metis snd_conv)
    have "packetize_fragments pk nal limit offset ts marker callback c =
        (if \<not> ok then (False, pk1, c1) else packetize_fragments pk1 nal limit (offset + ?f) ts marker callback c1)"
      using True e by (simp add: packetize_fragments.simps [of pk nal limit offset] Let_def)
    then show ?thesis using c1 "1.IH" [OF True refl e [symmetric] refl _ c1 "1.prems"(2)] by (simp split: if_split)
  next
    case False
    then have "packetize_fragments pk nal limit offset ts marker callback c = (True, pk, c)"
      by (simp only: packetize_fragments.simps [of pk nal limit offset] if_False)
    then show ?thesis using "1.prems" by simp
  qed
qed

lemma marker_keeps:
  assumes "\<And>c p. P c \<Longrightarrow> P (snd (cb c p))" and "P c"
  shows "P (snd (snd (rtp_h264_packetize_marker pk nal ts marker (Some cb) c)))"
  using emit_keeps [OF assms] fragments_keep [OF assms refl] assms(2)
  by (simp add: rtp_h264_packetize_marker_def Let_def)

lemma units_keep:
  assumes cb: "\<And>c p. P c \<Longrightarrow> P (snd (cb c p))"
  shows "P c \<Longrightarrow> callback = Some cb \<Longrightarrow> P (snd (snd (packetize_units pk data offset ts callback sent c)))"
proof (induction pk data offset ts callback sent c rule: packetize_units.induct)
  case (1 pk data offset ts callback sent c)
  let ?code = "start_code_length data offset"
  let ?start = "offset + ?code"
  let ?nxt = "next_start_code data ?start"
  obtain ok pk1 c1 where m: "rtp_h264_packetize_marker pk (take (?nxt - ?start) (drop ?start data)) ts (?nxt = length data) callback c = (ok, pk1, c1)"
    by (metis prod_cases3)
  have c1: "P c1" using marker_keeps [of P cb c] cb "1.prems" m by (metis snd_conv)
  consider (finished) "\<not> (offset < length data \<and> ?code \<noteq> 0)" | (unit) "offset < length data" "?code \<noteq> 0" "?start < ?nxt"
    | (skip) "offset < length data" "?code \<noteq> 0" "\<not> ?start < ?nxt" by blast
  then show ?case
  proof cases
    case finished
    then show ?thesis using "1.prems" by (auto simp: packetize_units.simps [of pk data offset] Let_def)
  next
    case unit
    then have "packetize_units pk data offset ts callback sent c =
        (if \<not> ok then (False, pk1, c1) else packetize_units pk1 data ?nxt ts callback True c1)"
      using m by (simp add: packetize_units.simps [of pk data offset] Let_def)
    then show ?thesis using c1 "1.IH"(1) [OF unit(1) refl unit(2) refl refl unit(3) m [symmetric] refl _ c1 "1.prems"(2)] by (simp split: if_split)
  next
    case skip
    then have "packetize_units pk data offset ts callback sent c = packetize_units pk data ?nxt ts callback sent c"
      by (simp add: packetize_units.simps [of pk data offset] Let_def)
    then show ?thesis using "1.IH"(2) [OF skip(1) refl skip(2) refl refl skip(3) "1.prems"] by simp
  qed
qed

lemma access_unit_keeps:
  assumes "\<And>c p. P c \<Longrightarrow> P (snd (cb c p))" and "P c"
  shows "P (snd (snd (rtp_h264_packetize_access_unit pk data ts (Some cb) c)))"
  using marker_keeps [OF assms] units_keep [OF assms refl] assms(2)
  by (simp add: rtp_h264_packetize_access_unit_def rtp_h264_packetize_def Let_def)

lemma video_send_flags:
  assumes "video_send data vl agent vos = (sent, vl', agent', vos')"
  shows "ag_streaming agent' = ag_streaming agent \<and> ag_wait_for_idr agent' = (ag_wait_for_idr agent \<or> \<not> sent)"
proof -
  obtain now vos1 where n: "video_now vos = (now, vos1)" by (rule prod.exhaust)
  let ?a = "agent\<lparr>ag_send_deadline_ms := now + 40\<rparr>"
  obtain s pk agent2 vos2 where p: "rtp_h264_packetize_access_unit (ag_packetizer ?a) data (ag_timestamp ?a) (Some send_packet) (?a, vos1) = (s, pk, agent2, vos2)"
    by (metis prod_cases4)
  let ?P = "\<lambda>c. ag_wait_for_idr (fst c) = ag_wait_for_idr agent \<and> ag_streaming (fst c) = ag_streaming agent"
  have step: "?P (snd (send_packet c packet))" if "?P c" for c packet
  proof -
    obtain a v where c: "c = (a, v)" by (rule prod.exhaust)
    obtain ok a' v' where r: "send_packet (a, v) packet = (ok, a', v')" by (metis prod_cases3)
    show ?thesis using that send_packet_fields [OF r] unfolding c r by simp
  qed
  have start: "?P (?a, vos1)" by simp
  have "?P (snd (snd (rtp_h264_packetize_access_unit (ag_packetizer ?a) data (ag_timestamp ?a) (Some send_packet) (?a, vos1))))"
    by (rule access_unit_keeps [of ?P send_packet, OF step start])
  then have "ag_wait_for_idr agent2 = ag_wait_for_idr agent" "ag_streaming agent2 = ag_streaming agent"
    unfolding p by simp_all
  then show ?thesis using assms n p by (auto simp: video_send_def Let_def split: prod.splits if_splits)
qed

fun have_after :: "bool \<Rightarrow> outcome list \<Rightarrow> bool" where
  "have_after have [] = have"
| "have_after have (Handed kind # rest) = have_after (have \<or> kind = KVM_FRAME_IDR) rest"
| "have_after have (SendFailed # rest) = have_after False rest"
| "have_after have (Restart # rest) = have_after False rest"

lemma referenced_append: "referenced have (xs @ ys) = (referenced have xs \<and> referenced (have_after have xs) ys)"
  by (induction "have" xs rule: referenced.induct) auto

text \<open>When frames flow and no key frame is awaited, the decoder has one.\<close>

definition tracked :: "bool \<Rightarrow> agent_system \<Rightarrow> bool" where
  "tracked have s \<longleftrightarrow> (case s of (agent, aos, vl, vos) \<Rightarrow> ag_streaming agent \<and> \<not> ag_wait_for_idr agent \<longrightarrow> have)"

lemma capture_failed_flags:
  "capture_failed vl agent = (vl', agent') \<Longrightarrow>
     ag_streaming agent' = ag_streaming agent \<and> ag_wait_for_idr agent' = ag_wait_for_idr agent \<and> (\<forall>data. vl_point vl' \<noteq> Sending data)"
  by (auto simp: capture_failed_def Let_def split: if_splits)

lemma captured_referenced:
  assumes t: "ag_streaming agent \<and> \<not> ag_wait_for_idr agent \<longrightarrow> have"
    and run: "video_captured captured vl agent vos = (vl', agent', vos')"
  defines "outcomes \<equiv> (case vl_point vl' of Sending data \<Rightarrow> [Handed (fst captured)] | _ \<Rightarrow> [])"
  shows "referenced have outcomes \<and> (ag_streaming agent' \<and> \<not> ag_wait_for_idr agent' \<longrightarrow> have_after have outcomes)"
proof -
  obtain kind data where c: "captured = (kind, data)" by (rule prod.exhaust)
  show ?thesis
  proof (cases "kind < 0 \<or> data = None \<or> data = Some []")
    case True
    then obtain vl1 agent1 where f: "capture_failed vl agent = (vl1, agent1)" "vl' = vl1" "agent' = agent1"
      using run unfolding c by (auto simp: video_captured_def Let_def split: prod.splits)
    have "outcomes = []" using capture_failed_flags [OF f(1)] f(2) unfolding outcomes_def by (auto split: video_point.splits)
    then show ?thesis using t capture_failed_flags [OF f(1)] f(3) by simp
  next
    case False
    then show ?thesis
      using run t unfolding c outcomes_def
      by (auto simp: video_captured_def Let_def kvm_frames split: prod.splits if_splits)
  qed
qed

lemma agent_step_referenced:
  assumes t: "tracked have s" and step: "agent_step s e = (s', outcomes)"
  shows "referenced have outcomes \<and> tracked (have_after have outcomes) s'"
proof -
  obtain agent aos vl vos where s: "s = (agent, aos, vl, vos)" by (metis prod_cases4)
  have tr: "ag_streaming agent \<and> \<not> ag_wait_for_idr agent \<longrightarrow> have" using t by (simp add: s tracked_def)
  show ?thesis
  proof (cases e)
    case (Message message)
    obtain agent1 aos1 where h: "handle_control message agent aos = (agent1, aos1)" by (rule prod.exhaust)
    show ?thesis using step tr handle_control_dispatched [OF h] unfolding s Message
      by (auto simp: h tracked_def dispatched_def)
  next
    case Disconnect
    then show ?thesis using step unfolding s
      by (auto simp: disconnect_control_def Let_def tracked_def split: prod.splits)
  next
    case (Head opens symbols)
    obtain vl1 agent1 where h: "video_head opens symbols vl agent = (vl1, agent1)" by (rule prod.exhaust)
    have "ag_streaming agent1 = ag_streaming agent" "ag_wait_for_idr agent1 = ag_wait_for_idr agent"
      using h by (auto simp: video_head_def split: if_splits prod.splits)
    then show ?thesis using step tr h unfolding s Head by (auto simp: tracked_def split: if_splits)
  next
    case (Capture captured)
    obtain vl1 agent1 vos1 where h: "video_captured captured vl agent vos = (vl1, agent1, vos1)" by (metis prod_cases3)
    show ?thesis using step tr captured_referenced [OF tr h] h unfolding s Capture by (auto simp: tracked_def split: if_splits)
  next
    case Send
    show ?thesis
    proof (cases "vl_point vl")
      case (Sending data)
      obtain sent vl1 agent1 vos1 where h: "video_send data vl agent vos = (sent, vl1, agent1, vos1)" by (metis prod_cases4)
      show ?thesis using step tr video_send_flags [OF h] h Sending unfolding s Send by (auto simp: tracked_def)
    qed (use step tr Send in \<open>auto simp: s tracked_def\<close>)
  qed
qed

lemma agent_trace_referenced: "tracked have s \<Longrightarrow> referenced have (agent_trace s es)"
proof (induction es arbitrary: s "have")
  case (Cons e es)
  obtain s1 outcomes where step: "agent_step s e = (s1, outcomes)" by (rule prod.exhaust)
  from agent_step_referenced [OF Cons.prems step] Cons.IH show ?case by (simp add: step referenced_append)
qed simp

definition turn_step :: "AgentLoop \<times> Agent \<times> AgentOs \<Rightarrow> ConnectAnswers \<times> bool \<Rightarrow> AgentLoop \<times> Agent \<times> AgentOs" where
  "turn_step s e = (case s of (loop, agent, aos) \<Rightarrow> case e of (ca, readable) \<Rightarrow> agent_turn ca readable loop agent aos)"

interpretation agent: invariant_machine turn_step "\<lambda>(loop, agent, aos). agent_ok agent"
proof
  fix s :: "AgentLoop \<times> Agent \<times> AgentOs" and e
  assume "case s of (loop, agent, aos) \<Rightarrow> agent_ok agent"
  then show "case turn_step s e of (loop, agent, aos) \<Rightarrow> agent_ok agent"
    using agent_turn_ok by (cases s; cases e) (fastforce simp: turn_step_def)
qed

section \<open>From the input router to the HID output\<close>

definition on_the_wire :: "InputRouterMessage \<Rightarrow> NanokvmControlMessage" where
  "on_the_wire m = Protocol.delivered (irm_type m, take (unat (irm_length m)) (irm_payload m)) empty_message"

lemma wire_fields:
  assumes "unat (irm_length m) \<le> length (irm_payload m)" and "length (irm_payload m) \<le> 1024"
  shows "msg_type (on_the_wire m) = irm_type m" "msg_length (on_the_wire m) = irm_length m"
    "msg_payload (on_the_wire m) = take (unat (irm_length m)) (irm_payload m) @ replicate (1024 - unat (irm_length m)) 0"
proof -
  show "msg_type (on_the_wire m) = irm_type m" by (simp add: on_the_wire_def Protocol.delivered_def)
  show "msg_length (on_the_wire m) = irm_length m" using assms by (simp add: on_the_wire_def Protocol.delivered_def)
  show "msg_payload (on_the_wire m) = take (unat (irm_length m)) (irm_payload m) @ replicate (1024 - unat (irm_length m)) 0"
    using assms by (simp add: on_the_wire_def Protocol.delivered_def empty_message_def poke_def)
qed

lemma read_split: "un_be16 (ucast (drop_bit 8 v)) (ucast v) = v"
  using protocol_read_u16_write [of v "[]"] by (simp add: write_u16_two)

lemma bool_byte_true: "bool_byte b \<noteq> 0 \<longleftrightarrow> b"
  by (simp add: bool_byte_def)

lemma key_path:
  assumes "hid_map_scancode code extended (ir_swap_alt_command router) = (c, e)"
  shows "dispatch_control (on_the_wire (snd (input_router_keyboard router code extended release))) agent aos =
    on_hid (\<lambda>hid. hid_scancode hid c e release) agent aos"
proof -
  let ?m = "snd (input_router_keyboard router code extended release)"
  have m: "irm_type ?m = 5" "irm_length ?m = 3" "irm_payload ?m = [c, bool_byte e, bool_byte release, 0, 0, 0, 0, 0, 0, 0, 0, 0]"
    using assms by (simp_all add: input_router_keyboard_def Let_def protocol_consts)
  have w: "msg_type (on_the_wire ?m) = 5" "msg_length (on_the_wire ?m) = 3"
    "msg_payload (on_the_wire ?m) = [c, bool_byte e, bool_byte release] @ replicate 1021 0"
    using wire_fields [of ?m] m by simp_all
  have op: "key_operation (msg_payload (on_the_wire ?m)) = (\<lambda>hid. hid_scancode hid c e release)"
    unfolding w by (simp add: fun_eq_iff key_operation_def bool_byte_true)
  show ?thesis by (simp add: dispatch_control_def w(1,2) op protocol_consts)
qed

lemma absolute_path:
  "dispatch_control (on_the_wire (snd (input_router_absolute_pointer router x y flags False))) agent aos =
     on_hid (\<lambda>hid. hid_absolute hid (hid_clamp_absolute x (ir_width router)) (hid_clamp_absolute y (ir_height router))
       (ucast (ir_width router)) (ucast (ir_height router)) flags) agent aos"
proof -
  let ?m = "snd (input_router_absolute_pointer router x y flags False)"
  let ?x = "hid_clamp_absolute x (ir_width router)" and ?y = "hid_clamp_absolute y (ir_height router)"
  let ?bs = "protocol_write_u16 ?x @ protocol_write_u16 ?y @ protocol_write_u16 (ir_width router) @
      protocol_write_u16 (ir_height router) @ protocol_write_u16 flags @ [0, 0]"
  have m: "irm_type ?m = 6" "irm_length ?m = 12" "irm_payload ?m = ?bs"
    by (simp_all add: input_router_absolute_pointer_def write_u16_two)
  have "length ?bs = 12" by simp
  then have w: "msg_type (on_the_wire ?m) = 6" "msg_length (on_the_wire ?m) = 12" "msg_payload (on_the_wire ?m) = ?bs @ replicate 1012 0"
    using wire_fields [of ?m] m by simp_all
  have op: "absolute_operation (msg_payload (on_the_wire ?m)) = (\<lambda>hid. hid_absolute hid ?x ?y (ucast (ir_width router)) (ucast (ir_height router)) flags)"
    unfolding w by (simp add: fun_eq_iff absolute_operation_def write_u16_two read_split)
  show ?thesis by (simp add: dispatch_control_def w(1,2) op)
qed

lemma relative_path:
  "dispatch_control (on_the_wire (snd (input_router_relative_pointer router dx dy flags False))) agent aos =
     on_hid (\<lambda>hid. hid_relative hid (sint dx) (sint dy) (hid_pointer_buttons (ir_pointer_buttons router) flags)) agent aos"
proof -
  let ?m = "snd (input_router_relative_pointer router dx dy flags False)" and ?b = "hid_pointer_buttons (ir_pointer_buttons router) flags"
  let ?bs = "protocol_write_u16 dx @ protocol_write_u16 dy @ [?b]"
  have m: "irm_type ?m = 7" "irm_length ?m = 5" "irm_payload ?m = ?bs @ [0, 0, 0, 0, 0, 0, 0]"
    by (simp_all add: input_router_relative_pointer_def write_u16_two)
  have "length ?bs = 5" by simp
  then have w: "msg_type (on_the_wire ?m) = 7" "msg_length (on_the_wire ?m) = 5" "msg_payload (on_the_wire ?m) = ?bs @ replicate 1019 0"
    using wire_fields [of ?m] m by simp_all
  have op: "relative_operation (msg_payload (on_the_wire ?m)) = (\<lambda>hid. hid_relative hid (sint dx) (sint dy) ?b)"
    unfolding w by (simp add: fun_eq_iff relative_operation_def write_u16_two read_split)
  show ?thesis by (simp add: dispatch_control_def w(1,2) op)
qed

lemma wheel_path:
  "dispatch_control (on_the_wire (wheel_message flags)) agent aos = on_hid (\<lambda>hid. hid_wheel hid flags) agent aos"
proof -
  have m: "irm_type (wheel_message flags) = 8" "irm_length (wheel_message flags) = 2"
    "irm_payload (wheel_message flags) = protocol_write_u16 flags @ replicate 10 0"
    by (simp_all add: wheel_message_def write_u16_two numeral_eq_Suc)
  have w: "msg_type (on_the_wire (wheel_message flags)) = 8" "msg_length (on_the_wire (wheel_message flags)) = 2"
    "msg_payload (on_the_wire (wheel_message flags)) = protocol_write_u16 flags @ replicate 1022 0"
    using wire_fields [of "wheel_message flags"] m by simp_all
  show ?thesis by (simp add: dispatch_control_def w)
qed

lemma text_path:
  assumes "input_router_unicode router code False = (True, message)"
  shows "\<exists>bytes. utf8_encode (ucast code) = Some bytes \<and>
     dispatch_control (on_the_wire message) agent aos =
       (case on_hid (\<lambda>hid. hid_type_utf8 hid bytes) agent aos of
          (ok, agent1, aos1) \<Rightarrow> (True, if ok then (agent1, aos1) else agent_release_all agent1 aos1))"
proof -
  note u = unicode_utf8 [OF assms]
  have "unat (irm_length message) \<le> length (irm_payload message)" "length (irm_payload message) \<le> 1024" using u by simp_all
  note w = wire_fields [OF this]
  have "take (unat (msg_length (on_the_wire message))) (msg_payload (on_the_wire message)) = take (unat (irm_length message)) (irm_payload message)"
    unfolding w using u by simp
  then show ?thesis using u w(1,2) by (simp add: dispatch_control_def)
qed

text \<open>A concrete agent, connected and not yet streaming.\<close>

definition sample_agent :: Agent where
  "sample_agent = \<lparr>ag_gateway = Some ''10.0.0.1'', ag_control_port = 3390, ag_video_port = 5004, ag_width = 1920, ag_height = 1080,
     ag_bitrate = 4000, ag_control_fd = 9, ag_video_fd = 8, ag_video_address = 0,
     ag_kvm = \<lparr>kvm_handle = False, kvm_init = False, kvm_read_image = False, kvm_free_data = False, kvm_set_frame_detect = False\<rparr>,
     ag_hid = sample_hid, ag_control_reader = empty_reader, ag_input_events = 0, ag_max_input_handler_ms = 0,
     ag_last_input_log_at = 0, ag_packetizer = rtp_h264_packetizer_init 1200 7, ag_streaming = False, ag_wait_for_idr = True,
     ag_timestamp = 1, ag_send_deadline_ms = 0, ag_send_retries = 0, ag_sent_packets = 0, ag_dropped_packets = 0,
     ag_capture_frames = 0, ag_dropped_frames = 0, ag_last_ping_at = 0, ag_last_pong_at = 0, ag_last_stats_at = 0,
     ag_stop_requested = False\<rparr>"

definition sample_agent_os :: AgentOs where
  "sample_agent_os = \<lparr>ao_hid = sample_os, ao_writes = [], ao_events = [Closed], ao_sent = [], ao_closed = []\<rparr>"

definition sample_video_os :: VideoOs where
  "sample_video_os = \<lparr>vo_clock = [], vo_now = 5000, vo_sends = [SentBytes 17, SendErr EIO], vo_packets = []\<rparr>"

definition sample_agent_events :: "agent_event list" where
  "sample_agent_events =
     [Message (empty_message\<lparr>msg_type := 2\<rparr>), Head [True] (True, True, True, True), Capture (3, Some [0x65, 1, 2, 3, 4]), Send,
      Head [] (True, True, True, True), Capture (4, Some [0x41, 9]), Send,
      Head [] (True, True, True, True), Capture (4, Some [0x41, 10])]"

lemma sample_agent_ok: "agent_ok sample_agent"
  using sample_fields(9) reader_ok_empty by (simp add: agent_ok_def sample_agent_def)

section \<open>Properties\<close>



text \<open>
  C24: No input breaks the agent. Whatever arrives on the control connection and whatever the devices
  and the sockets answer, after every turn of the control loop the report queues and the frame reader
  are well formed, and a turn that loses the connection leaves every key and button released, the
  stream stopped and a key frame awaited.
\<close>

theorem agent_turns_safe:
  assumes "agent_ok agent" and "foldl turn_step (loop, agent, aos) es = (loop1, agent1, aos1)"
    and "agent_turn ca readable loop1 agent1 aos1 = (loop2, agent2, aos2)"
  shows "agent_ok agent2 \<and> (0 \<le> ag_control_fd agent1 \<and> ag_control_fd agent2 < 0 \<longrightarrow> disconnected agent2)"
proof -
  have "agent_ok agent1" using agent.inv_run [of "(loop, agent, aos)" es] assms(1,2) by simp
  from agent_turn_ok [OF this assms(3)] show ?thesis by auto
qed

theorem agent_turns_safe_witness:
  "\<exists>loop agent aos. agent_turn \<lparr>ca_socket = - 1, ca_address = None, ca_nonblocking = True, ca_connect = ConnectFailed, ca_writable = False,
       ca_option_read = True, ca_socket_error = False, ca_blocking = True\<rparr> True
       \<lparr>al_reconnect_at = 0, al_last_hid_error_log = 0\<rparr> sample_agent sample_agent_os = (loop, agent, aos) \<and>
     agent_ok agent \<and> (ag_control_fd agent < 0 \<longrightarrow> disconnected agent)"
    (is "\<exists>loop agent aos. agent_turn ?ca True ?loop sample_agent sample_agent_os = _ \<and> _")
proof -
  obtain loop agent aos where run: "agent_turn ?ca True ?loop sample_agent sample_agent_os = (loop, agent, aos)" by (metis prod_cases3)
  from agent_turns_safe [OF sample_agent_ok, of ?loop sample_agent_os "[]", OF _ run] run show ?thesis
    by (simp add: sample_agent_def)
qed

text \<open>
  Input arrives as it was meant. The control message the gateway makes of a key, a pointer
  movement, a wheel rotation, a character, a synchronisation or a release is decoded by the agent into
  the HID operation for exactly that event: the key with the Alt and Command keys exchanged if so
  configured, the position within the screen with its size, the relative distance with the buttons that
  are down, the character in UTF-8.
\<close>

theorem input_path_faithful:
  "dispatch_control (on_the_wire (snd (input_router_keyboard router code extended release))) agent aos =
     (case hid_map_scancode code extended (ir_swap_alt_command router) of
        (c, e) \<Rightarrow> on_hid (\<lambda>hid. hid_scancode hid c e release) agent aos) \<and>
   dispatch_control (on_the_wire (snd (input_router_absolute_pointer router x y flags False))) agent aos =
     on_hid (\<lambda>hid. hid_absolute hid (hid_clamp_absolute x (ir_width router)) (hid_clamp_absolute y (ir_height router))
       (ucast (ir_width router)) (ucast (ir_height router)) flags) agent aos \<and>
   dispatch_control (on_the_wire (snd (input_router_relative_pointer router dx dy flags False))) agent aos =
     on_hid (\<lambda>hid. hid_relative hid (sint dx) (sint dy) (hid_pointer_buttons (ir_pointer_buttons router) flags)) agent aos \<and>
   dispatch_control (on_the_wire (snd (input_router_relative_pointer router dx dy flags True))) agent aos =
     on_hid (\<lambda>hid. hid_wheel hid flags) agent aos \<and>
   dispatch_control (on_the_wire (snd (input_router_synchronize router))) agent aos = on_hid hid_synchronize agent aos \<and>
   dispatch_control (on_the_wire (snd (input_router_release_all router))) agent aos = (True, agent_release_all agent aos) \<and>
   (case input_router_unicode router unit False of
      (accepted, message) \<Rightarrow>
        if accepted
        then utf8_encode (ucast unit) \<noteq> None \<and>
          dispatch_control (on_the_wire message) agent aos =
            (case on_hid (\<lambda>hid. hid_type_utf8 hid (the (utf8_encode (ucast unit)))) agent aos of
               (ok, agent1, aos1) \<Rightarrow> (True, if ok then (agent1, aos1) else agent_release_all agent1 aos1))
        else unit = 0 \<or> utf8_encode (ucast unit) = None)"
proof (intro conjI)
  obtain c e where map: "hid_map_scancode code extended (ir_swap_alt_command router) = (c, e)" by (rule prod.exhaust)
  show "dispatch_control (on_the_wire (snd (input_router_keyboard router code extended release))) agent aos =
     (case hid_map_scancode code extended (ir_swap_alt_command router) of
        (c, e) \<Rightarrow> on_hid (\<lambda>hid. hid_scancode hid c e release) agent aos)"
    using key_path [OF map] map by simp
  show "dispatch_control (on_the_wire (snd (input_router_relative_pointer router dx dy flags True))) agent aos =
     on_hid (\<lambda>hid. hid_wheel hid flags) agent aos"
    using wheel_path by (simp add: input_router_relative_pointer_def)
  have quiet: "msg_type (on_the_wire (clear_message\<lparr>irm_type := t\<rparr>)) = t" for t
    by (simp add: on_the_wire_def Protocol.delivered_def)
  show "dispatch_control (on_the_wire (snd (input_router_synchronize router))) agent aos = on_hid hid_synchronize agent aos"
    "dispatch_control (on_the_wire (snd (input_router_release_all router))) agent aos = (True, agent_release_all agent aos)"
    by (simp_all add: dispatch_control_def input_router_synchronize_def input_router_release_all_def quiet)
  show "case input_router_unicode router unit False of
      (accepted, message) \<Rightarrow>
        if accepted
        then utf8_encode (ucast unit) \<noteq> None \<and>
          dispatch_control (on_the_wire message) agent aos =
            (case on_hid (\<lambda>hid. hid_type_utf8 hid (the (utf8_encode (ucast unit)))) agent aos of
               (ok, agent1, aos1) \<Rightarrow> (True, if ok then (agent1, aos1) else agent_release_all agent1 aos1))
        else unit = 0 \<or> utf8_encode (ucast unit) = None"
  proof (cases "input_router_unicode router unit False")
    case (Pair accepted message)
    show ?thesis
    proof (cases accepted)
      case True
      then show ?thesis using Pair text_path [of router unit message agent aos] by fastforce
    next
      case False
      then have "unit = 0 \<or> (0xd800 \<le> unit \<and> unit \<le> 0xdfff)" using Pair by (auto simp: input_router_unicode_def Let_def split: if_splits)
      then have "unit = 0 \<or> utf8_encode (ucast unit) = None"
        by (auto simp: utf8_encode_def word_le_nat_alt unat_ucast_up)
      then show ?thesis using Pair False by simp
    qed
  qed
qed (rule absolute_path relative_path)+

section \<open>The last flush ends\<close>

text \<open>
  The clock readings still to come, and the time at which the clock stands when they are used up. No
  HID operation adds readings or changes that time, so the loop that flushes the final release is left
  by its own condition as soon as there is fuel for the readings up to the deadline.
\<close>

definition final_time :: "HidOs \<Rightarrow> u64" where
  "final_time os = last (os_now os # os_clock os)"

definition clock_runs :: "HidOs \<Rightarrow> HidOs \<Rightarrow> bool" where
  "clock_runs os os' \<longleftrightarrow> length (os_clock os') \<le> length (os_clock os) \<and> final_time os' = final_time os"

lemma clock_runs_refl [simp]: "clock_runs os os"
  by (simp add: clock_runs_def)

lemma clock_runs_trans [trans]: "clock_runs os os1 \<Longrightarrow> clock_runs os1 os2 \<Longrightarrow> clock_runs os os2"
  by (simp add: clock_runs_def)

lemma clock_runs_same:
  "os_clock os' = os_clock os \<Longrightarrow> os_now os' = os_now os \<Longrightarrow> clock_runs os os'"
  by (simp add: clock_runs_def final_time_def)

lemma hid_now_runs: "hid_now os = (now, os') \<Longrightarrow> clock_runs os os'"
  by (auto simp: hid_now_def clock_runs_def final_time_def split: list.splits)

lemma sys_close_clock [simp]: "os_clock (sys_close fd os) = os_clock os" "os_now (sys_close fd os) = os_now os"
  by (simp_all add: sys_close_def)

lemma sys_poll_clock: "sys_poll os = (answer, os') \<Longrightarrow> os_clock os' = os_clock os \<and> os_now os' = os_now os"
  by (auto simp: sys_poll_def split: list.splits poll_answer.splits)

lemma sys_open_clock: "sys_open os = (answer, os') \<Longrightarrow> os_clock os' = os_clock os \<and> os_now os' = os_now os"
  by (auto simp: sys_open_def split: list.splits open_answer.splits)

lemma sys_write_clock: "sys_write path report os = (answer, os') \<Longrightarrow> os_clock os' = os_clock os \<and> os_now os' = os_now os"
  by (auto simp: sys_write_def Let_def split: list.splits hid_write.splits if_splits)

lemma sys_read_feedback_clock: "sys_read_feedback os = (answer, os') \<Longrightarrow> os_clock os' = os_clock os \<and> os_now os' = os_now os"
  by (auto simp: sys_read_feedback_def split: list.splits recv_answer.splits)

lemma open_hid_fd_clock: "open_hid_fd path os = (fd, os') \<Longrightarrow> os_clock os' = os_clock os \<and> os_now os' = os_now os"
  by (auto simp: open_hid_fd_def dest: sys_open_clock split: prod.splits option.splits if_splits)

lemma open_keyboard_feedback_clock:
  "open_keyboard_feedback path os = (fd, os') \<Longrightarrow> os_clock os' = os_clock os \<and> os_now os' = os_now os"
  by (auto simp: open_keyboard_feedback_def dest: sys_open_clock split: prod.splits option.splits if_splits)

lemma hid_fd_clock: "hid_fd hid path os = (fd, hid', os') \<Longrightarrow> os_clock os' = os_clock os \<and> os_now os' = os_now os"
  by (auto simp: hid_fd_def Let_def dest!: sys_poll_clock open_hid_fd_clock split: prod.splits option.splits if_splits)

lemma write_retrying_clock:
  "write_retrying path report os = (written, os') \<Longrightarrow> os_clock os' = os_clock os \<and> os_now os' = os_now os"
proof (induction path report os rule: write_retrying.induct)
  case (1 path report os)
  obtain answer os1 where wr: "sys_write path report os = (answer, os1)" by (rule prod.exhaust)
  show ?case
    using 1(2) 1(1) [OF wr [symmetric]] sys_write_clock [OF wr]
    by (simp add: write_retrying.simps [of path report os] wr split: option.splits if_splits)
qed

lemma write_hid_report_clock:
  "write_hid_report hid path report os = (wrote, hid', os') \<Longrightarrow> os_clock os' = os_clock os \<and> os_now os' = os_now os"
  by (auto simp: write_hid_report_def write_open_report_def Let_def
      dest!: hid_fd_clock open_hid_fd_clock write_retrying_clock split: prod.splits option.splits if_splits)

lemma write_paste_codepoint_clock:
  "write_paste_codepoint hid codepoint os = (wrote, hid', os') \<Longrightarrow> os_clock os' = os_clock os \<and> os_now os' = os_now os"
  by (auto simp: write_paste_codepoint_def dest: write_hid_report_clock split: option.splits if_splits)

lemma await_previous_clock:
  "await_previous w now hid os = (r, hid', os') \<Longrightarrow> os_clock os' = os_clock os \<and> os_now os' = os_now os"
  by (auto simp: await_previous_def Let_def dest: sys_poll_clock split: prod.splits if_splits)

lemma paste_head_clock: "paste_head w now hid os = (r, hid', os') \<Longrightarrow> os_clock os' = os_clock os \<and> os_now os' = os_now os"
  by (auto simp: paste_head_def dest: write_paste_codepoint_clock split: prod.splits bool.splits)

lemma write_head_clock: "write_head w now hid os = (r, hid', os') \<Longrightarrow> os_clock os' = os_clock os \<and> os_now os' = os_now os"
  by (auto simp: write_head_def Let_def dest: write_hid_report_clock split: prod.splits bool.splits if_splits)

lemma flush_one_runs: "flush_one w hid os = (r, hid', os') \<Longrightarrow> clock_runs os os'"
proof -
  assume run: "flush_one w hid os = (r, hid', os')"
  obtain now os1 where now: "hid_now os = (now, os1)" by (rule prod.exhaust)
  obtain ok hid2 os2 where wait: "await_previous w now hid os1 = (ok, hid2, os2)" by (rule prod_cases3)
  have "os_clock os' = os_clock os1 \<and> os_now os' = os_now os1"
    using run await_previous_clock [OF wait]
    by (auto simp: flush_one_def now wait Let_def dest: paste_head_clock write_head_clock split: option.splits if_splits)
  then show ?thesis using hid_now_runs [OF now] clock_runs_same [of os' os1] by (blast intro: clock_runs_trans)
qed

lemma flush_reports_runs: "flush_reports w hid os = (r, hid', os') \<Longrightarrow> clock_runs os os'"
proof (induction w hid os rule: flush_reports.induct)
  case (1 w hid os)
  obtain ok hid1 os1 where one: "flush_one w hid os = (ok, hid1, os1)" by (rule prod_cases3)
  from 1(2) show ?case
    using 1(1) [OF _ one [symmetric]] flush_one_runs [OF one]
    by (subst (asm) flush_reports.simps) (auto simp: one split: if_splits option.splits intro: clock_runs_trans)
qed

lemma feedback_batch_clock:
  "feedback_batch n now hid os = (hid', os') \<Longrightarrow> os_clock os' = os_clock os \<and> os_now os' = os_now os"
proof (induction n arbitrary: hid os)
  case (Suc n)
  obtain answer os1 where read: "sys_read_feedback os = (answer, os1)" by (rule prod.exhaust)
  from Suc.prems sys_read_feedback_clock [OF read] show ?case
    by (auto simp: read dest!: Suc.IH split: recv_answer.splits list.splits if_splits)
qed simp

lemma drain_keyboard_feedback_runs: "drain_keyboard_feedback hid os = (hid', os') \<Longrightarrow> clock_runs os os'"
proof -
  assume run: "drain_keyboard_feedback hid os = (hid', os')"
  obtain now os1 where now: "hid_now os = (now, os1)" by (rule prod.exhaust)
  have "os_clock os' = os_clock os1 \<and> os_now os' = os_now os1"
    using run by (auto simp: drain_keyboard_feedback_def now Let_def
        dest!: open_keyboard_feedback_clock feedback_batch_clock split: prod.splits if_splits)
  then show ?thesis using hid_now_runs [OF now] clock_runs_same [of os' os1] by (blast intro: clock_runs_trans)
qed

lemma hid_flush_runs: "hid_flush hid os = (ok, hid', os') \<Longrightarrow> clock_runs os os'"
  by (auto simp: hid_flush_def Let_def dest!: drain_keyboard_feedback_runs flush_reports_runs
      intro: clock_runs_trans split: prod.splits)

lemma hid_pollfds_runs: "clock_runs os (snd (hid_pollfds hid os))"
  by (auto simp: hid_pollfds_def intro: hid_now_runs split: prod.splits)

lemma drain_release_returns:
  "deadline \<le> final_time (ao_hid aos) \<Longrightarrow> length (os_clock (ao_hid aos)) < fuel \<Longrightarrow>
   drain_release fuel deadline agent aos = (agent', aos') \<Longrightarrow>
   \<not> hid_pending (ag_hid agent') \<or> deadline \<le> os_now (ao_hid aos')"
proof (induction fuel arbitrary: agent aos)
  case (Suc fuel)
  obtain now os1 where now: "hid_now (ao_hid aos) = (now, os1)" by (rule prod.exhaust)
  then have at: "os_now os1 = now" by (auto simp: hid_now_def split: list.splits)
  show ?case
  proof (cases "hid_pending (ag_hid agent) \<and> \<not> deadline \<le> now")
    case True
    let ?os2 = "snd (hid_pollfds (ag_hid agent) os1)"
    obtain ok hid3 os3 where flush: "hid_flush (ag_hid agent) ?os2 = (ok, hid3, os3)" by (rule prod_cases3)
    have runs: "clock_runs os1 os3" using hid_pollfds_runs hid_flush_runs [OF flush] by (rule clock_runs_trans)
    have "os_clock (ao_hid aos) \<noteq> []" using now True Suc.prems(1) by (auto simp: hid_now_def final_time_def)
    then have "length (os_clock os1) < length (os_clock (ao_hid aos))" using now by (auto simp: hid_now_def split: list.splits)
    with runs Suc.prems(2) have less: "length (os_clock os3) < fuel" by (simp add: clock_runs_def)
    have late: "deadline \<le> final_time os3"
      using Suc.prems(1) runs hid_now_runs [OF now] by (simp add: clock_runs_def)
    from Suc.prems(3) True have "drain_release fuel deadline (agent\<lparr>ag_hid := hid3\<rparr>) (aos\<lparr>ao_hid := os3\<rparr>) = (agent', aos')"
      by (simp add: monotonic_milliseconds_def now on_hid_def flush Let_def)
    from Suc.IH [OF _ _ this] less late show ?thesis by simp
  next
    case False
    with Suc.prems(3) at show ?thesis by (auto simp: monotonic_milliseconds_def now split: if_splits)
  qed
qed simp

end
