(* ===== verification/AgentTransport.thy ===== *)
theory AgentTransport
  imports Protocol
begin

text \<open>
  The gateway's side of the control connection (\<open>agent_transport.c\<close>, \<open>agent_transport.h\<close>).

  Three threads use one \<open>AgentTransport\<close>: the control thread accepts and serves connections, the
  main thread sends heartbeats, and the input and video threads send messages. Every access to the
  record is under its lock, so a critical section is an atomic step; an operation of the source with
  two critical sections (waiting for HELLO, capturing the descriptor before a send) is written as
  its sections and their composition. The theorems about runs range over lists of sections, which
  are all interleavings of the threads.

  The operating system is a record of answers: the clock callback's value, what \<open>dup\<close> returns and
  what \<open>write\<close> returns for each message, and the list of effects in the order they happen.
\<close>

section \<open>State\<close>

definition AGENT_TRANSPORT_HEARTBEAT_INTERVAL_MS :: u64 where
  "AGENT_TRANSPORT_HEARTBEAT_INTERVAL_MS = 1000"
definition AGENT_TRANSPORT_HEARTBEAT_TIMEOUT_MS :: u64 where
  "AGENT_TRANSPORT_HEARTBEAT_TIMEOUT_MS = 5000"

datatype AgentTransportEvent =
    AGENT_TRANSPORT_EVENT_DISCONNECTED
  | AGENT_TRANSPORT_EVENT_HEARTBEAT_TIMEOUT

text \<open>Which of the three callbacks are set; what they do belongs to the caller.\<close>

record AgentTransportCallbacks =
  cb_event :: bool
  cb_clock :: bool
  cb_send_started :: bool

record AgentTransportStats =
  as_sent_packets :: u32
  as_dropped_packets :: u32
  as_capture_frames :: u32
  as_dropped_frames :: u32

record AgentTransport =
  tr_callbacks :: AgentTransportCallbacks
  tr_fd :: int
  tr_pending_fd :: int
  tr_epoch :: u64
  tr_last_activity_at :: u64
  tr_last_ping_at :: u64
  tr_stream_requested :: bool
  tr_supports_key_ack :: bool
  tr_heartbeat_timed_out :: bool
  tr_stopping :: bool
  tr_waiting_key_sequence :: u32
  tr_key_ack_received :: bool
  tr_key_ack_success :: bool
  tr_stats :: AgentTransportStats

text \<open>
  What the transport does to the outside: descriptors shut down or closed, the hook before a send,
  the bytes written on the duplicate of a descriptor for an epoch, events for the callback.
\<close>

datatype transport_effect =
    ShutDown int
  | CloseFd int
  | SendStarted int u64
  | SentOn u64 "byte list"
  | Published AgentTransportEvent u64

text \<open>
  A \<open>dup\<close> without a listed answer fails. A message without listed \<open>write\<close> answers is written at
  once; after the answers of a message the send timeout of 100 ms, which the control thread sets on
  the socket, ends the call with \<open>EAGAIN\<close>.
\<close>

record TransportOs =
  to_clock :: u64
  to_dups :: "int list"
  to_writes :: "write_answer list list"
  to_effects :: "transport_effect list"

definition effects :: "transport_effect list \<Rightarrow> TransportOs \<Rightarrow> TransportOs" where
  "effects es os = os\<lparr>to_effects := to_effects os @ es\<rparr>"

definition dup_fd :: "TransportOs \<Rightarrow> int \<times> TransportOs" where
  "dup_fd os = (case to_dups os of [] \<Rightarrow> (-1, os) | d # ds \<Rightarrow> (d, os\<lparr>to_dups := ds\<rparr>))"

definition write_message ::
  "u64 \<Rightarrow> byte \<Rightarrow> byte list option \<Rightarrow> u16 \<Rightarrow> TransportOs \<Rightarrow> bool \<times> TransportOs" where
  "write_message epoch type payload len os =
     (let (answers, later) = (case to_writes os of [] \<Rightarrow> ([Wrote 2000], []) | a # as \<Rightarrow> (a @ [WriteErr EAGAIN], as))
      in case protocol_send answers type payload len of
           None \<Rightarrow> (False, os\<lparr>to_writes := later\<rparr>)
         | Some (ok, bytes, closed, _) \<Rightarrow> (ok, effects [SentOn epoch bytes] (os\<lparr>to_writes := later\<rparr>)))"

section \<open>Helpers\<close>

definition transport_now :: "AgentTransport \<Rightarrow> TransportOs \<Rightarrow> u64" where
  "transport_now transport os = (if cb_clock (tr_callbacks transport) then to_clock os else 0)"

definition cancel_key_ack_locked :: "AgentTransport \<Rightarrow> AgentTransport" where
  "cancel_key_ack_locked transport =
     transport\<lparr>tr_waiting_key_sequence := 0, tr_key_ack_received := False, tr_key_ack_success := False\<rparr>"

definition is_current_locked :: "AgentTransport \<Rightarrow> int \<Rightarrow> u64 \<Rightarrow> bool" where
  "is_current_locked transport fd epoch \<longleftrightarrow>
     \<not> tr_stopping transport \<and> tr_fd transport = fd \<and> tr_epoch transport = epoch"

definition send_for_epoch ::
  "AgentTransport \<Rightarrow> int \<Rightarrow> u64 \<Rightarrow> byte \<Rightarrow> byte list option \<Rightarrow> u16 \<Rightarrow> TransportOs \<Rightarrow> bool \<times> TransportOs" where
  "send_for_epoch transport fd epoch type payload len os =
     (let (send_fd, os1) = (if is_current_locked transport fd epoch then dup_fd os else (-1, os))
      in if send_fd \<ge> 0
         then let os2 = (if cb_send_started (tr_callbacks transport)
                         then effects [SendStarted send_fd epoch] os1 else os1);
                  (sent, os3) = write_message epoch type payload len os2
              in (sent, effects [CloseFd send_fd] os3)
         else (False, os1))"

definition publish_event :: "AgentTransport \<Rightarrow> AgentTransportEvent \<Rightarrow> u64 \<Rightarrow> TransportOs \<Rightarrow> TransportOs" where
  "publish_event transport event epoch os =
     (if cb_event (tr_callbacks transport) then effects [Published event epoch] os else os)"

definition agent_stats_zero :: AgentTransportStats where
  "agent_stats_zero =
     \<lparr>as_sent_packets = 0, as_dropped_packets = 0, as_capture_frames = 0, as_dropped_frames = 0\<rparr>"

definition no_callbacks :: AgentTransportCallbacks where
  "no_callbacks = \<lparr>cb_event = False, cb_clock = False, cb_send_started = False\<rparr>"

text \<open>The two flags are whether the two \<open>pthread_mutex_init\<close> calls succeed; \<open>None\<close> is the result false.\<close>

definition agent_transport_init ::
  "AgentTransportCallbacks option \<Rightarrow> bool \<Rightarrow> bool \<Rightarrow> AgentTransport option" where
  "agent_transport_init callbacks lock_ok send_lock_ok =
     (let transport = \<lparr>tr_callbacks = (case callbacks of None \<Rightarrow> no_callbacks | Some c \<Rightarrow> c),
                       tr_fd = -1, tr_pending_fd = -1, tr_epoch = 0, tr_last_activity_at = 0,
                       tr_last_ping_at = 0, tr_stream_requested = False, tr_supports_key_ack = False,
                       tr_heartbeat_timed_out = False, tr_stopping = False, tr_waiting_key_sequence = 0,
                       tr_key_ack_received = False, tr_key_ack_success = False, tr_stats = agent_stats_zero\<rparr>
      in if \<not> lock_ok then None else if \<not> send_lock_ok then None else Some transport)"

definition agent_transport_destroy :: "AgentTransport \<Rightarrow> TransportOs \<Rightarrow> AgentTransport \<times> TransportOs" where
  "agent_transport_destroy transport os =
     (let fd = tr_fd transport; pending_fd = tr_pending_fd transport;
          both = (if fd \<ge> 0 then [fd] else []) @ (if pending_fd \<ge> 0 \<and> pending_fd \<noteq> fd then [pending_fd] else [])
      in (transport\<lparr>tr_fd := -1, tr_pending_fd := -1, tr_stopping := True\<rparr>,
          effects (map ShutDown both @ map CloseFd both) os))"

section \<open>Accepting a connection\<close>

text \<open>The first critical section of \<open>agent_transport_accept\<close>: may this descriptor wait for its HELLO?\<close>

definition accept_wait :: "AgentTransport \<Rightarrow> int \<Rightarrow> bool \<times> AgentTransport" where
  "accept_wait transport fd =
     (let can_wait = (\<not> tr_stopping transport \<and> tr_pending_fd transport < 0)
      in (can_wait, if can_wait then transport\<lparr>tr_pending_fd := fd\<rparr> else transport))"

definition valid_hello :: "NanokvmControlMessage \<Rightarrow> bool" where
  "valid_hello hello \<longleftrightarrow>
     msg_type hello = control_code CONTROL_HELLO \<and>
     (msg_length hello = NANOKVM_HELLO_BASE_PAYLOAD_SIZE \<or>
      msg_length hello = NANOKVM_HELLO_CAPABILITIES_PAYLOAD_SIZE)"

text \<open>
  The second critical section: \<open>hello\<close> is what \<open>protocol_receive\<close> read, \<open>None\<close> when it failed. The
  result is whether the connection was accepted, the descriptor it replaced and whether
  START_STREAM has to be sent.
\<close>

definition accept_publish ::
  "AgentTransport \<Rightarrow> int \<Rightarrow> NanokvmControlMessage option \<Rightarrow> TransportOs \<Rightarrow> bool \<times> int \<times> bool \<times> AgentTransport" where
  "accept_publish transport fd hello os =
     (let transport1 = (if tr_pending_fd transport = fd then transport\<lparr>tr_pending_fd := -1\<rparr> else transport)
      in case hello of
           Some h \<Rightarrow>
             if valid_hello h \<and> \<not> tr_stopping transport1
             then let now = transport_now transport1 os;
                      transport2 = cancel_key_ack_locked (transport1
                        \<lparr>tr_fd := fd, tr_epoch := tr_epoch transport1 + 1,
                         tr_supports_key_ack := (msg_length h = NANOKVM_HELLO_CAPABILITIES_PAYLOAD_SIZE \<and>
                           and (msg_payload h ! 8) NANOKVM_AGENT_CAPABILITY_KEY_ACK \<noteq> 0),
                         tr_last_activity_at := now, tr_last_ping_at := now, tr_heartbeat_timed_out := False\<rparr>)
                  in (True, tr_fd transport1, tr_stream_requested transport2, transport2)
             else (False, -1, False, transport1)
         | None \<Rightarrow> (False, -1, False, transport1))"

text \<open>What follows the second critical section.\<close>

definition accept_finish ::
  "AgentTransport \<Rightarrow> int \<Rightarrow> bool \<Rightarrow> int \<Rightarrow> bool \<Rightarrow> u64 \<Rightarrow> TransportOs \<Rightarrow> TransportOs" where
  "accept_finish transport fd accepted replaced_fd send_start accepted_epoch os =
     (if \<not> accepted then effects [CloseFd fd] os
      else let os1 = (if replaced_fd \<ge> 0 then effects [ShutDown replaced_fd] os else os)
           in if send_start
              then snd (send_for_epoch transport fd accepted_epoch
                          (control_code CONTROL_START_STREAM) None 0 os1)
              else os1)"

text \<open>
  The whole operation with no other thread in between; \<open>evs\<close> is what arrives on the descriptor
  before the handshake timeout of one second makes the receive fail. The result carries the epoch of
  an accepted connection and what is left to read.
\<close>

definition agent_transport_accept ::
  "AgentTransport \<Rightarrow> int \<Rightarrow> recv_event list \<Rightarrow> TransportOs \<Rightarrow>
     u64 option \<times> AgentTransport \<times> recv_event list \<times> TransportOs" where
  "agent_transport_accept transport fd evs os =
     (if fd < 0 then (None, transport, evs, os)
      else let (can_wait, transport1) = accept_wait transport fd
           in if \<not> can_wait then (None, transport1, evs, effects [CloseFd fd] os)
              else let (received, rest) =
                         (case protocol_receive (evs @ [Fail EAGAIN]) empty_message of
                            Some (True, h, r) \<Rightarrow> (Some h, butlast r)
                          | _ \<Rightarrow> (None, []));
                       (accepted, replaced_fd, send_start, transport2) = accept_publish transport1 fd received os
                   in (if accepted then Some (tr_epoch transport2) else None, transport2, rest,
                       accept_finish transport2 fd accepted replaced_fd send_start (tr_epoch transport2) os))"

section \<open>Serving a connection\<close>

definition is_key_ack :: "NanokvmControlMessage \<Rightarrow> bool" where
  "is_key_ack message \<longleftrightarrow> msg_type message = control_code CONTROL_KEY_ACK \<and>
     msg_length message = NANOKVM_KEY_ACK_PAYLOAD_SIZE"

text \<open>The critical section of \<open>handle_message\<close>, for a message of a current connection.\<close>

definition take_message :: "AgentTransport \<Rightarrow> NanokvmControlMessage \<Rightarrow> u64 \<Rightarrow> AgentTransport" where
  "take_message transport message now =
     (let transport1 = transport\<lparr>tr_last_activity_at := now\<rparr>; p = msg_payload message
      in if is_key_ack message
         then if tr_waiting_key_sequence transport1 = protocol_read_u32 p
              then transport1\<lparr>tr_key_ack_received := True, tr_key_ack_success := (p ! 4 \<noteq> 0)\<rparr>
              else transport1
         else if msg_type message = control_code CONTROL_STATS \<and>
                 msg_length message = NANOKVM_STATS_PAYLOAD_SIZE
         then transport1\<lparr>tr_stats := \<lparr>as_sent_packets = protocol_read_u32 p,
                                     as_dropped_packets = protocol_read_u32 (drop 4 p),
                                     as_capture_frames = protocol_read_u32 (drop 8 p),
                                     as_dropped_frames = protocol_read_u32 (drop 12 p)\<rparr>\<rparr>
         else transport1)"

definition wants_pong :: "NanokvmControlMessage \<Rightarrow> bool" where
  "wants_pong message \<longleftrightarrow> \<not> is_key_ack message \<and>
     \<not> (msg_type message = control_code CONTROL_STATS \<and> msg_length message = NANOKVM_STATS_PAYLOAD_SIZE) \<and>
     msg_type message = control_code CONTROL_PING"

definition handle_message ::
  "AgentTransport \<Rightarrow> int \<Rightarrow> u64 \<Rightarrow> NanokvmControlMessage \<Rightarrow> TransportOs \<Rightarrow> AgentTransport \<times> TransportOs" where
  "handle_message transport fd epoch message os =
     (if is_current_locked transport fd epoch
      then let transport1 = take_message transport message (transport_now transport os)
           in (transport1,
               if wants_pong message
               then snd (send_for_epoch transport1 fd epoch (control_code CONTROL_PONG) None 0 os)
               else os)
      else (transport, os))"

text \<open>The end of \<open>agent_transport_run\<close>, after its loop.\<close>

definition run_leave :: "AgentTransport \<Rightarrow> int \<Rightarrow> u64 \<Rightarrow> TransportOs \<Rightarrow> AgentTransport \<times> TransportOs" where
  "run_leave transport fd epoch os =
     (let mine = (tr_fd transport = fd \<and> tr_epoch transport = epoch);
          transport1 = (if mine
                        then cancel_key_ack_locked (transport\<lparr>tr_fd := -1, tr_supports_key_ack := False\<rparr>)
                        else transport);
          os1 = effects [CloseFd fd] os
      in (transport1,
          if mine \<and> \<not> tr_stopping transport
          then publish_event transport1 AGENT_TRANSPORT_EVENT_DISCONNECTED epoch os1 else os1))"

text \<open>Every received message uses up input.\<close>

lemma read_all_size:
  "read_all evs n = Some (True, bs, rest) \<Longrightarrow> 0 < n \<Longrightarrow> events_size rest < events_size evs"
proof (induction evs n arbitrary: bs rest rule: read_all.induct)
  case (1 evs n)
  then have n: "n \<noteq> 0" "evs \<noteq> []" by (auto simp: read_all.simps [of evs n] split: if_splits)
  obtain a evs' where r: "sock_recv n evs = (a, evs')" by force
  show ?case
  proof (cases a)
    case (Got cs)
    with "1.prems" n r obtain more where cs: "cs \<noteq> []" and
      more: "read_all evs' (n - length cs) = Some (True, more, rest)"
      by (auto simp: read_all.simps [of evs n] split: if_splits)
    have "events_size rest \<le> events_size evs'"
      using "1.IH"(1) [OF n] more r Got cs by (cases "n - length cs = 0") force+
    with sock_recv_Got_size [of n evs cs evs'] r Got cs show ?thesis by simp
  next
    case (RecvErr e)
    with "1.prems" n r have e: "e = EINTR" and more: "read_all evs' n = Some (True, bs, rest)"
      by (auto simp: read_all.simps [of evs n] split: if_splits)
    have "events_size rest < events_size evs'"
      by (rule "1.IH"(2) [OF n r [symmetric] RecvErr e more "1.prems"(2)])
    with sock_recv_Err_size [of n evs e evs'] r RecvErr n show ?thesis by simp
  qed
qed

lemma protocol_receive_size:
  assumes "protocol_receive evs message = Some (True, message', rest)"
  shows "events_size rest < events_size evs"
proof -
  from assms obtain header evs1 where h: "read_all evs 4 = Some (True, header, evs1)"
    by (auto simp: protocol_receive_def split: option.splits if_splits)
  have "events_size rest \<le> events_size evs1"
    using assms h
    by (auto simp: protocol_receive_def Let_def unat_gt_0 split: option.splits if_splits
        dest!: read_all_size)
  with read_all_size [OF h] show ?thesis by simp
qed

text \<open>
  The loop of \<open>agent_transport_run\<close> over what arrives on the descriptor; \<open>None\<close> when it is still
  waiting for more.
\<close>

function run_loop ::
  "AgentTransport \<Rightarrow> int \<Rightarrow> u64 \<Rightarrow> recv_event list \<Rightarrow> TransportOs \<Rightarrow> (AgentTransport \<times> TransportOs) option" where
  "run_loop transport fd epoch evs os =
     (case protocol_receive evs empty_message of
        None \<Rightarrow> None
      | Some (ok, message, rest) \<Rightarrow>
          if \<not> ok then Some (transport, os)
          else let (transport1, os1) = handle_message transport fd epoch message os
               in if is_current_locked transport1 fd epoch
                  then run_loop transport1 fd epoch rest os1
                  else Some (transport1, os1))"
  by pat_completeness auto
termination
  by (relation "measure (\<lambda>(transport, fd, epoch, evs, os). events_size evs)")
    (auto dest: protocol_receive_size)

declare run_loop.simps [simp del]

definition agent_transport_run ::
  "AgentTransport \<Rightarrow> int \<Rightarrow> u64 \<Rightarrow> recv_event list \<Rightarrow> TransportOs \<Rightarrow> (AgentTransport \<times> TransportOs) option" where
  "agent_transport_run transport fd epoch evs os =
     (if fd < 0 then Some (transport, os)
      else case run_loop transport fd epoch evs os of
             None \<Rightarrow> None
           | Some (transport1, os1) \<Rightarrow> Some (run_leave transport1 fd epoch os1))"

section \<open>Operations of the other threads\<close>

definition agent_transport_shutdown :: "AgentTransport \<Rightarrow> TransportOs \<Rightarrow> AgentTransport \<times> TransportOs" where
  "agent_transport_shutdown transport os =
     (transport\<lparr>tr_stopping := True\<rparr>,
      effects ((if tr_fd transport \<ge> 0 then [ShutDown (tr_fd transport)] else []) @
               (if tr_pending_fd transport \<ge> 0 then [ShutDown (tr_pending_fd transport)] else [])) os)"

text \<open>The connection a sender captures in its critical section: the descriptor (-1 for none) and the epoch.\<close>

definition capture :: "AgentTransport \<Rightarrow> int \<times> u64" where
  "capture transport =
     (if \<not> tr_stopping transport \<and> tr_fd transport \<ge> 0 then (tr_fd transport, tr_epoch transport) else (-1, 0))"

definition agent_transport_send ::
  "AgentTransport \<Rightarrow> byte \<Rightarrow> byte list option \<Rightarrow> u16 \<Rightarrow> TransportOs \<Rightarrow> bool \<times> TransportOs" where
  "agent_transport_send transport type payload len os =
     (let (fd, epoch) = capture transport
      in if fd \<ge> 0 then send_for_epoch transport fd epoch type payload len os else (False, os))"

definition agent_transport_set_stream_requested ::
  "AgentTransport \<Rightarrow> bool \<Rightarrow> TransportOs \<Rightarrow> bool \<times> AgentTransport \<times> TransportOs" where
  "agent_transport_set_stream_requested transport requested os =
     (let transport1 = transport\<lparr>tr_stream_requested := requested\<rparr>;
          (fd, epoch) = capture transport1;
          (sent, os1) =
            (if fd \<ge> 0
             then send_for_epoch transport1 fd epoch
                    (control_code (if requested then CONTROL_START_STREAM
                                   else CONTROL_STOP_STREAM)) None 0 os
             else (False, os))
      in (sent, transport1, os1))"

text \<open>
  The critical section of the heartbeat: whether it found a timeout, whether it wants a ping sent,
  and the descriptor it shut down. The differences wrap, as \<open>uint64_t\<close> subtraction does.
\<close>

definition heartbeat_check :: "AgentTransport \<Rightarrow> u64 \<Rightarrow> bool \<times> bool \<times> AgentTransport" where
  "heartbeat_check transport now =
     (if \<not> tr_stopping transport \<and> tr_fd transport \<ge> 0
      then if \<not> tr_heartbeat_timed_out transport \<and>
              now - tr_last_activity_at transport > AGENT_TRANSPORT_HEARTBEAT_TIMEOUT_MS
           then (True, False, transport\<lparr>tr_heartbeat_timed_out := True, tr_stream_requested := False\<rparr>)
           else if \<not> tr_heartbeat_timed_out transport \<and>
                   now - tr_last_ping_at transport \<ge> AGENT_TRANSPORT_HEARTBEAT_INTERVAL_MS
           then (False, True, transport\<lparr>tr_last_ping_at := now\<rparr>)
           else (False, False, transport)
      else (False, False, transport))"

definition agent_transport_heartbeat ::
  "AgentTransport \<Rightarrow> u64 \<Rightarrow> TransportOs \<Rightarrow> AgentTransport \<times> TransportOs" where
  "agent_transport_heartbeat transport now os =
     (let (timeout, send_ping, transport1) = heartbeat_check transport now;
          fd = tr_fd transport; epoch = tr_epoch transport;
          os1 = (if timeout then effects [ShutDown fd] os else os);
          os2 = (if send_ping
                 then snd (send_for_epoch transport1 fd epoch (control_code CONTROL_PING) None 0 os1)
                 else os1)
      in (transport1,
          if timeout then publish_event transport1 AGENT_TRANSPORT_EVENT_HEARTBEAT_TIMEOUT epoch os2 else os2))"

definition agent_transport_is_current_epoch :: "AgentTransport \<Rightarrow> u64 \<Rightarrow> bool" where
  "agent_transport_is_current_epoch transport epoch \<longleftrightarrow>
     \<not> tr_stopping transport \<and> tr_fd transport \<ge> 0 \<and> tr_epoch transport = epoch"

definition agent_transport_current_epoch :: "AgentTransport \<Rightarrow> u64" where
  "agent_transport_current_epoch transport =
     (if \<not> tr_stopping transport \<and> tr_fd transport \<ge> 0 then tr_epoch transport else 0)"

definition agent_transport_get_stats :: "AgentTransport \<Rightarrow> AgentTransportStats" where
  "agent_transport_get_stats transport = tr_stats transport"

definition agent_transport_supports_key_ack :: "AgentTransport \<Rightarrow> bool" where
  "agent_transport_supports_key_ack transport \<longleftrightarrow> tr_fd transport \<ge> 0 \<and> tr_supports_key_ack transport"

definition agent_transport_begin_key_ack :: "AgentTransport \<Rightarrow> u32 \<Rightarrow> bool \<times> AgentTransport" where
  "agent_transport_begin_key_ack transport sequence =
     (if sequence = 0 then (False, transport)
      else let started = (\<not> tr_stopping transport \<and> tr_fd transport \<ge> 0 \<and> tr_supports_key_ack transport)
           in (started,
               if started
               then transport\<lparr>tr_waiting_key_sequence := sequence, tr_key_ack_received := False,
                              tr_key_ack_success := False\<rparr>
               else transport))"

text \<open>\<open>None\<close> when the sequence is not the one waited for, else the flags received and success.\<close>

definition agent_transport_get_key_ack :: "AgentTransport \<Rightarrow> u32 \<Rightarrow> (bool \<times> bool) option" where
  "agent_transport_get_key_ack transport sequence =
     (if sequence \<noteq> 0 \<and> tr_waiting_key_sequence transport = sequence
      then Some (tr_key_ack_received transport, tr_key_ack_success transport) else None)"

section \<open>Interleavings of the threads\<close>

text \<open>
  One critical section, or one \<open>send_for_epoch\<close>. A transmission carries the descriptor and epoch
  its thread captured earlier, so nothing is assumed about what is current when it runs. The guards
  \<open>fd \<ge> 0\<close> are those of \<open>agent_transport_accept\<close>, \<open>agent_transport_run\<close> and the senders.
\<close>

datatype transport_op =
    OpTick u64
  | OpWait int
  | OpPublish int "NanokvmControlMessage option"
  | OpMessage int u64 NanokvmControlMessage
  | OpLeave int u64
  | OpStop
  | OpRequest bool
  | OpBeat u64
  | OpBegin u32
  | OpTransmit int u64 byte "byte list option" u16

fun transport_step :: "AgentTransport \<times> TransportOs \<Rightarrow> transport_op \<Rightarrow> AgentTransport \<times> TransportOs" where
  "transport_step (t, os) (OpTick now) = (t, os\<lparr>to_clock := now\<rparr>)"
| "transport_step (t, os) (OpWait fd) = (if fd \<ge> 0 then snd (accept_wait t fd) else t, os)"
| "transport_step (t, os) (OpPublish fd hello) =
     (if fd \<ge> 0 then snd (snd (snd (accept_publish t fd hello os))) else t, os)"
| "transport_step (t, os) (OpMessage fd epoch m) =
     (if fd \<ge> 0 \<and> is_current_locked t fd epoch then take_message t m (transport_now t os) else t, os)"
| "transport_step (t, os) (OpLeave fd epoch) = (if fd \<ge> 0 then run_leave t fd epoch os else (t, os))"
| "transport_step (t, os) OpStop = agent_transport_shutdown t os"
| "transport_step (t, os) (OpRequest b) = (t\<lparr>tr_stream_requested := b\<rparr>, os)"
| "transport_step (t, os) (OpBeat now) = (snd (snd (heartbeat_check t now)), os)"
| "transport_step (t, os) (OpBegin sequence) = (snd (agent_transport_begin_key_ack t sequence), os)"
| "transport_step (t, os) (OpTransmit fd epoch type payload len) =
     (t, if fd \<ge> 0 then snd (send_for_epoch t fd epoch type payload len os) else os)"

abbreviation transport_run :: "AgentTransport \<times> TransportOs \<Rightarrow> transport_op list \<Rightarrow> AgentTransport \<times> TransportOs" where
  "transport_run \<equiv> foldl transport_step"

text \<open>Without a connection nothing is waited for and no capability is remembered.\<close>

definition transport_ok :: "AgentTransport \<times> TransportOs \<Rightarrow> bool" where
  "transport_ok s \<longleftrightarrow> tr_fd (fst s) < 0 \<longrightarrow>
     \<not> tr_supports_key_ack (fst s) \<and> tr_waiting_key_sequence (fst s) = 0"

lemmas transport_sections = accept_wait_def accept_publish_def take_message_def run_leave_def
  agent_transport_shutdown_def heartbeat_check_def agent_transport_begin_key_ack_def
  cancel_key_ack_locked_def is_current_locked_def Let_def

lemma accept_publish_cases:
  obtains (refused) t1 where "accept_publish t fd hello os = (False, -1, False, t1)"
      "t1 = t \<or> t1 = t\<lparr>tr_pending_fd := -1\<rparr>"
  | (accepted) r st t2 where "accept_publish t fd hello os = (True, r, st, t2)"
      "tr_fd t2 = fd" "tr_epoch t2 = tr_epoch t + 1" "tr_stopping t2 = tr_stopping t"
      "\<not> tr_stopping t" "tr_waiting_key_sequence t2 = 0" "\<not> tr_key_ack_received t2"
      "r = tr_fd t" "st = tr_stream_requested t" "tr_stream_requested t2 = tr_stream_requested t"
  by (cases hello; cases "tr_pending_fd t = fd"; cases "tr_stopping t"; cases "valid_hello (the hello)")
    (auto simp: transport_sections)

lemma transport_ok_step: "transport_ok s \<Longrightarrow> transport_ok (transport_step s e)"
proof (cases s; cases e)
  fix t os fd hello
  assume "transport_ok s" and [simp]: "s = (t, os)" "e = OpPublish fd hello"
  then show ?thesis
    by (cases rule: accept_publish_cases [of t fd hello os]) (auto simp: transport_ok_def)
qed (auto simp: transport_ok_def transport_sections)

lemma stopping_step: "tr_stopping (fst s) \<le> tr_stopping (fst (transport_step s e))"
proof (cases s; cases e)
  fix t os fd hello
  assume [simp]: "s = (t, os)" "e = OpPublish fd hello"
  show ?thesis by (cases rule: accept_publish_cases [of t fd hello os]) auto
qed (auto simp: transport_sections)

interpretation transport: monotone_machine transport_step transport_ok "\<lambda>s. tr_stopping (fst s)"
  by unfold_locales (simp_all only: transport_ok_step stopping_step)

section \<open>Epochs\<close>

fun published :: "AgentTransport \<times> TransportOs \<Rightarrow> transport_op \<Rightarrow> nat" where
  "published (t, os) (OpPublish fd hello) = (if fd \<ge> 0 \<and> fst (accept_publish t fd hello os) then 1 else 0)"
| "published s e = 0"

fun publications :: "AgentTransport \<times> TransportOs \<Rightarrow> transport_op list \<Rightarrow> nat" where
  "publications s [] = 0"
| "publications s (e # es) = published s e + publications (transport_step s e) es"

lemma published_bound: "published s e \<le> 1"
  by (cases "(s, e)" rule: published.cases) auto

lemma publications_bound: "publications s es \<le> length es"
proof (induction es arbitrary: s)
  case (Cons e es)
  show ?case using Cons [of "transport_step s e"] published_bound [of s e] by simp
qed simp

lemma epoch_step: "tr_epoch (fst (transport_step s e)) = tr_epoch (fst s) + of_nat (published s e)"
proof (cases s; cases e)
  fix t os fd hello
  assume [simp]: "s = (t, os)" "e = OpPublish fd hello"
  show ?thesis by (cases rule: accept_publish_cases [of t fd hello os]) auto
qed (auto simp: transport_sections)

lemma epoch_run: "tr_epoch (fst (transport_run s es)) = tr_epoch (fst s) + of_nat (publications s es)"
proof (induction es arbitrary: s)
  case (Cons e es)
  show ?case using Cons [of "transport_step s e"] epoch_step [of s e] by simp
qed simp

lemma epoch_run_unat:
  assumes "unat (tr_epoch (fst s)) + length es < 2 ^ 64"
  shows "unat (tr_epoch (fst (transport_run s es))) = unat (tr_epoch (fst s)) + publications s es"
proof -
  have "unat (tr_epoch (fst s)) + publications s es < 2 ^ 64"
    using assms publications_bound [of s es] by simp
  then show ?thesis
    by (simp add: epoch_run unat_word_ariths unat_of_nat take_bit_eq_mod)
qed

section \<open>A replaced connection\<close>

fun sent_for :: "u64 \<Rightarrow> transport_effect \<Rightarrow> bool" where
  "sent_for e (SentOn e' bytes) = (e' = e)"
| "sent_for e (SendStarted fd e') = (e' = e)"
| "sent_for e _ = False"

lemma effects_simps [simp]:
  "to_effects (effects es os) = to_effects os @ es" "to_clock (effects es os) = to_clock os"
  by (simp_all add: effects_def)

lemma dup_fd_effects: "dup_fd os = (d, os') \<Longrightarrow> to_effects os' = to_effects os"
  by (auto simp: dup_fd_def split: list.splits)

lemma write_message_effects:
  assumes "write_message epoch type payload len os = (sent, os')"
  obtains bytes where "to_effects os' = to_effects os @ bytes" "\<forall>b \<in> set bytes. \<exists>bs. b = SentOn epoch bs"
  using assms by (auto simp: write_message_def Let_def split: list.splits option.splits)

lemma send_for_epoch_effects:
  assumes "e \<noteq> epoch"
  shows "filter (sent_for e) (to_effects (snd (send_for_epoch t fd epoch type payload len os))) =
         filter (sent_for e) (to_effects os)"
proof -
  obtain d os1 where d: "(if is_current_locked t fd epoch then dup_fd os else (-1, os)) = (d, os1)" by force
  then have os1: "to_effects os1 = to_effects os" by (auto split: if_splits dest: dup_fd_effects)
  define os2 where "os2 = (if cb_send_started (tr_callbacks t) then effects [SendStarted d epoch] os1 else os1)"
  obtain sent os3 where w: "write_message epoch type payload len os2 = (sent, os3)" by force
  obtain bytes where "to_effects os3 = to_effects os2 @ bytes" "\<forall>b \<in> set bytes. \<exists>bs. b = SentOn epoch bs"
    using w by (rule write_message_effects)
  moreover have "filter (sent_for e) bytes = []"
    using assms calculation(2) by (auto simp: filter_empty_conv)
  ultimately have "filter (sent_for e) (to_effects os3) = filter (sent_for e) (to_effects os)"
    using assms os1 by (auto simp: os2_def)
  with d w os1 show ?thesis
    by (simp add: send_for_epoch_def os2_def Let_def)
qed

lemma send_for_epoch_stale:
  "tr_epoch t \<noteq> e \<Longrightarrow> send_for_epoch t fd e type payload len os = (False, os)"
  by (simp add: send_for_epoch_def is_current_locked_def)

lemma step_silent:
  assumes "tr_epoch (fst s) \<noteq> e"
  shows "filter (sent_for e) (to_effects (snd (transport_step s op))) = filter (sent_for e) (to_effects (snd s))"
proof (cases s; cases op)
  fix t os fd epoch type payload len
  assume s: "s = (t, os)" "op = OpTransmit fd epoch type payload len"
  show ?thesis
  proof (cases "epoch = e")
    case True
    with assms s show ?thesis by (simp add: send_for_epoch_stale)
  next
    case False
    with s show ?thesis by (simp add: send_for_epoch_effects)
  qed
qed (auto simp: run_leave_def agent_transport_shutdown_def publish_event_def Let_def)

lemma run_silent:
  assumes "unat e < unat (tr_epoch (fst s))" and "unat (tr_epoch (fst s)) + length ops < 2 ^ 64"
  shows "filter (sent_for e) (to_effects (snd (transport_run s ops))) = filter (sent_for e) (to_effects (snd s))"
  using assms
proof (induction ops arbitrary: s)
  case (Cons op ops)
  have "unat (tr_epoch (fst (transport_step s op))) = unat (tr_epoch (fst s)) + published s op"
    using epoch_run_unat [of s "[op]"] Cons.prems by simp
  with Cons.IH [of "transport_step s op"] Cons.prems published_bound [of s op]
    step_silent [of s e op] show ?case by auto
qed simp


definition sample_transport :: AgentTransport where
  "sample_transport = the (agent_transport_init
     (Some \<lparr>cb_event = True, cb_clock = True, cb_send_started = False\<rparr>) True True)"

definition sample_transport_os :: TransportOs where
  "sample_transport_os = \<lparr>to_clock = 100, to_dups = [20, 21, 22, 23], to_writes = [], to_effects = []\<rparr>"

definition sample_hello :: NanokvmControlMessage where
  "sample_hello = \<lparr>msg_type = 1, msg_payload = [0, 0, 0, 0, 0, 0, 0, 0, 1], msg_length = 9\<rparr>"

lemmas sample_transport_defs = sample_transport_def sample_transport_os_def sample_hello_def
  agent_transport_init_def

lemmas transport_eval = sample_transport_defs transport_sections valid_hello_def protocol_consts
  transport_now_def send_for_epoch_def dup_fd_def write_message_def publish_event_def effects_def
  is_key_ack_def


section \<open>Key acknowledgements\<close>

text \<open>
  The acknowledgement of a sequence number, received on the connection that was current when the
  wait began.
\<close>

definition acknowledged ::
  "AgentTransport \<times> TransportOs \<Rightarrow> transport_op list \<Rightarrow> transport_op list \<Rightarrow> u32 \<Rightarrow> bool \<Rightarrow> bool" where
  "acknowledged s pre mid sequence success \<longleftrightarrow>
     (\<exists>mid1 m mid2. mid = mid1 @ OpMessage (tr_fd (fst (transport_run s pre))) (tr_epoch (fst (transport_run s pre))) m # mid2 \<and>
        is_current_locked (fst (transport_run s (pre @ OpBegin sequence # mid1)))
          (tr_fd (fst (transport_run s pre))) (tr_epoch (fst (transport_run s pre))) \<and>
        is_key_ack m \<and> protocol_read_u32 (msg_payload m) = sequence \<and> success = (msg_payload m ! 4 \<noteq> 0))"

definition ack_story :: "AgentTransport \<times> TransportOs \<Rightarrow> transport_op list \<Rightarrow> u32 \<Rightarrow> bool" where
  "ack_story s es sequence \<longleftrightarrow>
     (\<exists>pre mid. es = pre @ OpBegin sequence # mid \<and>
        fst (agent_transport_begin_key_ack (fst (transport_run s pre)) sequence) \<and>
        tr_epoch (fst (transport_run s es)) = tr_epoch (fst (transport_run s pre)) \<and>
        tr_fd (fst (transport_run s es)) = tr_fd (fst (transport_run s pre)) \<and>
        (tr_key_ack_received (fst (transport_run s es)) \<longrightarrow>
           acknowledged s pre mid sequence (tr_key_ack_success (fst (transport_run s es)))))"

lemma acknowledged_extend:
  "acknowledged s pre mid sequence b \<Longrightarrow> acknowledged s pre (mid @ [e]) sequence b"
  unfolding acknowledged_def by (metis append.assoc append_Cons)

definition same_wait :: "AgentTransport \<Rightarrow> AgentTransport \<Rightarrow> bool" where
  "same_wait t t' \<longleftrightarrow> tr_epoch t' = tr_epoch t \<and> tr_fd t' = tr_fd t \<and>
     tr_waiting_key_sequence t' = tr_waiting_key_sequence t \<and>
     tr_key_ack_received t' = tr_key_ack_received t \<and> tr_key_ack_success t' = tr_key_ack_success t"

lemma ack_story_extend:
  assumes "ack_story s es sequence" and "same_wait (fst (transport_run s es)) (fst (transport_run s (es @ [e])))"
  shows "ack_story s (es @ [e]) sequence"
proof -
  from assms(1) obtain pre mid where "es = pre @ OpBegin sequence # mid"
    and "fst (agent_transport_begin_key_ack (fst (transport_run s pre)) sequence)"
    and "tr_epoch (fst (transport_run s es)) = tr_epoch (fst (transport_run s pre))"
    and "tr_fd (fst (transport_run s es)) = tr_fd (fst (transport_run s pre))"
    and "tr_key_ack_received (fst (transport_run s es)) \<longrightarrow>
           acknowledged s pre mid sequence (tr_key_ack_success (fst (transport_run s es)))"
    unfolding ack_story_def by blast
  then show ?thesis
    using assms(2) acknowledged_extend [of s pre mid sequence _ e]
    unfolding ack_story_def same_wait_def
    by (intro exI [of _ pre] exI [of _ "mid @ [e]"]) auto
qed

text \<open>What one section does to the wait: nothing, or one of four things.\<close>

lemma wait_step:
  obtains (same) "same_wait (fst s) (fst (transport_step s e))"
  | (cancelled) "tr_waiting_key_sequence (fst (transport_step s e)) = 0"
  | (begun) sequence where "e = OpBegin sequence" "fst (agent_transport_begin_key_ack (fst s) sequence)"
      "tr_waiting_key_sequence (fst (transport_step s e)) = sequence"
      "\<not> tr_key_ack_received (fst (transport_step s e))"
      "tr_epoch (fst (transport_step s e)) = tr_epoch (fst s)" "tr_fd (fst (transport_step s e)) = tr_fd (fst s)"
  | (acked) m where "e = OpMessage (tr_fd (fst s)) (tr_epoch (fst s)) m"
      "is_current_locked (fst s) (tr_fd (fst s)) (tr_epoch (fst s))"
      "is_key_ack m" "protocol_read_u32 (msg_payload m) = tr_waiting_key_sequence (fst s)"
      "fst (transport_step s e) = (fst s)\<lparr>tr_last_activity_at := transport_now (fst s) (snd s),
         tr_key_ack_received := True, tr_key_ack_success := (msg_payload m ! 4 \<noteq> 0)\<rparr>"
proof (cases s; cases e)
  fix t os fd hello
  assume s: "s = (t, os)" "e = OpPublish fd hello"
  show thesis
  proof (cases rule: accept_publish_cases [of t fd hello os])
    case (refused t1)
    with s have "same_wait (fst s) (fst (transport_step s e))" by (auto simp: same_wait_def)
    then show thesis by (rule same)
  next
    case (accepted r st t2)
    with s show thesis by (cases "fd \<ge> 0") (auto intro: cancelled same simp: same_wait_def)
  qed
next
  fix t os fd epoch m
  assume s: "s = (t, os)" and e: "e = OpMessage fd epoch m"
  show thesis
  proof (cases "fd \<ge> 0 \<and> is_current_locked t fd epoch \<and> is_key_ack m \<and>
      tr_waiting_key_sequence t = protocol_read_u32 (msg_payload m)")
    case True
    with s e show thesis
      by (intro acked [of m]) (auto simp: is_current_locked_def take_message_def Let_def)
  next
    case False
    with s e have "same_wait (fst s) (fst (transport_step s e))"
      by (auto simp: same_wait_def take_message_def Let_def)
    then show thesis by (rule same)
  qed
next
  fix t os sequence
  assume s: "s = (t, os)" "e = OpBegin sequence"
  show thesis
  proof (cases "fst (agent_transport_begin_key_ack t sequence)")
    case True
    with s show thesis
      by (intro begun [of sequence]) (auto simp: agent_transport_begin_key_ack_def Let_def split: if_splits)
  next
    case False
    with s have "same_wait (fst s) (fst (transport_step s e))"
      by (auto simp: same_wait_def agent_transport_begin_key_ack_def Let_def)
    then show thesis by (rule same)
  qed
next
  fix t os fd epoch
  assume "s = (t, os)" "e = OpLeave fd epoch"
  then show thesis
    by (cases "fd \<ge> 0 \<and> tr_fd t = fd \<and> tr_epoch t = epoch")
      (auto intro: same cancelled simp: same_wait_def transport_sections)
qed (auto intro!: same simp: same_wait_def transport_sections)

lemma ack_story_run:
  assumes "tr_waiting_key_sequence (fst s) = 0" and "sequence \<noteq> 0"
    and "tr_waiting_key_sequence (fst (transport_run s es)) = sequence"
  shows "ack_story s es sequence"
  using assms
proof (induction es rule: rev_induct)
  case (snoc e es)
  let ?s = "transport_run s es"
  have run: "transport_run s (es @ [e]) = transport_step ?s e" by simp
  show ?case
  proof (cases rule: wait_step [of ?s e])
    case same
    with snoc show ?thesis by (intro ack_story_extend) (auto simp: same_wait_def)
  next
    case cancelled
    with snoc.prems run show ?thesis by simp
  next
    case (begun q)
    then have "q = sequence" using snoc.prems run by simp
    with begun show ?thesis
      unfolding ack_story_def by (intro exI [of _ es] exI [of _ "[]"]) simp
  next
    case (acked m)
    then have "tr_waiting_key_sequence (fst ?s) = sequence" using snoc.prems run by simp
    then have "ack_story s es sequence" using snoc by blast
    then obtain pre mid where es: "es = pre @ OpBegin sequence # mid"
      and b: "fst (agent_transport_begin_key_ack (fst (transport_run s pre)) sequence)"
      and same: "tr_epoch (fst ?s) = tr_epoch (fst (transport_run s pre))"
        "tr_fd (fst ?s) = tr_fd (fst (transport_run s pre))"
      unfolding ack_story_def by blast
    have "acknowledged s pre (mid @ [e]) sequence (msg_payload m ! 4 \<noteq> 0)"
      unfolding acknowledged_def
      using acked same \<open>tr_waiting_key_sequence (fst ?s) = sequence\<close>
      by (intro exI [of _ mid] exI [of _ m] exI [of _ "[]"]) (simp add: es)
    with b same acked(5) run es show ?thesis
      unfolding ack_story_def by (intro exI [of _ pre] exI [of _ "mid @ [e]"]) simp
  qed
qed simp

text \<open>
  C33: an acknowledgement is never credited to the wrong request. Whenever, in any interleaving, the
  gateway reads that sequence number \<open>n\<close> was acknowledged with result \<open>b\<close>, a wait for \<open>n\<close> had begun,
  and after it a KEY_ACK message carrying \<open>n\<close> and \<open>b\<close> arrived on the very connection that was
  current when the wait began.
\<close>

theorem transport_key_ack_genuine:
  assumes "agent_transport_init callbacks True True = Some t"
    and "agent_transport_get_key_ack (fst (transport_run (t, os) ops)) n = Some (True, b)"
  shows "\<exists>pre mid m post fd epoch.
    ops = pre @ OpBegin n # mid @ OpMessage fd epoch m # post \<and>
    agent_transport_is_current_epoch (fst (transport_run (t, os) pre)) epoch \<and>
    tr_fd (fst (transport_run (t, os) pre)) = fd \<and>
    is_current_locked (fst (transport_run (t, os) (pre @ OpBegin n # mid))) fd epoch \<and>
    msg_type m = control_code CONTROL_KEY_ACK \<and>
    protocol_read_u32 (msg_payload m) = n \<and> b = (msg_payload m ! 4 \<noteq> 0)"
proof -
  have "tr_waiting_key_sequence t = 0"
    using assms(1) by (auto simp: agent_transport_init_def Let_def)
  moreover from assms(2) have n: "n \<noteq> 0"
    "tr_waiting_key_sequence (fst (transport_run (t, os) ops)) = n"
    "tr_key_ack_received (fst (transport_run (t, os) ops))"
    "tr_key_ack_success (fst (transport_run (t, os) ops)) = b"
    by (auto simp: agent_transport_get_key_ack_def split: if_splits)
  ultimately have "ack_story (t, os) ops n" by (intro ack_story_run) simp_all
  with n obtain pre mid where ops: "ops = pre @ OpBegin n # mid"
    and began: "fst (agent_transport_begin_key_ack (fst (transport_run (t, os) pre)) n)"
    and "acknowledged (t, os) pre mid n b"
    unfolding ack_story_def by blast
  then obtain mid1 m post where "mid = mid1 @ OpMessage (tr_fd (fst (transport_run (t, os) pre)))
      (tr_epoch (fst (transport_run (t, os) pre))) m # post"
    and "is_current_locked (fst (transport_run (t, os) (pre @ OpBegin n # mid1)))
          (tr_fd (fst (transport_run (t, os) pre))) (tr_epoch (fst (transport_run (t, os) pre)))"
    and "is_key_ack m" "protocol_read_u32 (msg_payload m) = n" "b = (msg_payload m ! 4 \<noteq> 0)"
    unfolding acknowledged_def by blast
  moreover have "agent_transport_is_current_epoch (fst (transport_run (t, os) pre))
      (tr_epoch (fst (transport_run (t, os) pre)))"
    using began by (auto simp: agent_transport_begin_key_ack_def agent_transport_is_current_epoch_def Let_def
        split: if_splits)
  ultimately show ?thesis
    using ops unfolding is_key_ack_def
    by (intro exI [of _ pre] exI [of _ mid1] exI [of _ m] exI [of _ post]
        exI [of _ "tr_fd (fst (transport_run (t, os) pre))"]
        exI [of _ "tr_epoch (fst (transport_run (t, os) pre))"]) simp
qed

definition sample_key_ack :: NanokvmControlMessage where
  "sample_key_ack = \<lparr>msg_type = 15, msg_payload = [0, 0, 0, 42, 1], msg_length = 5\<rparr>"

theorem transport_key_ack_genuine_witness:
  defines "ops \<equiv> [OpPublish 7 (Some sample_hello), OpBegin 42, OpTransmit 7 1 5 None 0,
                 OpMessage 7 1 sample_key_ack]"
  shows "agent_transport_get_key_ack (fst (transport_run (sample_transport, sample_transport_os) ops)) 42
           = Some (True, True) \<and> (\<exists>m. OpMessage 7 1 m \<in> set ops \<and> protocol_read_u32 (msg_payload m) = 42)"
proof -
  have i: "agent_transport_init (Some \<lparr>cb_event = True, cb_clock = True, cb_send_started = False\<rparr>) True True
      = Some sample_transport" by (simp add: sample_transport_defs)
  have g: "agent_transport_get_key_ack (fst (transport_run (sample_transport, sample_transport_os) ops)) 42
           = Some (True, True)"
    by (simp add: ops_def transport_eval agent_transport_get_key_ack_def sample_key_ack_def
        protocol_read_u32_def protocol_send_def protocol_write_u16_def)
  from transport_key_ack_genuine [OF i g] obtain pre mid m post fd epoch where
    "ops = pre @ OpBegin 42 # mid @ OpMessage fd epoch m # post" and m: "protocol_read_u32 (msg_payload m) = 42"
    by blast
  then have "OpMessage fd epoch m \<in> set ops" by simp
  with g m show ?thesis by (auto simp: ops_def)
qed

section \<open>The heartbeat\<close>

text \<open>What a list of heartbeats, at the given times and with nothing in between, does to one connection.\<close>

definition beats :: "AgentTransport \<Rightarrow> TransportOs \<Rightarrow> u64 list \<Rightarrow> AgentTransport \<times> TransportOs" where
  "beats t os nows = foldl (\<lambda>(t, os) now. agent_transport_heartbeat t now os) (t, os) nows"

fun severed :: "transport_effect \<Rightarrow> bool" where
  "severed (ShutDown fd) = True"
| "severed (Published event epoch) = True"
| "severed _ = False"

lemma send_for_epoch_severed:
  "filter severed (to_effects (snd (send_for_epoch t fd epoch type payload len os))) = filter severed (to_effects os)"
proof -
  obtain d os1 where d: "(if is_current_locked t fd epoch then dup_fd os else (-1, os)) = (d, os1)" by force
  then have os1: "to_effects os1 = to_effects os" by (auto split: if_splits dest: dup_fd_effects)
  define os2 where "os2 = (if cb_send_started (tr_callbacks t) then effects [SendStarted d epoch] os1 else os1)"
  obtain sent os3 where w: "write_message epoch type payload len os2 = (sent, os3)" by force
  obtain bytes where "to_effects os3 = to_effects os2 @ bytes" "\<forall>b \<in> set bytes. \<exists>bs. b = SentOn epoch bs"
    using w by (rule write_message_effects)
  moreover have "filter severed bytes = []"
    using calculation(2) by (auto simp: filter_empty_conv)
  ultimately have "filter severed (to_effects os3) = filter severed (to_effects os)"
    using os1 by (auto simp: os2_def)
  with d w os1 show ?thesis by (simp add: send_for_epoch_def os2_def Let_def)
qed

lemma late_iff:
  "unat (since :: u64) \<le> unat now \<Longrightarrow> now - since > AGENT_TRANSPORT_HEARTBEAT_TIMEOUT_MS \<longleftrightarrow> unat now > unat since + 5000"
proof -
  assume a: "unat since \<le> unat now"
  have "now - since > AGENT_TRANSPORT_HEARTBEAT_TIMEOUT_MS \<longleftrightarrow> 5000 < unat (now - since)"
    by (simp add: AGENT_TRANSPORT_HEARTBEAT_TIMEOUT_MS_def word_less_nat_alt)
  also have "\<dots> \<longleftrightarrow> unat now > unat since + 5000"
    using a by (auto simp: unat_sub word_le_nat_alt)
  finally show ?thesis .
qed

lemma heartbeat_late:
  assumes "\<not> tr_stopping t" "tr_fd t \<ge> 0" "\<not> tr_heartbeat_timed_out t" "cb_event (tr_callbacks t)"
    and "unat now > unat (tr_last_activity_at t) + 5000"
  shows "agent_transport_heartbeat t now os =
    (t\<lparr>tr_heartbeat_timed_out := True, tr_stream_requested := False\<rparr>,
     effects [ShutDown (tr_fd t), Published AGENT_TRANSPORT_EVENT_HEARTBEAT_TIMEOUT (tr_epoch t)] os)"
  using assms late_iff [of "tr_last_activity_at t" now]
  by (simp add: agent_transport_heartbeat_def heartbeat_check_def publish_event_def effects_def Let_def)

lemma heartbeat_early:
  assumes "\<not> tr_stopping t" "tr_fd t \<ge> 0" "\<not> tr_heartbeat_timed_out t"
    and "unat (tr_last_activity_at t) \<le> unat now" "unat now \<le> unat (tr_last_activity_at t) + 5000"
    and "agent_transport_heartbeat t now os = (t', os')"
  shows "t' = t \<or> t' = t\<lparr>tr_last_ping_at := now\<rparr>" "filter severed (to_effects os') = filter severed (to_effects os)"
  using assms late_iff [of "tr_last_activity_at t" now]
  by (auto simp: agent_transport_heartbeat_def heartbeat_check_def publish_event_def Let_def
      send_for_epoch_severed split: if_splits)

lemma heartbeat_over:
  "tr_heartbeat_timed_out t \<Longrightarrow> agent_transport_heartbeat t now os = (t, os)"
  by (simp add: agent_transport_heartbeat_def heartbeat_check_def)

lemma beats_over: "tr_heartbeat_timed_out t \<Longrightarrow> beats t os nows = (t, os)"
  by (induction nows) (auto simp: beats_def heartbeat_over)

lemma beats_Cons: "agent_transport_heartbeat t now os = (t', os') \<Longrightarrow> beats t os (now # nows) = beats t' os' nows"
  by (simp add: beats_def)

text \<open>
  C34: a connection that says nothing is cut exactly once, and never early. Over any list of
  heartbeats none of which is older than the connection's last message, the transport shuts the
  connection down and reports one timeout if and only if some heartbeat comes more than five seconds
  after that message; it then also forgets the stream request. Otherwise it only sends pings.
\<close>

theorem transport_heartbeat_exact:
  assumes "\<not> tr_stopping t" "tr_fd t \<ge> 0" "\<not> tr_heartbeat_timed_out t" "cb_event (tr_callbacks t)"
    and "\<forall>now \<in> set nows. unat (tr_last_activity_at t) \<le> unat now"
    and "beats t os nows = (t', os')"
  shows "filter severed (to_effects os') = filter severed (to_effects os) @
           (if \<exists>now \<in> set nows. unat now > unat (tr_last_activity_at t) + 5000
            then [ShutDown (tr_fd t), Published AGENT_TRANSPORT_EVENT_HEARTBEAT_TIMEOUT (tr_epoch t)]
            else []) \<and>
         tr_heartbeat_timed_out t' = (\<exists>now \<in> set nows. unat now > unat (tr_last_activity_at t) + 5000) \<and>
         tr_stream_requested t' = (tr_stream_requested t \<and>
           \<not> (\<exists>now \<in> set nows. unat now > unat (tr_last_activity_at t) + 5000))"
  using assms
proof (induction nows arbitrary: t os)
  case (Cons now nows)
  obtain t1 os1 where h: "agent_transport_heartbeat t now os = (t1, os1)" by force
  show ?case
  proof (cases "unat now > unat (tr_last_activity_at t) + 5000")
    case True
    with Cons.prems h have "t1 = t\<lparr>tr_heartbeat_timed_out := True, tr_stream_requested := False\<rparr>"
      "os1 = effects [ShutDown (tr_fd t), Published AGENT_TRANSPORT_EVENT_HEARTBEAT_TIMEOUT (tr_epoch t)] os"
      by (simp_all add: heartbeat_late)
    with True Cons.prems(6) show ?thesis by (auto simp: beats_Cons [OF h] beats_over)
  next
    case False
    then have "t1 = t \<or> t1 = t\<lparr>tr_last_ping_at := now\<rparr>"
      and e: "filter severed (to_effects os1) = filter severed (to_effects os)"
      using heartbeat_early [OF _ _ _ _ _ h] Cons.prems by auto
    moreover have "beats t1 os1 nows = (t', os')" using Cons.prems(6) by (simp add: beats_Cons [OF h])
    ultimately show ?thesis
      using Cons.IH [of t1 os1] Cons.prems False by auto
  qed
qed (simp add: beats_def)

theorem transport_heartbeat_exact_witness:
  defines "t \<equiv> fst (transport_run (sample_transport, sample_transport_os) [OpPublish 7 (Some sample_hello)])"
  shows "filter severed (to_effects (snd (beats t sample_transport_os [100, 1100, 5100, 5101, 5300]))) =
    [ShutDown 7, Published AGENT_TRANSPORT_EVENT_HEARTBEAT_TIMEOUT 1]"
proof -
  have t: "\<not> tr_stopping t" "tr_fd t = 7" "\<not> tr_heartbeat_timed_out t" "cb_event (tr_callbacks t)"
    "tr_last_activity_at t = 100" "tr_epoch t = 1"
    by (simp_all add: t_def transport_eval)
  then have "\<forall>now \<in> set [100, 1100, 5100, 5101, 5300]. unat (tr_last_activity_at t) \<le> unat (now :: u64)"
    by simp
  then show ?thesis
    using transport_heartbeat_exact [OF t(1) _ t(3) t(4), of "[100, 1100, 5100, 5101, 5300]" sample_transport_os
        "fst (beats t sample_transport_os [100, 1100, 5100, 5101, 5300])"
        "snd (beats t sample_transport_os [100, 1100, 5100, 5101, 5300])"]
    by (simp add: t sample_transport_os_def)
qed

text \<open>
  The heartbeat's time is sampled before the lock is taken. When a message is handled in between,
  its time stamp can be the later one; the unsigned difference then wraps and the heartbeat cuts a
  connection that has just spoken.
\<close>

lemma heartbeat_clock_race:
  assumes "\<not> tr_stopping t" "tr_fd t \<ge> 0" "\<not> tr_heartbeat_timed_out t"
    and "unat now < unat (tr_last_activity_at t)" "unat (tr_last_activity_at t) - unat now < 2 ^ 64 - 5000"
  shows "fst (heartbeat_check t now)"
proof -
  have "unat (now - tr_last_activity_at t) = unat now + 2 ^ 64 - unat (tr_last_activity_at t)"
    using assms(4) by (simp add: unat_sub_if')
  with assms show ?thesis
    by (simp add: heartbeat_check_def AGENT_TRANSPORT_HEARTBEAT_TIMEOUT_MS_def word_less_nat_alt)
qed

text \<open>
  A timeout drops the stream request, and nothing brings it back when the agent connects again: the
  new connection is not asked to start its stream.
\<close>

lemma stream_request_lost:
  assumes "\<not> tr_stopping t" "tr_fd t \<ge> 0" "\<not> tr_heartbeat_timed_out t" "cb_event (tr_callbacks t)"
    and "unat now > unat (tr_last_activity_at t) + 5000"
    and "fst (agent_transport_heartbeat t now os) = t1"
    and "fst (run_leave t1 (tr_fd t) (tr_epoch t) os2) = t2"
    and "accept_publish t2 fd hello os3 = (True, r, send_start, t3)"
  shows "\<not> send_start \<and> \<not> tr_stream_requested t3"
proof -
  have "\<not> tr_stream_requested t1" using assms heartbeat_late [OF assms(1-5)] by auto
  then have "\<not> tr_stream_requested t2"
    using assms(7) by (auto simp: run_leave_def cancel_key_ack_locked_def Let_def split: if_splits)
  with assms(8) show ?thesis by (cases rule: accept_publish_cases [of t2 fd hello os3]) auto
qed

end
