(* ===== verification/HttpApi.thy ===== *)
theory HttpApi
  imports GatewayConfig InputRouter
begin

text \<open>
  The HTTP interface of the gateway (\<open>http_api.c\<close>): it reads one request per connection, takes the
  fields it needs out of a small JSON body, turns them into control messages through its own input
  router and answers with JSON, the viewer page or a JPEG of the last decoded frame.

  A C string is a \<open>string\<close> without its terminating zero. What the source passes as callback
  (\<open>send_control\<close>, \<open>set_stream\<close>) is a function argument that changes a state of type \<open>'w\<close>; the JPEG
  encoder of FFmpeg is a function argument from a frame to the packet it produces. Every handler of
  the source ends by sending one response, so a handler returns that response as a value and
  \<open>serve_client\<close> writes it.
\<close>

section \<open>The C library\<close>

text \<open>The text a zero-terminated buffer holds, and the bytes of a text.\<close>

definition cstring :: "byte list \<Rightarrow> string" where
  "cstring bs = map (\<lambda>b. char_of (unat b)) (takeWhile (\<lambda>b. b \<noteq> 0) bs)"

definition text_bytes :: "string \<Rightarrow> byte list" where
  "text_bytes s = map of_char s"

text \<open>\<open>strstr\<close> and \<open>strchr\<close>: the text from the first occurrence on.\<close>

fun strstr :: "string \<Rightarrow> string \<Rightarrow> string option" where
  "strstr [] needle = (if needle = [] then Some [] else None)"
| "strstr (c # cs) needle =
     (if take (length needle) (c # cs) = needle then Some (c # cs) else strstr cs needle)"

definition strchr :: "string \<Rightarrow> char \<Rightarrow> string option" where
  "strchr s c = (case dropWhile (\<lambda>x. x \<noteq> c) s of [] \<Rightarrow> None | rest \<Rightarrow> Some rest)"

text \<open>\<open>strncmp\<close> and \<open>strncasecmp\<close> against a whole text.\<close>

definition starts_with :: "string \<Rightarrow> string \<Rightarrow> bool" where
  "starts_with s p \<longleftrightarrow> take (length p) s = p"

definition to_lower :: "char \<Rightarrow> nat" where
  "to_lower c = (let n = of_char c in if 65 \<le> n \<and> n \<le> 90 then n + 32 else n)"

definition starts_with_nocase :: "string \<Rightarrow> string \<Rightarrow> bool" where
  "starts_with_nocase s p \<longleftrightarrow> length p \<le> length s \<and> map to_lower (take (length p) s) = map to_lower p"

definition is_space :: "char \<Rightarrow> bool" where
  "is_space c \<longleftrightarrow> (of_char c :: nat) = 32 \<or> (9 \<le> (of_char c :: nat) \<and> (of_char c :: nat) \<le> 13)"

definition blank :: "char \<Rightarrow> bool" where
  "blank c \<longleftrightarrow> (of_char c :: nat) = 32 \<or> (of_char c :: nat) = 9"

text \<open>
  \<open>strtol\<close> and \<open>strtoul\<close> with base 10: white space, a sign, digits. The value saturates at the
  limits of \<open>long\<close>; \<open>strtoul\<close> negates modulo \<open>2 ^ 64\<close>. No digits: \<open>None\<close>, the end pointer has not
  moved.
\<close>

definition signed_digits :: "string \<Rightarrow> bool \<times> string" where
  "signed_digits s =
     (let t = dropWhile is_space s in
      case t of
        [] \<Rightarrow> (False, [])
      | c # cs \<Rightarrow> if c = CHR ''-'' then (True, takeWhile is_digit cs)
                  else if c = CHR ''+'' then (False, takeWhile is_digit cs)
                  else (False, takeWhile is_digit t))"

definition strtol :: "string \<Rightarrow> int option" where
  "strtol s = (case signed_digits s of (negative, ds) \<Rightarrow>
     if ds = [] then None
     else let v = int (decimal_value 0 ds)
          in Some (if negative then max (- (2 ^ 63)) (- v) else min (2 ^ 63 - 1) v))"

definition strtoul :: "string \<Rightarrow> nat" where
  "strtoul s = (case signed_digits s of (negative, ds) \<Rightarrow>
     let v = decimal_value 0 ds
     in if v \<ge> 2 ^ 64 then 2 ^ 64 - 1 else if negative \<and> v > 0 then 2 ^ 64 - v else v)"

definition decimal_int :: "int \<Rightarrow> string" where
  "decimal_int n = (if n < 0 then CHR ''-'' # decimal (nat (- n)) else decimal (nat n))"

text \<open>\<open>snprintf\<close> into a buffer keeps room for the terminator.\<close>

definition snprintf :: "nat \<Rightarrow> string \<Rightarrow> string" where
  "snprintf room s = take (room - 1) s"

section \<open>State\<close>

definition HTTP_API_MAX_HEADER :: nat where "HTTP_API_MAX_HEADER = 8192"
definition HTTP_API_MAX_BODY :: nat where "HTTP_API_MAX_BODY = 65536"
definition HTTP_API_MAX_JPEG :: nat where "HTTP_API_MAX_JPEG = 8 * 1024 * 1024"

definition CRLF :: string where "CRLF = [CHR 0x0d, CHR 0x0a]"
definition CRLF2 :: string where "CRLF2 = [CHR 0x0d, CHR 0x0a, CHR 0x0d, CHR 0x0a]"

text \<open>A decoded picture of FFmpeg: its size, and a number that tells pictures apart.\<close>

record AVFrame =
  av_width :: int
  av_height :: int
  av_picture :: nat

record HttpApiConfig =
  hc_bind_address :: "string option"
  hc_port :: u16
  hc_width :: u16
  hc_height :: u16
  hc_jpeg_quality :: int
  hc_swap_alt_command :: bool
  hc_send_control :: bool
  hc_set_stream :: bool

record HttpApi =
  ha_config :: HttpApiConfig
  ha_listener :: int
  ha_running :: bool
  ha_input_busy :: bool
  ha_started :: bool
  ha_frame :: "AVFrame option"
  ha_jpeg :: "byte list option"
  ha_frame_id :: u32
  ha_jpeg_frame_id :: u32
  ha_frame_width :: u16
  ha_frame_height :: u16
  ha_router :: InputRouter

section \<open>Responses\<close>

record HttpResponse =
  hr_status :: int
  hr_reason :: string
  hr_type :: string
  hr_body :: "byte list"
  hr_extra :: string

definition response_header :: "HttpResponse \<Rightarrow> string" where
  "response_header r =
     ''HTTP/1.1 '' @ decimal_int (hr_status r) @ '' '' @ hr_reason r @ CRLF @
     ''Content-Type: '' @ hr_type r @ CRLF @
     ''Content-Length: '' @ decimal (length (hr_body r)) @ CRLF @
     ''Cache-Control: no-store'' @ CRLF @
     ''Access-Control-Allow-Origin: *'' @ CRLF @
     ''Access-Control-Allow-Methods: GET, POST, OPTIONS'' @ CRLF @
     ''Access-Control-Allow-Headers: Content-Type'' @ CRLF @
     hr_extra r @ ''Connection: close'' @ CRLF2"

text \<open>
  \<open>send_all\<close> over the answers of \<open>send\<close>, the loop of \<open>protocol.c\<close>'s \<open>write_all\<close>. The socket has a send
  timeout of five seconds, so after the listed answers the call fails with \<open>EAGAIN\<close>.
\<close>

definition send_all :: "write_answer list \<Rightarrow> byte list \<Rightarrow> bool \<times> byte list \<times> write_answer list" where
  "send_all answers data =
     (case write_all (answers @ [WriteErr EAGAIN]) data of
        None \<Rightarrow> (False, [], [])
      | Some (ok, sent, rest) \<Rightarrow> (ok, sent, butlast rest))"

text \<open>The flag the source returns and the bytes that reached the socket.\<close>

definition send_response :: "write_answer list \<Rightarrow> HttpResponse \<Rightarrow> bool \<times> byte list" where
  "send_response answers r =
     (let header = response_header r in
      if 768 \<le> length header then (False, [])
      else case send_all answers (text_bytes header) of
             (ok, sent, rest) \<Rightarrow>
               if \<not> ok then (False, sent)
               else if hr_body r = [] then (True, sent)
               else (case send_all rest (hr_body r) of (ok2, sent2, _) \<Rightarrow> (ok2, sent @ sent2)))"

definition text_response :: "int \<Rightarrow> string \<Rightarrow> string \<Rightarrow> HttpResponse" where
  "text_response status type body =
     \<lparr>hr_status = status, hr_reason = (if status = 200 then ''OK'' else ''Error''), hr_type = type,
      hr_body = text_bytes body, hr_extra = []\<rparr>"

definition ok_response :: "bool \<Rightarrow> HttpResponse" where
  "ok_response ok = text_response (if ok then 200 else 503) ''application/json''
     (if ok then ''{\"ok\":true}'' else ''{\"ok\":false}'')"

definition error_response :: "int \<Rightarrow> string \<Rightarrow> HttpResponse" where
  "error_response status error = text_response status ''application/json''
     (snprintf 160 (''{\"ok\":false,\"error\":\"'' @ error @ ''\"}''))"

section \<open>Frames\<close>

text \<open>\<open>encode_frame\<close>: FFmpeg's encoder gives a packet or fails; an empty or huge packet is refused.\<close>

definition encode_frame :: "(AVFrame \<Rightarrow> byte list option) \<Rightarrow> AVFrame \<Rightarrow> byte list option" where
  "encode_frame encoder frame =
     (case encoder frame of
        None \<Rightarrow> None
      | Some packet \<Rightarrow> if packet = [] \<or> length packet > HTTP_API_MAX_JPEG then None else Some packet)"

definition http_api_publish_frame :: "HttpApi \<Rightarrow> AVFrame \<Rightarrow> bool \<Rightarrow> bool \<times> HttpApi" where
  "http_api_publish_frame api source cloned =
     (if av_width source \<le> 0 \<or> av_height source \<le> 0 then (False, api)
      else if \<not> cloned then (False, api)
      else (True, api\<lparr>ha_frame := Some source, ha_frame_id := ha_frame_id api + 1,
                      ha_frame_width := word_of_int (av_width source),
                      ha_frame_height := word_of_int (av_height source)\<rparr>))"

text \<open>
  The JPEG and the number of its frame; the encoded JPEG is kept for the next request. The answers
  of \<open>malloc\<close> and of \<open>av_frame_clone\<close> are arguments.
\<close>

definition get_snapshot ::
  "(AVFrame \<Rightarrow> byte list option) \<Rightarrow> (nat \<Rightarrow> bool) \<Rightarrow> bool \<Rightarrow> HttpApi \<Rightarrow> (byte list \<times> u32) option \<times> HttpApi" where
  "get_snapshot encoder alloc cloned api =
     (case ha_frame api of
        None \<Rightarrow> (None, api)
      | Some frame \<Rightarrow>
          let frame_id = ha_frame_id api;
              cached = (case ha_jpeg api of
                          Some jpeg \<Rightarrow> if jpeg \<noteq> [] \<and> ha_jpeg_frame_id api = frame_id then Some jpeg else None
                        | None \<Rightarrow> None)
          in case cached of
               Some jpeg \<Rightarrow> (if alloc (length jpeg) then Some (jpeg, frame_id) else None, api)
             | None \<Rightarrow>
                 if \<not> cloned then (None, api)
                 else (case encode_frame encoder frame of
                         None \<Rightarrow> (None, api)
                       | Some encoded \<Rightarrow>
                           (if alloc (length encoded) then Some (encoded, frame_id) else None,
                            api\<lparr>ha_jpeg := Some encoded, ha_jpeg_frame_id := frame_id\<rparr>)))"

section \<open>Reading a request\<close>

text \<open>
  \<open>header_value\<close>: line by line, up to the first empty line; what follows the colon and the blanks of
  the first line that carries the name.
\<close>

function header_value :: "string \<Rightarrow> string \<Rightarrow> string option" where
  "header_value line name =
     (if line = [] then None
      else case strstr line CRLF of
             None \<Rightarrow> None
           | Some at_end \<Rightarrow>
               let len = length line - length at_end in
               if len = 0 then None
               else if len > length name + 1 \<and> starts_with_nocase line name \<and> line ! length name = CHR '':''
               then Some (dropWhile blank (drop (length name + 1) line))
               else header_value (drop 2 at_end) name)"
  by pat_completeness auto
termination
proof (relation "measure (\<lambda>(line, name). length line)")
  fix line :: string and at_end
  assume "line \<noteq> []" "strstr line CRLF = Some at_end"
  moreover have "strstr line CRLF = Some at_end \<Longrightarrow> length at_end \<le> length line" for line at_end
    by (induction line) (auto simp: CRLF_def split: if_splits)
  ultimately have "length at_end \<le> length line" by blast
  with \<open>line \<noteq> []\<close> show "((drop 2 at_end, name), line, name) \<in> measure (\<lambda>(line, name). length line)" for name :: string
    by (cases line) auto
qed simp

declare header_value.simps [simp del]

text \<open>\<open>json_field\<close>: the key in single quotes, else in double quotes; what follows the next colon.\<close>

definition json_field :: "string \<Rightarrow> string \<Rightarrow> string option" where
  "json_field json key =
     (let single = CHR 0x27 # key @ [CHR 0x27]; double = CHR 0x22 # key @ [CHR 0x22] in
      if 64 \<le> length single then None
      else case (case strstr json single of Some at \<Rightarrow> Some at | None \<Rightarrow> strstr json double) of
             None \<Rightarrow> None
           | Some at \<Rightarrow>
               (case strchr (drop (length single) at) (CHR '':'') of
                  None \<Rightarrow> None
                | Some colon \<Rightarrow> Some (dropWhile blank (drop 1 colon))))"

definition json_bool :: "string \<Rightarrow> string \<Rightarrow> bool \<Rightarrow> bool" where
  "json_bool json key fallback =
     (case json_field json key of
        None \<Rightarrow> fallback
      | Some found \<Rightarrow> if starts_with found ''true'' then True
                      else if starts_with found ''false'' then False else fallback)"

text \<open>\<open>json_long\<close>: \<open>None\<close> is \<open>present\<close> false.\<close>

definition json_long :: "string \<Rightarrow> string \<Rightarrow> int option" where
  "json_long json key = (case json_field json key of None \<Rightarrow> None | Some found \<Rightarrow> strtol found)"

fun decode_string :: "char \<Rightarrow> nat \<Rightarrow> string \<Rightarrow> nat \<Rightarrow> string option" where
  "decode_string quote out_size [] used = None"
| "decode_string quote out_size (c # cs) used =
     (if c = quote then Some []
      else if c = CHR 0x5c then
        (case cs of
           [] \<Rightarrow> None
         | e # rest \<Rightarrow>
             if e = CHR ''u'' then None
             else if used + 1 \<ge> out_size then None
             else map_option (\<lambda>s. (if e = CHR ''n'' then CHR 0x0a else if e = CHR ''t'' then CHR 0x09 else e) # s)
                    (decode_string quote out_size rest (used + 1)))
      else if used + 1 \<ge> out_size then None
      else map_option (\<lambda>s. c # s) (decode_string quote out_size cs (used + 1)))"

definition decode_json_string :: "string \<Rightarrow> string \<Rightarrow> nat \<Rightarrow> string option" where
  "decode_json_string json key out_size =
     (case json_field json key of
        None \<Rightarrow> None
      | Some [] \<Rightarrow> None
      | Some (q # rest) \<Rightarrow> if q \<noteq> CHR 0x22 \<and> q \<noteq> CHR 0x27 then None else decode_string q out_size rest 0)"

section \<open>Handlers\<close>

text \<open>The callback \<open>send_control\<close>: message type, payload, length, state.\<close>

type_synonym 'w control_sink = "byte \<Rightarrow> byte list \<Rightarrow> u16 \<Rightarrow> 'w \<Rightarrow> bool \<times> 'w"

definition send_router_message :: "'w control_sink \<Rightarrow> HttpApi \<Rightarrow> InputRouterMessage \<Rightarrow> 'w \<Rightarrow> bool \<times> 'w" where
  "send_router_message sink api message w =
     (if irm_type message = 0 then (True, w)
      else if hc_send_control (ha_config api)
      then sink (irm_type message) (irm_payload message) (irm_length message) w
      else (False, w))"

definition note_input_busy :: "HttpApi \<Rightarrow> HttpApi" where
  "note_input_busy api = api\<lparr>ha_input_busy :=
     (ir_pointer_buttons (ha_router api) \<noteq> 0 \<or> ir_keyboard_modifiers (ha_router api) \<noteq> 0 \<or>
      ir_control_space_down (ha_router api))\<rparr>"

definition handle_key :: "'w control_sink \<Rightarrow> HttpApi \<Rightarrow> string \<Rightarrow> 'w \<Rightarrow> HttpResponse \<times> HttpApi \<times> 'w" where
  "handle_key sink api body w =
     (case json_long body ''code'' of
        None \<Rightarrow> (error_response 400 ''code'', api, w)
      | Some code \<Rightarrow>
          if code < 0 \<or> code > 255 then (error_response 400 ''code'', api, w)
          else
            let extended = json_bool body ''extended'' False;
                release = (json_bool body ''release'' False \<or> json_bool body ''up'' False);
                (router, message) = input_router_keyboard (ha_router api) (word_of_int code) extended release;
                api1 = note_input_busy (api\<lparr>ha_router := router\<rparr>);
                (sent, w1) = send_router_message sink api1 message w
            in (ok_response sent, api1, w1))"

text \<open>One character of the text: its code point and the bytes it takes.\<close>

definition take_codepoint :: "byte list \<Rightarrow> (u32 \<times> nat) option" where
  "take_codepoint bytes =
     (let b0 = bytes ! 0 in
      if b0 < 0x80 then Some (ucast b0, 1)
      else if b0 AND 0xe0 = 0xc0 \<and> 1 < length bytes
      then Some (push_bit 6 (ucast (b0 AND 0x1f)) OR ucast (bytes ! 1 AND 0x3f), 2)
      else if b0 AND 0xf0 = 0xe0 \<and> 2 < length bytes
      then Some (push_bit 12 (ucast (b0 AND 0x0f)) OR push_bit 6 (ucast (bytes ! 1 AND 0x3f)) OR
                 ucast (bytes ! 2 AND 0x3f), 3)
      else None)"

text \<open>The loop of \<open>handle_text\<close> over the bytes that are left.\<close>

function text_loop :: "'w control_sink \<Rightarrow> HttpApi \<Rightarrow> byte list \<Rightarrow> 'w \<Rightarrow> HttpResponse \<times> 'w" where
  "text_loop sink api bytes w =
     (if bytes = [] then (ok_response True, w)
      else case take_codepoint bytes of
             None \<Rightarrow> (error_response 400 ''utf-8'', w)
           | Some (codepoint, consumed) \<Rightarrow>
               if codepoint = 0 \<or> codepoint > 0xffff then (error_response 400 ''bmp-only'', w)
               else
                 let (ok, message) = input_router_unicode (ha_router api) (ucast codepoint) False;
                     (sent, w1) = (if ok then send_router_message sink api message w else (False, w))
                 in if ok \<and> sent then text_loop sink api (drop consumed bytes) w1
                    else (ok_response False, w1))"
  by pat_completeness auto
termination
proof (relation "measure (\<lambda>(sink, api, bytes, w). length bytes)")
  fix sink :: "'w control_sink" and api bytes and w :: 'w and x codepoint consumed xa ok message xb sent w1
  assume "bytes \<noteq> []" "take_codepoint bytes = Some x" "(codepoint, consumed) = x"
  then have "0 < consumed" by (auto simp: take_codepoint_def Let_def split: if_splits)
  with \<open>bytes \<noteq> []\<close> show "((sink, api, drop consumed bytes, w1), sink, api, bytes, w)
      \<in> measure (\<lambda>(sink, api, bytes, w). length bytes)" by simp
qed simp

declare text_loop.simps [simp del]

definition handle_text :: "'w control_sink \<Rightarrow> HttpApi \<Rightarrow> string \<Rightarrow> 'w \<Rightarrow> HttpResponse \<times> HttpApi \<times> 'w" where
  "handle_text sink api body w =
     (case decode_json_string body ''text'' 1024 of
        None \<Rightarrow> (error_response 400 ''text'', api, w)
      | Some decoded \<Rightarrow> (case text_loop sink api (text_bytes decoded) w of (r, w1) \<Rightarrow> (r, api, w1)))"

definition map_axis :: "u16 \<Rightarrow> u16 \<Rightarrow> int \<Rightarrow> u16" where
  "map_axis frame desktop v =
     (let source = (if frame \<noteq> 0 then frame else desktop);
          v1 = (if v < 0 then 0 else v);
          v2 = (if source > 1 \<and> v1 \<ge> uint source then uint source - 1 else v1)
      in if source \<le> 1 \<or> desktop \<le> 1 then 0
         else word_of_int ((v2 * (uint desktop - 1)) div (uint source - 1)))"

definition map_pointer :: "u16 \<Rightarrow> u16 \<Rightarrow> u16 \<Rightarrow> u16 \<Rightarrow> int \<Rightarrow> int \<Rightarrow> u16 \<times> u16" where
  "map_pointer frame_width frame_height desktop_width desktop_height x y =
     (map_axis frame_width desktop_width x, map_axis frame_height desktop_height y)"

definition bit_set :: "int \<Rightarrow> nat \<Rightarrow> bool" where
  "bit_set n i \<longleftrightarrow> bit n i"

definition button_flags :: "int option \<Rightarrow> bool \<Rightarrow> u16" where
  "button_flags buttons down =
     (case buttons of
        None \<Rightarrow> 0
      | Some n \<Rightarrow>
          let flags = (if bit_set n 0 then 0x1000 else 0) OR (if bit_set n 1 then 0x2000 else 0) OR
                      (if bit_set n 2 then 0x4000 else 0)
          in if down \<and> flags \<noteq> 0 then flags OR 0x8000 else flags)"

definition json_flag :: "bool \<Rightarrow> string" where
  "json_flag b = (if b then ''true'' else ''false'')"

definition handle_mouse :: "'w control_sink \<Rightarrow> HttpApi \<Rightarrow> string \<Rightarrow> 'w \<Rightarrow> HttpResponse \<times> HttpApi \<times> 'w" where
  "handle_mouse sink api body w =
     (case (json_long body ''x'', json_long body ''y'') of
        (Some x, Some y) \<Rightarrow>
          if x < 0 \<or> y < 0 \<or> x > 65535 \<or> y > 65535 then (error_response 400 ''x,y'', api, w)
          else
            let flags = button_flags (json_long body ''buttons'') (json_bool body ''down'' True);
                router = ha_router api;
                (mapped_x, mapped_y) = map_pointer (ha_frame_width api) (ha_frame_height api)
                                         (ir_width router) (ir_height router) x y;
                (router1, message) = input_router_absolute_pointer router mapped_x mapped_y flags False;
                api1 = note_input_busy (api\<lparr>ha_router := router1\<rparr>);
                (sent, w1) = send_router_message sink api1 message w;
                json = ''{\"ok\":'' @ json_flag sent @ '',\"x\":'' @ decimal (unat mapped_x) @
                       '',\"y\":'' @ decimal (unat mapped_y) @ '',\"source_x\":'' @ decimal_int x @
                       '',\"source_y\":'' @ decimal_int y @ '',\"width\":'' @ decimal (unat (ir_width router)) @
                       '',\"height\":'' @ decimal (unat (ir_height router)) @ ''}''
            in (text_response (if sent then 200 else 503) ''application/json'' (snprintf 192 json), api1, w1)
      | _ \<Rightarrow> (error_response 400 ''x,y'', api, w))"

definition wheel_flags :: "int \<Rightarrow> int \<Rightarrow> u16" where
  "wheel_flags dy dx =
     (let raw = (if dy \<noteq> 0 then dy else dx);
          steps = (if raw > 120 then 120 else if raw < - 120 then - 120 else raw);
          magnitude = (word_of_int (if steps < 0 then - steps else steps) :: u16);
          flags = (if dy \<noteq> 0 then 0x0200 else 0x0400) OR (magnitude AND 0x01ff)
      in if steps < 0 then flags OR 0x0100 else flags)"

definition handle_wheel :: "'w control_sink \<Rightarrow> HttpApi \<Rightarrow> string \<Rightarrow> 'w \<Rightarrow> HttpResponse \<times> HttpApi \<times> 'w" where
  "handle_wheel sink api body w =
     (let dy = (case json_long body ''dy'' of None \<Rightarrow> 0 | Some n \<Rightarrow> n);
          dx = (case json_long body ''dx'' of None \<Rightarrow> 0 | Some n \<Rightarrow> n)
      in if dy = 0 \<and> dx = 0 then (error_response 400 ''dx,dy'', api, w)
         else
           let (router, message) = input_router_absolute_pointer (ha_router api) 0 0 (wheel_flags dy dx) True;
               api1 = api\<lparr>ha_router := router\<rparr>;
               (sent, w1) = send_router_message sink api1 message w
           in (ok_response sent, api1, w1))"

definition handle_release :: "'w control_sink \<Rightarrow> HttpApi \<Rightarrow> 'w \<Rightarrow> HttpResponse \<times> HttpApi \<times> 'w" where
  "handle_release sink api w =
     (let (router, message) = input_router_release_all (ha_router api);
          api1 = note_input_busy (api\<lparr>ha_router := router\<rparr>);
          (sent, w1) = send_router_message sink api1 message w
      in (ok_response sent, api1, w1))"

definition handle_snapshot ::
  "(AVFrame \<Rightarrow> byte list option) \<Rightarrow> (nat \<Rightarrow> bool) \<Rightarrow> bool \<Rightarrow> HttpApi \<Rightarrow> HttpResponse \<times> HttpApi" where
  "handle_snapshot encoder alloc cloned api =
     (case get_snapshot encoder alloc cloned api of
        (None, api1) \<Rightarrow> (error_response 503 ''no-frame'', api1)
      | (Some (jpeg, frame_id), api1) \<Rightarrow>
          (\<lparr>hr_status = 200, hr_reason = ''OK'', hr_type = ''image/jpeg'', hr_body = jpeg,
            hr_extra = snprintf 96 (''X-Frame-Id: '' @ decimal (unat frame_id) @ CRLF)\<rparr>, api1))"

definition handle_status :: "HttpApi \<Rightarrow> HttpResponse" where
  "handle_status api =
     (let width = (if ha_frame_width api \<noteq> 0 then ha_frame_width api else hc_width (ha_config api));
          height = (if ha_frame_height api \<noteq> 0 then ha_frame_height api else hc_height (ha_config api));
          json = ''{\"ok\":true,\"frame_id\":'' @ decimal (unat (ha_frame_id api)) @
                 '',\"width\":'' @ decimal (unat width) @ '',\"height\":'' @ decimal (unat height) @
                 '',\"has_frame\":'' @ json_flag (ha_frame api \<noteq> None) @
                 '',\"desktop_width\":'' @ decimal (unat (hc_width (ha_config api))) @
                 '',\"desktop_height\":'' @ decimal (unat (hc_height (ha_config api))) @ ''}''
      in text_response 200 ''application/json'' (snprintf 256 json))"

section \<open>One connection\<close>

text \<open>
  What the handlers use besides the request: the control callback, the encoder, the allocator, the
  answer of \<open>av_frame_clone\<close> and the bytes of \<open>VIEWER_PAGE\<close>.
\<close>

record 'w HttpEnv =
  he_sink :: "'w control_sink"
  he_encoder :: "AVFrame \<Rightarrow> byte list option"
  he_alloc :: "nat \<Rightarrow> bool"
  he_cloned :: bool
  he_viewer_page :: "byte list"

text \<open>\<open>sscanf\<close> with \<open>%7s %255s\<close>: two words, cut after 7 and 255 characters.\<close>

definition scan_word :: "nat \<Rightarrow> string \<Rightarrow> string \<times> string" where
  "scan_word width s =
     (let t = dropWhile is_space s; word = take width (takeWhile (\<lambda>c. \<not> is_space c) t)
      in (word, drop (length word) t))"

definition request_line :: "string \<Rightarrow> (string \<times> string) option" where
  "request_line request =
     (let (verb, rest) = scan_word 7 request; (path, rest2) = scan_word 255 rest
      in if verb = [] \<or> path = [] then None else Some (verb, takeWhile (\<lambda>c. c \<noteq> CHR ''?'') path))"

definition handle_request ::
  "'w HttpEnv \<Rightarrow> HttpApi \<Rightarrow> string \<Rightarrow> string \<Rightarrow> 'w \<Rightarrow> HttpResponse \<times> HttpApi \<times> 'w" where
  "handle_request env api request body w =
     (case request_line request of
        None \<Rightarrow> (error_response 400 ''request'', api, w)
      | Some (verb, path) \<Rightarrow>
          if verb = ''OPTIONS'' then
            (\<lparr>hr_status = 204, hr_reason = ''No Content'', hr_type = ''text/plain'', hr_body = [], hr_extra = []\<rparr>, api, w)
          else if verb = ''GET'' \<and> (path = ''/'' \<or> path = ''/index.html'') then
            (\<lparr>hr_status = 200, hr_reason = ''OK'', hr_type = ''text/html; charset=utf-8'',
              hr_body = he_viewer_page env, hr_extra = []\<rparr>, api, w)
          else if verb = ''GET'' \<and> path = ''/snapshot.jpg'' then
            (case handle_snapshot (he_encoder env) (he_alloc env) (he_cloned env) api of (r, api1) \<Rightarrow> (r, api1, w))
          else if verb = ''GET'' \<and> path = ''/api/status'' then (handle_status api, api, w)
          else if verb \<noteq> ''POST'' then (error_response 404 ''not-found'', api, w)
          else if path = ''/api/key'' then handle_key (he_sink env) api body w
          else if path = ''/api/text'' then handle_text (he_sink env) api body w
          else if path = ''/api/mouse'' then handle_mouse (he_sink env) api body w
          else if path = ''/api/wheel'' then handle_wheel (he_sink env) api body w
          else if path = ''/api/release'' then handle_release (he_sink env) api w
          else (error_response 404 ''not-found'', api, w))"

text \<open>
  The first loop of \<open>serve_client\<close>: the bytes received so far. \<open>None\<close> is the early return; the socket
  has a receive timeout, so running out of events is an error as well.
\<close>

function receive_header :: "recv_event list \<Rightarrow> byte list \<Rightarrow> (byte list \<times> recv_event list) option" where
  "receive_header evs request =
     (if length request < HTTP_API_MAX_HEADER then
        (case sock_recv (HTTP_API_MAX_HEADER - length request) evs of
           (RecvErr e, evs1) \<Rightarrow> if e = EINTR then receive_header evs1 request else None
         | (Got bs, evs1) \<Rightarrow>
             if bs = [] then None
             else if strstr (cstring (request @ bs)) CRLF2 \<noteq> None then Some (request @ bs, evs1)
             else receive_header evs1 (request @ bs))
      else Some (request, evs))"
  by pat_completeness auto
termination
  by (relation "measure (\<lambda>(evs, request). events_size evs)") (auto dest: sock_recv_size)

declare receive_header.simps [simp del]

function receive_body :: "recv_event list \<Rightarrow> byte list \<Rightarrow> nat \<Rightarrow> byte list option" where
  "receive_body evs filled content_length =
     (if length filled < content_length then
        (case sock_recv (content_length - length filled) evs of
           (RecvErr e, evs1) \<Rightarrow> if e = EINTR then receive_body evs1 filled content_length else None
         | (Got bs, evs1) \<Rightarrow> if bs = [] then None else receive_body evs1 (filled @ bs) content_length)
      else Some filled)"
  by pat_completeness auto
termination
  by (relation "measure (\<lambda>(evs, filled, content_length). events_size evs)") (auto dest: sock_recv_size)

declare receive_body.simps [simp del]

text \<open>The request text in front of the empty line, the declared length and the bytes already here.\<close>

definition split_request :: "byte list \<Rightarrow> (string \<times> nat \<times> byte list) option" where
  "split_request request =
     (let text = cstring request in
      case strstr text CRLF2 of
        None \<Rightarrow> None
      | Some header_end \<Rightarrow>
          let len = length text - length header_end;
              content_length = (case header_value text ''Content-Length'' of None \<Rightarrow> 0 | Some v \<Rightarrow> strtoul v)
          in Some (take len text, content_length, drop (len + 4) request))"

text \<open>\<open>serve_client\<close>: the response it sends, if any.\<close>

definition serve_request ::
  "'w HttpEnv \<Rightarrow> HttpApi \<Rightarrow> recv_event list \<Rightarrow> 'w \<Rightarrow> HttpResponse option \<times> HttpApi \<times> 'w" where
  "serve_request env api evs w =
     (case receive_header evs [] of
        None \<Rightarrow> (None, api, w)
      | Some (request, evs1) \<Rightarrow>
          (case split_request request of
             None \<Rightarrow> (None, api, w)
           | Some (head, content_length, here) \<Rightarrow>
               if content_length > HTTP_API_MAX_BODY then (Some (error_response 413 ''body''), api, w)
               else if \<not> he_alloc env (content_length + 1) then (None, api, w)
               else (case receive_body evs1 (take content_length here) content_length of
                       None \<Rightarrow> (None, api, w)
                     | Some body \<Rightarrow>
                         (case handle_request env api head (cstring body) w of
                            (r, api1, w1) \<Rightarrow> (Some r, api1, w1)))))"

definition serve_client ::
  "'w HttpEnv \<Rightarrow> HttpApi \<Rightarrow> recv_event list \<Rightarrow> write_answer list \<Rightarrow> 'w \<Rightarrow> byte list \<times> HttpApi \<times> 'w" where
  "serve_client env api evs answers w =
     (case serve_request env api evs w of
        (None, api1, w1) \<Rightarrow> ([], api1, w1)
      | (Some r, api1, w1) \<Rightarrow> (snd (send_response answers r), api1, w1))"

text \<open>
  The accept loop: what each \<open>accept\<close> returned, with the traffic of an accepted connection. The list
  ends where the thread waits for the next connection; \<open>http_api_stop\<close> makes that call fail.
\<close>

datatype accept_answer = Accepted "recv_event list" "write_answer list" | AcceptErr errno

fun http_thread :: "'w HttpEnv \<Rightarrow> HttpApi \<Rightarrow> accept_answer list \<Rightarrow> 'w \<Rightarrow> byte list list \<times> HttpApi \<times> 'w" where
  "http_thread env api [] w = ([], api, w)"
| "http_thread env api (Accepted evs answers # rest) w =
     (if \<not> ha_running api then ([], api, w)
      else case serve_client env api evs answers w of
             (out, api1, w1) \<Rightarrow> (case http_thread env api1 rest w1 of (outs, r) \<Rightarrow> (out # outs, r)))"
| "http_thread env api (AcceptErr e # rest) w =
     (if \<not> ha_running api then ([], api, w)
      else if e = EINTR \<or> e = EAGAIN \<or> e = EWOULDBLOCK then http_thread env api rest w
      else ([], api, w))"

section \<open>Life of the interface\<close>

text \<open>The answers of \<open>calloc\<close>, \<open>pthread_mutex_init\<close> and \<open>avcodec_find_encoder\<close> are arguments.\<close>

definition http_api_create :: "HttpApiConfig option \<Rightarrow> bool \<Rightarrow> bool \<Rightarrow> bool \<Rightarrow> HttpApi option" where
  "http_api_create config allocated lock_ready codec =
     (case config of
        None \<Rightarrow> None
      | Some c \<Rightarrow>
          if hc_bind_address c = None \<or> hc_port c = 0 \<or> hc_width c = 0 \<or> hc_height c = 0 then None
          else if \<not> allocated then None
          else
            let c1 = (if hc_jpeg_quality c < 2 \<or> hc_jpeg_quality c > 31 then c\<lparr>hc_jpeg_quality := 8\<rparr> else c)
            in if \<not> lock_ready \<or> \<not> codec then None
               else Some \<lparr>ha_config = c1, ha_listener = -1, ha_running = False, ha_input_busy = False,
                          ha_started = False, ha_frame = None, ha_jpeg = None, ha_frame_id = 0,
                          ha_jpeg_frame_id = 0, ha_frame_width = 0, ha_frame_height = 0,
                          ha_router = input_router_init (hc_width c) (hc_height c) (hc_swap_alt_command c)\<rparr>)"

text \<open>
  \<open>fd\<close> is what \<open>socket\<close> returned, \<open>bound\<close> whether the address, \<open>bind\<close> and \<open>listen\<close> were accepted,
  \<open>thread\<close> whether \<open>pthread_create\<close> succeeded.
\<close>

definition http_api_start ::
  "(bool \<Rightarrow> 'w \<Rightarrow> 'w) \<Rightarrow> HttpApi \<Rightarrow> int \<Rightarrow> bool \<Rightarrow> bool \<Rightarrow> 'w \<Rightarrow> bool \<times> HttpApi \<times> 'w" where
  "http_api_start set_stream api fd bound thread w =
     (if ha_started api then (False, api, w)
      else if fd < 0 then (False, api, w)
      else if \<not> bound then (False, api, w)
      else if \<not> thread then (False, api\<lparr>ha_running := False, ha_listener := -1\<rparr>, w)
      else (True, api\<lparr>ha_listener := fd, ha_running := True, ha_started := True\<rparr>,
            if hc_set_stream (ha_config api) then set_stream True w else w))"

definition http_api_input_idle :: "HttpApi option \<Rightarrow> bool" where
  "http_api_input_idle api = (case api of None \<Rightarrow> True | Some a \<Rightarrow> \<not> ha_input_busy a)"

definition http_api_set_desktop :: "HttpApi \<Rightarrow> u16 \<Rightarrow> u16 \<Rightarrow> HttpApi" where
  "http_api_set_desktop api width height =
     (if width = 0 \<or> height = 0 then api
      else api\<lparr>ha_config := (ha_config api)\<lparr>hc_width := width, hc_height := height\<rparr>,
               ha_router := (ha_router api)\<lparr>ir_width := width, ir_height := height\<rparr>\<rparr>)"

definition http_api_stop :: "'w control_sink \<Rightarrow> HttpApi \<Rightarrow> 'w \<Rightarrow> HttpApi \<times> 'w" where
  "http_api_stop sink api w =
     (if \<not> ha_started api then (api, w)
      else
        let api1 = api\<lparr>ha_running := False,
                        ha_listener := (if ha_listener api \<ge> 0 then -1 else ha_listener api), ha_started := False\<rparr>;
            (router, message) = input_router_release_all (ha_router api1);
            api2 = api1\<lparr>ha_router := router\<rparr>;
            (_, w1) = send_router_message sink api2 message w
        in (api2, w1))"

end
