(* ===== verification/HttpRequests.thy ===== *)
theory HttpRequests
  imports HttpApi
begin

text \<open>
  What the HTTP interface does with the requests it gets: a request is understood the same way
  however the network cuts it into pieces, and the JSON of the viewer page reaches the input router
  unchanged.
\<close>

section \<open>Searching texts\<close>

lemma match_iff: "take (length n) s = n \<longleftrightarrow> (\<exists>r. s = n @ r)"
proof
  assume "take (length n) s = n"
  then have "s = n @ drop (length n) s" by (metis append_take_drop_id)
  then show "\<exists>r. s = n @ r" ..
qed auto

lemma strstr_suffix: "strstr s n = Some t \<Longrightarrow> \<exists>p r. s = p @ t \<and> t = n @ r"
proof (induction s)
  case (Cons c cs)
  show ?case
  proof (cases "take (length n) (c # cs) = n")
    case True
    with Cons.prems show ?thesis unfolding match_iff by auto
  next
    case False
    with Cons obtain p r where "cs = p @ t" "t = n @ r" by auto
    then show ?thesis by (intro exI [of _ "c # p"] exI [of _ r]) simp
  qed
qed (auto split: if_splits)

lemma strstr_length: "strstr s n = Some t \<Longrightarrow> length n \<le> length t \<and> length t \<le> length s"
  by (auto dest: strstr_suffix)

lemma strstr_stable: "strstr s n = Some t \<Longrightarrow> strstr (s @ u) n = Some (t @ u)"
proof (induction s)
  case Nil
  then show ?case by (cases u) (auto split: if_splits)
next
  case (Cons c cs)
  show ?case
  proof (cases "take (length n) (c # cs) = n")
    case True
    then obtain r where "c # cs = n @ r" unfolding match_iff by blast
    then have "c # (cs @ u) = n @ (r @ u)" by (metis append_Cons append_assoc)
    then have "take (length n) (c # (cs @ u)) = n" unfolding match_iff by blast
    moreover have "t = c # cs" using True Cons.prems by simp
    ultimately show ?thesis by simp
  next
    case False
    with Cons.prems have t: "strstr cs n = Some t" by simp
    then have "length n \<le> length cs" using strstr_length by fastforce
    then have "take (length n) ((c # cs) @ u) = take (length n) (c # cs)"
      by (cases "length n") simp_all
    with False Cons t show ?thesis by simp
  qed
qed

lemma strstr_short: "length s < length n \<Longrightarrow> strstr s n = None"
  by (cases "strstr s n") (auto dest: strstr_length)

lemma strstr_early:
  assumes "strstr s n = Some t" and "n \<noteq> []" and "k < length s - length t + length n"
  shows "strstr (take k s) n = None"
proof (rule ccontr)
  assume "strstr (take k s) n \<noteq> None"
  then obtain t' where t': "strstr (take k s) n = Some t'" by auto
  then have "strstr s n = Some (t' @ drop k s)"
    using strstr_stable [OF t', of "drop k s"] by simp
  with assms(1) have "length t = length t' + (length s - k)" by auto
  with strstr_length [OF t'] assms(3) strstr_length [OF assms(1)] show False by auto
qed

lemma strstr_skip: "c \<notin> set p \<Longrightarrow> strstr (p @ s) (c # n) = strstr s (c # n)"
  by (induction p) auto

lemma strstr_absent: "c \<in> set n \<Longrightarrow> c \<notin> set s \<Longrightarrow> strstr s n = None"
  by (cases "strstr s n") (auto dest: strstr_suffix)

lemma strstr_found: "\<exists>t. strstr (p @ n @ s) n = Some t \<and> length (n @ s) \<le> length t"
proof (induction p)
  case Nil
  have "take (length n) (n @ s) = n" by simp
  then show ?case by (cases "n @ s") (auto simp del: take_append)
next
  case (Cons c p)
  then show ?case by auto
qed

section \<open>Texts and bytes\<close>

lemma unat_of_char [simp]: "unat (of_char c :: byte) = of_char c"
proof -
  have "(of_char c :: nat) < 2 ^ 8" by simp
  then have "unat (of_nat (of_char c) :: byte) = of_char c" by (simp add: unat_of_nat_small)
  then show ?thesis by (simp only: of_nat_of_char)
qed

lemma cstring_text:
  assumes "CHR 0x00 \<notin> set s"
  shows "cstring (text_bytes s @ bs) = s @ cstring bs"
proof -
  have "(of_char c :: byte) \<noteq> 0" if "c \<in> set s" for c
  proof
    assume "(of_char c :: byte) = 0"
    then have "unat (of_char c :: byte) = 0" by simp
    then have "(of_char c :: nat) = 0" by simp
    then have "(of_char c :: nat) = of_char (CHR 0x00)" by simp
    then have "c = CHR 0x00" by (simp only: of_char_eq_iff)
    with that assms show False by simp
  qed
  then have "takeWhile (\<lambda>b. b \<noteq> 0) (text_bytes s @ bs) = text_bytes s @ takeWhile (\<lambda>b. b \<noteq> 0) bs"
    by (subst takeWhile_append2) (auto simp: text_bytes_def)
  then show ?thesis by (simp add: cstring_def text_bytes_def o_def)
qed

lemma text_bytes_append [simp]: "text_bytes (a @ b) = text_bytes a @ text_bytes b"
  by (simp add: text_bytes_def)

lemma length_text_bytes [simp]: "length (text_bytes s) = length s"
  by (simp add: text_bytes_def)

lemma cstring_text_only: "CHR 0x00 \<notin> set s \<Longrightarrow> cstring (text_bytes s) = s"
  using cstring_text [of s "[]"] by (simp add: cstring_def)

lemma cstring_take_text: "CHR 0x00 \<notin> set s \<Longrightarrow> cstring (take k (text_bytes s)) = take k s"
  using cstring_text_only [of "take k s"] by (auto simp: text_bytes_def take_map dest: in_set_takeD)

section \<open>The header\<close>

text \<open>A request head: free of zeros, and its first empty line is the one that ends it.\<close>

definition head_ok :: "string \<Rightarrow> bool" where
  "head_ok head \<longleftrightarrow> CHR 0x00 \<notin> set head \<and> strstr (head @ CRLF2) CRLF2 = Some CRLF2 \<and>
     length head + 4 \<le> HTTP_API_MAX_HEADER"

lemma length_CRLF2 [simp]: "length CRLF2 = 4" "CRLF2 \<noteq> []" "length CRLF = 2"
  by (simp_all add: CRLF2_def CRLF_def)

lemma head_found:
  assumes "head_ok head"
  shows "cstring (text_bytes (head @ CRLF2) @ here) = head @ CRLF2 @ cstring here"
    and "strstr (cstring (text_bytes (head @ CRLF2) @ here)) CRLF2 = Some (CRLF2 @ cstring here)"
proof -
  have "CHR 0x00 \<notin> set (head @ CRLF2)" using assms by (simp add: head_ok_def CRLF2_def)
  from cstring_text [OF this, of here]
  show c: "cstring (text_bytes (head @ CRLF2) @ here) = head @ CRLF2 @ cstring here" by simp
  show "strstr (cstring (text_bytes (head @ CRLF2) @ here)) CRLF2 = Some (CRLF2 @ cstring here)"
    using strstr_stable [of "head @ CRLF2" CRLF2 CRLF2 "cstring here"] assms unfolding c by (simp add: head_ok_def)
qed

lemma head_not_yet:
  assumes "head_ok head" and "k < length head + 4"
  shows "strstr (cstring (take k (text_bytes (head @ CRLF2)))) CRLF2 = None"
proof -
  have "CHR 0x00 \<notin> set (head @ CRLF2)" using assms by (simp add: head_ok_def CRLF2_def)
  then have "cstring (take k (text_bytes (head @ CRLF2))) = take k (head @ CRLF2)" by (rule cstring_take_text)
  moreover have "strstr (take k (head @ CRLF2)) CRLF2 = None"
    using assms by (intro strstr_early [of _ _ CRLF2]) (simp_all add: head_ok_def)
  ultimately show ?thesis by simp
qed

lemma receive_header_steady:
  assumes "head_ok head" and "list_all steady_event evs"
    and "request @ bytes_of evs = text_bytes (head @ CRLF2) @ rest" and "length request < length head + 4"
  shows "\<exists>here evs'. receive_header evs request = Some (text_bytes (head @ CRLF2) @ here, evs') \<and>
    here @ bytes_of evs' = rest \<and> list_all steady_event evs'"
  using assms(2-)
proof (induction "events_size evs" arbitrary: evs request rule: less_induct)
  case less
  have small: "length request < HTTP_API_MAX_HEADER" using assms(1) less.prems(3) by (simp add: head_ok_def)
  have "bytes_of evs \<noteq> []" using less.prems(2,3) by (auto dest: arg_cong [where f = length])
  then have ne: "evs \<noteq> []" by auto
  obtain a evs1 where r: "sock_recv (HTTP_API_MAX_HEADER - length request) evs = (a, evs1)" by force
  with sock_recv_steady [OF less.prems(1) r ne] small have st: "list_all steady_event evs1"
    and a: "a = RecvErr EINTR \<or> (\<exists>bs. a = Got bs \<and> bs \<noteq> [])" by auto
  from a show ?case
  proof
    assume a: "a = RecvErr EINTR"
    have "events_size evs1 < events_size evs" using sock_recv_EINTR_size r a by blast
    from less.hyps [OF this st _ less.prems(3)] less.prems(2) sock_recv_bytes(2) [of _ evs EINTR evs1] r a
    show ?thesis using small by (subst receive_header.simps) auto
  next
    assume "\<exists>bs. a = Got bs \<and> bs \<noteq> []"
    then obtain bs where a: "a = Got bs" "bs \<noteq> []" by blast
    have all: "(request @ bs) @ bytes_of evs1 = text_bytes (head @ CRLF2) @ rest"
      using less.prems(2) sock_recv_bytes(1) [of _ evs bs evs1] r a by simp
    show ?thesis
    proof (cases "length (request @ bs) < length head + 4")
      case True
      then have "request @ bs = take (length (request @ bs)) (text_bytes (head @ CRLF2))"
        using arg_cong [OF all, of "take (length (request @ bs))"] by (simp del: text_bytes_append)
      then have "strstr (cstring (request @ bs)) CRLF2 = None"
        using head_not_yet [OF assms(1) True] by metis
      moreover have "events_size evs1 < events_size evs" using sock_recv_Got_size r a by blast
      ultimately show ?thesis
        using less.hyps [of evs1 "request @ bs"] st all True small r a by (subst receive_header.simps) auto
    next
      case False
      define here where "here = drop (length head + 4) (request @ bs)"
      have "take (length head + 4) (request @ bs) = text_bytes (head @ CRLF2)"
        using arg_cong [OF all, of "take (length head + 4)"] False by simp
      then have rb: "request @ bs = text_bytes (head @ CRLF2) @ here"
        unfolding here_def by (metis append_take_drop_id)
      with all have "here @ bytes_of evs1 = rest" by simp
      moreover have "receive_header evs request = Some (request @ bs, evs1)"
        using small r a head_found(2) [OF assms(1), of here] rb by (subst receive_header.simps) simp
      ultimately show ?thesis using rb st by auto
    qed
  qed
qed

text \<open>The header fields do not depend on what follows the empty line.\<close>

definition field_here :: "string \<Rightarrow> nat \<Rightarrow> string \<Rightarrow> bool" where
  "field_here line len name \<longleftrightarrow> len > length name + 1 \<and> starts_with_nocase line name \<and> line ! length name = CHR '':''"

lemma header_value_step:
  assumes "strstr line CRLF = Some at_end" and "line \<noteq> []"
  shows "header_value line name =
    (if length line = length at_end then None
     else if field_here line (length line - length at_end) name
     then Some (dropWhile blank (drop (length name + 1) line)) else header_value (drop 2 at_end) name)"
  using assms strstr_length [OF assms(1)] by (subst header_value.simps) (auto simp: Let_def field_here_def)

lemma field_here_append: "len \<le> length s \<Longrightarrow> field_here (s @ u) len name = field_here s len name"
  by (auto simp: field_here_def starts_with_nocase_def nth_append)

lemma dropWhile_blank_append:
  "CHR 0x0d \<in> set s \<Longrightarrow> dropWhile blank (s @ u) = dropWhile blank s @ u"
  by (induction s) (auto simp: blank_def)

lemma header_value_end: "header_value (CRLF @ u) name = None"
  by (subst header_value.simps) (simp add: CRLF_def)

lemma header_value_stable:
  "header_value (l @ CRLF2 @ u) name = map_option (\<lambda>v. v @ u) (header_value (l @ CRLF2) name)"
proof (induction "length l" arbitrary: l rule: less_induct)
  case less
  let ?s = "l @ CRLF2"
  have two: "CRLF2 = CRLF @ CRLF" by (simp add: CRLF2_def CRLF_def)
  obtain t where t: "strstr ?s CRLF = Some t" and "length CRLF2 \<le> length t"
    using strstr_found [of l CRLF CRLF] unfolding two by auto
  then have t4: "4 \<le> length t" by simp
  have tu: "strstr (?s @ u) CRLF = Some (t @ u)" using t by (rule strstr_stable)
  obtain p r where s: "?s = p @ t" and r: "t = CRLF @ r" using strstr_suffix [OF t] by blast
  have sne: "?s \<noteq> []" "?s @ u \<noteq> []" by (simp_all add: CRLF2_def)
  have len: "length (?s @ u) - length (t @ u) = length ?s - length t" by simp
  have field: "field_here (?s @ u) (length ?s - length t) name = field_here ?s (length ?s - length t) name"
    by (rule field_here_append) simp
  note step = header_value_step [OF t sne(1), of name]
    and stepu = header_value_step [OF tu sne(2), of name, unfolded len field]
  show ?case
  proof (cases "length ?s = length t")
    case True
    then show ?thesis using step stepu by simp
  next
    case False
    show ?thesis
    proof (cases "field_here ?s (length ?s - length t) name")
      case True
      then have n: "length name + 1 < length p"
        using arg_cong [OF s, of length] by (simp add: field_here_def)
      have here: "drop (length name + 1) ?s = drop (length name + 1) p @ t" using n unfolding s by simp
      then have "CHR 0x0d \<in> set (drop (length name + 1) ?s)" using r by (simp add: CRLF_def)
      then have "dropWhile blank (drop (length name + 1) ?s @ u) = dropWhile blank (drop (length name + 1) ?s) @ u"
        by (rule dropWhile_blank_append)
      moreover have "drop (length name + 1) (?s @ u) = drop (length name + 1) ?s @ u" using n unfolding s by simp
      moreover have "header_value ?s name = Some (dropWhile blank (drop (length name + 1) ?s))"
        using step True False by (simp only: if_False if_True)
      moreover have "header_value (?s @ u) name = Some (dropWhile blank (drop (length name + 1) (?s @ u)))"
        using stepu True False by (simp only: if_False if_True length_append add_right_cancel)
      ultimately show ?thesis by simp
    next
      case no: False
      have "header_value ?s name = header_value (drop 2 t) name"
        using step no False by (simp only: if_False)
      moreover have "header_value (?s @ u) name = header_value (drop 2 (t @ u)) name"
        using stepu no False by (simp only: if_False length_append add_right_cancel)
      ultimately have rec: "header_value (?s @ u) name = header_value (r @ u) name" "header_value ?s name = header_value r name"
        using r by (simp_all add: CRLF_def)
      have "r = CRLF \<or> (\<exists>l'. r = l' @ CRLF2 \<and> length l' < length l)"
      proof (cases "length r < 4")
        case True
        then have "length t < 6" using r by (simp add: CRLF_def)
        then have "length t = 4 \<or> length t = 5" using t4 by auto
        moreover have "length t \<noteq> 5"
        proof
          assume "length t = 5"
          then have "length p + 1 = length l" using arg_cong [OF s, of length] by simp
          then have "t = drop (length p) l @ CRLF2" using arg_cong [OF s, of "drop (length p)"] by simp
          moreover from \<open>length p + 1 = length l\<close> obtain x where "drop (length p) l = [x]"
            by (metis Cons_nth_drop_Suc drop_all le_refl less_add_one Suc_eq_plus1)
          ultimately show False using r by (simp add: CRLF_def CRLF2_def)
        qed
        ultimately have "length t = 4" by blast
        then have "length p = length l" using arg_cong [OF s, of length] by simp
        then have "t = CRLF2" using s by simp
        then show ?thesis using r by (simp add: CRLF_def CRLF2_def)
      next
        case False
        define k where "k = length p + 2"
        have "k \<le> length l" using False arg_cong [OF s, of length] r by (simp add: k_def CRLF_def)
        moreover have "r = drop k ?s" using s r by (simp add: k_def CRLF_def)
        ultimately have "r = drop k l @ CRLF2" by simp
        then show ?thesis using \<open>k \<le> length l\<close> by (intro disjI2 exI [of _ "drop k l"]) (simp add: k_def)
      qed
      then show ?thesis
        using rec less [of _] header_value_end [of u name] header_value_end [of "[]" name] by auto
    qed
  qed
qed

section \<open>Numbers\<close>

lemma digit_no_space: "is_digit c \<Longrightarrow> \<not> is_space c \<and> c \<noteq> CHR ''-'' \<and> c \<noteq> CHR ''+'' \<and> c \<noteq> CHR 0x22 \<and> c \<noteq> CHR 0x27 \<and> c \<noteq> CHR 0x00"
  by (auto simp: is_digit_def is_space_def)

lemma signed_digits_decimal:
  assumes "\<not> is_digit c"
  shows "signed_digits (decimal n @ c # v) = (False, decimal n)"
proof -
  obtain d ds where d: "decimal n = d # ds" using decimal_text [of n] by (cases "decimal n") auto
  have all: "list_all is_digit (decimal n)" using decimal_text [of n] by blast
  then have "\<not> is_space d" "d \<noteq> CHR ''-''" "d \<noteq> CHR ''+''" using d digit_no_space by auto
  moreover have "takeWhile is_digit (decimal n @ c # v) = decimal n"
    using all assms by (simp add: takeWhile_append2 list_all_iff)
  ultimately show ?thesis using d by (simp add: signed_digits_def)
qed

lemma strtoul_decimal: "n < 2 ^ 64 \<Longrightarrow> \<not> is_digit c \<Longrightarrow> strtoul (decimal n @ c # v) = n"
  using decimal_text [of n] by (simp add: strtoul_def signed_digits_decimal)

lemma strtol_decimal: "n < 2 ^ 63 \<Longrightarrow> \<not> is_digit c \<Longrightarrow> strtol (decimal n @ c # v) = Some (int n)"
  using decimal_text [of n] by (simp add: strtol_def signed_digits_decimal)

section \<open>A whole request\<close>

lemma receive_body_steady:
  assumes "list_all steady_event evs" and "filled @ bytes_of evs = body @ later" and "length filled \<le> length body"
  shows "receive_body evs filled (length body) = Some body"
  using assms
proof (induction "events_size evs" arbitrary: evs filled rule: less_induct)
  case less
  show ?case
  proof (cases "length filled < length body")
    case False
    then have "filled = body" using less.prems by simp
    then show ?thesis by (subst receive_body.simps) simp
  next
    case True
    have "bytes_of evs \<noteq> []" using less.prems(2) True by (auto dest: arg_cong [where f = length])
    then have ne: "evs \<noteq> []" by auto
    obtain a evs1 where r: "sock_recv (length body - length filled) evs = (a, evs1)" by force
    from sock_recv_steady [OF less.prems(1) r ne] True have st: "list_all steady_event evs1"
      and a: "a = RecvErr EINTR \<or> (\<exists>bs. a = Got bs \<and> bs \<noteq> [])" by auto
    from a show ?thesis
    proof
      assume a: "a = RecvErr EINTR"
      have "receive_body evs1 filled (length body) = Some body"
        using less.hyps [of evs1 filled] sock_recv_EINTR_size [of _ evs evs1] sock_recv_bytes(2) [of _ evs EINTR evs1]
          r a st less.prems by auto
      then show ?thesis using r a True by (subst receive_body.simps) simp
    next
      assume "\<exists>bs. a = Got bs \<and> bs \<noteq> []"
      then obtain bs where a: "a = Got bs" "bs \<noteq> []" by blast
      have "length bs \<le> length body - length filled" using sock_recv_Got_length r a by blast
      then have "receive_body evs1 (filled @ bs) (length body) = Some body"
        using less.hyps [of evs1 "filled @ bs"] sock_recv_Got_size [of _ evs bs evs1] sock_recv_bytes(1) [of _ evs bs evs1]
          r a st less.prems True by auto
      then show ?thesis using r a True by (subst receive_body.simps) simp
    qed
  qed
qed

text \<open>A head that declares a body of \<open>n\<close> bytes.\<close>

definition declares :: "string \<Rightarrow> nat \<Rightarrow> bool" where
  "declares head n \<longleftrightarrow> (\<exists>v. header_value (head @ CRLF2) ''Content-Length'' = Some (decimal n @ CHR 0x0d # v))"

lemma request_served:
  assumes "head_ok head" "declares head (length body)" "length body \<le> HTTP_API_MAX_BODY"
    and "list_all steady_event evs" "bytes_of evs = text_bytes (head @ CRLF2) @ body @ later"
    and "he_alloc env (length body + 1)"
  shows "serve_request env api evs w =
    (case handle_request env api head (cstring body) w of (r, api1, w1) \<Rightarrow> (Some r, api1, w1))"
proof -
  have "length ([] :: byte list) < length head + 4" by simp
  then obtain here evs' where r: "receive_header evs [] = Some (text_bytes (head @ CRLF2) @ here, evs')"
    and here: "here @ bytes_of evs' = body @ later" and st: "list_all steady_event evs'"
    using receive_header_steady [OF assms(1,4), of "[]" "body @ later"] assms(5) by auto
  obtain v where v: "header_value (head @ CRLF2) ''Content-Length'' = Some (decimal (length body) @ CHR 0x0d # v)"
    using assms(2) by (auto simp: declares_def)
  have "\<not> is_digit (CHR 0x0d)" by (simp add: is_digit_def)
  then have "strtoul (decimal (length body) @ CHR 0x0d # v @ cstring here) = length body"
    using assms(3) by (intro strtoul_decimal) (simp_all add: HTTP_API_MAX_BODY_def)
  moreover have "header_value (head @ CRLF2 @ cstring here) ''Content-Length'' =
      Some (decimal (length body) @ CHR 0x0d # v @ cstring here)"
    using header_value_stable [of head "cstring here" "''Content-Length''"] v by simp
  ultimately have split: "split_request (text_bytes (head @ CRLF2) @ here) = Some (head, length body, here)"
    using head_found [OF assms(1), of here] by (simp add: split_request_def Let_def)
  have "take (length body) here @ (drop (length body) here @ bytes_of evs') = body @ later"
    using here by (metis append.assoc append_take_drop_id)
  have "receive_body evs' (take (length body) here) (length body) = Some body"
  proof (cases "length here \<le> length body")
    case True
    then show ?thesis using receive_body_steady [OF st, of here body later] here by simp
  next
    case False
    then have "take (length body) here = body"
      using arg_cong [OF here, of "take (length body)"] by simp
    then show ?thesis by (subst receive_body.simps) simp
  qed
  with r split assms(3,6) show ?thesis by (simp add: serve_request_def)
qed

section \<open>The JSON of the viewer page\<close>

definition key_json :: "nat \<Rightarrow> bool \<Rightarrow> bool \<Rightarrow> string" where
  "key_json code extended release =
     ''{\"code\":'' @ decimal code @ '',\"extended\":'' @ json_flag extended @
     '',\"release\":'' @ json_flag release @ ''}''"

lemma decimal_chars:
  "CHR 0x22 \<notin> set (decimal n)" "CHR 0x27 \<notin> set (decimal n)" "CHR 0x00 \<notin> set (decimal n)"
  using decimal_text [of n] digit_no_space by (auto simp: list_all_iff)

lemma flag_chars: "CHR 0x27 \<notin> set (json_flag b)" "CHR 0x22 \<notin> set (json_flag b)" "CHR 0x00 \<notin> set (json_flag b)"
  by (simp_all add: json_flag_def)

lemma key_json_single: "CHR 0x27 \<notin> set (key_json code extended release)"
  "CHR 0x00 \<notin> set (key_json code extended release)"
  using decimal_chars flag_chars by (simp_all add: key_json_def)

lemma json_field_double:
  assumes "CHR 0x27 \<notin> set json" and "length key < 60"
  shows "json_field json key =
    (case strstr json (CHR 0x22 # key @ [CHR 0x22]) of
       None \<Rightarrow> None
     | Some at \<Rightarrow> (case strchr (drop (length key + 2) at) (CHR '':'') of
         None \<Rightarrow> None | Some colon \<Rightarrow> Some (dropWhile blank (drop 1 colon))))"
  using assms strstr_absent [of "CHR 0x27" "CHR 0x27 # key @ [CHR 0x27]" json]
  by (auto simp: json_field_def Let_def split: option.split)

lemma key_json_field:
  "length key < 60 \<Longrightarrow> json_field (key_json code extended release) key =
    (case strstr (key_json code extended release) (CHR 0x22 # key @ [CHR 0x22]) of
       None \<Rightarrow> None
     | Some at \<Rightarrow> (case strchr (drop (length key + 2) at) (CHR '':'') of
         None \<Rightarrow> None | Some colon \<Rightarrow> Some (dropWhile blank (drop 1 colon))))"
  by (rule json_field_double [OF key_json_single(1)])

lemma key_json_code: "json_long (key_json code extended release) ''code'' = Some (int code)" if "code < 256"
proof -
  obtain d ds where d: "decimal code = d # ds" using decimal_text [of code] by (cases "decimal code") auto
  then have "\<not> blank d" using decimal_text [of code] by (auto simp: blank_def is_digit_def)
  then have "json_field (key_json code extended release) ''code'' =
      Some (decimal code @ CHR '','' # ''\"extended\":'' @ json_flag extended @ '',\"release\":'' @ json_flag release @ ''}'')"
    using d by (subst key_json_field) (simp_all add: key_json_def strchr_def)
  moreover have "\<not> is_digit (CHR '','')" by (simp add: is_digit_def)
  ultimately show ?thesis using that by (simp add: json_long_def strtol_decimal)
qed

lemma key_json_tail:
  assumes "key \<in> {''extended'', ''release'', ''up''}"
  shows "strstr (key_json code extended release) (CHR 0x22 # key @ [CHR 0x22]) =
    strstr (''\"extended\":'' @ json_flag extended @ '',\"release\":'' @ json_flag release @ ''}'') (CHR 0x22 # key @ [CHR 0x22])"
proof -
  have "strstr (key_json code extended release) (CHR 0x22 # key @ [CHR 0x22]) =
    strstr (decimal code @ '','' @ ''\"extended\":'' @ json_flag extended @ '',\"release\":'' @ json_flag release @ ''}'') (CHR 0x22 # key @ [CHR 0x22])"
    using assms by (auto simp: key_json_def)
  then show ?thesis using decimal_chars(1) [of code] by (simp add: strstr_skip)
qed

lemma key_json_flags:
  "json_bool (key_json code extended release) ''extended'' False = extended"
  "json_bool (key_json code extended release) ''release'' False = release"
  "json_bool (key_json code extended release) ''up'' False = False"
  using key_json_tail [of "''extended''" code extended release] key_json_tail [of "''release''" code extended release]
    key_json_tail [of "''up''" code extended release]
  by (simp_all add: json_bool_def key_json_field json_flag_def strchr_def blank_def starts_with_def)

section \<open>Key events\<close>

text \<open>
  C35: a key press or release in the viewer page reaches the agent as the right control message. The
  request carries the JSON of the page, with any header lines that declare its length; the bytes may
  arrive in any pieces, with interruptions in between, and anything may follow them. The interface
  hands the callback exactly one message, the one the input router makes of that key, remembers the
  modifiers, and answers with status 200 if the message went out and 503 if not.
\<close>

theorem http_key_event:
  assumes "head_ok head" "request_line head = Some (''POST'', ''/api/key'')"
    and "declares head (length (key_json code extended release))" "code < 256"
    and "list_all steady_event evs"
    and "bytes_of evs = text_bytes (head @ CRLF2 @ key_json code extended release) @ later"
    and "he_alloc env (length (key_json code extended release) + 1)" "hc_send_control (ha_config api)"
    and "input_router_keyboard (ha_router api) (of_nat code) extended release = (router, message)"
    and "he_sink env (irm_type message) (irm_payload message) (irm_length message) w = (sent, w')"
  shows "serve_request env api evs w =
    (Some (ok_response sent), note_input_busy (api\<lparr>ha_router := router\<rparr>), w') \<and>
    hr_status (ok_response sent) = (if sent then 200 else 503)"
proof -
  let ?j = "key_json code extended release"
  have "length ?j \<le> HTTP_API_MAX_BODY"
  proof -
    have "length (decimal code) \<le> 3"
      using assms(4) by (subst decimal.simps; subst decimal.simps; subst decimal.simps; simp)
    then show ?thesis by (simp add: key_json_def json_flag_def HTTP_API_MAX_BODY_def)
  qed
  then have "serve_request env api evs w =
    (case handle_request env api head (cstring (text_bytes ?j)) w of (r, api1, w1) \<Rightarrow> (Some r, api1, w1))"
    using assms by (intro request_served [where later = later]) simp_all
  also have "cstring (text_bytes ?j) = ?j" using key_json_single(2) by (rule cstring_text_only)
  finally have "serve_request env api evs w =
    (case handle_key (he_sink env) api ?j w of (r, api1, w1) \<Rightarrow> (Some r, api1, w1))"
    using assms(2) by (simp add: handle_request_def)
  moreover have "irm_type message \<noteq> 0"
    using assms(9) by (auto simp: input_router_keyboard_def Let_def split: prod.splits)
  ultimately show ?thesis
    using assms key_json_code [OF assms(4), of extended release]
    by (simp add: handle_key_def key_json_flags send_router_message_def note_input_busy_def ok_response_def
        text_response_def)
qed

definition sample_head :: string where
  "sample_head = ''POST /api/key HTTP/1.1'' @ CRLF @ ''Host: kvm'' @ CRLF @ ''content-length: 44''"

definition sample_api :: HttpApi where
  "sample_api = the (http_api_create
     (Some \<lparr>hc_bind_address = Some ''0.0.0.0'', hc_port = 8080, hc_width = 1920, hc_height = 1080, hc_jpeg_quality = 8,
            hc_swap_alt_command = False, hc_send_control = True, hc_set_stream = True\<rparr>) True True True)"

text \<open>The state of the sample callback is the list of messages it was given.\<close>

definition sample_env :: "(byte \<times> byte list) list HttpEnv" where
  "sample_env = \<lparr>he_sink = (\<lambda>type payload len w. (True, w @ [(type, take (unat len) payload)])),
     he_encoder = (\<lambda>frame. None), he_alloc = (\<lambda>n. True), he_cloned = True, he_viewer_page = []\<rparr>"

text \<open>The left shift key goes down; its request arrives in three pieces.\<close>

theorem http_key_event_witness:
  "case serve_request sample_env sample_api
     [Data (text_bytes ''POST /api/k''), Fail EINTR, Data (drop 11 (text_bytes (sample_head @ CRLF2)) @ text_bytes ''{''),
      Data (text_bytes (drop 1 (key_json 42 False False)))] [] of
     (r, api, sent) \<Rightarrow> r = Some (ok_response True) \<and> sent = [(5, [42, 0, 0])] \<and> ha_input_busy api"
proof -
  let ?evs = "[Data (text_bytes ''POST /api/k''), Fail EINTR, Data (drop 11 (text_bytes (sample_head @ CRLF2)) @ text_bytes ''{''),
      Data (text_bytes (drop 1 (key_json 42 False False)))]"
  have digits: "decimal 42 = ''42''" "decimal 44 = ''44''" by code_simp+
  have j: "key_json 42 False False = ''{\"code\":42,\"extended\":false,\"release\":false}''"
    by (simp add: key_json_def digits json_flag_def)
  have head: "head_ok sample_head" by code_simp
  have line: "request_line sample_head = Some (''POST'', ''/api/key'')" by code_simp
  have "header_value (sample_head @ CRLF2) ''Content-Length'' = Some (''44'' @ CHR 0x0d # CHR 0x0a # CRLF)" by code_simp
  moreover have "length (key_json 42 False False) = 44" by (simp add: j)
  ultimately have decl: "declares sample_head (length (key_json 42 False False))"
    by (simp add: declares_def digits)
  have st: "list_all steady_event ?evs" by (simp add: j text_bytes_def sample_head_def CRLF_def CRLF2_def)
  have bytes: "bytes_of ?evs = text_bytes (sample_head @ CRLF2 @ key_json 42 False False) @ []"
    by (simp add: j sample_head_def text_bytes_def)
  have api: "hc_send_control (ha_config sample_api)" "he_alloc sample_env (length (key_json 42 False False) + 1)"
    by (simp_all add: sample_api_def http_api_create_def sample_env_def)
  obtain router message where m: "input_router_keyboard (ha_router sample_api) (of_nat 42) False False = (router, message)"
    by force
  have "ir_keyboard_modifiers (fst (input_router_keyboard (ha_router sample_api) (of_nat 42) False False)) = 2" by code_simp
  moreover have "irm_type (snd (input_router_keyboard (ha_router sample_api) (of_nat 42) False False)) = 5 \<and>
      take (unat (irm_length (snd (input_router_keyboard (ha_router sample_api) (of_nat 42) False False))))
        (irm_payload (snd (input_router_keyboard (ha_router sample_api) (of_nat 42) False False))) = [42, 0, 0]" by code_simp
  ultimately have r: "ir_keyboard_modifiers router = 2" "irm_type message = 5"
    "take (unat (irm_length message)) (irm_payload message) = [42, 0, 0]" using m by simp_all
  have sink: "he_sink sample_env (irm_type message) (irm_payload message) (irm_length message) [] = (True, [(5, [42, 0, 0])])"
    using r by (simp add: sample_env_def)
  show ?thesis
    using http_key_event [OF head line decl _ st bytes api(2,1) m sink] r(1) by (simp add: note_input_busy_def)
qed

section \<open>The wheel\<close>

text \<open>
  The wheel handler writes a negative turn as magnitude and sign bit, but the receiver reads nine
  bits of two's complement: a turn of up to 16 units backwards moves two detents, the same turn
  forwards one.
\<close>

lemma http_wheel_overshoots:
  assumes "1 \<le> m" "m \<le> 16"
  shows "wheel_detents (wheel_flags (- m) 0) = - 2" "wheel_detents (wheel_flags m 0) = 1"
proof -
  have "m \<in> {1,2,3,4,5,6,7,8,9,10,11,12,13,14,15,16}" using assms by (simp; presburger)
  moreover have "\<forall>m \<in> {1,2,3,4,5,6,7,8,9,10,11,12,13,14,15,16 :: int}.
      wheel_detents (wheel_flags (- m) 0) = - 2 \<and> wheel_detents (wheel_flags m 0) = 1" by code_simp
  ultimately show "wheel_detents (wheel_flags (- m) 0) = - 2" "wheel_detents (wheel_flags m 0) = 1" by blast+
qed

end
