(* ===== verification/GatewayServer.thy ===== *)
theory GatewayServer
  imports AgentTransport HttpApi FrameFlow DeviceSession
begin

text \<open>
  The gateway process (\<open>gateway_server.c\<close>, and the structures of \<open>gateway_internal.h\<close>): the server
  state shared by its threads, the keepalive, heartbeat and control threads, and the reader that
  decodes video for HTTP snapshots. The log texts are left out. FreeRDP and WinPR handles appear as
  flags that say whether they exist or are signalled.
\<close>

section \<open>State\<close>

definition GATEWAY_KEEPALIVE_INTERVAL_MS :: u64 where "GATEWAY_KEEPALIVE_INTERVAL_MS = 10000"
definition STATS_LOG_INTERVAL_MS :: u64 where "STATS_LOG_INTERVAL_MS = 5000"

record ClientStats =
  cs_bitmap_frames :: u32
  cs_decoded_frames :: u32
  cs_converted_frames :: u32
  cs_bitmap_queued_frames :: u32
  cs_bitmap_queue_drops :: u32
  cs_bitmap_stale_drops :: u32
  cs_bitmap_flushes :: u32
  cs_bitmap_empty_flushes :: u32
  cs_classic_tiles_sent :: u64
  cs_classic_bytes_sent :: u64
  cs_pointer_position_updates :: u64
  cs_rtp_nals :: u32
  cs_rtp_access_units :: u32
  cs_rtp_idr_units :: u32
  cs_rtp_p_units :: u32
  cs_avc_skipped :: u32
  cs_avc_resyncs :: u32
  cs_avc_waits :: u32
  cs_last_decode_latency_ms :: u64
  cs_last_rdp_send_ms :: u64

text \<open>
  The part of \<open>struct Client\<close> that the input, graphics and bitmap code share; the bitmap code and
  the peer code extend it with their own fields.
\<close>

record Client =
  cl_stopping :: bool
  cl_shutdown_event :: bool
  cl_direct_gfx_active :: bool
  cl_bitmap_fallback_active :: bool
  cl_gfx_ready :: bool
  cl_frame_flow :: FrameFlow
  cl_frame_trace :: FrameTrace
  cl_need_idr :: bool
  cl_next_frame_id :: u32
  cl_parameter_sets :: H264ParameterSets
  cl_progressive :: bool
  cl_gfx_uses_progressive :: bool
  cl_render_width :: u16
  cl_render_height :: u16
  cl_last_rtp_received_at :: u64
  cl_stats :: ClientStats
  cl_input_router :: InputRouter
  cl_video_thread :: bool
  cl_output_thread :: bool

text \<open>
  The active client is a number that tells clients apart, its shutdown event (\<open>None\<close> when the handle
  is closed) and its input router, which are what the server looks at. \<open>sv_peer_thread\<close> is the handle of the peer thread: absent, or
  whether that thread has finished.
\<close>

record ActiveClient =
  ac_client :: nat
  ac_shutdown_event :: "bool option"
  ac_input_router :: InputRouter

record Server =
  sv_config :: GatewayConfig
  sv_transport :: AgentTransport
  sv_http_api :: "HttpApi option"
  sv_peer_thread :: "bool option"
  sv_last_stats_log_at :: u64
  sv_next_keepalive_at :: u64
  sv_keepalive_dx :: byte
  sv_active :: "ActiveClient option"
  sv_active_closing :: bool

section \<open>Control messages\<close>

definition server_send_control ::
  "Server \<Rightarrow> byte \<Rightarrow> byte list option \<Rightarrow> u16 \<Rightarrow> TransportOs \<Rightarrow> bool \<times> TransportOs" where
  "server_send_control server type payload len os = agent_transport_send (sv_transport server) type payload len os"

definition server_set_stream_requested :: "Server \<Rightarrow> bool \<Rightarrow> TransportOs \<Rightarrow> bool \<times> Server \<times> TransportOs" where
  "server_set_stream_requested server requested os =
     (case agent_transport_set_stream_requested (sv_transport server) requested os of
        (sent, transport, os1) \<Rightarrow> (sent, server\<lparr>sv_transport := transport\<rparr>, os1))"

definition restore_http_stream :: "Server \<Rightarrow> TransportOs \<Rightarrow> Server \<times> TransportOs" where
  "restore_http_stream server os =
     (if sv_http_api server \<noteq> None
      then snd (server_set_stream_requested server True os) else (server, os))"

definition request_video_idr :: "Server \<Rightarrow> u64 \<Rightarrow> TransportOs \<Rightarrow> bool \<times> TransportOs" where
  "request_video_idr server epoch os =
     server_send_control server (control_code CONTROL_IDR_REQUEST) None 0 os"

definition http_send_control :: "Server \<Rightarrow> byte \<Rightarrow> byte list \<Rightarrow> u16 \<Rightarrow> TransportOs \<Rightarrow> bool \<times> TransportOs" where
  "http_send_control server type payload len os = server_send_control server type (Some payload) len os"

definition http_set_stream :: "Server \<Rightarrow> bool \<Rightarrow> TransportOs \<Rightarrow> bool \<times> Server \<times> TransportOs" where
  "http_set_stream server requested os = server_set_stream_requested server requested os"

section \<open>Keepalive\<close>

definition router_idle :: "InputRouter \<Rightarrow> bool" where
  "router_idle router \<longleftrightarrow>
     ir_pointer_buttons router = 0 \<and> ir_keyboard_modifiers router = 0 \<and> \<not> ir_control_space_down router"

text \<open>The critical section that looks for held input.\<close>

definition keepalive_idle :: "Server \<Rightarrow> bool" where
  "keepalive_idle server \<longleftrightarrow>
     (case sv_active server of None \<Rightarrow> True | Some active \<Rightarrow> router_idle (ac_input_router active)) \<and>
     http_api_input_idle (sv_http_api server)"

definition keepalive_payload :: "byte \<Rightarrow> byte list" where
  "keepalive_payload dx = poke (replicate 5 0) 0 (protocol_write_u16 (scast dx))"

definition keepalive_send :: "Server \<Rightarrow> TransportOs \<Rightarrow> Server \<times> TransportOs" where
  "keepalive_send server os =
     (let (sent, os1) = server_send_control server (control_code CONTROL_POINTER_REL)
                          (Some (keepalive_payload (sv_keepalive_dx server))) 5 os
      in (if sent then server\<lparr>sv_keepalive_dx := - sv_keepalive_dx server\<rparr> else server, os1))"

definition server_keepalive :: "Server \<Rightarrow> u64 \<Rightarrow> TransportOs \<Rightarrow> Server \<times> TransportOs" where
  "server_keepalive server now os =
     (if now < sv_next_keepalive_at server then (server, os)
      else let server1 = server\<lparr>sv_next_keepalive_at := now + GATEWAY_KEEPALIVE_INTERVAL_MS\<rparr>
           in if \<not> keepalive_idle server1 then (server1, os) else keepalive_send server1 os)"

section \<open>Peer threads\<close>

definition signal_active :: "Server \<Rightarrow> Server" where
  "signal_active server =
     (case sv_active server of
        None \<Rightarrow> server
      | Some active \<Rightarrow>
          if ac_shutdown_event active = None then server
          else server\<lparr>sv_active := Some (active\<lparr>ac_shutdown_event := Some True\<rparr>)\<rparr>)"

text \<open>\<open>finished\<close>: the thread ended within the five seconds the join waits.\<close>

definition server_join_peer_thread :: "Server \<Rightarrow> bool \<Rightarrow> bool \<times> Server" where
  "server_join_peer_thread server finished =
     (let server1 = signal_active server in
      if sv_peer_thread server1 = None then (True, server1)
      else if \<not> finished then (False, server1)
      else (True, server1\<lparr>sv_peer_thread := None\<rparr>))"

definition server_reap_finished_peer_thread :: "Server \<Rightarrow> Server" where
  "server_reap_finished_peer_thread server =
     (if sv_peer_thread server = Some True then server\<lparr>sv_peer_thread := None\<rparr> else server)"

section \<open>Transport events\<close>

definition on_transport_event :: "Server \<Rightarrow> AgentTransportEvent \<Rightarrow> u64 \<Rightarrow> Server" where
  "on_transport_event server event epoch =
     (if event = AGENT_TRANSPORT_EVENT_DISCONNECTED then server
      else if \<not> agent_transport_is_current_epoch (sv_transport server) epoch then server
      else signal_active server)"

text \<open>
  The heartbeat of the main thread. A timeout reaches the server through the event callback, in the
  same thread. The statistics line is a log text; only its pacing is kept.
\<close>

definition server_heartbeat :: "Server \<Rightarrow> u64 \<Rightarrow> TransportOs \<Rightarrow> Server \<times> TransportOs" where
  "server_heartbeat server now os =
     (let timeout = fst (heartbeat_check (sv_transport server) now);
          epoch = tr_epoch (sv_transport server);
          (transport, os1) = agent_transport_heartbeat (sv_transport server) now os;
          server1 = server\<lparr>sv_transport := transport\<rparr>;
          server2 = (if timeout \<and> cb_event (tr_callbacks transport)
                     then on_transport_event server1 AGENT_TRANSPORT_EVENT_HEARTBEAT_TIMEOUT epoch else server1);
          (server3, os2) = server_keepalive server2 now os1
      in (if now - sv_last_stats_log_at server3 < STATS_LOG_INTERVAL_MS then server3
          else server3\<lparr>sv_last_stats_log_at := now\<rparr>, os2))"

section \<open>The control thread\<close>

text \<open>
  Each element is what one \<open>accept\<close> returned and what arrives on that connection. \<open>None\<close>: the thread
  is still serving the connection.
\<close>

fun control_thread :: "Server \<Rightarrow> (int \<times> recv_event list) list \<Rightarrow> TransportOs \<Rightarrow> (Server \<times> TransportOs) option" where
  "control_thread server [] os = Some (server, os)"
| "control_thread server ((fd, evs) # rest) os =
     (if fd < 0 then control_thread server rest os
      else case agent_transport_accept (sv_transport server) fd evs os of
             (None, transport, _, os1) \<Rightarrow> control_thread (server\<lparr>sv_transport := transport\<rparr>) rest os1
           | (Some epoch, transport, evs1, os1) \<Rightarrow>
               (case agent_transport_run transport fd epoch evs1 os1 of
                  None \<Rightarrow> None
                | Some (transport1, os2) \<Rightarrow> control_thread (server\<lparr>sv_transport := transport1\<rparr>) rest os2))"

text \<open>\<open>fd\<close> is what \<open>socket\<close> returned; \<open>bound\<close>: the address is valid and \<open>bind\<close> and \<open>listen\<close> succeed.\<close>

definition open_control_listener :: "int \<Rightarrow> bool \<Rightarrow> int" where
  "open_control_listener fd bound = (if fd < 0 then -1 else if \<not> bound then -1 else fd)"

section \<open>Video for HTTP snapshots\<close>

definition on_http_decoded_frame :: "bool \<Rightarrow> Server \<Rightarrow> AVFrame \<Rightarrow> bool \<Rightarrow> bool \<times> Server" where
  "on_http_decoded_frame stop_requested server frame cloned =
     (if stop_requested then (False, server)
      else case sv_http_api server of
             None \<Rightarrow> (False, server)
           | Some api \<Rightarrow> (True, server\<lparr>sv_http_api := Some (snd (http_api_publish_frame api frame cloned))\<rparr>))"

record HttpReader =
  hv_parameter_sets :: H264ParameterSets
  hv_fallback :: H264Buffer
  hv_need_idr :: bool

datatype reader_turn = Keep | Leave

text \<open>
  One access unit in the loop of \<open>http_video_thread\<close>: the bytes pushed to the decoder, if any, and
  whether the loop goes on. \<open>push\<close> is the answer of the decoder.
\<close>

definition http_unit ::
  "(nat \<Rightarrow> bool) \<Rightarrow> (byte list \<Rightarrow> bool) \<Rightarrow> bool \<Rightarrow> HttpReader \<Rightarrow> VideoSourceAccessUnit \<Rightarrow>
     byte list option \<times> reader_turn \<times> HttpReader" where
  "http_unit alloc push stop_requested reader unit =
     (if au_data unit = [] then (None, Keep, reader)
      else
        let idr = (au_nal_types unit AND push_bit 5 1 \<noteq> 0);
            reader1 = reader\<lparr>hv_parameter_sets :=
              h264_parameter_sets_update alloc (hv_parameter_sets reader) (au_data unit) (au_nal_types unit)\<rparr>;
            reader2 = (if au_packet_loss unit then reader1\<lparr>hv_need_idr := True\<rparr> else reader1)
        in if hv_need_idr reader2 \<and> \<not> idr then (None, Keep, reader2)
           else
             let (payload, sets) =
                   (if idr then h264_parameter_sets_prepare_idr alloc (hv_parameter_sets reader2) (au_data unit) (au_nal_types unit)
                    else (Some (au_data unit), hv_parameter_sets reader2));
                 reader3 = reader2\<lparr>hv_parameter_sets := sets\<rparr>
             in case payload of
                  None \<Rightarrow> (None, Leave, reader3)
                | Some p \<Rightarrow>
                    (case h264_ensure_annexb alloc (hv_fallback reader3) p of
                       (None, fallback) \<Rightarrow> (None, Leave, reader3\<lparr>hv_fallback := fallback\<rparr>)
                     | (Some data, fallback) \<Rightarrow>
                         let reader4 = reader3\<lparr>hv_fallback := fallback\<rparr>; pushed = push data
                         in if \<not> pushed \<and> \<not> stop_requested then (Some data, Keep, reader4\<lparr>hv_need_idr := True\<rparr>)
                            else (Some data, Keep, if idr then reader4\<lparr>hv_need_idr := False\<rparr> else reader4)))"

section \<open>A sample server\<close>

text \<open>Concrete states to evaluate the code on: a new client and a server without an agent.\<close>

definition zero_stats :: ClientStats where
  "zero_stats = \<lparr>cs_bitmap_frames = 0, cs_decoded_frames = 0, cs_converted_frames = 0, cs_bitmap_queued_frames = 0,
     cs_bitmap_queue_drops = 0, cs_bitmap_stale_drops = 0, cs_bitmap_flushes = 0, cs_bitmap_empty_flushes = 0,
     cs_classic_tiles_sent = 0, cs_classic_bytes_sent = 0, cs_pointer_position_updates = 0, cs_rtp_nals = 0,
     cs_rtp_access_units = 0, cs_rtp_idr_units = 0, cs_rtp_p_units = 0, cs_avc_skipped = 0, cs_avc_resyncs = 0,
     cs_avc_waits = 0, cs_last_decode_latency_ms = 0, cs_last_rdp_send_ms = 0\<rparr>"

definition sample_client :: Client where
  "sample_client = \<lparr>cl_stopping = False, cl_shutdown_event = False, cl_direct_gfx_active = True,
     cl_bitmap_fallback_active = False, cl_gfx_ready = False, cl_frame_flow = empty_flow, cl_frame_trace = empty_trace,
     cl_need_idr = True, cl_next_frame_id = 0, cl_parameter_sets = empty_parameter_sets, cl_progressive = False, cl_gfx_uses_progressive = False,
     cl_render_width = 1920, cl_render_height = 1080, cl_last_rtp_received_at = 0, cl_stats = zero_stats,
     cl_input_router = input_router_init 1920 1080 False, cl_video_thread = False, cl_output_thread = False\<rparr>"

definition sample_server :: Server where
  "sample_server = \<lparr>sv_config = gateway_config_defaults, sv_transport = sample_transport, sv_http_api = None,
     sv_peer_thread = None, sv_last_stats_log_at = 0, sv_next_keepalive_at = 10000, sv_keepalive_dx = 1,
     sv_active = None, sv_active_closing = False\<rparr>"

end
