(* ===== verification/RdpGfx.thy ===== *)
theory RdpGfx
  imports GatewayServer
begin

text \<open>
  The graphics pipeline path of an RDP client (\<open>rdp_gfx.c\<close>): capability choice, acknowledgements,
  flow control of H.264 frames and the thread that passes access units through to the client.

  The client record is shared by the peer thread (acknowledgements, stop) and the video thread; both
  take its lock, so critical sections are atomic. What the other threads do while the video thread is
  between two sections is a list of \<open>gfx_event\<close>s. The functions of FreeRDP are answers: \<open>None\<close> is a
  missing callback, a number its return value.
\<close>

section \<open>Capabilities\<close>

record RDPGFX_CAPSET =
  cap_version :: u32
  cap_flags :: u32

text \<open>The constants of the RDPGFX headers.\<close>

record GfxConstants =
  RDPGFX_CAPVERSION_107 :: u32
  RDPGFX_CAPVERSION_106 :: u32
  RDPGFX_CAPVERSION_106_ERR :: u32
  RDPGFX_CAPVERSION_105 :: u32
  RDPGFX_CAPVERSION_104 :: u32
  RDPGFX_CAPVERSION_103 :: u32
  RDPGFX_CAPVERSION_102 :: u32
  RDPGFX_CAPVERSION_101 :: u32
  RDPGFX_CAPVERSION_10 :: u32
  RDPGFX_CAPVERSION_81 :: u32
  RDPGFX_CAPVERSION_8 :: u32
  RDPGFX_CAPS_FLAG_AVC420_ENABLED :: u32
  RDPGFX_CAPS_FLAG_AVC_DISABLED :: u32

definition client_cap_supports_avc420 :: "GfxConstants \<Rightarrow> RDPGFX_CAPSET \<Rightarrow> bool" where
  "client_cap_supports_avc420 gc cap =
     (if cap_version cap = RDPGFX_CAPVERSION_81 gc
      then cap_flags cap AND RDPGFX_CAPS_FLAG_AVC420_ENABLED gc \<noteq> 0
      else cap_version cap \<ge> RDPGFX_CAPVERSION_10 gc \<and> cap_flags cap AND RDPGFX_CAPS_FLAG_AVC_DISABLED gc = 0)"

definition preferred_versions :: "GfxConstants \<Rightarrow> u32 list" where
  "preferred_versions gc =
     [RDPGFX_CAPVERSION_107 gc, RDPGFX_CAPVERSION_106 gc, RDPGFX_CAPVERSION_106_ERR gc, RDPGFX_CAPVERSION_105 gc,
      RDPGFX_CAPVERSION_104 gc, RDPGFX_CAPVERSION_103 gc, RDPGFX_CAPVERSION_102 gc, RDPGFX_CAPVERSION_101 gc,
      RDPGFX_CAPVERSION_10 gc, RDPGFX_CAPVERSION_81 gc, RDPGFX_CAPVERSION_8 gc]"

text \<open>One pass: the first advertised set of the best version, in the first pass with AVC only.\<close>

definition select_pass :: "GfxConstants \<Rightarrow> bool \<Rightarrow> RDPGFX_CAPSET list \<Rightarrow> RDPGFX_CAPSET option" where
  "select_pass gc need_avc caps =
     find (\<lambda>cap. \<not> need_avc \<or> client_cap_supports_avc420 gc cap)
       (concat (map (\<lambda>version. filter (\<lambda>cap. cap_version cap = version) caps) (preferred_versions gc)))"

definition client_select_gfx_cap :: "GfxConstants \<Rightarrow> RDPGFX_CAPSET list \<Rightarrow> (RDPGFX_CAPSET \<times> bool) option" where
  "client_select_gfx_cap gc caps =
     (case select_pass gc True caps of
        Some cap \<Rightarrow> Some (cap, True)
      | None \<Rightarrow> map_option (\<lambda>cap. (cap, client_cap_supports_avc420 gc cap)) (select_pass gc False caps))"

section \<open>Stopping a client\<close>

definition client_should_stop :: "'a Client_scheme \<Rightarrow> bool" where
  "client_should_stop client = cl_stopping client"

definition client_stop :: "'a Client_scheme \<Rightarrow> 'a Client_scheme" where
  "client_stop client = client\<lparr>cl_stopping := True, cl_shutdown_event := True\<rparr>"

section \<open>The capability callback\<close>

datatype gfx_result =
    GFX_OK | GFX_NOT_SUPPORTED | GFX_UNSUPPORTED_VERSION | GFX_INTERNAL_ERROR | GFX_NOT_ENOUGH_MEMORY
  | GfxError u32

datatype gfx_command =
    CapsConfirm RDPGFX_CAPSET
  | CreateSurface u16 u16 u16
  | MapSurfaceToOutput u16

record GfxAnswers =
  ga_caps_confirm :: "u32 option"
  ga_create_surface :: "u32 option"
  ga_map_surface :: "u32 option"
  ga_progressive :: bool
  ga_progressive_reset :: bool
  ga_thread :: bool

text \<open>A callback that is missing or returns an error; \<open>CHANNEL_RC_OK\<close> is 0.\<close>

definition gfx_failure :: "u32 option \<Rightarrow> gfx_result option" where
  "gfx_failure answer =
     (case answer of None \<Rightarrow> Some GFX_INTERNAL_ERROR | Some e \<Rightarrow> if e = 0 then None else Some (GfxError e))"

text \<open>
  The result, the commands sent to the client, and the new states. The last step of a successful
  call asks the agent for its stream.
\<close>

definition on_gfx_caps_advertise ::
  "GfxConstants \<Rightarrow> GfxAnswers \<Rightarrow> RDPGFX_CAPSET list \<Rightarrow> 'a Client_scheme \<Rightarrow> Server \<Rightarrow> TransportOs \<Rightarrow>
     gfx_result \<times> gfx_command list \<times> 'a Client_scheme \<times> Server \<times> TransportOs" where
  "on_gfx_caps_advertise gc ga caps client server os =
     (if \<not> cl_direct_gfx_active client \<or> cl_bitmap_fallback_active client
      then (GFX_NOT_SUPPORTED, [], client, server, os)
      else case client_select_gfx_cap gc caps of
        None \<Rightarrow> (GFX_UNSUPPORTED_VERSION, [], client_stop client, server, os)
      | Some (selected, use_avc420) \<Rightarrow>
          let c1 = (if ga_caps_confirm ga = None then [] else [CapsConfirm selected]) in
          case gfx_failure (ga_caps_confirm ga) of
            Some e \<Rightarrow> (e, c1, client, server, os)
          | None \<Rightarrow>
              let c2 = c1 @ (if ga_create_surface ga = None then []
                             else [CreateSurface 1 (cfg_width (sv_config server)) (cfg_height (sv_config server))]) in
              case gfx_failure (ga_create_surface ga) of
                Some e \<Rightarrow> (e, c2, client, server, os)
              | None \<Rightarrow>
                  let c3 = c2 @ (if ga_map_surface ga = None then [] else [MapSurfaceToOutput 1]) in
                  case gfx_failure (ga_map_surface ga) of
                    Some e \<Rightarrow> (e, c3, client, server, os)
                  | None \<Rightarrow>
                      let client0 = (if use_avc420 then client else client\<lparr>cl_progressive := ga_progressive ga\<rparr>) in
                      if \<not> use_avc420 \<and> (\<not> ga_progressive ga \<or> \<not> ga_progressive_reset ga)
                      then (GFX_INTERNAL_ERROR, c3, client0, server, os)
                      else
                        let client1 = client0\<lparr>cl_gfx_ready := True, cl_need_idr := use_avc420,
                                             cl_gfx_uses_progressive := \<not> use_avc420,
                                             cl_bitmap_fallback_active := \<not> use_avc420,
                                             cl_video_thread := ga_thread ga\<rparr>
                        in if \<not> ga_thread ga then (GFX_NOT_ENOUGH_MEMORY, c3, client_stop client1, server, os)
                           else case server_set_stream_requested server True os of
                                  (_, server1, os1) \<Rightarrow> (GFX_OK, c3, client1, server1, os1))"

section \<open>Acknowledgements\<close>

text \<open>The two clock readings of the callback are arguments.\<close>

definition on_gfx_frame_ack :: "u32 \<Rightarrow> u32 \<Rightarrow> u64 \<Rightarrow> u64 \<Rightarrow> 'a Client_scheme \<Rightarrow> 'a Client_scheme" where
  "on_gfx_frame_ack frame_id queue_depth now acknowledged_at client =
     (let (_, _, flow) = frame_flow_ack (cl_frame_flow client) frame_id queue_depth now;
          client1 = client\<lparr>cl_frame_flow := flow\<rparr>
      in if cl_gfx_uses_progressive client1 then client1
         else client1\<lparr>cl_frame_trace := snd (frame_trace_ack (cl_frame_trace client1) frame_id acknowledged_at)\<rparr>)"

datatype gfx_event = Ack u32 u32 u64 u64 | Stop

fun gfx_event_step :: "'a Client_scheme \<Rightarrow> gfx_event \<Rightarrow> 'a Client_scheme" where
  "gfx_event_step client (Ack frame_id depth now at) = on_gfx_frame_ack frame_id depth now at client"
| "gfx_event_step client Stop = client_stop client"

section \<open>Admission of a frame\<close>

definition add_skipped :: "'a Client_scheme \<Rightarrow> 'a Client_scheme" where
  "add_skipped client = client\<lparr>cl_stats := (cl_stats client)\<lparr>cs_avc_skipped := cs_avc_skipped (cl_stats client) + 1\<rparr>\<rparr>"

text \<open>One turn of the loop: return with an answer, or wait since a given time.\<close>

datatype avc_turn = Return bool | WaitSince u64

definition accept_turn ::
  "Server \<Rightarrow> u32 \<Rightarrow> bool \<Rightarrow> u64 \<Rightarrow> u64 \<Rightarrow> 'a Client_scheme \<Rightarrow> TransportOs \<Rightarrow> avc_turn \<times> 'a Client_scheme \<times> TransportOs" where
  "accept_turn server bytes idr now wait_started_at client os =
     (if \<not> cl_gfx_ready client \<or> cl_stopping client then (Return False, client, os)
      else
        let admission = frame_flow_avc_admit (cl_frame_flow client) bytes idr now wait_started_at in
        case admission of
          FRAME_FLOW_AVC_SEND \<Rightarrow> (Return True, client, os)
        | FRAME_FLOW_AVC_WAIT \<Rightarrow>
            if wait_started_at = 0
            then (WaitSince now,
                  client\<lparr>cl_stats := (cl_stats client)\<lparr>cs_avc_waits := cs_avc_waits (cl_stats client) + 1\<rparr>\<rparr>, os)
            else (WaitSince wait_started_at, client, os)
        | FRAME_FLOW_AVC_RESYNC \<Rightarrow>
            let (request_idr, need_idr) = frame_flow_avc_flow_rejected (cl_need_idr client);
                client1 = add_skipped (client\<lparr>cl_need_idr := need_idr\<rparr>);
                client2 = (if request_idr
                           then client1\<lparr>cl_stats := (cl_stats client1)\<lparr>cs_avc_resyncs := cs_avc_resyncs (cl_stats client1) + 1\<rparr>\<rparr>
                           else client1);
                os1 = (if request_idr
                       then snd (server_send_control server (control_code CONTROL_IDR_REQUEST) None 0 os) else os)
            in (Return False, client2, os1))"

text \<open>
  The loop: each round is what the other threads did before it, the clock, and whether the wait that
  follows it succeeds. \<open>None\<close>: still waiting after these rounds.
\<close>

record AvcRound =
  ar_events :: "gfx_event list"
  ar_now :: u64
  ar_wait_ok :: bool

fun client_accept_avc_frame ::
  "Server \<Rightarrow> u32 \<Rightarrow> bool \<Rightarrow> u64 \<Rightarrow> AvcRound list \<Rightarrow> 'a Client_scheme \<Rightarrow> TransportOs \<Rightarrow>
     (bool \<times> 'a Client_scheme \<times> TransportOs) option" where
  "client_accept_avc_frame server bytes idr wait_started_at [] client os = None"
| "client_accept_avc_frame server bytes idr wait_started_at (r # rs) client os =
     (case accept_turn server bytes idr (ar_now r) wait_started_at (foldl gfx_event_step client (ar_events r)) os of
        (Return answer, client1, os1) \<Rightarrow> Some (answer, client1, os1)
      | (WaitSince since, client1, os1) \<Rightarrow>
          if client_should_stop client1 then Some (False, client1, os1)
          else if \<not> ar_wait_ok r then Some (False, client1, os1)
          else client_accept_avc_frame server bytes idr since rs client1 os1)"

section \<open>Sending a frame\<close>

text \<open>
  \<open>answer\<close> is what \<open>SurfaceFrameCommand\<close> returned, \<open>events\<close> what the other threads did while the
  frame was submitted. The first component is the frame submitted to the client: its number, whether
  it is a key frame, and its bytes.
\<close>

record AvcSend =
  sd_started :: u64
  sd_answer :: "u32 option"
  sd_events :: "gfx_event list"
  sd_done :: u64

type_synonym avc_frame = "u32 \<times> bool \<times> byte list"

definition send_avc420_frame ::
  "AvcSend \<Rightarrow> byte list \<Rightarrow> u32 \<Rightarrow> u32 \<Rightarrow> u64 \<Rightarrow> bool \<Rightarrow> 'a Client_scheme \<Rightarrow> avc_frame option \<times> bool \<times> 'a Client_scheme" where
  "send_avc420_frame sd data ssrc rtp_timestamp received_at idr client =
     (if \<not> cl_gfx_ready client \<or> cl_stopping client then (None, False, client)
      else
        let frame_id = cl_next_frame_id client;
            client1 = client\<lparr>cl_next_frame_id := frame_id + 1,
              cl_frame_trace := frame_trace_sent (cl_frame_trace client) frame_id ssrc rtp_timestamp received_at (sd_started sd)\<rparr>;
            client2 = foldl gfx_event_step client1 (sd_events sd);
            client3 = client2\<lparr>cl_stats := (cl_stats client2)\<lparr>cs_last_rdp_send_ms := sd_done sd - sd_started sd\<rparr>\<rparr>;
            submitted = (if sd_answer sd = None then None else Some (frame_id, idr, data))
        in if sd_answer sd \<noteq> Some 0
           then (submitted, False, add_skipped (client3\<lparr>cl_need_idr := frame_flow_avc_send_failed (cl_need_idr client3)\<rparr>))
           else
             let bytes = (of_nat (length data) :: u32);
                 flow = (if idr then snd (frame_flow_sent_keyframe_sized (cl_frame_flow client3) frame_id bytes (sd_done sd))
                         else snd (frame_flow_sent_sized (cl_frame_flow client3) frame_id bytes (sd_done sd)))
             in (submitted, True,
                 client3\<lparr>cl_frame_flow := flow, cl_need_idr := frame_flow_avc_sent (cl_need_idr client3) idr,
                         cl_stats := (cl_stats client3)\<lparr>cs_bitmap_frames := cs_bitmap_frames (cl_stats client3) + 1\<rparr>\<rparr>))"

section \<open>The video thread\<close>

definition count_unit :: "bool \<Rightarrow> bool \<Rightarrow> u64 \<Rightarrow> 'a Client_scheme \<Rightarrow> 'a Client_scheme" where
  "count_unit idr p_frame received_at client =
     (let s = cl_stats client in
      client\<lparr>cl_stats := s\<lparr>cs_rtp_nals := cs_rtp_nals s + 1, cs_rtp_access_units := cs_rtp_access_units s + 1,
                           cs_rtp_idr_units := (if idr then cs_rtp_idr_units s + 1 else cs_rtp_idr_units s),
                           cs_rtp_p_units := (if p_frame then cs_rtp_p_units s + 1 else cs_rtp_p_units s)\<rparr>,
             cl_last_rtp_received_at := received_at\<rparr>)"

text \<open>What happens around one access unit: the answers and the work of the other threads.\<close>

record UnitContext =
  uc_received_at :: u64
  uc_rounds :: "AvcRound list"
  uc_send :: AvcSend

definition unit_idr :: "VideoSourceAccessUnit \<Rightarrow> bool" where
  "unit_idr unit \<longleftrightarrow> au_nal_types unit AND push_bit 5 1 \<noteq> 0"

definition unit_p_frame :: "VideoSourceAccessUnit \<Rightarrow> bool" where
  "unit_p_frame unit \<longleftrightarrow> au_nal_types unit AND push_bit 1 1 \<noteq> 0"

text \<open>The first critical section: parameter sets, counters, and a loss asks for a key frame.\<close>

definition note_unit :: "(nat \<Rightarrow> bool) \<Rightarrow> u64 \<Rightarrow> VideoSourceAccessUnit \<Rightarrow> 'a Client_scheme \<Rightarrow> 'a Client_scheme" where
  "note_unit alloc received_at unit client =
     (let client1 = client\<lparr>cl_parameter_sets :=
            h264_parameter_sets_update alloc (cl_parameter_sets client) (au_data unit) (au_nal_types unit)\<rparr>;
          client2 = count_unit (unit_idr unit) (unit_p_frame unit) received_at client1
      in if au_packet_loss unit
         then client2\<lparr>cl_need_idr := frame_flow_avc_send_failed (cl_need_idr client2)\<rparr> else client2)"

definition unit_should_send :: "VideoSourceAccessUnit \<Rightarrow> 'a Client_scheme \<Rightarrow> bool" where
  "unit_should_send unit client \<longleftrightarrow>
     \<not> au_packet_loss unit \<and> frame_flow_avc_should_send (cl_need_idr client) (unit_idr unit) (unit_p_frame unit) \<and>
     cl_gfx_ready client \<and> \<not> cl_stopping client"

definition skip_unit :: "VideoSourceAccessUnit \<Rightarrow> 'a Client_scheme \<Rightarrow> 'a Client_scheme" where
  "skip_unit unit client =
     (if cl_gfx_ready client \<and> \<not> cl_stopping client \<and> (au_packet_loss unit \<or> cl_need_idr client)
      then add_skipped client else client)"

text \<open>A key frame goes out with the parameter sets it needs.\<close>

definition unit_payload ::
  "(nat \<Rightarrow> bool) \<Rightarrow> VideoSourceAccessUnit \<Rightarrow> 'a Client_scheme \<Rightarrow> byte list option \<times> 'a Client_scheme" where
  "unit_payload alloc unit client =
     (if unit_idr unit
      then case h264_parameter_sets_prepare_idr alloc (cl_parameter_sets client) (au_data unit) (au_nal_types unit) of
             (payload, sets) \<Rightarrow> (payload, client\<lparr>cl_parameter_sets := sets\<rparr>)
      else (Some (au_data unit), client))"

text \<open>
  The body of the loop for one access unit: the frame submitted, whether submission succeeded,
  whether the loop goes on, and the new state; \<open>None\<close> while the admission is still waiting.
\<close>

definition send_unit ::
  "(nat \<Rightarrow> bool) \<Rightarrow> Server \<Rightarrow> UnitContext \<Rightarrow> VideoSourceAccessUnit \<Rightarrow> 'a Client_scheme \<Rightarrow> TransportOs \<Rightarrow>
     (avc_frame option \<times> bool \<times> reader_turn \<times> 'a Client_scheme \<times> TransportOs) option" where
  "send_unit alloc server uc unit client os =
     (case unit_payload alloc unit client of
        (None, client1) \<Rightarrow>
          Some (None, False, Leave,
                client_stop (add_skipped (client1\<lparr>cl_need_idr := frame_flow_avc_send_failed (cl_need_idr client1)\<rparr>)), os)
      | (Some data, client1) \<Rightarrow>
          (case client_accept_avc_frame server (of_nat (length data)) (unit_idr unit) 0 (uc_rounds uc) client1 os of
             None \<Rightarrow> None
           | Some (accepted, client2, os1) \<Rightarrow>
               if \<not> accepted then Some (None, False, Keep, client2, os1)
               else case send_avc420_frame (uc_send uc) data (au_ssrc unit) (au_timestamp unit)
                           (uc_received_at uc) (unit_idr unit) client2 of
                      (frame, sent, client3) \<Rightarrow>
                        Some (frame, sent, Keep, if sent then client3 else client_stop client3, os1)))"

definition video_unit ::
  "(nat \<Rightarrow> bool) \<Rightarrow> Server \<Rightarrow> UnitContext \<Rightarrow> VideoSourceAccessUnit \<Rightarrow> 'a Client_scheme \<Rightarrow> TransportOs \<Rightarrow>
     (avc_frame option \<times> bool \<times> reader_turn \<times> 'a Client_scheme \<times> TransportOs) option" where
  "video_unit alloc server uc unit client os =
     (if au_data unit = [] then Some (None, False, Keep, client, os)
      else
        let client1 = note_unit alloc (uc_received_at uc) unit client
        in if \<not> unit_should_send unit client1 then Some (None, False, Keep, skip_unit unit client1, os)
           else send_unit alloc server uc unit client1 os)"

text \<open>
  The thread from the moment it holds its lease: what each read returned (\<open>Inl True\<close> for a timeout,
  \<open>Inl False\<close> for another error) and what happened around each unit. The result lists, for every
  access unit, the unit with the frame submitted for it and whether that succeeded.
\<close>

type_synonym unit_log = "VideoSourceAccessUnit \<times> avc_frame option \<times> bool"

fun video_thread ::
  "(nat \<Rightarrow> bool) \<Rightarrow> Server \<Rightarrow> (bool + VideoSourceAccessUnit \<times> UnitContext) list \<Rightarrow> 'a Client_scheme \<Rightarrow> TransportOs \<Rightarrow>
     unit_log list \<times> 'a Client_scheme \<times> TransportOs" where
  "video_thread alloc server [] client os = ([], client, os)"
| "video_thread alloc server (Inl again # rest) client os =
     (if client_should_stop client then ([], client, os)
      else if again then video_thread alloc server rest client os
      else ([], client_stop client, os))"
| "video_thread alloc server (Inr (unit, uc) # rest) client os =
     (if client_should_stop client then ([], client, os)
      else case video_unit alloc server uc unit client os of
             None \<Rightarrow> ([], client, os)
           | Some (frame, sent, turn, client1, os1) \<Rightarrow>
               if turn = Leave then ([(unit, frame, sent)], client1, os1)
               else case video_thread alloc server rest client1 os1 of
                      (log, r) \<Rightarrow> ((unit, frame, sent) # log, r))"

end
