(* ===== verification/RdpGfxSafety.thy ===== *)
theory RdpGfxSafety
  imports RdpGfx
begin

text \<open>
  Properties of the graphics path: every predicted frame the client gets has its reference, and the
  admission loop comes to an end.
\<close>

section \<open>What the other threads may change\<close>

lemma event_fields [simp]:
  "cl_need_idr (gfx_event_step client e) = cl_need_idr client"
  "cl_gfx_ready (gfx_event_step client e) = cl_gfx_ready client"
  by (cases e; simp add: on_gfx_frame_ack_def client_stop_def Let_def split: prod.split)+

lemma event_stopping: "cl_stopping client \<Longrightarrow> cl_stopping (gfx_event_step client e)"
  by (cases e) (simp_all add: on_gfx_frame_ack_def client_stop_def Let_def split: prod.split)

lemma events_fields [simp]:
  "cl_need_idr (foldl gfx_event_step client es) = cl_need_idr client"
  "cl_gfx_ready (foldl gfx_event_step client es) = cl_gfx_ready client"
  by (induction es arbitrary: client) simp_all

lemma events_stopping: "cl_stopping client \<Longrightarrow> cl_stopping (foldl gfx_event_step client es)"
  by (induction es arbitrary: client) (simp_all add: event_stopping)

section \<open>Admission\<close>

lemma accept_turn_cases:
  assumes "accept_turn server bytes idr now since client os = (turn, client', os')" and "cl_gfx_ready client"
  shows "cl_gfx_ready client' \<and>
    (case turn of
       Return True \<Rightarrow> client' = client \<and> \<not> cl_stopping client
     | Return False \<Rightarrow> cl_stopping client' \<or> cl_need_idr client'
     | WaitSince t \<Rightarrow> cl_need_idr client' = cl_need_idr client \<and> cl_stopping client' = cl_stopping client)"
  using assms
  by (auto simp: accept_turn_def Let_def add_skipped_def frame_flow_avc_flow_rejected_def
      split: if_splits FrameFlowAvcAdmission.splits prod.splits)

lemma accept_frame_outcome:
  assumes "client_accept_avc_frame server bytes idr since rs client os = Some (answer, client', os')"
    and "cl_gfx_ready client" and "list_all ar_wait_ok rs"
  shows "cl_gfx_ready client' \<and>
    (if answer then cl_need_idr client' = cl_need_idr client \<and> \<not> cl_stopping client'
     else cl_stopping client' \<or> cl_need_idr client')"
  using assms
proof (induction server bytes idr since rs client os rule: client_accept_avc_frame.induct)
  case (2 server bytes idr since r rs client os)
  let ?c = "foldl gfx_event_step client (ar_events r)"
  obtain turn client1 os1 where t: "accept_turn server bytes idr (ar_now r) since ?c os = (turn, client1, os1)"
    by (metis prod_cases3)
  have c: "cl_gfx_ready ?c" using "2.prems" by simp
  show ?case
  proof (cases turn)
    case (Return a)
    with "2.prems" t have "a = answer" "client1 = client'" by simp_all
    with accept_turn_cases [OF t c] Return show ?thesis by (cases a) auto
  next
    case (WaitSince s)
    then have w: "cl_gfx_ready client1" "cl_need_idr client1 = cl_need_idr client"
      using accept_turn_cases [OF t c] by auto
    show ?thesis
    proof (cases "cl_stopping client1")
      case True
      with "2.prems" t WaitSince w show ?thesis by (auto simp: client_should_stop_def)
    next
      case False
      have "client_accept_avc_frame server bytes idr s rs client1 os1 = Some (answer, client', os')"
        using "2.prems" t WaitSince False by (simp add: client_should_stop_def)
      with "2.IH" [OF t [symmetric] WaitSince refl _ _ this w(1)] False "2.prems"(3) w
      show ?thesis by (simp add: client_should_stop_def)
    qed
  qed
qed simp


section \<open>References\<close>

definition is_picture :: "VideoSourceAccessUnit \<Rightarrow> bool" where
  "is_picture unit \<longleftrightarrow> unit_idr unit \<or> unit_p_frame unit"

text \<open>
  \<open>has_reference have log\<close>: each frame that is no key frame is submitted only while the client has a
  reference. It has one after a key frame was submitted with success, and loses it when packets were
  lost in front of a unit, when a picture is not submitted, and when a submission fails.
\<close>

fun has_reference :: "bool \<Rightarrow> unit_log list \<Rightarrow> bool" where
  "has_reference have [] = True"
| "has_reference have ((unit, frame, sent) # rest) =
     (let have1 = (have \<and> \<not> au_packet_loss unit) in
      case frame of
        Some (frame_id, idr, data) \<Rightarrow> (idr \<or> have1) \<and> has_reference sent rest
      | None \<Rightarrow> has_reference (have1 \<and> \<not> is_picture unit) rest)"

definition in_step :: "bool \<Rightarrow> 'a Client_scheme \<Rightarrow> bool" where
  "in_step have client \<longleftrightarrow> cl_gfx_ready client \<and> (\<not> cl_need_idr client \<and> \<not> cl_stopping client \<longrightarrow> have)"

lemma send_frame_outcome:
  assumes "send_avc420_frame sd data ssrc ts at idr client = (frame, sent, client')"
    and "cl_gfx_ready client" "\<not> cl_stopping client"
  shows "cl_gfx_ready client' \<and> (frame = None \<or> (\<exists>n. frame = Some (n, idr, data))) \<and>
    (sent \<longrightarrow> frame \<noteq> None \<and> (cl_need_idr client' \<longleftrightarrow> \<not> idr \<and> cl_need_idr client)) \<and> (\<not> sent \<longrightarrow> cl_need_idr client')"
  using assms
  by (auto simp: send_avc420_frame_def Let_def add_skipped_def frame_flow_avc_send_failed_def frame_flow_avc_sent_def
      split: if_splits)

lemma skipped_fields [simp]:
  "cl_need_idr (add_skipped client) = cl_need_idr client" "cl_stopping (add_skipped client) = cl_stopping client"
  "cl_gfx_ready (add_skipped client) = cl_gfx_ready client" "cl_parameter_sets (add_skipped client) = cl_parameter_sets client"
  by (simp_all add: add_skipped_def)

lemma count_fields [simp]:
  "cl_need_idr (count_unit i p at client) = cl_need_idr client" "cl_stopping (count_unit i p at client) = cl_stopping client"
  "cl_gfx_ready (count_unit i p at client) = cl_gfx_ready client"
  by (simp_all add: count_unit_def Let_def)

lemma note_unit_fields [simp]:
  "cl_need_idr (note_unit alloc at unit client) = (au_packet_loss unit \<or> cl_need_idr client)"
  "cl_stopping (note_unit alloc at unit client) = cl_stopping client"
  "cl_gfx_ready (note_unit alloc at unit client) = cl_gfx_ready client"
  by (simp_all add: note_unit_def Let_def frame_flow_avc_send_failed_def)

lemma skip_unit_fields [simp]:
  "cl_need_idr (skip_unit unit client) = cl_need_idr client" "cl_stopping (skip_unit unit client) = cl_stopping client"
  "cl_gfx_ready (skip_unit unit client) = cl_gfx_ready client"
  by (simp_all add: skip_unit_def)

lemma unit_payload_fields:
  assumes "unit_payload alloc unit client = (payload, client')"
  shows "cl_need_idr client' = cl_need_idr client \<and> cl_stopping client' = cl_stopping client \<and> cl_gfx_ready client' = cl_gfx_ready client"
  using assms by (auto simp: unit_payload_def split: if_splits prod.splits)

lemma send_unit_in_step:
  assumes run: "send_unit alloc server uc unit client os = Some (frame, sent, turn, client', os')"
    and ready: "cl_gfx_ready client" "\<not> cl_stopping client" and waits: "list_all ar_wait_ok (uc_rounds uc)"
  shows "case frame of Some (frame_id, idr, data) \<Rightarrow> idr = unit_idr unit \<and> cl_gfx_ready client' \<and>
        (\<not> cl_need_idr client' \<and> \<not> cl_stopping client' \<longrightarrow> sent)
      | None \<Rightarrow> cl_gfx_ready client' \<and> (cl_need_idr client' \<or> cl_stopping client')"
proof -
  obtain payload c1 where p: "unit_payload alloc unit client = (payload, c1)" by force
  note c1 = unit_payload_fields [OF p]
  show ?thesis
  proof (cases payload)
    case None
    then show ?thesis using run p c1 ready by (auto simp: send_unit_def client_stop_def)
  next
    case (Some d)
    then obtain accepted c2 os1 where
      acc: "client_accept_avc_frame server (of_nat (length d)) (unit_idr unit) 0 (uc_rounds uc) c1 os = Some (accepted, c2, os1)"
      using run p by (auto simp: send_unit_def split: option.splits)
    have "cl_gfx_ready c1" using c1 ready by simp
    note out = accept_frame_outcome [OF acc this waits]
    show ?thesis
    proof (cases accepted)
      case False
      then show ?thesis using run p Some acc out by (auto simp: send_unit_def)
    next
      case True
      obtain f s c3 where sd: "send_avc420_frame (uc_send uc) d (au_ssrc unit) (au_timestamp unit) (uc_received_at uc)
          (unit_idr unit) c2 = (f, s, c3)" by (metis prod_cases3)
      have r: "frame = f" "sent = s" "client' = (if s then c3 else client_stop c3)"
        using run p Some acc True sd by (auto simp: send_unit_def)
      have "cl_gfx_ready c2" "\<not> cl_stopping c2" using out True by simp_all
      from send_frame_outcome [OF sd this] r show ?thesis
        by (cases f) (auto simp: client_stop_def)
    qed
  qed
qed

lemma video_unit_in_step:
  assumes run: "video_unit alloc server uc unit client os = Some (frame, sent, turn, client', os')"
    and inv: "in_step have client" and waits: "list_all ar_wait_ok (uc_rounds uc)" and data: "au_data unit \<noteq> []"
  shows "case frame of
       Some (frame_id, idr, data) \<Rightarrow> (idr \<or> have \<and> \<not> au_packet_loss unit) \<and> in_step sent client'
     | None \<Rightarrow> in_step ((have \<and> \<not> au_packet_loss unit) \<and> \<not> is_picture unit) client'"
proof (cases "unit_should_send unit (note_unit alloc (uc_received_at uc) unit client)")
  case False
  then have f: "frame = None" "client' = skip_unit unit (note_unit alloc (uc_received_at uc) unit client)"
    using run data by (simp_all add: video_unit_def)
  then show ?thesis
    using False inv by (auto simp: unit_should_send_def in_step_def is_picture_def frame_flow_avc_should_send_def)
next
  case True
  then have l: "\<not> au_packet_loss unit" "unit_idr unit \<or> \<not> cl_need_idr client" "\<not> cl_stopping client" "cl_gfx_ready client"
    by (auto simp: unit_should_send_def frame_flow_avc_should_send_def)
  have s: "send_unit alloc server uc unit (note_unit alloc (uc_received_at uc) unit client) os = Some (frame, sent, turn, client', os')"
    using run data True by (simp add: video_unit_def)
  from send_unit_in_step [OF s _ _ waits] l inv show ?thesis
    by (cases frame) (auto simp: in_step_def)
qed

definition reads_ok :: "(bool + VideoSourceAccessUnit \<times> UnitContext) list \<Rightarrow> bool" where
  "reads_ok reads \<longleftrightarrow> list_all (\<lambda>r. case r of Inl again \<Rightarrow> True
     | Inr (unit, uc) \<Rightarrow> au_data unit \<noteq> [] \<and> list_all ar_wait_ok (uc_rounds uc)) reads"

lemma video_thread_referenced:
  "in_step have client \<Longrightarrow> reads_ok reads \<Longrightarrow> has_reference have (fst (video_thread alloc server reads client os))"
proof (induction alloc server reads client os arbitrary: "have" rule: video_thread.induct)
  case (2 alloc server again rest client os)
  then show ?case by (auto simp: reads_ok_def)
next
  case (3 alloc server unit uc rest client os)
  show ?case
  proof (cases "client_should_stop client \<or> video_unit alloc server uc unit client os = None")
    case True
    then show ?thesis by auto
  next
    case False
    then obtain frame sent turn client1 os1 where
      u: "video_unit alloc server uc unit client os = Some (frame, sent, turn, client1, os1)" and ns: "\<not> client_should_stop client"
      by (auto simp: not_None_eq)
    have "list_all ar_wait_ok (uc_rounds uc)" "au_data unit \<noteq> []" "reads_ok rest"
      using "3.prems"(2) by (simp_all add: reads_ok_def)
    note step = video_unit_in_step [OF u "3.prems"(1) this(1,2)]
    obtain log rest_state where v: "video_thread alloc server rest client1 os1 = (log, rest_state)"
      by (rule prod.exhaust)
    have ih: "has_reference h log" if "in_step h client1" "turn \<noteq> Leave" for h
      using "3.IH" [OF _ u refl refl refl refl that(2)] that \<open>reads_ok rest\<close> ns v by simp
    show ?thesis
      using step ih u ns v by (cases turn; cases frame) (auto simp: Let_def)
  qed
qed simp

text \<open>
  C37: the client never has to decode a frame whose reference it does not have. From the moment the
  capabilities are confirmed for AVC420, in every run of the video thread - any access units, losses,
  acknowledgements, stops, flow control decisions and failing submissions - a predicted frame is
  submitted only after a key frame, with no loss, skipped picture or failed submission in between.
  (The waits of the admission loop do not fail.)
\<close>

theorem gfx_frames_referenced:
  assumes "on_gfx_caps_advertise gc ga caps client server os = (GFX_OK, commands, client1, server1, os1)"
    and "\<not> cl_gfx_uses_progressive client1" and "reads_ok reads"
  shows "has_reference False (fst (video_thread alloc server1 reads client1 os1))"
proof -
  have "cl_gfx_ready client1 \<and> cl_need_idr client1"
    using assms(1,2)
    by (auto simp: on_gfx_caps_advertise_def gfx_failure_def Let_def split: if_splits option.splits prod.splits)
  then have "in_step False client1" by (simp add: in_step_def)
  then show ?thesis using assms(3) by (rule video_thread_referenced)
qed

section \<open>Samples\<close>

definition sample_constants :: GfxConstants where
  "sample_constants = \<lparr>RDPGFX_CAPVERSION_107 = 0x000A0701, RDPGFX_CAPVERSION_106 = 0x000A0601,
     RDPGFX_CAPVERSION_106_ERR = 0x000A0600, RDPGFX_CAPVERSION_105 = 0x000A0502, RDPGFX_CAPVERSION_104 = 0x000A0400,
     RDPGFX_CAPVERSION_103 = 0x000A0301, RDPGFX_CAPVERSION_102 = 0x000A0200, RDPGFX_CAPVERSION_101 = 0x000A0100,
     RDPGFX_CAPVERSION_10 = 0x000A0002, RDPGFX_CAPVERSION_81 = 0x00080105, RDPGFX_CAPVERSION_8 = 0x00080004,
     RDPGFX_CAPS_FLAG_AVC420_ENABLED = 0x10, RDPGFX_CAPS_FLAG_AVC_DISABLED = 0x20\<rparr>"

definition sample_caps :: "RDPGFX_CAPSET list" where
  "sample_caps = [\<lparr>cap_version = 0x00080004, cap_flags = 0\<rparr>, \<lparr>cap_version = 0x00080105, cap_flags = 0x10\<rparr>]"

definition sample_answers :: GfxAnswers where
  "sample_answers = \<lparr>ga_caps_confirm = Some 0, ga_create_surface = Some 0, ga_map_surface = Some 0,
     ga_progressive = True, ga_progressive_reset = True, ga_thread = True\<rparr>"

definition sample_round :: "u64 \<Rightarrow> AvcRound" where
  "sample_round now = \<lparr>ar_events = [], ar_now = now, ar_wait_ok = True\<rparr>"

definition sample_context :: UnitContext where
  "sample_context = \<lparr>uc_received_at = 5, uc_rounds = [sample_round 5],
     uc_send = \<lparr>sd_started = 5, sd_answer = Some 0, sd_events = [], sd_done = 6\<rparr>\<rparr>"

definition sample_unit :: "u32 \<Rightarrow> bool \<Rightarrow> VideoSourceAccessUnit" where
  "sample_unit types loss = empty_access_unit\<lparr>au_data := [0, 0, 0, 1, 0x41, 1], au_nal_types := types, au_packet_loss := loss\<rparr>"

definition sample_reads :: "(bool + VideoSourceAccessUnit \<times> UnitContext) list" where
  "sample_reads = [Inr (sample_unit 2 False, sample_context), Inr (sample_unit 32 False, sample_context), Inl True,
     Inr (sample_unit 2 False, sample_context), Inr (sample_unit 2 True, sample_context), Inr (sample_unit 2 False, sample_context)]"

lemma sample_caps_confirmed:
  "on_gfx_caps_advertise sample_constants sample_answers sample_caps sample_client sample_server sample_transport_os =
    (GFX_OK, [CapsConfirm \<lparr>cap_version = 0x00080105, cap_flags = 0x10\<rparr>, CreateSurface 1 1920 1080, MapSurfaceToOutput 1],
     sample_client\<lparr>cl_gfx_ready := True, cl_video_thread := True\<rparr>,
     sample_server\<lparr>sv_transport := sample_transport\<lparr>tr_stream_requested := True\<rparr>\<rparr>, sample_transport_os)"
  by (simp add: on_gfx_caps_advertise_def client_select_gfx_cap_def select_pass_def preferred_versions_def
      client_cap_supports_avc420_def sample_constants_def sample_caps_def sample_answers_def sample_client_def
      gfx_failure_def sample_server_def gateway_config_defaults_def server_set_stream_requested_def
      agent_transport_set_stream_requested_def capture_def sample_transport_defs Let_def)


theorem gfx_frames_referenced_witness:
  "reads_ok sample_reads \<and>
   has_reference False (fst (video_thread (\<lambda>n. True) (sample_server\<lparr>sv_transport := sample_transport\<lparr>tr_stream_requested := True\<rparr>\<rparr>)
     sample_reads (sample_client\<lparr>cl_gfx_ready := True, cl_video_thread := True\<rparr>) sample_transport_os))"
proof -
  have "reads_ok sample_reads"
    by (simp add: reads_ok_def sample_reads_def sample_unit_def sample_context_def sample_round_def)
  moreover have "\<not> cl_gfx_uses_progressive (sample_client\<lparr>cl_gfx_ready := True, cl_video_thread := True\<rparr>)"
    by (simp add: sample_client_def)
  ultimately show ?thesis
    using gfx_frames_referenced [OF sample_caps_confirmed] by blast
qed

section \<open>An acknowledgement that comes too early\<close>

text \<open>
  The frame is entered into the list of frames in flight only after it was submitted. When its
  acknowledgement is handled in between, the frame is entered after all and stays there: three such
  frames, all acknowledged, block the flow.
\<close>

definition early_ack :: "u32 \<Rightarrow> AvcSend" where
  "early_ack frame_id = \<lparr>sd_started = 5, sd_answer = Some 0, sd_events = [Ack frame_id 0 6 6], sd_done = 7\<rparr>"

lemma early_acks_block:
  "let send = (\<lambda>n client. snd (snd (send_avc420_frame (early_ack n) [0, 0, 0, 1, 0x65] 1 1 5 True client)));
       client = send 2 (send 1 (send 0 (sample_client\<lparr>cl_gfx_ready := True\<rparr>)))
   in map fst (in_flight (cl_frame_flow client)) = [0, 1, 2] \<and> frame_flow_blocked (cl_frame_flow client)"
  by code_simp

end
