(* ===== verification/RdpInput.thy ===== *)
theory RdpInput
  imports GatewayServer
begin

text \<open>
  The input callbacks of an RDP client (\<open>rdp_input.c\<close>): FreeRDP calls them for each event, they pass
  it through the input router and send the control message to the agent. A moved pointer is also
  echoed to the RDP client. Log texts are left out; the flags that keep them from repeating are kept.
\<close>

section \<open>State\<close>

text \<open>The fields of \<open>struct Client\<close> that only this code uses.\<close>

record InputClient = Client +
  ci_output_lock_ready :: bool
  ci_keyboard_input_logged :: bool
  ci_pointer_input_logged :: bool
  ci_pointer_position_logged :: bool
  ci_wheel_input_logged :: bool

text \<open>
  The keyboard flags of the FreeRDP headers. Their pointer flags and the wheel mask have the names and values
  of those in \<open>hid.c\<close>: both are the bits of the RDP protocol.
\<close>

record KbdConstants =
  KBD_FLAGS_EXTENDED :: u16
  KBD_FLAGS_RELEASE :: u16

section \<open>Sending\<close>

definition client_send_input_message :: "Server \<Rightarrow> InputRouterMessage \<Rightarrow> TransportOs \<Rightarrow> bool \<times> TransportOs" where
  "client_send_input_message server message os =
     (if irm_type message = 0 then (True, os)
      else server_send_control server (irm_type message) (Some (irm_payload message)) (irm_length message) os)"

text \<open>
  The echo of the pointer position. The answers say whether FreeRDP has the position and the system
  pointer callback, whether the output lock was free, and whether the position was written. The first
  component lists the updates sent to the RDP client.
\<close>

datatype pointer_update = PointerSystem | PointerPosition u16 u16

record PointerAnswers =
  pa_position :: bool
  pa_lock :: bool
  pa_system :: bool
  pa_wrote :: bool

definition client_send_pointer_position ::
  "PointerAnswers \<Rightarrow> u16 \<Rightarrow> u16 \<Rightarrow> 'a InputClient_scheme \<Rightarrow> pointer_update list \<times> 'a InputClient_scheme" where
  "client_send_pointer_position pa x y client =
     (if \<not> pa_position pa then ([], client)
      else if ci_output_lock_ready client \<and> \<not> pa_lock pa then ([], client)
      else
        let updates = (if \<not> ci_pointer_position_logged client \<and> pa_system pa then [PointerSystem] else []) @
                      [PointerPosition (hid_clamp_absolute x (cl_render_width client))
                                       (hid_clamp_absolute y (cl_render_height client))]
        in if \<not> pa_wrote pa then (updates, client)
           else (updates, client\<lparr>cl_stats := (cl_stats client)\<lparr>
                   cs_pointer_position_updates := cs_pointer_position_updates (cl_stats client) + 1\<rparr>,
                   ci_pointer_position_logged := True\<rparr>))"

section \<open>Keyboard\<close>

definition on_keyboard ::
  "KbdConstants \<Rightarrow> Server \<Rightarrow> u16 \<Rightarrow> byte \<Rightarrow> 'a InputClient_scheme \<Rightarrow> TransportOs \<Rightarrow> bool \<times> 'a InputClient_scheme \<times> TransportOs" where
  "on_keyboard kc server flags code client os =
     (let raw_extended = (flags AND KBD_FLAGS_EXTENDED kc \<noteq> 0);
          release = (flags AND KBD_FLAGS_RELEASE kc \<noteq> 0);
          (router, message) = input_router_keyboard (cl_input_router client) code raw_extended release;
          client1 = client\<lparr>cl_input_router := router\<rparr>;
          (sent, os1) = client_send_input_message server message os
      in (sent, if sent \<and> \<not> ci_keyboard_input_logged client1 then client1\<lparr>ci_keyboard_input_logged := True\<rparr> else client1, os1))"

definition on_unicode_keyboard ::
  "KbdConstants \<Rightarrow> Server \<Rightarrow> u16 \<Rightarrow> u16 \<Rightarrow> 'a InputClient_scheme \<Rightarrow> TransportOs \<Rightarrow> bool \<times> 'a InputClient_scheme \<times> TransportOs" where
  "on_unicode_keyboard kc server flags code client os =
     (case input_router_unicode (cl_input_router client) code (flags AND KBD_FLAGS_RELEASE kc \<noteq> 0) of
        (accepted, message) \<Rightarrow>
          if \<not> accepted then (False, client, os)
          else if irm_type message = 0 then (True, client, os)
          else case client_send_input_message server message os of (sent, os1) \<Rightarrow> (sent, client, os1))"

section \<open>Synchronisation\<close>

definition client_release_all_inputs ::
  "Server \<Rightarrow> 'a Client_scheme \<Rightarrow> TransportOs \<Rightarrow> bool \<times> 'a Client_scheme \<times> TransportOs" where
  "client_release_all_inputs server client os =
     (let (router, message) = input_router_release_all (cl_input_router client);
          (sent, os1) = client_send_input_message server message os
      in (sent, client\<lparr>cl_input_router := router\<rparr>, os1))"

definition on_synchronize ::
  "Server \<Rightarrow> u32 \<Rightarrow> 'a Client_scheme \<Rightarrow> TransportOs \<Rightarrow> bool \<times> 'a Client_scheme \<times> TransportOs" where
  "on_synchronize server toggle_states client os =
     (let (router, output) = input_router_synchronize (cl_input_router client);
          (sent, os1) = client_send_input_message server output os
      in (sent, client\<lparr>cl_input_router := router\<rparr>, os1))"

section \<open>Pointer\<close>

definition on_mouse ::
  "Server \<Rightarrow> PointerAnswers \<Rightarrow> u16 \<Rightarrow> u16 \<Rightarrow> u16 \<Rightarrow> 'a InputClient_scheme \<Rightarrow> TransportOs \<Rightarrow>
     bool \<times> pointer_update list \<times> 'a InputClient_scheme \<times> TransportOs" where
  "on_mouse server pa flags x y client os =
     (let has_wheel = (flags AND (PTR_FLAGS_WHEEL OR PTR_FLAGS_HWHEEL) \<noteq> 0);
          (router, message) = input_router_absolute_pointer (cl_input_router client) x y flags has_wheel;
          client1 = client\<lparr>cl_input_router := router\<rparr>;
          (updates, client2) = (if \<not> has_wheel then client_send_pointer_position pa x y client1 else ([], client1));
          (sent, os1) = client_send_input_message server message os;
          client3 = (if sent \<and> \<not> has_wheel \<and> \<not> ci_pointer_input_logged client2
                     then client2\<lparr>ci_pointer_input_logged := True\<rparr> else client2);
          client4 = (if sent \<and> has_wheel \<and> \<not> ci_wheel_input_logged client3
                     then client3\<lparr>ci_wheel_input_logged := True\<rparr> else client3)
      in (sent, updates, client4, os1))"

definition on_extended_mouse ::
  "Server \<Rightarrow> PointerAnswers \<Rightarrow> u16 \<Rightarrow> u16 \<Rightarrow> u16 \<Rightarrow> 'a InputClient_scheme \<Rightarrow> TransportOs \<Rightarrow>
     bool \<times> pointer_update list \<times> 'a InputClient_scheme \<times> TransportOs" where
  "on_extended_mouse server pa flags x y client os =
     on_mouse server pa (hid_pointer_flags_from_extended flags) x y client os"

text \<open>A vertical wheel event with a horizontal distance only is turned into a horizontal one.\<close>

definition relative_wheel_flags :: "u16 \<Rightarrow> u16 \<Rightarrow> u16 \<Rightarrow> u16" where
  "relative_wheel_flags flags x_delta y_delta =
     (let vertical_wheel = (flags AND PTR_FLAGS_WHEEL \<noteq> 0); horizontal_wheel = (flags AND PTR_FLAGS_HWHEEL \<noteq> 0)
      in if \<not> horizontal_wheel \<and> vertical_wheel \<and> x_delta \<noteq> 0 \<and> y_delta = 0
         then let flags1 = (flags AND NOT (PTR_FLAGS_WHEEL OR WHEEL_ROTATION_MASK)) OR PTR_FLAGS_HWHEEL OR
                             (flags AND WHEEL_ROTATION_MASK)
              in if x_delta <s 0 then flags1 OR PTR_FLAGS_WHEEL_NEGATIVE else flags1 AND NOT PTR_FLAGS_WHEEL_NEGATIVE
         else flags)"

definition on_relative_mouse ::
  "Server \<Rightarrow> u16 \<Rightarrow> u16 \<Rightarrow> u16 \<Rightarrow> 'a InputClient_scheme \<Rightarrow> TransportOs \<Rightarrow> bool \<times> 'a InputClient_scheme \<times> TransportOs" where
  "on_relative_mouse server flags0 x_delta y_delta client os =
     (let flags = relative_wheel_flags flags0 x_delta y_delta;
          has_wheel = (flags AND (PTR_FLAGS_WHEEL OR PTR_FLAGS_HWHEEL) \<noteq> 0);
          (router, message) = input_router_relative_pointer (cl_input_router client) x_delta y_delta flags has_wheel;
          client1 = client\<lparr>cl_input_router := router\<rparr>;
          (sent, os1) = client_send_input_message server message os
      in (sent, if sent \<and> has_wheel \<and> \<not> ci_wheel_input_logged client1
                then client1\<lparr>ci_wheel_input_logged := True\<rparr> else client1, os1))"

section \<open>A run of events\<close>

datatype rdp_event =
    KeyboardEvent u16 byte
  | UnicodeEvent u16 u16
  | SynchronizeEvent u32
  | MouseEvent u16 u16 u16
  | ExtendedMouseEvent u16 u16 u16
  | RelativeMouseEvent u16 u16 u16
  | ReleaseInputs

text \<open>The peer thread calls the handlers one after the other.\<close>

fun rdp_input ::
  "KbdConstants \<Rightarrow> Server \<Rightarrow> PointerAnswers \<Rightarrow> rdp_event \<Rightarrow> 'a InputClient_scheme \<Rightarrow> TransportOs \<Rightarrow> bool \<times> 'a InputClient_scheme \<times> TransportOs" where
  "rdp_input kc server pa (KeyboardEvent flags code) client os = on_keyboard kc server flags code client os"
| "rdp_input kc server pa (UnicodeEvent flags code) client os = on_unicode_keyboard kc server flags code client os"
| "rdp_input kc server pa (SynchronizeEvent toggles) client os = on_synchronize server toggles client os"
| "rdp_input kc server pa (MouseEvent flags x y) client os =
     (case on_mouse server pa flags x y client os of (sent, _, r) \<Rightarrow> (sent, r))"
| "rdp_input kc server pa (ExtendedMouseEvent flags x y) client os =
     (case on_extended_mouse server pa flags x y client os of (sent, _, r) \<Rightarrow> (sent, r))"
| "rdp_input kc server pa (RelativeMouseEvent flags dx dy) client os = on_relative_mouse server flags dx dy client os"
| "rdp_input kc server pa ReleaseInputs client os = client_release_all_inputs server client os"

fun rdp_inputs ::
  "KbdConstants \<Rightarrow> Server \<Rightarrow> (rdp_event \<times> PointerAnswers) list \<Rightarrow> 'a InputClient_scheme \<Rightarrow> TransportOs \<Rightarrow>
     bool list \<times> 'a InputClient_scheme \<times> TransportOs" where
  "rdp_inputs kc server [] client os = ([], client, os)"
| "rdp_inputs kc server ((event, pa) # rest) client os =
     (case rdp_input kc server pa event client os of
        (sent, client1, os1) \<Rightarrow>
          case rdp_inputs kc server rest client1 os1 of (results, r) \<Rightarrow> (sent # results, r))"

text \<open>A new client.\<close>

definition sample_input_client :: InputClient where
  "sample_input_client = Client.extend sample_client
     \<lparr>ci_output_lock_ready = False, ci_keyboard_input_logged = False, ci_pointer_input_logged = False,
      ci_pointer_position_logged = False, ci_wheel_input_logged = False\<rparr>"

end
