(* ===== verification/InputPath.thy ===== *)
theory InputPath
  imports RdpInput AgentSafety
begin

text \<open>
  From an RDP event to the HID output of the agent. An abstract account of what a run of RDP events
  asks of the host, and the lemmas that the messages the gateway sends for it (\<open>rdp_input.c\<close>,
  \<open>input_router.c\<close>, \<open>agent_transport.c\<close>, \<open>protocol.c\<close>) make the agent (\<open>agent.c\<close>) do exactly that.
\<close>

section \<open>What the events ask for\<close>

datatype hid_request =
    KeyRequest byte bool bool
  | TextRequest "byte list"
  | AbsoluteRequest u16 u16 u16 u16 u16
  | RelativeRequest int int byte
  | WheelRequest u16
  | SynchronizeRequest
  | ReleaseRequest

definition wheel_event :: "u16 \<Rightarrow> bool" where
  "wheel_event flags \<longleftrightarrow> flags AND (PTR_FLAGS_WHEEL OR PTR_FLAGS_HWHEEL) \<noteq> 0"

definition absolute_request :: "InputRouter \<Rightarrow> u16 \<Rightarrow> u16 \<Rightarrow> u16 \<Rightarrow> hid_request" where
  "absolute_request screen flags x y =
     (if wheel_event flags then WheelRequest flags
      else AbsoluteRequest (hid_clamp_absolute x (ir_width screen)) (hid_clamp_absolute y (ir_height screen))
             (ir_width screen) (ir_height screen) flags)"

text \<open>\<open>screen\<close> gives the desktop size and the key swap; \<open>buttons\<close> are those held before the event.\<close>

fun event_request :: "KbdConstants \<Rightarrow> InputRouter \<Rightarrow> byte \<Rightarrow> rdp_event \<Rightarrow> hid_request option" where
  "event_request kc screen buttons (KeyboardEvent flags code) =
     (case hid_map_scancode code (flags AND KBD_FLAGS_EXTENDED kc \<noteq> 0) (ir_swap_alt_command screen) of
        (c, e) \<Rightarrow> Some (KeyRequest c e (flags AND KBD_FLAGS_RELEASE kc \<noteq> 0)))"
| "event_request kc screen buttons (UnicodeEvent flags code) =
     (if flags AND KBD_FLAGS_RELEASE kc \<noteq> 0 then None else map_option TextRequest (utf8_encode (ucast code)))"
| "event_request kc screen buttons (SynchronizeEvent toggles) = Some SynchronizeRequest"
| "event_request kc screen buttons (MouseEvent flags x y) = Some (absolute_request screen flags x y)"
| "event_request kc screen buttons (ExtendedMouseEvent flags x y) =
     Some (absolute_request screen (hid_pointer_flags_from_extended flags) x y)"
| "event_request kc screen buttons (RelativeMouseEvent flags dx dy) =
     (let wheel = relative_wheel_flags flags dx dy in
      Some (if wheel_event wheel then WheelRequest wheel
            else RelativeRequest (sint dx) (sint dy) (hid_pointer_buttons buttons wheel)))"
| "event_request kc screen buttons ReleaseInputs = Some ReleaseRequest"

fun buttons_after :: "byte \<Rightarrow> rdp_event \<Rightarrow> byte" where
  "buttons_after buttons (KeyboardEvent flags code) = buttons"
| "buttons_after buttons (UnicodeEvent flags code) = buttons"
| "buttons_after buttons (SynchronizeEvent toggles) = 0"
| "buttons_after buttons (MouseEvent flags x y) =
     (if wheel_event flags then buttons else hid_pointer_buttons buttons flags)"
| "buttons_after buttons (ExtendedMouseEvent flags x y) =
     (if wheel_event (hid_pointer_flags_from_extended flags) then buttons
      else hid_pointer_buttons buttons (hid_pointer_flags_from_extended flags))"
| "buttons_after buttons (RelativeMouseEvent flags dx dy) =
     (let wheel = relative_wheel_flags flags dx dy in
      if wheel_event wheel then buttons else hid_pointer_buttons buttons wheel)"
| "buttons_after buttons ReleaseInputs = 0"

fun session_requests :: "KbdConstants \<Rightarrow> InputRouter \<Rightarrow> byte \<Rightarrow> rdp_event list \<Rightarrow> hid_request list" where
  "session_requests kc screen buttons [] = []"
| "session_requests kc screen buttons (event # rest) =
     (case event_request kc screen buttons event of None \<Rightarrow> [] | Some r \<Rightarrow> [r]) @
     session_requests kc screen (buttons_after buttons event) rest"

section \<open>What the agent does for a request\<close>

fun perform :: "hid_request \<Rightarrow> Agent \<Rightarrow> AgentOs \<Rightarrow> bool \<times> Agent \<times> AgentOs" where
  "perform (KeyRequest code extended release) agent aos = on_hid (\<lambda>hid. hid_scancode hid code extended release) agent aos"
| "perform (TextRequest bytes) agent aos =
     (case on_hid (\<lambda>hid. hid_type_utf8 hid bytes) agent aos of
        (ok, agent1, aos1) \<Rightarrow> (True, if ok then (agent1, aos1) else agent_release_all agent1 aos1))"
| "perform (AbsoluteRequest x y w h flags) agent aos = on_hid (\<lambda>hid. hid_absolute hid x y (ucast w) (ucast h) flags) agent aos"
| "perform (RelativeRequest dx dy buttons) agent aos = on_hid (\<lambda>hid. hid_relative hid dx dy buttons) agent aos"
| "perform (WheelRequest flags) agent aos = on_hid (\<lambda>hid. hid_wheel hid flags) agent aos"
| "perform SynchronizeRequest agent aos = on_hid hid_synchronize agent aos"
| "perform ReleaseRequest agent aos = (True, agent_release_all agent aos)"

text \<open>A received control message that the agent handles as a request.\<close>

definition carries :: "NanokvmControlMessage \<Rightarrow> hid_request \<Rightarrow> bool" where
  "carries message request \<longleftrightarrow> (\<forall>agent aos. dispatch_control message agent aos = perform request agent aos)"

section \<open>What is sent\<close>

definition sent_bytes :: "u64 \<Rightarrow> TransportOs \<Rightarrow> byte list" where
  "sent_bytes epoch os =
     concat (map (\<lambda>effect. case effect of SentOn e bytes \<Rightarrow> if e = epoch then bytes else [] | _ \<Rightarrow> []) (to_effects os))"

text \<open>The frame of a router message.\<close>

definition message_pair :: "InputRouterMessage \<Rightarrow> byte \<times> byte list" where
  "message_pair m = (irm_type m, take (unat (irm_length m)) (irm_payload m))"

definition message_fits :: "InputRouterMessage \<Rightarrow> bool" where
  "message_fits m \<longleftrightarrow> irm_type m \<noteq> 0 \<and> unat (irm_length m) \<le> length (irm_payload m) \<and> length (irm_payload m) \<le> 1024"

lemma sent_bytes_effects:
  "sent_bytes epoch (effects es os) = sent_bytes epoch os @ sent_bytes epoch (os\<lparr>to_effects := es\<rparr>)"
  by (simp add: sent_bytes_def effects_def)

lemma write_message_frame:
  assumes "write_message epoch type (Some payload) len os = (True, os')" "unat len \<le> length payload" "length payload \<le> 1024"
  shows "sent_bytes epoch os' = sent_bytes epoch os @ control_frame (type, take (unat len) payload)"
proof -
  obtain answers later where a: "(case to_writes os of [] \<Rightarrow> ([Wrote 2000], []) | a # as \<Rightarrow> (a @ [WriteErr EAGAIN], as)) = (answers, later)"
    by (rule prod.exhaust)
  have valid: "\<not> unat len > NANOKVM_CONTROL_MAX_PAYLOAD" using assms(2,3) by (simp add: protocol_consts)
  let ?frame = "[NANOKVM_PROTOCOL_VERSION, type] @ protocol_write_u16 len @ take (unat len) payload"
  from assms(1) a valid obtain bytes closed rest where
    p: "write_all answers ?frame = Some (True, bytes, rest)" "os' = effects [SentOn epoch bytes] (os\<lparr>to_writes := later\<rparr>)"
    by (auto simp: write_message_def protocol_send_def Let_def split: option.splits simp del: append_Cons)
  from write_all_prefix [OF p(1)] have "bytes = ?frame" by auto
  moreover have "?frame = control_frame (type, take (unat len) payload)"
    using assms(2) by (simp add: control_frame_def write_u16_two be16_def min_absorb2)
  ultimately show ?thesis using p(2) by (simp add: sent_bytes_def effects_def)
qed

lemma send_for_epoch_frame:
  assumes "send_for_epoch t fd epoch type (Some payload) len os = (True, os')"
    and "unat len \<le> length payload" "length payload \<le> 1024"
  shows "sent_bytes epoch os' = sent_bytes epoch os @ control_frame (type, take (unat len) payload)"
proof -
  obtain d os1 where d: "(if is_current_locked t fd epoch then dup_fd os else (-1, os)) = (d, os1)" by force
  then have os1: "to_effects os1 = to_effects os" by (auto split: if_splits dest: dup_fd_effects)
  define os2 where "os2 = (if cb_send_started (tr_callbacks t) then effects [SendStarted d epoch] os1 else os1)"
  have same: "sent_bytes epoch os2 = sent_bytes epoch os" using os1 by (simp add: os2_def sent_bytes_def effects_def)
  obtain sent os3 where w: "write_message epoch type (Some payload) len os2 = (sent, os3)" by force
  from assms(1) d w have s: "sent" "os' = effects [CloseFd d] os3"
    by (auto simp: send_for_epoch_def os2_def Let_def split: if_splits)
  from write_message_frame [OF _ assms(2,3), of epoch type os2 os3] w s same show ?thesis
    by (simp add: sent_bytes_def effects_def)
qed

lemma input_message_frame:
  assumes "client_send_input_message server m os = (True, os')" "message_fits m"
  shows "sent_bytes (tr_epoch (sv_transport server)) os' =
         sent_bytes (tr_epoch (sv_transport server)) os @ control_frame (message_pair m)"
  using assms send_for_epoch_frame [of "sv_transport server" "tr_fd (sv_transport server)" "tr_epoch (sv_transport server)"]
  by (auto simp: client_send_input_message_def server_send_control_def agent_transport_send_def capture_def message_fits_def
      message_pair_def split: if_splits)

lemma message_pair_wf: "message_fits m \<Longrightarrow> control_wf (message_pair m)"
  by (simp add: message_fits_def message_pair_def control_wf_def protocol_consts)

section \<open>The messages carry the requests\<close>

lemma wire_pair: "on_the_wire m = Protocol.delivered (message_pair m) empty_message"
  by (simp add: on_the_wire_def message_pair_def)

lemma keyboard_carries:
  assumes "input_router_keyboard router code ext release = (router', m)"
    and "hid_map_scancode code ext (ir_swap_alt_command router) = (c, e)"
  shows "carries (on_the_wire m) (KeyRequest c e release)" "message_fits m"
    and "router' = router\<lparr>ir_keyboard_modifiers := ir_keyboard_modifiers router', ir_control_space_down := ir_control_space_down router'\<rparr>"
  using assms key_path [OF assms(2), of release]
  by (auto simp: carries_def message_fits_def input_router_keyboard_def Let_def protocol_consts split: if_splits option.splits)

lemma absolute_carries:
  assumes "input_router_absolute_pointer router x y flags (wheel_event flags) = (router', m)"
  shows "carries (on_the_wire m) (absolute_request router flags x y)" "message_fits m"
    and "router' = router\<lparr>ir_pointer_buttons := buttons_after (ir_pointer_buttons router) (MouseEvent flags x y)\<rparr>"
proof -
  show "carries (on_the_wire m) (absolute_request router flags x y)"
    using assms absolute_path [of router x y flags] wheel_path [of flags]
    by (cases "wheel_event flags") (auto simp: carries_def absolute_request_def input_router_absolute_pointer_def)
  show "message_fits m"
    using assms by (auto simp: message_fits_def input_router_absolute_pointer_def wheel_message_def Let_def write_u16_two split: if_splits)
  show "router' = router\<lparr>ir_pointer_buttons := buttons_after (ir_pointer_buttons router) (MouseEvent flags x y)\<rparr>"
    using assms by (auto simp: input_router_absolute_pointer_def Let_def split: if_splits)
qed

lemma relative_carries:
  assumes "input_router_relative_pointer router dx dy flags (wheel_event flags) = (router', m)"
  shows "carries (on_the_wire m) (if wheel_event flags then WheelRequest flags
            else RelativeRequest (sint dx) (sint dy) (hid_pointer_buttons (ir_pointer_buttons router) flags))" "message_fits m"
    and "router' = router\<lparr>ir_pointer_buttons := (if wheel_event flags then ir_pointer_buttons router
            else hid_pointer_buttons (ir_pointer_buttons router) flags)\<rparr>"
proof -
  show "carries (on_the_wire m) (if wheel_event flags then WheelRequest flags
            else RelativeRequest (sint dx) (sint dy) (hid_pointer_buttons (ir_pointer_buttons router) flags))"
    using assms relative_path [of router dx dy flags] wheel_path [of flags]
    by (cases "wheel_event flags") (auto simp: carries_def input_router_relative_pointer_def)
  show "message_fits m"
    using assms by (auto simp: message_fits_def input_router_relative_pointer_def wheel_message_def Let_def write_u16_two split: if_splits)
  show "router' = router\<lparr>ir_pointer_buttons := (if wheel_event flags then ir_pointer_buttons router
            else hid_pointer_buttons (ir_pointer_buttons router) flags)\<rparr>"
    using assms by (auto simp: input_router_relative_pointer_def Let_def split: if_splits)
qed

lemma quiet_carries:
  "carries (on_the_wire (snd (input_router_synchronize router))) SynchronizeRequest"
  "carries (on_the_wire (snd (input_router_release_all router))) ReleaseRequest"
  "message_fits (snd (input_router_synchronize router))" "message_fits (snd (input_router_release_all router))"
proof -
  have quiet: "msg_type (on_the_wire (clear_message\<lparr>irm_type := t\<rparr>)) = t" for t
    by (simp add: on_the_wire_def Protocol.delivered_def)
  show "carries (on_the_wire (snd (input_router_synchronize router))) SynchronizeRequest"
    "carries (on_the_wire (snd (input_router_release_all router))) ReleaseRequest"
    by (simp_all add: carries_def dispatch_control_def input_router_synchronize_def input_router_release_all_def quiet)
  show "message_fits (snd (input_router_synchronize router))" "message_fits (snd (input_router_release_all router))"
    by (simp_all add: message_fits_def input_router_synchronize_def input_router_release_all_def clear_message_def)
qed

section \<open>Runs\<close>

definition same_screen :: "InputRouter \<Rightarrow> InputRouter \<Rightarrow> bool" where
  "same_screen r s \<longleftrightarrow> release_state r = release_state s"

lemma same_screen_fields:
  assumes "same_screen r s"
  shows "ir_width r = ir_width s" "ir_height r = ir_height s" "ir_swap_alt_command r = ir_swap_alt_command s"
  using assms by (auto simp: same_screen_def release_state_def dest: arg_cong [of _ _ ir_width] arg_cong [of _ _ ir_height]
      arg_cong [of _ _ ir_swap_alt_command])

lemma event_request_screen: "same_screen r s \<Longrightarrow> event_request kc r buttons event = event_request kc s buttons event"
  by (cases event) (simp_all add: same_screen_fields [of r s] absolute_request_def)

text \<open>What one successful handler sends.\<close>

definition sends_request :: "u64 \<Rightarrow> TransportOs \<Rightarrow> TransportOs \<Rightarrow> hid_request list \<Rightarrow> bool" where
  "sends_request epoch os os' requests \<longleftrightarrow>
     (\<exists>ms. sent_bytes epoch os' = sent_bytes epoch os @ concat (map control_frame ms) \<and> list_all control_wf ms \<and>
           list_all2 (\<lambda>m. carries (Protocol.delivered m empty_message)) ms requests)"

lemma sends_nothing: "sends_request epoch os os []"
  unfolding sends_request_def by (rule exI [of _ "[]"]) simp

lemma sends_trans:
  assumes "sends_request epoch os os1 rs" "sends_request epoch os1 os2 qs"
  shows "sends_request epoch os os2 (rs @ qs)"
proof -
  from assms obtain ms ns where
    "sent_bytes epoch os1 = sent_bytes epoch os @ concat (map control_frame ms)" "list_all control_wf ms"
    "list_all2 (\<lambda>m. carries (Protocol.delivered m empty_message)) ms rs"
    "sent_bytes epoch os2 = sent_bytes epoch os1 @ concat (map control_frame ns)" "list_all control_wf ns"
    "list_all2 (\<lambda>m. carries (Protocol.delivered m empty_message)) ns qs"
    unfolding sends_request_def by blast
  then show ?thesis unfolding sends_request_def by (intro exI [of _ "ms @ ns"]) (simp add: list_all2_appendI)
qed

lemma sends_message:
  assumes "client_send_input_message server m os = (True, os')" "message_fits m" "carries (on_the_wire m) r"
  shows "sends_request (tr_epoch (sv_transport server)) os os' [r]"
  unfolding sends_request_def using assms input_message_frame [OF assms(1,2)] message_pair_wf [OF assms(2)]
  by (intro exI [of _ "[message_pair m]"]) (simp add: wire_pair)

lemma pointer_position_router:
  "client_send_pointer_position pa x y client = (updates, client') \<Longrightarrow> cl_input_router client' = cl_input_router client"
  by (auto simp: client_send_pointer_position_def Let_def split: if_splits)

lemma mouse_step:
  assumes "on_mouse server pa flags x y client os = (True, updates, client', os')"
  shows "sends_request (tr_epoch (sv_transport server)) os os' [absolute_request (cl_input_router client) flags x y]"
    and "cl_input_router client' = (cl_input_router client)\<lparr>ir_pointer_buttons :=
           buttons_after (ir_pointer_buttons (cl_input_router client)) (MouseEvent flags x y)\<rparr>"
proof -
  obtain router m where r: "input_router_absolute_pointer (cl_input_router client) x y flags (wheel_event flags) = (router, m)"
    by (rule prod.exhaust)
  note c = absolute_carries [OF r]
  have s: "client_send_input_message server m os = (True, os')" and rt: "cl_input_router client' = router"
    using assms r
    by (auto simp: on_mouse_def wheel_event_def Let_def split: prod.splits if_splits dest: pointer_position_router)
  from sends_message [OF s c(2,1)]
  show "sends_request (tr_epoch (sv_transport server)) os os' [absolute_request (cl_input_router client) flags x y]" .
  from rt c(3) show "cl_input_router client' = (cl_input_router client)\<lparr>ir_pointer_buttons :=
           buttons_after (ir_pointer_buttons (cl_input_router client)) (MouseEvent flags x y)\<rparr>" by simp
qed

lemma relative_step:
  assumes "on_relative_mouse server flags dx dy client os = (True, client', os')"
  shows "sends_request (tr_epoch (sv_transport server)) os os'
           [the (event_request kc (cl_input_router client) (ir_pointer_buttons (cl_input_router client)) (RelativeMouseEvent flags dx dy))]"
    and "cl_input_router client' = (cl_input_router client)\<lparr>ir_pointer_buttons :=
           buttons_after (ir_pointer_buttons (cl_input_router client)) (RelativeMouseEvent flags dx dy)\<rparr>"
proof -
  let ?w = "relative_wheel_flags flags dx dy"
  obtain router m where r: "input_router_relative_pointer (cl_input_router client) dx dy ?w (wheel_event ?w) = (router, m)"
    by (rule prod.exhaust)
  note c = relative_carries [OF r]
  have s: "client_send_input_message server m os = (True, os')" and rt: "cl_input_router client' = router"
    using assms r by (auto simp: on_relative_mouse_def wheel_event_def Let_def split: prod.splits if_splits)
  from sends_message [OF s c(2,1)]
  show "sends_request (tr_epoch (sv_transport server)) os os'
           [the (event_request kc (cl_input_router client) (ir_pointer_buttons (cl_input_router client)) (RelativeMouseEvent flags dx dy))]"
    by (simp add: Let_def)
  from rt c(3) show "cl_input_router client' = (cl_input_router client)\<lparr>ir_pointer_buttons :=
           buttons_after (ir_pointer_buttons (cl_input_router client)) (RelativeMouseEvent flags dx dy)\<rparr>" by (simp add: Let_def)
qed

lemma keyboard_step:
  assumes "on_keyboard kc server flags code client os = (True, client', os')"
  shows "sends_request (tr_epoch (sv_transport server)) os os'
           [the (event_request kc (cl_input_router client) buttons (KeyboardEvent flags code))]"
    and "same_screen (cl_input_router client) (cl_input_router client')"
    and "ir_pointer_buttons (cl_input_router client') = ir_pointer_buttons (cl_input_router client)"
proof -
  let ?x = "flags AND KBD_FLAGS_EXTENDED kc \<noteq> 0" and ?r = "flags AND KBD_FLAGS_RELEASE kc \<noteq> 0"
  obtain router m where r: "input_router_keyboard (cl_input_router client) code ?x ?r = (router, m)" by (rule prod.exhaust)
  obtain c e where map: "hid_map_scancode code ?x (ir_swap_alt_command (cl_input_router client)) = (c, e)" by (rule prod.exhaust)
  note k = keyboard_carries [OF r map]
  have s: "client_send_input_message server m os = (True, os')" and rt: "cl_input_router client' = router"
    using assms r by (auto simp: on_keyboard_def Let_def split: prod.splits if_splits)
  from sends_message [OF s k(2,1)] map
  show "sends_request (tr_epoch (sv_transport server)) os os'
           [the (event_request kc (cl_input_router client) buttons (KeyboardEvent flags code))]" by simp
  have "release_state router = release_state (cl_input_router client)" by (subst k(3)) (simp add: release_state_def)
  then show "same_screen (cl_input_router client) (cl_input_router client')" by (simp add: same_screen_def rt)
  show "ir_pointer_buttons (cl_input_router client') = ir_pointer_buttons (cl_input_router client)"
    unfolding rt by (subst k(3)) simp
qed

lemma unicode_step:
  assumes "on_unicode_keyboard kc server flags code client os = (True, client', os')"
  shows "sends_request (tr_epoch (sv_transport server)) os os'
           (case event_request kc screen buttons (UnicodeEvent flags code) of None \<Rightarrow> [] | Some r \<Rightarrow> [r])"
    and "client' = client"
proof -
  let ?r = "flags AND KBD_FLAGS_RELEASE kc \<noteq> 0"
  show same: "client' = client" using assms by (auto simp: on_unicode_keyboard_def split: prod.splits if_splits)
  show "sends_request (tr_epoch (sv_transport server)) os os'
           (case event_request kc screen buttons (UnicodeEvent flags code) of None \<Rightarrow> [] | Some r \<Rightarrow> [r])"
  proof (cases ?r)
    case True
    with assms have "os' = os" by (simp add: on_unicode_keyboard_def input_router_unicode_def clear_message_def)
    with True show ?thesis by (simp add: sends_nothing)
  next
    case False
    obtain accepted m where m: "input_router_unicode (cl_input_router client) code False = (accepted, m)" by (rule prod.exhaust)
    with assms False have accepted by (auto simp: on_unicode_keyboard_def split: if_splits)
    with m have m: "input_router_unicode (cl_input_router client) code False = (True, m)" by simp
    note u = unicode_utf8 [OF m]
    have fits: "message_fits m" using u by (simp add: message_fits_def)
    with assms False m have s: "client_send_input_message server m os = (True, os')"
      by (auto simp: on_unicode_keyboard_def message_fits_def split: prod.splits)
    from text_path [OF m] u obtain bytes where "utf8_encode (ucast code) = Some bytes" "carries (on_the_wire m) (TextRequest bytes)"
      by (auto simp: carries_def)
    with sends_message [OF s fits] False show ?thesis by simp
  qed
qed

lemma quiet_step:
  assumes "client_send_input_message server (snd (input_router_synchronize router)) os = (True, os') \<and> r = SynchronizeRequest \<or>
           client_send_input_message server (snd (input_router_release_all router)) os = (True, os') \<and> r = ReleaseRequest"
  shows "sends_request (tr_epoch (sv_transport server)) os os' [r]"
  using assms sends_message quiet_carries by blast

lemma rdp_input_step:
  assumes "rdp_input kc server pa event client os = (True, client', os')"
  shows "sends_request (tr_epoch (sv_transport server)) os os'
           (case event_request kc (cl_input_router client) (ir_pointer_buttons (cl_input_router client)) event of
              None \<Rightarrow> [] | Some r \<Rightarrow> [r])"
    and "same_screen (cl_input_router client) (cl_input_router client') \<and>
         ir_pointer_buttons (cl_input_router client') = buttons_after (ir_pointer_buttons (cl_input_router client)) event"
proof -
  have "sends_request (tr_epoch (sv_transport server)) os os'
           (case event_request kc (cl_input_router client) (ir_pointer_buttons (cl_input_router client)) event of
              None \<Rightarrow> [] | Some r \<Rightarrow> [r]) \<and>
        same_screen (cl_input_router client) (cl_input_router client') \<and>
        ir_pointer_buttons (cl_input_router client') = buttons_after (ir_pointer_buttons (cl_input_router client)) event"
  proof (cases event)
    case (KeyboardEvent flags code)
    with assms have "on_keyboard kc server flags code client os = (True, client', os')" by simp
    from keyboard_step [OF this] KeyboardEvent show ?thesis by (auto split: prod.splits)
  next
    case (UnicodeEvent flags code)
    with assms have "on_unicode_keyboard kc server flags code client os = (True, client', os')" by simp
    from unicode_step [OF this] UnicodeEvent show ?thesis by (simp add: same_screen_def)
  next
    case (MouseEvent flags x y)
    with assms obtain u where "on_mouse server pa flags x y client os = (True, u, client', os')" by (auto split: prod.splits)
    from mouse_step [OF this] MouseEvent show ?thesis by (simp add: same_screen_def release_state_def)
  next
    case (ExtendedMouseEvent flags x y)
    with assms obtain u where "on_mouse server pa (hid_pointer_flags_from_extended flags) x y client os = (True, u, client', os')"
      by (auto simp: on_extended_mouse_def split: prod.splits)
    from mouse_step [OF this] ExtendedMouseEvent show ?thesis by (simp add: same_screen_def release_state_def)
  next
    case (RelativeMouseEvent flags dx dy)
    with assms have "on_relative_mouse server flags dx dy client os = (True, client', os')" by simp
    from relative_step(1) [OF this, of kc] relative_step(2) [OF this] RelativeMouseEvent show ?thesis by (simp add: same_screen_def release_state_def Let_def)
  next
    case (SynchronizeEvent toggles)
    with assms show ?thesis
      by (auto simp: on_synchronize_def input_router_synchronize_def same_screen_def release_state_def Let_def
          intro: quiet_step split: prod.splits)
  next
    case ReleaseInputs
    with assms show ?thesis
      by (auto simp: client_release_all_inputs_def input_router_release_all_def same_screen_def release_state_def Let_def
          intro: quiet_step split: prod.splits)
  qed
  then show "sends_request (tr_epoch (sv_transport server)) os os'
           (case event_request kc (cl_input_router client) (ir_pointer_buttons (cl_input_router client)) event of
              None \<Rightarrow> [] | Some r \<Rightarrow> [r])"
    and "same_screen (cl_input_router client) (cl_input_router client') \<and>
         ir_pointer_buttons (cl_input_router client') = buttons_after (ir_pointer_buttons (cl_input_router client)) event"
    by blast+
qed

lemma session_requests_screen:
  "same_screen r s \<Longrightarrow> session_requests kc r buttons events = session_requests kc s buttons events"
  by (induction events arbitrary: buttons) (simp_all add: event_request_screen [of r s])

lemma session_requests_length: "length (session_requests kc screen buttons events) \<le> length events"
  by (induction events arbitrary: buttons) (auto split: option.splits intro: le_SucI)

lemma rdp_inputs_sends:
  assumes "rdp_inputs kc server steps client os = (results, client', os')" "list_all (\<lambda>sent. sent) results"
  shows "sends_request (tr_epoch (sv_transport server)) os os'
           (session_requests kc (cl_input_router client) (ir_pointer_buttons (cl_input_router client)) (map fst steps))"
  using assms
proof (induction steps arbitrary: client os results)
  case Nil
  then show ?case by (simp add: sends_nothing)
next
  case (Cons step steps)
  obtain event pa where step: "step = (event, pa)" by (cases step)
  obtain sent client1 os1 where s: "rdp_input kc server pa event client os = (sent, client1, os1)" by (metis prod_cases3)
  obtain rs where r: "rdp_inputs kc server steps client1 os1 = (rs, client', os')" "results = sent # rs"
    using Cons.prems(1) s by (auto simp: step split: prod.splits)
  from Cons.prems(2) r have ok: "sent" "list_all (\<lambda>sent. sent) rs" by simp_all
  note one = rdp_input_step [OF s [unfolded ok(1) [THEN eqTrueI]]]
  from sends_trans [OF one(1) Cons.IH [OF r(1) ok(2)]] one(2) show ?case
    by (simp add: step session_requests_screen [of "cl_input_router client" "cl_input_router client1"])
qed

section \<open>Sample\<close>

definition sample_kbd :: KbdConstants where
  "sample_kbd = \<lparr>KBD_FLAGS_EXTENDED = 0x0100, KBD_FLAGS_RELEASE = 0x8000\<rparr>"

definition sample_agent_server :: Server where
  "sample_agent_server = sample_server\<lparr>sv_transport := sample_transport\<lparr>tr_fd := 7, tr_epoch := 1\<rparr>\<rparr>"

definition sample_pointer :: PointerAnswers where
  "sample_pointer = \<lparr>pa_position = True, pa_lock = True, pa_system = True, pa_wrote = True\<rparr>"

definition sample_click :: "(rdp_event \<times> PointerAnswers) list" where
  "sample_click = map (\<lambda>e. (e, sample_pointer))
     [KeyboardEvent 0 0x1e, MouseEvent 0x9000 5000 20, RelativeMouseEvent 0 3 0xffff, ReleaseInputs]"

definition sample_click_bytes :: "byte list" where
  "sample_click_bytes = [1, 5, 0, 3, 0x1e, 0, 0, 1, 6, 0, 12, 0x07, 0x7f, 0, 20, 0x07, 0x80, 0x04, 0x38, 0x90, 0, 0, 0, 1, 7, 0, 5, 0, 3, 0xff, 0xff, 1,
      1, 9, 0, 0]"

end
