(* ===== verification/FfmpegDecoder.thy ===== *)
theory FfmpegDecoder
  imports HttpApi
begin

text \<open>
  The decoder wrapper of the gateway (\<open>ffmpeg_decoder.c\<close>). The codec and the scaler are FFmpeg's:
  their answers are arguments. What is here is the geometry of the converted picture, its buffer, and
  the loops around the codec.
\<close>

section \<open>The converter\<close>

text \<open>\<open>fc_frame\<close> is empty for a null pointer.\<close>

record FfmpegConverter =
  fc_frame :: "byte list"
  fc_frame_size :: nat
  fc_scaled_width :: int
  fc_scaled_height :: int
  fc_width :: u16
  fc_height :: u16

definition empty_converter :: FfmpegConverter where
  "empty_converter = \<lparr>fc_frame = [], fc_frame_size = 0, fc_scaled_width = 0, fc_scaled_height = 0, fc_width = 0, fc_height = 0\<rparr>"

text \<open>
  The answers for one conversion: whether the scaler context and the colour details could be set, the
  rows that \<open>sws_scale\<close> wrote and the number it returned.
\<close>

record ScalerAnswers =
  sa_context :: bool
  sa_colorspace :: bool
  sa_rows :: "byte list list"
  sa_result :: int

text \<open>The largest size of the shape of the source within the output, at least one pixel.\<close>

definition fit_size :: "int \<Rightarrow> int \<Rightarrow> int \<Rightarrow> int \<Rightarrow> int \<times> int" where
  "fit_size source_width source_height output_width output_height =
     (let (width, height) =
            (if source_width * output_height > source_height * output_width
             then (output_width, source_height * output_width div source_width)
             else (source_width * output_height div source_height, output_height))
      in (if width < 1 then 1 else width, if height < 1 then 1 else height))"

definition resize_output :: "(byte list \<Rightarrow> nat \<Rightarrow> byte list option) \<Rightarrow> u16 \<Rightarrow> u16 \<Rightarrow> FfmpegConverter \<Rightarrow> FfmpegConverter option" where
  "resize_output realloc output_width output_height converter =
     (if fc_frame converter = [] \<or> fc_width converter \<noteq> output_width \<or> fc_height converter \<noteq> output_height
      then let frame_size = unat output_width * unat output_height * 4
           in map_option (\<lambda>frame. \<lparr>fc_frame = frame, fc_frame_size = frame_size, fc_scaled_width = 0, fc_scaled_height = 0,
                                  fc_width = output_width, fc_height = output_height\<rparr>)
                (realloc (fc_frame converter) frame_size)
      else Some converter)"

definition opaque_black :: "nat \<Rightarrow> byte list" where
  "opaque_black n = map (\<lambda>i. if i mod 4 = 3 then 255 else 0) [0..<n]"

definition clear_padding :: "int \<Rightarrow> int \<Rightarrow> FfmpegConverter \<Rightarrow> FfmpegConverter" where
  "clear_padding width height converter =
     (if fc_scaled_width converter \<noteq> width \<or> fc_scaled_height converter \<noteq> height
      then converter\<lparr>fc_frame := opaque_black (fc_frame_size converter), fc_scaled_width := width, fc_scaled_height := height\<rparr>
      else converter)"

text \<open>\<open>sws_scale\<close> writes its rows a stride apart.\<close>

fun write_rows :: "byte list \<Rightarrow> nat \<Rightarrow> nat \<Rightarrow> byte list list \<Rightarrow> byte list" where
  "write_rows frame offset stride [] = frame"
| "write_rows frame offset stride (row # rows) = write_rows (poke frame offset row) (offset + stride) stride rows"

definition output_offset :: "FfmpegConverter \<Rightarrow> int \<Rightarrow> int \<Rightarrow> nat" where
  "output_offset converter width height =
     nat ((uint (fc_height converter) - height) div 2) * (unat (fc_width converter) * 4) +
     nat ((uint (fc_width converter) - width) div 2) * 4"

definition ffmpeg_converter_convert ::
  "(byte list \<Rightarrow> nat \<Rightarrow> byte list option) \<Rightarrow> ScalerAnswers \<Rightarrow> AVFrame \<Rightarrow> u16 \<Rightarrow> u16 \<Rightarrow> FfmpegConverter \<Rightarrow> bool \<times> FfmpegConverter" where
  "ffmpeg_converter_convert realloc sa source output_width output_height converter =
     (if av_width source \<le> 0 \<or> av_height source \<le> 0 \<or> output_width = 0 \<or> output_height = 0 then (False, converter)
      else case resize_output realloc output_width output_height converter of
        None \<Rightarrow> (False, converter)
      | Some converter1 \<Rightarrow>
          let (width, height) = fit_size (av_width source) (av_height source) (uint output_width) (uint output_height)
          in if \<not> sa_context sa \<or> \<not> sa_colorspace sa then (False, converter1)
             else let converter2 = clear_padding width height converter1;
                      converter3 = converter2\<lparr>fc_frame := write_rows (fc_frame converter2)
                        (output_offset converter2 width height) (unat (fc_width converter2) * 4) (sa_rows sa)\<rparr>
                  in (sa_result sa = height, converter3))"

section \<open>The decoder\<close>

text \<open>What the codec answers; the error codes that the code tells apart.\<close>

datatype av_answer = Decoded AVFrame | AvAgain | AvEof | AvInvalid | AvFailed
datatype av_sent = Accepted | SendAgain | SendInvalid | SendFailed_av

text \<open>
  The loop that hands decoded pictures to the handler. \<open>None\<close>: the codec has not answered yet.
\<close>

fun decoder_receive ::
  "(AVFrame \<Rightarrow> 's \<Rightarrow> bool \<times> 's) \<Rightarrow> av_answer list \<Rightarrow> 's \<Rightarrow> (bool \<times> 's) option" where
  "decoder_receive handler [] s = None"
| "decoder_receive handler (answer # answers) s =
     (case answer of
        Decoded frame \<Rightarrow>
          (case handler frame s of (handled, s1) \<Rightarrow> if \<not> handled then Some (False, s1) else decoder_receive handler answers s1)
      | AvFailed \<Rightarrow> Some (False, s)
      | _ \<Rightarrow> Some (True, s))"

text \<open>One round per call of \<open>avcodec_send_packet\<close>, with the answers of the receive loop after it.\<close>

fun push_rounds ::
  "(AVFrame \<Rightarrow> 's \<Rightarrow> bool \<times> 's) \<Rightarrow> (av_sent \<times> av_answer list) list \<Rightarrow> 's \<Rightarrow> (bool \<times> 's) option" where
  "push_rounds handler [] s = None"
| "push_rounds handler ((SendAgain, answers) # rounds) s =
     (case decoder_receive handler answers s of
        None \<Rightarrow> None
      | Some (ok, s1) \<Rightarrow> if \<not> ok then Some (False, s1) else push_rounds handler rounds s1)"
| "push_rounds handler ((SendInvalid, answers) # rounds) s = Some (True, s)"
| "push_rounds handler ((SendFailed_av, answers) # rounds) s = Some (False, s)"
| "push_rounds handler ((Accepted, answers) # rounds) s = decoder_receive handler answers s"

text \<open>\<open>ready\<close>: the decoder is open; \<open>packet\<close>: \<open>av_new_packet\<close> succeeds.\<close>

definition ffmpeg_decoder_push ::
  "bool \<Rightarrow> bool \<Rightarrow> (AVFrame \<Rightarrow> 's \<Rightarrow> bool \<times> 's) \<Rightarrow> (av_sent \<times> av_answer list) list \<Rightarrow> byte list \<Rightarrow> 's \<Rightarrow> (bool \<times> 's) option" where
  "ffmpeg_decoder_push ready packet handler rounds data s =
     (if \<not> ready \<or> data = [] \<or> length data > 2147483647 then Some (False, s)
      else if \<not> packet then Some (False, s)
      else push_rounds handler rounds s)"

text \<open>
  Starting: what the codec lookup, the three allocations and \<open>avcodec_open2\<close> answer.
\<close>

record DecoderAnswers =
  da_codec :: bool
  da_allocated :: bool
  da_opened :: bool

definition decoder_start :: "DecoderAnswers \<Rightarrow> u16 \<Rightarrow> u16 \<Rightarrow> bool \<Rightarrow> bool \<Rightarrow> bool" where
  "decoder_start da width height frame_handler decoded_handler \<longleftrightarrow>
     (decoded_handler \<or> (width \<noteq> 0 \<and> height \<noteq> 0 \<and> frame_handler)) \<and> da_codec da \<and> da_allocated da \<and> da_opened da"

definition ffmpeg_decoder_start :: "DecoderAnswers \<Rightarrow> u16 \<Rightarrow> u16 \<Rightarrow> bool \<Rightarrow> bool" where
  "ffmpeg_decoder_start da width height handler = decoder_start da width height handler False"

definition ffmpeg_decoder_start_raw :: "DecoderAnswers \<Rightarrow> bool \<Rightarrow> bool" where
  "ffmpeg_decoder_start_raw da handler \<longleftrightarrow> handler \<and> decoder_start da 0 0 False handler"

section \<open>Geometry\<close>

lemma at_most_quotient: "0 < (d :: int) \<Longrightarrow> a \<le> q * d \<Longrightarrow> a div d \<le> q"
  using zdiv_mono1 [of a "q * d" d] by simp

lemma fit_size_bounds:
  assumes "0 < sw" "0 < sh" "0 < w" "0 < h" "fit_size sw sh w h = (width, height)"
  shows "1 \<le> width" "width \<le> w" "1 \<le> height" "height \<le> h" "width = w \<or> height = h"
proof -
  have *: "1 \<le> width \<and> width \<le> w \<and> 1 \<le> height \<and> height \<le> h \<and> (width = w \<or> height = h)"
  proof (cases "sw * h > sh * w")
    case True
    then have "sh * w div sw \<le> h" using assms(1) at_most_quotient [of sw "sh * w" h] by (simp add: mult.commute)
    with True assms show ?thesis by (auto simp: fit_size_def split: if_splits)
  next
    case False
    then have "sw * h div sh \<le> w" using assms(2) at_most_quotient [of sh "sw * h" w] by (simp add: mult.commute)
    with False assms show ?thesis by (auto simp: fit_size_def split: if_splits)
  qed
  then show "1 \<le> width" "width \<le> w" "1 \<le> height" "height \<le> h" "width = w \<or> height = h" by blast+
qed

section \<open>The padding stays black\<close>

text \<open>Whether byte \<open>i\<close> belongs to the centred picture.\<close>

definition in_picture :: "FfmpegConverter \<Rightarrow> nat \<Rightarrow> bool" where
  "in_picture c i \<longleftrightarrow>
     (let x = int (i div 4 mod unat (fc_width c)); y = int (i div 4 div unat (fc_width c));
          left = (uint (fc_width c) - fc_scaled_width c) div 2; top = (uint (fc_height c) - fc_scaled_height c) div 2
      in left \<le> x \<and> x < left + fc_scaled_width c \<and> top \<le> y \<and> y < top + fc_scaled_height c)"

definition converter_ok :: "FfmpegConverter \<Rightarrow> bool" where
  "converter_ok c \<longleftrightarrow>
     (fc_frame c \<noteq> [] \<longrightarrow> length (fc_frame c) = unat (fc_width c) * unat (fc_height c) * 4 \<and> fc_frame_size c = length (fc_frame c)) \<and>
     (fc_frame c = [] \<longrightarrow> fc_scaled_width c = 0) \<and>
     (fc_scaled_width c = 0 \<or>
        0 < fc_scaled_width c \<and> fc_scaled_width c \<le> uint (fc_width c) \<and>
        0 < fc_scaled_height c \<and> fc_scaled_height c \<le> uint (fc_height c) \<and>
        (\<forall>i < length (fc_frame c). \<not> in_picture c i \<longrightarrow> fc_frame c ! i = (if i mod 4 = 3 then 255 else 0)))"

lemma write_rows_length:
  assumes "\<And>k. k < length rows \<Longrightarrow> offset + k * stride + length (rows ! k) \<le> length frame"
  shows "length (write_rows frame offset stride rows) = length frame"
  using assms
proof (induction rows arbitrary: frame offset)
  case (Cons row rows)
  from Cons.prems [of 0] have row: "offset + length row \<le> length frame" by simp
  have "offset + stride + k * stride + length (rows ! k) \<le> length (poke frame offset row)" if "k < length rows" for k
    using Cons.prems [of "Suc k"] that row by (simp add: algebra_simps)
  from Cons.IH [OF this] row show ?case by simp
qed simp

lemma write_rows_outside:
  assumes "\<And>k. k < length rows \<Longrightarrow> offset + k * stride + length (rows ! k) \<le> length frame" "i < length frame"
    and "\<And>k. k < length rows \<Longrightarrow> i < offset + k * stride \<or> offset + k * stride + length (rows ! k) \<le> i"
  shows "write_rows frame offset stride rows ! i = frame ! i"
  using assms
proof (induction rows arbitrary: frame offset)
  case (Cons row rows)
  from Cons.prems(1) [of 0] have row: "offset + length row \<le> length frame" by simp
  have "offset + stride + k * stride + length (rows ! k) \<le> length (poke frame offset row)" if "k < length rows" for k
    using Cons.prems(1) [of "Suc k"] that row by (simp add: algebra_simps)
  moreover have "i < offset + stride + k * stride \<or> offset + stride + k * stride + length (rows ! k) \<le> i" if "k < length rows" for k
    using Cons.prems(3) [of "Suc k"] that by (simp add: algebra_simps)
  moreover have "poke frame offset row ! i = frame ! i"
    using Cons.prems(2) Cons.prems(3) [of 0] row by (auto simp: buffer_simps)
  ultimately show ?case using Cons.IH [of "offset + stride" "poke frame offset row"] Cons.prems(2) row by simp
qed simp

text \<open>The rows that \<open>sws_scale\<close> is documented to write: at most \<open>height\<close>, each of \<open>width\<close> pixels.\<close>

definition scaled_rows_ok :: "int \<Rightarrow> int \<Rightarrow> ScalerAnswers \<Rightarrow> bool" where
  "scaled_rows_ok width height sa \<longleftrightarrow>
     int (length (sa_rows sa)) \<le> height \<and> list_all (\<lambda>row. int (length row) = width * 4) (sa_rows sa)"

lemma picture_rows:
  fixes W H w h ox oy k :: nat
  assumes "ox + w \<le> W" "oy + h \<le> H" "k < h"
  shows "oy * (W * 4) + ox * 4 + k * (W * 4) + w * 4 \<le> W * H * 4"
    and "oy * (W * 4) + ox * 4 + k * (W * 4) \<le> i \<Longrightarrow> i < oy * (W * 4) + ox * 4 + k * (W * 4) + w * 4 \<Longrightarrow>
         ox \<le> i div 4 mod W \<and> i div 4 mod W < ox + w \<and> i div 4 div W = oy + k"
proof -
  have "(oy + k) * W + ox + w \<le> (oy + k + 1) * W" using assms(1) by simp
  also have "\<dots> \<le> H * W" using assms by (intro mult_right_mono) simp_all
  finally show "oy * (W * 4) + ox * 4 + k * (W * 4) + w * 4 \<le> W * H * 4" by (simp add: algebra_simps)
next
  assume i: "oy * (W * 4) + ox * 4 + k * (W * 4) \<le> i" "i < oy * (W * 4) + ox * 4 + k * (W * 4) + w * 4"
  define p where "p = i div 4"
  have p: "(oy + k) * W + ox \<le> p" "p < (oy + k) * W + ox + w"
    using i by (simp_all add: p_def algebra_simps)
  define j where "j = p - (oy + k) * W"
  have j: "p = j + (oy + k) * W" "ox \<le> j" "j < ox + w" "j < W" using p assms(1) by (simp_all add: j_def)
  then have "p mod W = j" "p div W = oy + k" by simp_all
  with j show "ox \<le> i div 4 mod W \<and> i div 4 mod W < ox + w \<and> i div 4 div W = oy + k" by (simp add: p_def)
qed

definition realloc_ok :: "(byte list \<Rightarrow> nat \<Rightarrow> byte list option) \<Rightarrow> bool" where
  "realloc_ok realloc \<longleftrightarrow> (\<forall>old n new. realloc old n = Some new \<longrightarrow> length new = n)"

lemma resize_output_ok:
  assumes "resize_output realloc w h c = Some c1" "realloc_ok realloc" "converter_ok c" "w \<noteq> 0" "h \<noteq> 0"
  shows "converter_ok c1" "fc_width c1 = w" "fc_height c1 = h" "fc_frame c1 \<noteq> []"
    "length (fc_frame c1) = unat w * unat h * 4" "fc_frame_size c1 = length (fc_frame c1)"
proof -
  have pos: "0 < unat w * unat h * 4" using assms(4,5) by (simp add: unat_gt_0)
  have "converter_ok c1 \<and> fc_width c1 = w \<and> fc_height c1 = h \<and> fc_frame c1 \<noteq> [] \<and>
    length (fc_frame c1) = unat w * unat h * 4 \<and> fc_frame_size c1 = length (fc_frame c1)"
  proof (cases "fc_frame c = [] \<or> fc_width c \<noteq> w \<or> fc_height c \<noteq> h")
    case True
    with assms(1) obtain frame where f: "realloc (fc_frame c) (unat w * unat h * 4) = Some frame"
      "c1 = \<lparr>fc_frame = frame, fc_frame_size = unat w * unat h * 4, fc_scaled_width = 0, fc_scaled_height = 0,
             fc_width = w, fc_height = h\<rparr>"
      by (auto simp: resize_output_def Let_def)
    from f(1) assms(2) have "length frame = unat w * unat h * 4" by (simp add: realloc_ok_def)
    with f(2) pos show ?thesis by (auto simp: converter_ok_def)
  next
    case False
    with assms(1,3) show ?thesis by (auto simp: resize_output_def converter_ok_def)
  qed
  then show "converter_ok c1" "fc_width c1 = w" "fc_height c1 = h" "fc_frame c1 \<noteq> []"
    "length (fc_frame c1) = unat w * unat h * 4" "fc_frame_size c1 = length (fc_frame c1)" by blast+
qed

lemma opaque_black_props:
  "length (opaque_black n) = n" "i < n \<Longrightarrow> opaque_black n ! i = (if i mod 4 = 3 then 255 else 0)"
  by (simp_all add: opaque_black_def)

lemma clear_padding_ok:
  assumes "converter_ok c" "fc_frame c \<noteq> []" "1 \<le> width" "width \<le> uint (fc_width c)" "1 \<le> height" "height \<le> uint (fc_height c)"
  defines "c2 \<equiv> clear_padding width height c"
  shows "converter_ok c2" "fc_width c2 = fc_width c" "fc_height c2 = fc_height c" "length (fc_frame c2) = length (fc_frame c)"
    "fc_scaled_width c2 = width" "fc_scaled_height c2 = height" "fc_frame c2 \<noteq> []"
proof -
  have len: "fc_frame_size c = length (fc_frame c)" using assms(1,2) by (simp add: converter_ok_def)
  note blank = opaque_black_props(1) [of "length (fc_frame c)"]
  have black: "opaque_black (length (fc_frame c)) \<noteq> []" using blank assms(2) by (metis length_0_conv)
  show same: "fc_width c2 = fc_width c" "fc_height c2 = fc_height c" "length (fc_frame c2) = length (fc_frame c)"
    "fc_scaled_width c2 = width" "fc_scaled_height c2 = height" "fc_frame c2 \<noteq> []"
    using assms(2) len black blank by (simp_all add: c2_def clear_padding_def)
  show "converter_ok c2"
  proof (cases "fc_scaled_width c \<noteq> width \<or> fc_scaled_height c \<noteq> height")
    case True
    then have c2: "c2 = c\<lparr>fc_frame := opaque_black (length (fc_frame c)), fc_scaled_width := width, fc_scaled_height := height\<rparr>"
      by (simp add: c2_def clear_padding_def len)
    have size: "length (fc_frame c) = unat (fc_width c) * unat (fc_height c) * 4" using assms(1,2) by (simp add: converter_ok_def)
    show ?thesis unfolding converter_ok_def c2 using assms(3-6) len black blank size by (simp add: opaque_black_props(2))
  next
    case False
    with assms(1) show ?thesis by (simp add: c2_def clear_padding_def)
  qed
qed

text \<open>Writing the scaled rows at the computed offset stays inside the buffer and inside the picture.\<close>

lemma write_picture_ok:
  assumes "converter_ok c" "fc_frame c \<noteq> []" "fc_scaled_width c \<noteq> 0"
    and "scaled_rows_ok (fc_scaled_width c) (fc_scaled_height c) sa"
  defines "frame \<equiv> write_rows (fc_frame c) (output_offset c (fc_scaled_width c) (fc_scaled_height c)) (unat (fc_width c) * 4) (sa_rows sa)"
  shows "length frame = length (fc_frame c)" "i < length (fc_frame c) \<Longrightarrow> \<not> in_picture c i \<Longrightarrow> frame ! i = fc_frame c ! i"
proof -
  define W H w h where "W = unat (fc_width c)" and "H = unat (fc_height c)" and "w = nat (fc_scaled_width c)" and "h = nat (fc_scaled_height c)"
  define ox oy where "ox = (W - w) div 2" and "oy = (H - h) div 2"
  have sizes: "0 < fc_scaled_width c" "fc_scaled_width c \<le> uint (fc_width c)" "0 < fc_scaled_height c" "fc_scaled_height c \<le> uint (fc_height c)"
    and len: "length (fc_frame c) = W * H * 4"
    using assms(1-3) by (auto simp: converter_ok_def W_def H_def)
  have ints: "uint (fc_width c) = int W" "uint (fc_height c) = int H" "fc_scaled_width c = int w" "fc_scaled_height c = int h"
    using sizes by (simp_all add: W_def H_def w_def h_def)
  have fit: "w \<le> W" "h \<le> H" using sizes ints by simp_all
  have mid: "(int W - int w) div 2 = int ox" "(int H - int h) div 2 = int oy"
    using fit by (simp_all add: ox_def oy_def zdiv_int of_nat_diff)
  have off: "output_offset c (fc_scaled_width c) (fc_scaled_height c) = oy * (W * 4) + ox * 4"
    unfolding output_offset_def ints mid by (simp add: W_def)
  have room: "ox + w \<le> W" "oy + h \<le> H" using fit by (simp_all add: ox_def oy_def)
  have rows: "length (sa_rows sa) \<le> h" "\<And>k. k < length (sa_rows sa) \<Longrightarrow> length (sa_rows sa ! k) = w * 4"
    using assms(4) by (auto simp: scaled_rows_ok_def ints list_all_length)
  have inside: "oy * (W * 4) + ox * 4 + k * (W * 4) + length (sa_rows sa ! k) \<le> length (fc_frame c)" if "k < length (sa_rows sa)" for k
    using picture_rows(1) [OF room, of k] that rows len by simp
  show "length frame = length (fc_frame c)"
    unfolding frame_def off W_def [symmetric] by (rule write_rows_length) (use inside in simp)
  assume i: "i < length (fc_frame c)" "\<not> in_picture c i"
  show "frame ! i = fc_frame c ! i"
    unfolding frame_def off W_def [symmetric]
  proof (rule write_rows_outside [OF _ i(1)])
    fix k assume k: "k < length (sa_rows sa)"
    show "oy * (W * 4) + ox * 4 + k * (W * 4) + length (sa_rows sa ! k) \<le> length (fc_frame c)" using inside k .
    show "i < oy * (W * 4) + ox * 4 + k * (W * 4) \<or> oy * (W * 4) + ox * 4 + k * (W * 4) + length (sa_rows sa ! k) \<le> i"
    proof (rule ccontr)
      assume "\<not> (i < oy * (W * 4) + ox * 4 + k * (W * 4) \<or> oy * (W * 4) + ox * 4 + k * (W * 4) + length (sa_rows sa ! k) \<le> i)"
      then have "ox \<le> i div 4 mod W \<and> i div 4 mod W < ox + w \<and> i div 4 div W = oy + k"
        using picture_rows(2) [OF room, of k i] k rows by simp
      moreover have "k < h" using k rows by simp
      ultimately show False using i(2) unfolding in_picture_def ints mid Let_def by (simp add: W_def)
    qed
  qed
qed

lemma convert_ok:
  assumes "ffmpeg_converter_convert realloc sa source w h c = (ok, c')" "realloc_ok realloc" "converter_ok c"
    and "scaled_rows_ok (fst (fit_size (av_width source) (av_height source) (uint w) (uint h)))
           (snd (fit_size (av_width source) (av_height source) (uint w) (uint h))) sa"
  shows "converter_ok c' \<and>
     (ok \<longrightarrow> fc_width c' = w \<and> fc_height c' = h \<and> length (fc_frame c') = unat w * unat h * 4 \<and>
             fit_size (av_width source) (av_height source) (uint w) (uint h) = (fc_scaled_width c', fc_scaled_height c'))"
proof (cases "av_width source \<le> 0 \<or> av_height source \<le> 0 \<or> w = 0 \<or> h = 0")
  case True
  with assms(1,3) show ?thesis by (simp add: ffmpeg_converter_convert_def)
next
  case False
  obtain width height where fit: "fit_size (av_width source) (av_height source) (uint w) (uint h) = (width, height)" by (rule prod.exhaust)
  have pos: "0 < uint w" "0 < uint h" using False uint_0_iff [of w] uint_0_iff [of h] uint_ge_0 [of w] uint_ge_0 [of h] by linarith+
  note bounds = fit_size_bounds [OF _ _ pos fit]
  show ?thesis
  proof (cases "resize_output realloc w h c")
    case None
    with False assms(1,3) show ?thesis by (simp add: ffmpeg_converter_convert_def)
  next
    case (Some c1)
    note r = resize_output_ok [OF Some assms(2,3)]
    define c2 where "c2 = clear_padding width height c1"
    have dims: "1 \<le> width" "width \<le> uint (fc_width c1)" "1 \<le> height" "height \<le> uint (fc_height c1)" using bounds False r by simp_all
    note p = clear_padding_ok [OF r(1) r(4) dims, folded c2_def]
    have p': "converter_ok c2" "fc_width c2 = w" "fc_height c2 = h" "length (fc_frame c2) = unat w * unat h * 4"
      "fc_scaled_width c2 = width" "fc_scaled_height c2 = height" "fc_frame c2 \<noteq> []"
      using p r False by simp_all
    have "scaled_rows_ok (fc_scaled_width c2) (fc_scaled_height c2) sa" "fc_scaled_width c2 \<noteq> 0" using assms(4) fit p' dims by simp_all
    note q = write_picture_ok [OF p'(1,7) this(2,1)]
    define c3 where "c3 = c2\<lparr>fc_frame := write_rows (fc_frame c2)
                        (output_offset c2 width height) (unat (fc_width c2) * 4) (sa_rows sa)\<rparr>"
    have pic: "in_picture c3 i = in_picture c2 i" for i by (simp add: in_picture_def c3_def)
    have c3: "converter_ok c3" "length (fc_frame c3) = length (fc_frame c2)"
      using q p' pic by (auto simp: converter_ok_def c3_def)
    from assms(1) False Some fit have "c' = c1 \<and> \<not> ok \<or> c' = c3"
      by (auto simp: ffmpeg_converter_convert_def Let_def c2_def c3_def split: if_splits)
    then show ?thesis using r(1) c3 p' fit False by (auto simp: c3_def)
  qed
qed

section \<open>Runs of conversions\<close>

type_synonym conversion = "ScalerAnswers \<times> AVFrame \<times> u16 \<times> u16"

fun convert_step :: "(byte list \<Rightarrow> nat \<Rightarrow> byte list option) \<Rightarrow> FfmpegConverter \<Rightarrow> conversion \<Rightarrow> FfmpegConverter" where
  "convert_step realloc c (sa, source, w, h) = snd (ffmpeg_converter_convert realloc sa source w h c)"

fun conversion_ok :: "conversion \<Rightarrow> bool" where
  "conversion_ok (sa, source, w, h) \<longleftrightarrow>
     (case fit_size (av_width source) (av_height source) (uint w) (uint h) of (width, height) \<Rightarrow> scaled_rows_ok width height sa)"

definition pixel_at :: "byte list \<Rightarrow> nat \<Rightarrow> nat \<Rightarrow> nat \<Rightarrow> byte list" where
  "pixel_at frame width x y = take 4 (drop ((y * width + x) * 4) frame)"

lemma convert_run_ok:
  "realloc_ok realloc \<Longrightarrow> list_all conversion_ok cs \<Longrightarrow> converter_ok c \<Longrightarrow> converter_ok (foldl (convert_step realloc) c cs)"
proof (induction cs arbitrary: c)
  case (Cons e cs)
  obtain sa source w h where e: "e = (sa, source, w, h)" by (metis prod_cases4)
  from Cons.prems(2) have "scaled_rows_ok (fst (fit_size (av_width source) (av_height source) (uint w) (uint h)))
       (snd (fit_size (av_width source) (av_height source) (uint w) (uint h))) sa"
    by (simp add: e split: prod.splits)
  from convert_ok [OF _ Cons.prems(1,3) this] have "converter_ok (convert_step realloc c e)" by (simp add: e prod_eq_iff)
  with Cons show ?case by simp
qed simp

lemma four_bytes: "k + 4 \<le> length xs \<Longrightarrow> take 4 (drop k xs) = [xs ! k, xs ! (k + 1), xs ! (k + 2), xs ! (k + 3)]"
  by (rule nth_equalityI) (auto simp: less_Suc_eq numeral_eq_Suc)

lemma pixel_outside:
  assumes "converter_ok c" "fc_frame c \<noteq> []" "fc_scaled_width c \<noteq> 0"
    and "x < unat (fc_width c)" "y < unat (fc_height c)"
    and "\<not> ((uint (fc_width c) - fc_scaled_width c) div 2 \<le> int x \<and> int x < (uint (fc_width c) - fc_scaled_width c) div 2 + fc_scaled_width c \<and>
            (uint (fc_height c) - fc_scaled_height c) div 2 \<le> int y \<and> int y < (uint (fc_height c) - fc_scaled_height c) div 2 + fc_scaled_height c)"
  shows "pixel_at (fc_frame c) (unat (fc_width c)) x y = [0, 0, 0, 255]"
proof -
  let ?W = "unat (fc_width c)" and ?H = "unat (fc_height c)"
  let ?k = "(y * ?W + x) * 4"
  have size: "length (fc_frame c) = ?W * ?H * 4" using assms(1,2) by (simp add: converter_ok_def)
  have "y * ?W + x < (y + 1) * ?W" using assms(4) by simp
  also have "\<dots> \<le> ?H * ?W" using assms(5) by (intro mult_right_mono) simp_all
  finally have room: "?k + 4 \<le> length (fc_frame c)" by (simp add: size algebra_simps)
  have idx: "(?k + d) div 4 = y * ?W + x" if "d < 4" for d using that by simp
  have xy: "(y * ?W + x) mod ?W = x" "(y * ?W + x) div ?W = y" using assms(4) by simp_all
  have out: "\<not> in_picture c (?k + d)" if "d < 4" for d
    using assms(6) unfolding in_picture_def Let_def idx [OF that] xy by simp
  have "fc_frame c ! (?k + d) = (if d = 3 then 255 else 0)" if "d < 4" for d
  proof -
    have "fc_frame c ! (?k + d) = (if (?k + d) mod 4 = 3 then 255 else 0)"
      using assms(1,3) out [OF that] room that by (auto simp: converter_ok_def)
    moreover have "(?k + d) mod 4 = d" using that by (metis mod_less mod_mult_self3)
    ultimately show ?thesis by simp
  qed
  from this [of 0] this [of 1] this [of 2] this [of 3] show ?thesis
    unfolding pixel_at_def four_bytes [OF room] by simp
qed

text \<open>
  C40: A converted picture keeps its shape on black. After any run of conversions into one buffer, of
  pictures and outputs of any sizes and with any failures, a successful conversion fills a buffer of
  exactly the output size. The scaled picture lies inside it, touches two opposite borders, and every
  pixel around the centred picture is opaque black: nothing of an earlier picture is left there.
\<close>

theorem converter_output_framed:
  assumes "realloc_ok realloc" "list_all conversion_ok cs" "conversion_ok (sa, source, w, h)"
    and "ffmpeg_converter_convert realloc sa source w h (foldl (convert_step realloc) empty_converter cs) = (True, c)"
    and "fit_size (av_width source) (av_height source) (uint w) (uint h) = (width, height)"
  shows "length (fc_frame c) = unat w * unat h * 4 \<and>
    1 \<le> width \<and> width \<le> uint w \<and> 1 \<le> height \<and> height \<le> uint h \<and> (width = uint w \<or> height = uint h) \<and>
    (\<forall>x < unat w. \<forall>y < unat h.
       \<not> ((uint w - width) div 2 \<le> int x \<and> int x < (uint w - width) div 2 + width \<and>
          (uint h - height) div 2 \<le> int y \<and> int y < (uint h - height) div 2 + height) \<longrightarrow>
       pixel_at (fc_frame c) (unat w) x y = [0, 0, 0, 255])"
proof -
  have start: "converter_ok empty_converter" by (simp add: converter_ok_def empty_converter_def)
  note run = convert_run_ok [OF assms(1,2) start]
  have rows: "scaled_rows_ok (fst (fit_size (av_width source) (av_height source) (uint w) (uint h)))
       (snd (fit_size (av_width source) (av_height source) (uint w) (uint h))) sa" using assms(3) by (simp add: assms(5))
  from convert_ok [OF assms(4,1) run rows] assms(5) have c: "converter_ok c" "fc_width c = w" "fc_height c = h"
    "length (fc_frame c) = unat w * unat h * 4" "fc_scaled_width c = width" "fc_scaled_height c = height" by auto
  from assms(4) have valid: "0 < av_width source" "0 < av_height source" "w \<noteq> 0" "h \<noteq> 0"
    by (auto simp: ffmpeg_converter_convert_def split: if_splits)
  then have pos: "0 < uint w" "0 < uint h" using uint_0_iff [of w] uint_0_iff [of h] uint_ge_0 [of w] uint_ge_0 [of h] by linarith+
  note b = fit_size_bounds [OF valid(1,2) pos assms(5)]
  have "0 < unat w * unat h * 4" using valid by (simp add: unat_gt_0)
  with c(4) have "fc_frame c \<noteq> []" by auto
  from pixel_outside [OF c(1) this] c b show ?thesis by simp
qed

theorem converter_output_framed_witness:
  "\<exists>c. ffmpeg_converter_convert (\<lambda>old n. Some (replicate n 9))
         \<lparr>sa_context = True, sa_colorspace = True, sa_rows = [replicate 16 7], sa_result = 1\<rparr>
         \<lparr>av_width = 1600, av_height = 400, av_picture = 2\<rparr> 4 3
         (foldl (convert_step (\<lambda>old n. Some (replicate n 9))) empty_converter
            [(\<lparr>sa_context = True, sa_colorspace = True, sa_rows = replicate 3 (replicate 4 5), sa_result = 3\<rparr>,
              \<lparr>av_width = 100, av_height = 300, av_picture = 1\<rparr>, 4, 3)]) = (True, c) \<and>
     pixel_at (fc_frame c) 4 2 0 = [0, 0, 0, 255] \<and> length (fc_frame c) = 48"
    (is "\<exists>c. ffmpeg_converter_convert ?r ?sa ?source 4 3 (foldl (convert_step ?r) empty_converter ?cs) = _ \<and> _")
proof -
  let ?c = "snd (ffmpeg_converter_convert ?r ?sa ?source 4 3 (foldl (convert_step ?r) empty_converter ?cs))"
  have fit: "fit_size 1600 400 4 3 = (4, 1)" "fit_size 100 300 4 3 = (1, 3)" by code_simp+
  have "realloc_ok ?r" by (simp add: realloc_ok_def)
  moreover have "list_all conversion_ok ?cs" "conversion_ok (?sa, ?source, 4, 3)" using fit by (simp_all add: scaled_rows_ok_def list_all_length)
  moreover have ok: "fst (ffmpeg_converter_convert ?r ?sa ?source 4 3 (foldl (convert_step ?r) empty_converter ?cs)) = True" by code_simp
  then have run: "ffmpeg_converter_convert ?r ?sa ?source 4 3 (foldl (convert_step ?r) empty_converter ?cs) = (True, ?c)" by (simp add: prod_eq_iff)
  moreover have "fit_size (av_width ?source) (av_height ?source) (uint (4 :: u16)) (uint (3 :: u16)) = (4, 1)" using fit by simp
  ultimately have *: "length (fc_frame ?c) = unat (4 :: u16) * unat (3 :: u16) * 4 \<and>
    1 \<le> (4 :: int) \<and> (4 :: int) \<le> uint (4 :: u16) \<and> 1 \<le> (1 :: int) \<and> 1 \<le> uint (3 :: u16) \<and> ((4 :: int) = uint (4 :: u16) \<or> 1 = uint (3 :: u16)) \<and>
    (\<forall>x < unat (4 :: u16). \<forall>y < unat (3 :: u16).
       \<not> ((uint (4 :: u16) - 4) div 2 \<le> int x \<and> int x < (uint (4 :: u16) - 4) div 2 + 4 \<and>
          (uint (3 :: u16) - 1) div 2 \<le> int y \<and> int y < (uint (3 :: u16) - 1) div 2 + 1) \<longrightarrow>
       pixel_at (fc_frame ?c) (unat (4 :: u16)) x y = [0, 0, 0, 255])"
    by (rule converter_output_framed)
  then have "pixel_at (fc_frame ?c) 4 2 0 = [0, 0, 0, 255]" "length (fc_frame ?c) = 48" by simp_all
  with run show ?thesis by blast
qed

end
