(* ===== verification/RdpBitmap.thy ===== *)
theory RdpBitmap
  imports RdpGfx RdpInput FfmpegDecoder
begin

text \<open>
  The bitmap paths of an RDP client (\<open>rdp_bitmap.c\<close>, \<open>bitmap_diff.h\<close>): decoded pictures are
  converted and sent as Progressive tiles, as RemoteFX or NSCodec surface bits, or as classic bitmap
  tiles. The codecs and the socket are answers. Pictures are lists of bytes, four to a pixel; desktop
  sizes are at most 8192 by the configuration, so tile coordinates, which the code keeps in 16 bits,
  are natural numbers.
\<close>

section \<open>State\<close>

record BitmapClient = InputClient +
  cb_rfx :: bool
  cb_nsc :: bool
  cb_bitmap_stream :: bool
  cb_pending_decoded :: "AVFrame option"
  cb_pending_next_decoded :: "AVFrame option"
  cb_converter :: FfmpegConverter
  cb_previous_bitmap :: "byte list option"
  cb_classic_encoded :: bool
  cb_previous_bitmap_valid :: bool
  cb_bitmap_uses_rfx :: bool
  cb_bitmap_last_send_started_at :: u64
  cb_classic_resume_left :: nat
  cb_classic_resume_top :: nat
  cb_classic_frame_open :: bool

definition BITMAP_FRAME_INTERVAL_MS :: nat where "BITMAP_FRAME_INTERVAL_MS = 10"
definition CLASSIC_TILE_WIDTH :: nat where "CLASSIC_TILE_WIDTH = 64"
definition CLASSIC_TILE_HEIGHT :: nat where "CLASSIC_TILE_HEIGHT = 64"
definition CLASSIC_TILE_MAX_ENCODED :: nat where "CLASSIC_TILE_MAX_ENCODED = CLASSIC_TILE_WIDTH * CLASSIC_TILE_HEIGHT * 2"
definition CLASSIC_SLICE_BUDGET_MS :: u64 where "CLASSIC_SLICE_BUDGET_MS = 4"

definition expected_length :: "'a Client_scheme \<Rightarrow> nat" where
  "expected_length client = unat (cl_render_width client) * unat (cl_render_height client) * 4"

section \<open>Codec support\<close>

text \<open>The settings that the negotiation left: codec enabled, codec number, surface commands, and the flag for its command.\<close>

definition bitmap_stream_rfx_supported :: "bool \<Rightarrow> u32 \<Rightarrow> u32 \<Rightarrow> u32 \<Rightarrow> bool" where
  "bitmap_stream_rfx_supported codec codec_id supported SURFCMDS_STREAM_SURFACE_BITS \<longleftrightarrow>
     codec \<and> codec_id \<noteq> 0 \<and> supported AND SURFCMDS_STREAM_SURFACE_BITS \<noteq> 0"

definition bitmap_stream_nsc_supported :: "bool \<Rightarrow> u32 \<Rightarrow> u32 \<Rightarrow> u32 \<Rightarrow> bool" where
  "bitmap_stream_nsc_supported codec codec_id supported SURFCMDS_SET_SURFACE_BITS \<longleftrightarrow>
     codec \<and> codec_id \<noteq> 0 \<and> supported AND SURFCMDS_SET_SURFACE_BITS \<noteq> 0"

section \<open>Comparing tiles\<close>

definition channel_changed :: "byte list \<Rightarrow> byte list \<Rightarrow> nat \<Rightarrow> bool" where
  "channel_changed previous current pixel \<longleftrightarrow>
     previous ! pixel \<noteq> current ! pixel \<or> previous ! (pixel + 1) \<noteq> current ! (pixel + 1) \<or>
     previous ! (pixel + 2) \<noteq> current ! (pixel + 2)"

definition bitmap_tile_changed ::
  "byte list option \<Rightarrow> byte list \<Rightarrow> nat \<Rightarrow> nat \<Rightarrow> nat \<Rightarrow> nat \<Rightarrow> nat \<Rightarrow> bool" where
  "bitmap_tile_changed previous current width left upper columns rows =
     (case previous of
        None \<Rightarrow> True
      | Some old \<Rightarrow>
          list_ex (\<lambda>row. list_ex (\<lambda>column. channel_changed old current (((upper + row) * width + left) * 4 + column * 4))
            [0..<columns]) [0..<rows])"

section \<open>The socket\<close>

text \<open>
  The peer: whether it exists, is connected and has its callbacks, whether its socket blocks, and the
  same after draining it.
\<close>

record PeerAnswers =
  pe_present :: bool
  pe_connected :: bool
  pe_callbacks :: bool
  pe_blocked :: bool
  pe_connected_after :: bool
  pe_stopped_after :: bool
  pe_blocked_after :: bool

definition client_output_write_ready :: "PeerAnswers \<Rightarrow> 'a Client_scheme \<Rightarrow> bool" where
  "client_output_write_ready pe client =
     (if \<not> pe_present pe \<or> \<not> pe_connected pe \<or> client_should_stop client \<or> \<not> pe_callbacks pe then False
      else if \<not> pe_blocked pe then True
      else pe_connected_after pe \<and> \<not> pe_stopped_after pe \<and> \<not> pe_blocked_after pe)"

section \<open>Classic tiles\<close>

text \<open>A row of a tile is one \<open>memcpy\<close>.\<close>

definition classic_tile_copy :: "byte list \<Rightarrow> byte list \<Rightarrow> nat \<Rightarrow> nat \<Rightarrow> nat \<Rightarrow> nat \<Rightarrow> nat \<Rightarrow> byte list" where
  "classic_tile_copy destination source width left upper columns rows =
     foldl (\<lambda>buffer row. let offset = ((upper + row) * width + left) * 4
                         in poke buffer offset (take (columns * 4) (drop offset source))) destination [0..<rows]"

definition rgb565 :: "byte \<Rightarrow> byte \<Rightarrow> byte \<Rightarrow> u16" where
  "rgb565 blue green red =
     push_bit 8 (ucast (red AND 0xF8)) OR push_bit 3 (ucast (green AND 0xFC)) OR ucast (drop_bit 3 blue)"

definition classic_pack_rgb16 :: "byte list \<Rightarrow> nat \<Rightarrow> nat \<Rightarrow> nat \<Rightarrow> nat \<Rightarrow> nat \<Rightarrow> byte list" where
  "classic_pack_rgb16 bgra width left upper columns rows =
     concat (map (\<lambda>row. concat (map (\<lambda>column.
       let pixel = ((upper + row) * width + left) * 4 + column * 4;
           color = rgb565 (bgra ! pixel) (bgra ! (pixel + 1)) (bgra ! (pixel + 2))
       in [ucast color, ucast (drop_bit 8 color)]) [0..<columns])) [0..<rows])"

text \<open>The tile positions from where the last slice stopped: 64 pixels apart.\<close>

definition steps_of_64 :: "nat \<Rightarrow> nat \<Rightarrow> nat list" where
  "steps_of_64 first limit = map (\<lambda>k. first + k * 64) [0..<(limit - first + 63) div 64]"

definition classic_positions :: "nat \<Rightarrow> nat \<Rightarrow> nat \<Rightarrow> nat \<Rightarrow> (nat \<times> nat) list" where
  "classic_positions resume_left resume_top width height =
     concat (map (\<lambda>upper. map (\<lambda>left. (left, upper)) (steps_of_64 (if upper = resume_top then resume_left else 0) width))
       (steps_of_64 resume_top height))"

text \<open>A rectangle sent to the client: its borders (inclusive) and its pixels.\<close>

record ClassicRect =
  rc_left :: nat
  rc_top :: nat
  rc_right :: nat
  rc_bottom :: nat
  rc_data :: "byte list"

text \<open>What is read at one tile: the clock, the result of \<open>BitmapUpdate\<close>, and whether the socket blocks after it.\<close>

record TileAnswers =
  ta_now :: u64
  ta_wrote :: bool
  ta_blocked :: bool

datatype slice_end = SliceDone | SliceYielded nat nat | SliceFailed

text \<open>
  The loops over the tiles. \<open>CLASSIC_BITMAP_BATCH\<close> is 1: every rectangle is sent at once, and the code
  that sends a waiting rectangle before or after a tile has none to send. A turn of the inner loop skips
  its tile, ends the slice, or sends the tile and may end the slice with it; the tiles counted so far
  are the rectangles sent. The result of a slice is how it ended, the rectangles, and the copy of the
  previous picture.
\<close>

datatype tile_turn = TileSkipped | TileEnd slice_end | TileSent ClassicRect "slice_end option"

definition classic_tile ::
  "u64 \<Rightarrow> byte list \<Rightarrow> nat \<Rightarrow> nat \<Rightarrow> bool \<Rightarrow> nat \<Rightarrow> nat \<Rightarrow> TileAnswers \<Rightarrow> byte list \<Rightarrow> nat \<Rightarrow> tile_turn \<times> byte list" where
  "classic_tile started bgra width height valid left upper ta previous tiles =
     (let rows = min CLASSIC_TILE_HEIGHT (height - upper);
          columns = min CLASSIC_TILE_WIDTH (width - left);
          encoded_length = columns * rows * 2
      in if tiles \<ge> 1 \<and> ta_now ta - started \<ge> CLASSIC_SLICE_BUDGET_MS then (TileEnd (SliceYielded left upper), previous)
         else if valid \<and> \<not> bitmap_tile_changed (Some previous) bgra width left upper columns rows then (TileSkipped, previous)
         else if encoded_length = 0 \<or> encoded_length > CLASSIC_TILE_MAX_ENCODED then (TileEnd SliceFailed, previous)
         else
           let rect = \<lparr>rc_left = left, rc_top = upper, rc_right = left + columns - 1, rc_bottom = upper + rows - 1,
                       rc_data = classic_pack_rgb16 bgra width left upper columns rows\<rparr>;
               how = (if \<not> ta_wrote ta then Some SliceFailed
                      else if \<not> ta_blocked ta then None
                      else if left + CLASSIC_TILE_WIDTH \<ge> width then Some (SliceYielded 0 (upper + CLASSIC_TILE_HEIGHT))
                      else Some (SliceYielded (left + CLASSIC_TILE_WIDTH) upper))
           in (TileSent rect how, classic_tile_copy previous bgra width left upper columns rows))"

fun classic_loop ::
  "u64 \<Rightarrow> byte list \<Rightarrow> nat \<Rightarrow> nat \<Rightarrow> bool \<Rightarrow> (nat \<times> nat) list \<Rightarrow> (nat \<Rightarrow> TileAnswers) \<Rightarrow> byte list \<Rightarrow> ClassicRect list \<Rightarrow>
     slice_end \<times> ClassicRect list \<times> byte list" where
  "classic_loop started bgra width height valid [] answers previous rects = (SliceDone, rects, previous)"
| "classic_loop started bgra width height valid (position # rest) answers previous rects =
     (case classic_tile started bgra width height valid (fst position) (snd position) (answers (length rest)) previous
             (length rects) of
        (TileSkipped, previous1) \<Rightarrow> classic_loop started bgra width height valid rest answers previous1 rects
      | (TileEnd how, previous1) \<Rightarrow> (how, rects, previous1)
      | (TileSent rect None, previous1) \<Rightarrow>
          classic_loop started bgra width height valid rest answers previous1 (rects @ [rect])
      | (TileSent rect (Some how), previous1) \<Rightarrow> (how, rects @ [rect], previous1))"

text \<open>\<open>ca_update\<close>: the update callback and the settings exist.\<close>

record ClassicAnswers =
  ca_update :: bool
  ca_ready :: PeerAnswers
  ca_started :: u64
  ca_tiles :: "nat \<Rightarrow> TileAnswers"

definition take_previous :: "(nat \<Rightarrow> byte list option) \<Rightarrow> 'a BitmapClient_scheme \<Rightarrow> 'a BitmapClient_scheme" where
  "take_previous malloc client =
     (if cb_previous_bitmap client = None then client\<lparr>cb_previous_bitmap := malloc (expected_length client)\<rparr> else client)"

definition count_classic :: "nat \<Rightarrow> nat \<Rightarrow> 'a BitmapClient_scheme \<Rightarrow> 'a BitmapClient_scheme" where
  "count_classic tiles bytes client =
     client\<lparr>cl_stats := (cl_stats client)\<lparr>
       cs_classic_tiles_sent := cs_classic_tiles_sent (cl_stats client) + of_nat tiles,
       cs_classic_bytes_sent := cs_classic_bytes_sent (cl_stats client) + of_nat bytes\<rparr>\<rparr>"

definition end_slice :: "slice_end \<Rightarrow> nat \<Rightarrow> nat \<Rightarrow> 'a BitmapClient_scheme \<Rightarrow> bool \<times> 'a BitmapClient_scheme" where
  "end_slice how tiles bytes client =
     (case how of
        SliceFailed \<Rightarrow> (False, client)
      | SliceYielded left upper \<Rightarrow>
          (True, count_classic tiles bytes (client\<lparr>cb_classic_resume_left := left, cb_classic_resume_top := upper,
                                                  cb_classic_frame_open := True\<rparr>))
      | SliceDone \<Rightarrow>
          (True, (count_classic tiles bytes client)\<lparr>cb_classic_resume_left := 0, cb_classic_resume_top := 0,
             cb_classic_frame_open := False,
             cb_previous_bitmap_valid := (if tiles > 0 then True else cb_previous_bitmap_valid client)\<rparr>))"

definition send_classic_bitmap_frame ::
  "(nat \<Rightarrow> byte list option) \<Rightarrow> ClassicAnswers \<Rightarrow> byte list \<Rightarrow> 'a BitmapClient_scheme \<Rightarrow>
     ClassicRect list \<times> bool \<times> 'a BitmapClient_scheme" where
  "send_classic_bitmap_frame malloc ca bgra client =
     (if \<not> ca_update ca \<or> \<not> cb_classic_encoded client \<or> length bgra \<noteq> expected_length client \<or> client_should_stop client
      then ([], False, client)
      else if \<not> client_output_write_ready (ca_ready ca) client then ([], True, client\<lparr>cb_classic_frame_open := True\<rparr>)
      else
        let client1 = take_previous malloc client in
        case cb_previous_bitmap client1 of
          None \<Rightarrow> ([], False, client1)
        | Some previous \<Rightarrow>
            if length previous \<noteq> expected_length client1 then ([], False, client1)
            else
              let width = unat (cl_render_width client1); height = unat (cl_render_height client1);
                  (how, rects, previous1) =
                    classic_loop (ca_started ca) bgra width height (cb_previous_bitmap_valid client1)
                      (classic_positions (cb_classic_resume_left client1) (cb_classic_resume_top client1) width height)
                      (ca_tiles ca) previous [];
                  (ok, client2) = end_slice how (length rects) (sum_list (map (\<lambda>rect. length (rc_data rect)) rects)) (client1\<lparr>cb_previous_bitmap := Some previous1\<rparr>)
              in (rects, ok, client2))"

section \<open>Progressive frames\<close>

type_synonym region = "(nat \<times> nat \<times> nat \<times> nat) list"

text \<open>A tile is its left and upper border and its columns and rows.\<close>

definition progressive_tile :: "nat \<Rightarrow> nat \<Rightarrow> nat \<Rightarrow> nat \<Rightarrow> nat \<times> nat \<times> nat \<times> nat" where
  "progressive_tile width height tile_x tile_y =
     (let left = tile_x * 64; upper = tile_y * 64 in
      (left, upper, if left + 64 > width then width - left else 64, if upper + 64 > height then height - upper else 64))"

definition progressive_tiles :: "nat \<Rightarrow> nat \<Rightarrow> (nat \<times> nat \<times> nat \<times> nat) list" where
  "progressive_tiles width height =
     concat (map (\<lambda>tile_y. map (\<lambda>tile_x. progressive_tile width height tile_x tile_y)
       [0..<(width + 63) div 64]) [0..<(height + 63) div 64])"

definition changed_region :: "byte list option \<Rightarrow> byte list \<Rightarrow> nat \<Rightarrow> nat \<Rightarrow> region" where
  "changed_region previous bgra width height =
     filter (\<lambda>(left, upper, columns, rows). bitmap_tile_changed previous bgra width left upper columns rows)
       (progressive_tiles width height)"

text \<open>
  \<open>pr_command\<close>: the graphics channel and its callback exist; \<open>pr_union\<close>: FreeRDP could store the region;
  \<open>pr_encoded\<close>: what \<open>progressive_compress\<close> returned; \<open>pr_events\<close>: what the other threads did until the
  submission returned \<open>pr_answer\<close>.
\<close>

record ProgressiveAnswers =
  pr_command :: bool
  pr_union :: bool
  pr_encoded :: int
  pr_now :: u64
  pr_events :: "gfx_event list"
  pr_answer :: u32

definition comparable_previous :: "'a BitmapClient_scheme \<Rightarrow> byte list option" where
  "comparable_previous client =
     (case cb_previous_bitmap client of
        None \<Rightarrow> None
      | Some previous \<Rightarrow>
          if cb_previous_bitmap_valid client \<and> length previous = expected_length client then Some previous else None)"

definition keep_previous :: "byte list \<Rightarrow> 'a BitmapClient_scheme \<Rightarrow> 'a BitmapClient_scheme" where
  "keep_previous bgra client =
     (case cb_previous_bitmap client of
        None \<Rightarrow> client
      | Some previous \<Rightarrow>
          if length previous = expected_length client
          then client\<lparr>cb_previous_bitmap := Some bgra, cb_previous_bitmap_valid := True\<rparr> else client)"

definition send_progressive_frame ::
  "(nat \<Rightarrow> byte list option) \<Rightarrow> ProgressiveAnswers \<Rightarrow> byte list \<Rightarrow> 'a BitmapClient_scheme \<Rightarrow>
     (u32 \<times> region) option \<times> bool \<times> 'a BitmapClient_scheme" where
  "send_progressive_frame malloc pr bgra client =
     (if \<not> cl_progressive client \<or> \<not> pr_command pr \<or> length bgra \<noteq> expected_length client \<or> client_should_stop client
      then (None, False, client)
      else
        let client1 = take_previous malloc client;
            region = changed_region (comparable_previous client1) bgra
                       (unat (cl_render_width client1)) (unat (cl_render_height client1))
        in if region \<noteq> [] \<and> \<not> pr_union pr then (None, False, client1)
           else if region = [] then (None, True, client1)
           else if pr_encoded pr < 0 then (None, False, client1)
           else if pr_encoded pr = 0 then (None, True, client1)
           else
             let frame_id = cl_next_frame_id client1;
                 client2 = client1\<lparr>cl_next_frame_id := frame_id + 1\<rparr>;
                 (tracked, flow) = frame_flow_sent (cl_frame_flow client2) frame_id (pr_now pr);
                 client3 = client2\<lparr>cl_frame_flow := flow\<rparr>
             in if \<not> tracked then (None, False, client3)
                else
                  let client4 = foldl gfx_event_step client3 (pr_events pr) in
                  if pr_answer pr \<noteq> 0 then (Some (frame_id, region), False, client4)
                  else (Some (frame_id, region), True, keep_previous bgra client4))"

section \<open>Bitmap frames\<close>

text \<open>What a client is sent: a Progressive frame, the whole picture in a surface command (RemoteFX or not), classic tiles.\<close>

datatype bitmap_output =
    ProgressiveOut u32 region
  | SurfaceOut bool "byte list"
  | ClassicOut "ClassicRect list"

text \<open>
  \<open>ba_present\<close>: settings and update exist; \<open>ba_surface_bits\<close>: the callback exists; \<open>ba_supported\<close> and
  \<open>ba_composed\<close>: the codec in use is supported and produced a message; \<open>ba_wrote\<close>: the result of the callback.
\<close>

record BitmapAnswers =
  ba_present :: bool
  ba_surface_bits :: bool
  ba_supported :: bool
  ba_composed :: bool
  ba_ready :: PeerAnswers
  ba_wrote :: bool
  ba_progressive :: ProgressiveAnswers
  ba_classic :: ClassicAnswers

text \<open>The surface command: an early result, or none when the picture was sent.\<close>

definition send_surface :: "BitmapAnswers \<Rightarrow> byte list \<Rightarrow> 'a BitmapClient_scheme \<Rightarrow> bool option \<times> bitmap_output list" where
  "send_surface ba bgra client =
     (if \<not> ba_surface_bits ba \<or> \<not> cb_bitmap_stream client then (Some False, [])
      else if (if cb_bitmap_uses_rfx client then \<not> cb_rfx client else \<not> cb_nsc client) \<or> \<not> ba_supported ba \<or> \<not> ba_composed ba
      then (Some False, [])
      else if \<not> client_output_write_ready (ba_ready ba) client then (Some True, [])
      else (if ba_wrote ba then None else Some False, [SurfaceOut (cb_bitmap_uses_rfx client) bgra]))"

definition count_bitmap_frame :: "'a Client_scheme \<Rightarrow> 'a Client_scheme" where
  "count_bitmap_frame client =
     client\<lparr>cl_stats := (cl_stats client)\<lparr>cs_bitmap_frames := cs_bitmap_frames (cl_stats client) + 1\<rparr>\<rparr>"

definition send_bitmap_frame ::
  "(nat \<Rightarrow> byte list option) \<Rightarrow> BitmapAnswers \<Rightarrow> byte list \<Rightarrow> 'a BitmapClient_scheme \<Rightarrow>
     bitmap_output list \<times> bool \<times> 'a BitmapClient_scheme" where
  "send_bitmap_frame malloc ba bgra client =
     (if \<not> ba_present ba \<or> length bgra \<noteq> expected_length client \<or> client_should_stop client then ([], False, client)
      else if cl_gfx_uses_progressive client
      then (case send_progressive_frame malloc (ba_progressive ba) bgra client of
              (frame, ok, client1) \<Rightarrow>
                (case frame of None \<Rightarrow> [] | Some (frame_id, region) \<Rightarrow> [ProgressiveOut frame_id region], ok,
                 if ok then count_bitmap_frame client1 else client1))
      else if \<not> cb_bitmap_uses_rfx client \<and> \<not> cb_nsc client
      then (case send_classic_bitmap_frame malloc (ba_classic ba) bgra client of
              (rects, ok, client1) \<Rightarrow> ([ClassicOut rects], ok, if ok then count_bitmap_frame client1 else client1))
      else (case send_surface ba bgra client of
              (Some early, output) \<Rightarrow> (output, early, client)
            | (None, output) \<Rightarrow> (output, True, count_bitmap_frame client)))"

section \<open>The decoded picture that waits\<close>

definition count_decoded :: "bool \<Rightarrow> u64 \<Rightarrow> 'a Client_scheme \<Rightarrow> 'a Client_scheme" where
  "count_decoded stale now client =
     (let s = cl_stats client;
          s1 = s\<lparr>cs_decoded_frames := cs_decoded_frames s + 1, cs_bitmap_queued_frames := cs_bitmap_queued_frames s + 1,
                 cs_last_decode_latency_ms := now - cl_last_rtp_received_at client\<rparr>
      in client\<lparr>cl_stats := (if stale then s1\<lparr>cs_bitmap_queue_drops := cs_bitmap_queue_drops s1 + 1,
                                              cs_bitmap_stale_drops := cs_bitmap_stale_drops s1 + 1\<rparr> else s1)\<rparr>)"

text \<open>\<open>cloned\<close>: FFmpeg could take a reference to the picture.\<close>

definition on_decoded_frame :: "bool \<Rightarrow> u64 \<Rightarrow> AVFrame \<Rightarrow> 'a BitmapClient_scheme \<Rightarrow> bool \<times> 'a BitmapClient_scheme" where
  "on_decoded_frame cloned now frame client =
     (if client_should_stop client then (False, client)
      else if \<not> cloned then (False, client)
      else if cb_classic_frame_open client
      then (True, count_decoded (cb_pending_next_decoded client \<noteq> None) now (client\<lparr>cb_pending_next_decoded := Some frame\<rparr>))
      else (True, count_decoded (cb_pending_decoded client \<noteq> None) now (client\<lparr>cb_pending_decoded := Some frame\<rparr>)))"

definition send_interval :: "'a Client_scheme \<Rightarrow> nat" where
  "send_interval client =
     (if cl_gfx_uses_progressive client then frame_flow_interval (cl_frame_flow client) else BITMAP_FRAME_INTERVAL_MS)"

definition classic_resume :: "'a BitmapClient_scheme \<Rightarrow> bool" where
  "classic_resume client \<longleftrightarrow> \<not> cl_gfx_uses_progressive client \<and> cb_classic_frame_open client"

text \<open>
  The first critical section of a flush: nothing to do now, or the picture taken for sending (none when
  an open classic frame goes on).
\<close>

definition flush_take :: "u64 \<Rightarrow> 'a BitmapClient_scheme \<Rightarrow> AVFrame option option \<times> 'a BitmapClient_scheme" where
  "flush_take now client =
     (let client1 = client\<lparr>cl_stats := (cl_stats client)\<lparr>cs_bitmap_flushes := cs_bitmap_flushes (cl_stats client) + 1\<rparr>\<rparr>;
          resume = classic_resume client1
      in if (cl_gfx_uses_progressive client1 \<and> frame_flow_blocked (cl_frame_flow client1)) \<or>
            (\<not> resume \<and> cb_bitmap_last_send_started_at client1 \<noteq> 0 \<and>
             now - cb_bitmap_last_send_started_at client1 < of_nat (send_interval client1))
         then (None, client1)
         else if cb_pending_decoded client1 = None \<and> \<not> resume
         then (None, client1\<lparr>cl_stats := (cl_stats client1)\<lparr>
                 cs_bitmap_empty_flushes := cs_bitmap_empty_flushes (cl_stats client1) + 1\<rparr>\<rparr>)
         else (Some (cb_pending_decoded client1),
               client1\<lparr>cb_pending_decoded := None,
                       cb_bitmap_last_send_started_at := (if resume then cb_bitmap_last_send_started_at client1 else now)\<rparr>))"

text \<open>When a frame is complete, a picture decoded during it becomes the waiting one.\<close>

definition promote_next :: "'a BitmapClient_scheme \<Rightarrow> 'a BitmapClient_scheme" where
  "promote_next client =
     (case cb_pending_next_decoded client of
        None \<Rightarrow> client
      | Some frame \<Rightarrow>
          let client1 = (if cb_pending_decoded client = None then client
                         else client\<lparr>cl_stats := (cl_stats client)\<lparr>
                                cs_bitmap_queue_drops := cs_bitmap_queue_drops (cl_stats client) + 1,
                                cs_bitmap_stale_drops := cs_bitmap_stale_drops (cl_stats client) + 1\<rparr>\<rparr>)
          in client1\<lparr>cb_pending_decoded := Some frame, cb_pending_next_decoded := None\<rparr>)"

text \<open>
  The answers during one flush. \<open>fl_arrivals\<close> are the pictures the decoder thread delivers while the
  picture is being converted and sent, with the clock.
\<close>

record FlushAnswers =
  fl_ready :: PeerAnswers
  fl_now :: u64
  fl_scaler :: ScalerAnswers
  fl_arrivals :: "(u64 \<times> AVFrame) list"
  fl_bitmap :: BitmapAnswers
  fl_completed_at :: u64

definition deliver :: "'a BitmapClient_scheme \<Rightarrow> u64 \<times> AVFrame \<Rightarrow> 'a BitmapClient_scheme" where
  "deliver client arrival = snd (on_decoded_frame True (fst arrival) (snd arrival) client)"

text \<open>Conversion and sending of a taken picture, or the next slice of an open classic frame.\<close>

definition flush_send ::
  "(byte list \<Rightarrow> nat \<Rightarrow> byte list option) \<Rightarrow> (nat \<Rightarrow> byte list option) \<Rightarrow> FlushAnswers \<Rightarrow> bool \<Rightarrow> AVFrame option \<Rightarrow>
     'a BitmapClient_scheme \<Rightarrow> bitmap_output list \<times> bool \<times> 'a BitmapClient_scheme" where
  "flush_send realloc malloc fl resume taken client =
     (if resume
      then (case send_classic_bitmap_frame malloc (ba_classic (fl_bitmap fl)) (fc_frame (cb_converter client)) client of
              (rects, ok, client1) \<Rightarrow> ([ClassicOut rects], ok, client1))
      else case taken of
        None \<Rightarrow> ([], False, client)
      | Some frame \<Rightarrow>
          let (converted, converter) = ffmpeg_converter_convert realloc (fl_scaler fl) frame
                                         (cl_render_width client) (cl_render_height client) (cb_converter client);
              client1 = client\<lparr>cb_converter := converter\<rparr>
          in if \<not> converted then ([], False, client1)
             else case send_bitmap_frame malloc (fl_bitmap fl) (fc_frame converter) client1 of
                    (output, ok, client2) \<Rightarrow>
                      (output, ok, client2\<lparr>cl_stats := (cl_stats client2)\<lparr>
                         cs_converted_frames := cs_converted_frames (cl_stats client2) + 1\<rparr>\<rparr>))"

definition flush_finish :: "u64 \<Rightarrow> u64 \<Rightarrow> bool \<Rightarrow> 'a BitmapClient_scheme \<Rightarrow> 'a BitmapClient_scheme" where
  "flush_finish now completed_at sent client =
     (let client1 = (if sent \<and> \<not> cb_classic_frame_open client
                     then client\<lparr>cl_stats := (cl_stats client)\<lparr>
                            cs_last_rdp_send_ms := completed_at - cb_bitmap_last_send_started_at client\<rparr>\<rparr>
                     else client);
          client2 = (if cl_gfx_uses_progressive client1
                     then client1\<lparr>cl_frame_flow := frame_flow_send_cost (cl_frame_flow client1) (completed_at - now) completed_at\<rparr>
                     else client1)
      in if \<not> sent then client_stop client2 else client2)"

definition client_flush_pending_bitmap ::
  "(byte list \<Rightarrow> nat \<Rightarrow> byte list option) \<Rightarrow> (nat \<Rightarrow> byte list option) \<Rightarrow> FlushAnswers \<Rightarrow> 'a BitmapClient_scheme \<Rightarrow>
     bitmap_output list \<times> bool \<times> 'a BitmapClient_scheme" where
  "client_flush_pending_bitmap realloc malloc fl client =
     (if \<not> client_output_write_ready (fl_ready fl) client then ([], True, client)
      else case flush_take (fl_now fl) client of
        (None, client1) \<Rightarrow> ([], True, client1)
      | (Some taken, client1) \<Rightarrow>
          (case flush_send realloc malloc fl (classic_resume client) taken (foldl deliver client1 (fl_arrivals fl)) of
             (output, sent, client2) \<Rightarrow>
               let client3 = (if sent \<and> \<not> cb_classic_frame_open client2 then promote_next client2 else client2)
               in (output, sent, flush_finish (fl_now fl) (fl_completed_at fl) sent client3)))"

section \<open>The output thread\<close>

datatype output_turn = OutputLeave | OutputAgain | OutputWait nat

text \<open>\<open>blocked\<close>: the connected peer's socket blocks after the flush.\<close>

definition output_turn ::
  "(byte list \<Rightarrow> nat \<Rightarrow> byte list option) \<Rightarrow> (nat \<Rightarrow> byte list option) \<Rightarrow> u64 \<Rightarrow> FlushAnswers \<Rightarrow> bool \<Rightarrow> 'a BitmapClient_scheme \<Rightarrow>
     output_turn \<times> bitmap_output list \<times> 'a BitmapClient_scheme" where
  "output_turn realloc malloc now fl blocked client =
     (if client_should_stop client \<or> cl_shutdown_event client then (OutputLeave, [], client)
      else if \<not> cl_bitmap_fallback_active client then (OutputWait 50, [], client)
      else
        let pending = (cb_pending_decoded client \<noteq> None \<or> cb_pending_next_decoded client \<noteq> None \<or> cb_classic_frame_open client);
            waiting_for_ack = (cl_gfx_uses_progressive client \<and> frame_flow_blocked (cl_frame_flow client));
            last_send = cb_bitmap_last_send_started_at client;
            interval = send_interval client
        in if \<not> pending \<or> waiting_for_ack then (OutputWait 50, [], client)
           else if cb_classic_frame_open client \<or> last_send = 0 \<or> now - last_send \<ge> of_nat interval
           then (case client_flush_pending_bitmap realloc malloc fl client of
                   (output, ok, client1) \<Rightarrow>
                     (if \<not> ok then OutputLeave
                      else if blocked \<and> \<not> client_should_stop client1 then OutputWait 20 else OutputAgain, output, client1))
           else (OutputWait (unat (of_nat interval - (now - last_send))), [], client))"

text \<open>The thread: what the decoder delivers between two turns, and the answers of each turn.\<close>

record OutputTurn =
  ot_arrivals :: "(u64 \<times> AVFrame) list"
  ot_events :: "gfx_event list"
  ot_now :: u64
  ot_flush :: FlushAnswers
  ot_blocked :: bool

fun output_thread ::
  "(byte list \<Rightarrow> nat \<Rightarrow> byte list option) \<Rightarrow> (nat \<Rightarrow> byte list option) \<Rightarrow> OutputTurn list \<Rightarrow> 'a BitmapClient_scheme \<Rightarrow>
     bitmap_output list \<times> 'a BitmapClient_scheme" where
  "output_thread realloc malloc [] client = ([], client)"
| "output_thread realloc malloc (ot # turns) client =
     (case output_turn realloc malloc (ot_now ot) (ot_flush ot) (ot_blocked ot)
             (foldl deliver (foldl gfx_event_step client (ot_events ot)) (ot_arrivals ot)) of
        (turn, output, client1) \<Rightarrow>
          if turn = OutputLeave then (output, client1)
          else case output_thread realloc malloc turns client1 of (outputs, client2) \<Rightarrow> (output @ outputs, client2))"

section \<open>The reader of the bitmap paths\<close>

text \<open>
  One access unit in the loop of \<open>bitmap_video_thread\<close>, and the rounds of the codec for it. \<open>None\<close>: the
  codec has not answered. The thread's buffer for start codes comes first in the state.
\<close>

definition bitmap_unit ::
  "(nat \<Rightarrow> bool) \<Rightarrow> u64 \<Rightarrow> (av_sent \<times> av_answer list) list \<Rightarrow> VideoSourceAccessUnit \<Rightarrow> H264Buffer \<Rightarrow> 'a BitmapClient_scheme \<Rightarrow>
     (reader_turn \<times> H264Buffer \<times> 'a BitmapClient_scheme) option" where
  "bitmap_unit alloc now rounds unit fallback client =
     (if au_data unit = [] then Some (Keep, fallback, client)
      else
        let client1 = count_unit (unit_idr unit) (unit_p_frame unit) now client
        in case h264_ensure_annexb alloc fallback (au_data unit) of
             (None, fallback1) \<Rightarrow> Some (Leave, fallback1, client_stop client1)
           | (Some data, fallback1) \<Rightarrow>
               if client_should_stop client1 then Some (Keep, fallback1, client1)
               else map_option (\<lambda>(pushed, client2). if pushed then (Keep, fallback1, client2) else (Leave, fallback1, client_stop client2))
                      (ffmpeg_decoder_push True True (on_decoded_frame True now) rounds data client1))"

fun bitmap_video_thread ::
  "(nat \<Rightarrow> bool) \<Rightarrow> (bool + VideoSourceAccessUnit \<times> u64 \<times> (av_sent \<times> av_answer list) list) list \<Rightarrow> H264Buffer \<Rightarrow>
     'a BitmapClient_scheme \<Rightarrow> 'a BitmapClient_scheme" where
  "bitmap_video_thread alloc [] fallback client = client"
| "bitmap_video_thread alloc (Inl again # rest) fallback client =
     (if client_should_stop client then client
      else if again then bitmap_video_thread alloc rest fallback client
      else client_stop client)"
| "bitmap_video_thread alloc (Inr (unit, now, rounds) # rest) fallback client =
     (if client_should_stop client then client
      else case bitmap_unit alloc now rounds unit fallback client of
             None \<Rightarrow> client
           | Some (turn, fallback1, client1) \<Rightarrow>
               if turn = Leave then client1 else bitmap_video_thread alloc rest fallback1 client1)"

end
