(* ===== verification/RdpBitmapSafety.thy ===== *)
theory RdpBitmapSafety
  imports RdpBitmap
begin

text \<open>
  What a client of the Progressive path sees. The picture on its screen is changed by the tiles that
  are sent; the lemmas show that comparing with the previous picture never leaves a stale pixel,
  whatever the threads, the codec and the socket do in between.
\<close>

section \<open>The client's screen\<close>

definition in_tile :: "nat \<Rightarrow> nat \<Rightarrow> nat \<times> nat \<times> nat \<times> nat \<Rightarrow> bool" where
  "in_tile width i tile \<longleftrightarrow>
     (case tile of (left, upper, columns, rows) \<Rightarrow>
        left \<le> i div 4 mod width \<and> i div 4 mod width < left + columns \<and>
        upper \<le> i div 4 div width \<and> i div 4 div width < upper + rows)"

text \<open>The decoder of the client replaces the pixels of the region.\<close>

definition show_region :: "nat \<Rightarrow> region \<Rightarrow> byte list \<Rightarrow> byte list \<Rightarrow> byte list" where
  "show_region width region bgra screen =
     map (\<lambda>i. if list_ex (in_tile width i) region then bgra ! i else screen ! i) [0..<length screen]"

text \<open>Equal in the three visible channels.\<close>

definition visible_eq :: "byte list \<Rightarrow> byte list \<Rightarrow> bool" where
  "visible_eq a b \<longleftrightarrow> length a = length b \<and> (\<forall>i < length a. i mod 4 \<noteq> 3 \<longrightarrow> a ! i = b ! i)"

lemma show_region_length [simp]: "length (show_region width region bgra screen) = length screen"
  by (simp add: show_region_def)

lemma show_region_nothing: "show_region width [] bgra screen = screen"
  by (simp add: show_region_def map_nth)

section \<open>The changed tiles cover every difference\<close>

lemma tile_of_pixel:
  assumes "x < width" "y < height"
  shows "\<exists>left upper columns rows. (left, upper, columns, rows) \<in> set (progressive_tiles width height) \<and>
     left \<le> x \<and> x < left + columns \<and> upper \<le> y \<and> y < upper + rows"
proof -
  define l where "l = x div 64 * 64"
  define u where "u = y div 64 * 64"
  have "x div 64 < (width + 63) div 64" "y div 64 < (height + 63) div 64" using assms by linarith+
  then have "progressive_tile width height (x div 64) (y div 64) \<in> set (progressive_tiles width height)"
    unfolding progressive_tiles_def by (auto intro!: bexI [of _ "y div 64"] imageI)
  then have "(l, u, if l + 64 > width then width - l else 64, if u + 64 > height then height - u else 64)
      \<in> set (progressive_tiles width height)"
    unfolding progressive_tile_def Let_def l_def u_def .
  moreover have "l \<le> x" "x < l + 64" "u \<le> y" "y < u + 64" unfolding l_def u_def by linarith+
  then have "x < l + (if l + 64 > width then width - l else 64)" "y < u + (if u + 64 > height then height - u else 64)"
    using assms by simp_all
  ultimately show ?thesis using \<open>l \<le> x\<close> \<open>u \<le> y\<close> by blast
qed

lemma tile_differs:
  assumes "old ! i \<noteq> bgra ! i" "i mod 4 \<noteq> 3" "in_tile width i (left, upper, columns, rows)"
  shows "bitmap_tile_changed (Some old) bgra width left upper columns rows"
proof -
  define x where "x = i div 4 mod width"
  define y where "y = i div 4 div width"
  have b: "left \<le> x" "x < left + columns" "upper \<le> y" "y < upper + rows" using assms(3) by (simp_all add: in_tile_def x_def y_def)
  have "i div 4 = y * width + x" by (simp add: x_def y_def)
  moreover have "i = i div 4 * 4 + i mod 4" by simp
  ultimately have i: "i = (y * width + x) * 4 + i mod 4" by simp
  have "y * width + x = (upper + (y - upper)) * width + left + (x - left)" using b by simp
  then have at: "(y * width + x) * 4 = ((upper + (y - upper)) * width + left) * 4 + (x - left) * 4"
    by (metis add_mult_distrib)
  have "i mod 4 < 4" by simp
  with assms(2) have "i mod 4 = 0 \<or> i mod 4 = 1 \<or> i mod 4 = 2" by linarith
  then have "channel_changed old bgra (((upper + (y - upper)) * width + left) * 4 + (x - left) * 4)"
    using assms(1) i unfolding at [symmetric] channel_changed_def by (metis add.right_neutral)
  moreover have "y - upper \<in> set [0..<rows]" "x - left \<in> set [0..<columns]" using b by auto
  ultimately show ?thesis unfolding bitmap_tile_changed_def list_ex_iff option.case by blast
qed

lemma changed_region_covers:
  assumes "i < width * height * 4" "i mod 4 \<noteq> 3" "\<And>old. previous = Some old \<Longrightarrow> old ! i \<noteq> bgra ! i"
  shows "list_ex (in_tile width i) (changed_region previous bgra width height)"
proof -
  have p: "i div 4 < height * width" using assms(1) by (simp add: div_less_iff_less_mult mult.commute)
  then have "0 < width" by (cases width) simp_all
  with p have "i div 4 mod width < width" "i div 4 div width < height" by (simp_all add: div_less_iff_less_mult)
  from tile_of_pixel [OF this] obtain left upper columns rows where
    t: "(left, upper, columns, rows) \<in> set (progressive_tiles width height)" "in_tile width i (left, upper, columns, rows)"
    by (auto simp: in_tile_def)
  have "bitmap_tile_changed previous bgra width left upper columns rows"
  proof (cases previous)
    case None
    then show ?thesis by (simp add: bitmap_tile_changed_def)
  next
    case (Some old)
    with tile_differs [OF assms(3) assms(2) t(2)] show ?thesis by simp
  qed
  with t show ?thesis by (auto simp: changed_region_def list_ex_iff)
qed

text \<open>Showing the changed tiles makes the screen equal to the picture.\<close>

lemma show_changed_exact:
  assumes "length bgra = width * height * 4" "length screen = width * height * 4"
    and "\<And>old. previous = Some old \<Longrightarrow> visible_eq screen old"
  shows "visible_eq (show_region width (changed_region previous bgra width height) bgra screen) bgra"
  unfolding visible_eq_def
proof (intro conjI allI impI)
  show "length (show_region width (changed_region previous bgra width height) bgra screen) = length bgra" using assms by simp
  fix i assume i: "i < length (show_region width (changed_region previous bgra width height) bgra screen)" "i mod 4 \<noteq> 3"
  show "show_region width (changed_region previous bgra width height) bgra screen ! i = bgra ! i"
  proof (cases "list_ex (in_tile width i) (changed_region previous bgra width height)")
    case True
    with i show ?thesis by (simp add: show_region_def)
  next
    case False
    with changed_region_covers [of i width height previous bgra] i assms(2)
    obtain old where "previous = Some old" "old ! i = bgra ! i" by auto
    moreover from this assms(3) i have "screen ! i = old ! i" by (simp add: visible_eq_def)
    ultimately show ?thesis using i False by (simp add: show_region_def)
  qed
qed

section \<open>The previous picture tracks the screen\<close>

definition tracks :: "byte list \<Rightarrow> 'a BitmapClient_scheme \<Rightarrow> bool" where
  "tracks screen client \<longleftrightarrow>
     (cb_previous_bitmap_valid client \<longrightarrow> cb_previous_bitmap client \<noteq> None) \<and>
     (\<forall>old. comparable_previous client = Some old \<longrightarrow> visible_eq screen old)"

text \<open>The part of a client that the screen depends on.\<close>

definition display_view :: "'a BitmapClient_scheme \<Rightarrow> bool \<times> bool \<times> byte list option \<times> bool \<times> u16 \<times> u16 \<times> FfmpegConverter" where
  "display_view client =
     (cl_gfx_uses_progressive client, cb_classic_frame_open client, cb_previous_bitmap client, cb_previous_bitmap_valid client,
      cl_render_width client, cl_render_height client, cb_converter client)"

lemma view_fields:
  assumes "display_view c = display_view d"
  shows "cl_gfx_uses_progressive c = cl_gfx_uses_progressive d" "cb_classic_frame_open c = cb_classic_frame_open d"
    "expected_length c = expected_length d" "tracks screen c = tracks screen d" "cl_render_width c = cl_render_width d"
    "cl_render_height c = cl_render_height d" "cb_converter c = cb_converter d"
  using assms by (simp_all add: display_view_def expected_length_def tracks_def comparable_previous_def split: option.split)

lemma view_gfx_event: "display_view (gfx_event_step client e) = display_view client"
  by (cases e) (auto simp: display_view_def on_gfx_frame_ack_def client_stop_def Let_def split: prod.splits)

lemma view_gfx_events: "display_view (foldl gfx_event_step client es) = display_view client"
  by (induction es arbitrary: client) (simp_all add: view_gfx_event)

lemma view_deliver: "display_view (deliver client a) = display_view client" "cl_stopping (deliver client a) = cl_stopping client"
  by (simp_all add: display_view_def deliver_def on_decoded_frame_def count_decoded_def Let_def)

lemma view_delivers: "display_view (foldl deliver client as) = display_view client \<and> cl_stopping (foldl deliver client as) = cl_stopping client"
  by (induction as arbitrary: client) (simp_all add: view_deliver)

lemma view_flush_take:
  assumes "flush_take now client = (r, client')"
  shows "display_view client' = display_view client" "cl_stopping client' = cl_stopping client"
  using assms by (auto simp: flush_take_def display_view_def Let_def split: if_splits)

lemma tracks_take_previous:
  assumes "tracks screen client"
  shows "tracks screen (take_previous malloc client)" "comparable_previous (take_previous malloc client) = comparable_previous client"
  using assms by (auto simp: tracks_def take_previous_def comparable_previous_def expected_length_def split: option.splits if_splits)

lemma take_previous_same:
  "cl_gfx_uses_progressive (take_previous malloc client) = cl_gfx_uses_progressive client"
  "cb_classic_frame_open (take_previous malloc client) = cb_classic_frame_open client"
  "expected_length (take_previous malloc client) = expected_length client"
  "cl_stopping (take_previous malloc client) = cl_stopping client"
  "cl_render_width (take_previous malloc client) = cl_render_width client"
  "cl_render_height (take_previous malloc client) = cl_render_height client"
  "cb_converter (take_previous malloc client) = cb_converter client"
  by (simp_all add: take_previous_def expected_length_def)

lemma keep_previous_same:
  "cl_gfx_uses_progressive (keep_previous bgra client) = cl_gfx_uses_progressive client"
  "cb_classic_frame_open (keep_previous bgra client) = cb_classic_frame_open client"
  "expected_length (keep_previous bgra client) = expected_length client"
  "cb_converter (keep_previous bgra client) = cb_converter client"
  by (simp_all add: keep_previous_def expected_length_def split: option.split)

lemma tracks_keep_previous:
  assumes "visible_eq screen bgra" "tracks old_screen client"
  shows "tracks screen (keep_previous bgra client)"
  using assms by (auto simp: tracks_def keep_previous_def comparable_previous_def expected_length_def split: option.splits if_splits)

text \<open>The outcomes of sending one Progressive frame.\<close>

lemma progressive_cases:
  assumes "send_progressive_frame malloc pr bgra client = (out, ok, client')"
  obtains (refused) "out = None" "\<not> ok" "client' = client"
  | (unsent) "out = None" "display_view client' = display_view (take_previous malloc client)"
      "ok \<longrightarrow> pr_encoded pr = 0 \<or> changed_region (comparable_previous (take_previous malloc client)) bgra
         (unat (cl_render_width client)) (unat (cl_render_height client)) = []"
      "length bgra = expected_length client"
  | (failed) frame_id region where "out = Some (frame_id, region)" "\<not> ok" "display_view client' = display_view (take_previous malloc client)"
  | (sent) frame_id client1 where "out = Some (frame_id, changed_region (comparable_previous (take_previous malloc client)) bgra
         (unat (cl_render_width client)) (unat (cl_render_height client)))" "ok" "client' = keep_previous bgra client1"
      "display_view client1 = display_view (take_previous malloc client)" "length bgra = expected_length client"
proof -
  let ?c1 = "take_previous malloc client"
  let ?region = "changed_region (comparable_previous ?c1) bgra (unat (cl_render_width client)) (unat (cl_render_height client))"
  let ?c2 = "?c1\<lparr>cl_next_frame_id := cl_next_frame_id ?c1 + 1\<rparr>"
  obtain tracked flow where f: "frame_flow_sent (cl_frame_flow ?c1) (cl_next_frame_id ?c1) (pr_now pr) = (tracked, flow)" by (rule prod.exhaust)
  let ?c3 = "?c2\<lparr>cl_frame_flow := flow\<rparr>"
  let ?c4 = "foldl gfx_event_step ?c3 (pr_events pr)"
  have v3: "display_view ?c3 = display_view ?c1" by (simp add: display_view_def)
  then have v4: "display_view ?c4 = display_view ?c1" by (simp add: view_gfx_events)
  show thesis
  proof (cases "\<not> cl_progressive client \<or> \<not> pr_command pr \<or> length bgra \<noteq> expected_length client \<or> client_should_stop client")
    case True
    with assms refused show thesis by (auto simp: send_progressive_frame_def)
  next
    case False
    then have len: "length bgra = expected_length client" by simp
    show thesis
    proof (cases "?region = [] \<or> \<not> pr_union pr \<or> pr_encoded pr \<le> 0 \<or> \<not> tracked")
      case True
      with assms False f have "out = None \<and> (client' = ?c1 \<or> client' = ?c3) \<and> (ok \<longrightarrow> pr_encoded pr = 0 \<or> ?region = [])"
        by (auto simp: send_progressive_frame_def Let_def take_previous_same split: if_splits)
      with v3 unsent len show thesis by auto
    next
      case sub: False
      with assms False f have "out = Some (cl_next_frame_id ?c1, ?region) \<and>
          (if pr_answer pr \<noteq> 0 then \<not> ok \<and> client' = ?c4 else ok \<and> client' = keep_previous bgra ?c4)"
        by (auto simp: send_progressive_frame_def Let_def take_previous_same split: if_splits)
      with v4 failed sent len show thesis by (auto split: if_splits)
    qed
  qed
qed

section \<open>Flushes\<close>

fun show_output :: "nat \<Rightarrow> byte list \<Rightarrow> byte list \<Rightarrow> bitmap_output \<Rightarrow> byte list" where
  "show_output width bgra screen (ProgressiveOut frame_id region) = show_region width region bgra screen"
| "show_output width bgra screen (SurfaceOut rfx picture) = picture"
| "show_output width bgra screen (ClassicOut rects) = screen"

text \<open>
  A client that shows Progressive frames: its screen has the size of the desktop, and until it stops
  the previous picture, if it is used for comparison, is what the screen shows.
\<close>

definition display_inv :: "byte list \<times> 'a BitmapClient_scheme \<Rightarrow> bool" where
  "display_inv s \<longleftrightarrow> (case s of (screen, client) \<Rightarrow>
     cl_gfx_uses_progressive client \<and> \<not> cb_classic_frame_open client \<and> length screen = expected_length client \<and>
     (\<not> cl_stopping client \<longrightarrow> tracks screen client))"

lemma view_take_previous_fields:
  assumes "display_view c = display_view (take_previous malloc d)"
  shows "cl_gfx_uses_progressive c = cl_gfx_uses_progressive d" "cb_classic_frame_open c = cb_classic_frame_open d"
    "expected_length c = expected_length d" "tracks screen d \<Longrightarrow> tracks screen c" "cl_render_width c = cl_render_width d"
    "cl_render_height c = cl_render_height d" "cb_converter c = cb_converter d"
  using view_fields [OF assms] take_previous_same [of malloc d] tracks_take_previous(1) [of screen d malloc] by simp_all

lemma progressive_frame_tracks:
  assumes "send_progressive_frame malloc pr bgra client = (out, ok, client')"
    and "tracks screen client" "length screen = expected_length client"
  defines "screen' \<equiv> (case out of None \<Rightarrow> screen
     | Some (frame_id, region) \<Rightarrow> show_region (unat (cl_render_width client)) region bgra screen)"
  shows "cl_gfx_uses_progressive client' = cl_gfx_uses_progressive client" "cb_classic_frame_open client' = cb_classic_frame_open client"
    "expected_length client' = expected_length client" "length screen' = length screen"
    "cb_converter client' = cb_converter client"
    "ok \<or> out = None \<Longrightarrow> tracks screen' client'" "ok \<Longrightarrow> pr_encoded pr \<noteq> 0 \<Longrightarrow> visible_eq screen' bgra"
proof -
  let ?c1 = "take_previous malloc client"
  let ?w = "unat (cl_render_width client)" and ?h = "unat (cl_render_height client)"
  let ?region = "changed_region (comparable_previous ?c1) bgra ?w ?h"
  have old: "visible_eq screen old" if "comparable_previous ?c1 = Some old" for old
    using that assms(2) tracks_take_previous(2) [OF assms(2), of malloc] by (simp add: tracks_def)
  have exact: "visible_eq (show_region ?w ?region bgra screen) bgra" if "length bgra = expected_length client"
    by (rule show_changed_exact) (use that assms(3) old in \<open>simp_all add: expected_length_def\<close>)
  have "cl_gfx_uses_progressive client' = cl_gfx_uses_progressive client \<and> cb_classic_frame_open client' = cb_classic_frame_open client \<and>
    expected_length client' = expected_length client \<and> length screen' = length screen \<and> cb_converter client' = cb_converter client \<and>
    (ok \<or> out = None \<longrightarrow> tracks screen' client') \<and> (ok \<and> pr_encoded pr \<noteq> 0 \<longrightarrow> visible_eq screen' bgra)"
    using assms(1)
  proof (cases rule: progressive_cases)
    case refused
    then show ?thesis using assms(2) by (simp add: screen'_def)
  next
    case unsent
    have "visible_eq screen bgra" if "?region = []" using exact [OF unsent(4)] unfolding that show_region_nothing .
    then show ?thesis using view_take_previous_fields [OF unsent(2)] assms(2) unsent by (auto simp: screen'_def)
  next
    case (failed frame_id region)
    then show ?thesis using view_take_previous_fields [OF failed(3)] by (simp add: screen'_def)
  next
    case (sent frame_id client1)
    have "visible_eq screen' bgra" using sent exact by (simp add: screen'_def)
    moreover from this have "tracks screen' client'"
      using sent tracks_keep_previous [of screen' bgra screen client1] view_take_previous_fields(4) [OF sent(4) assms(2)] by simp
    ultimately show ?thesis using view_take_previous_fields [OF sent(4)] sent by (simp add: keep_previous_same screen'_def)
  qed
  then show "cl_gfx_uses_progressive client' = cl_gfx_uses_progressive client" "cb_classic_frame_open client' = cb_classic_frame_open client"
    "expected_length client' = expected_length client" "length screen' = length screen"
    "cb_converter client' = cb_converter client"
    "ok \<or> out = None \<Longrightarrow> tracks screen' client'" "ok \<Longrightarrow> pr_encoded pr \<noteq> 0 \<Longrightarrow> visible_eq screen' bgra"
    by blast+
qed

text \<open>Updates of fields that the screen does not depend on.\<close>

lemma view_updates:
  "display_view (c\<lparr>cl_stats := s\<rparr>) = display_view c" "display_view (c\<lparr>cl_frame_flow := f\<rparr>) = display_view c"
  "display_view (client_stop c) = display_view c" "display_view (promote_next c) = display_view c"
  "display_view (count_bitmap_frame c) = display_view c"
  by (simp_all add: display_view_def client_stop_def promote_next_def count_bitmap_frame_def Let_def split: option.split)

lemma view_flush_finish: "display_view (flush_finish now completed sent c) = display_view c"
  by (simp add: flush_finish_def view_updates Let_def)

lemma stopped_flush_finish: "\<not> sent \<Longrightarrow> cl_stopping (flush_finish now completed sent c)"
  by (simp add: flush_finish_def Let_def client_stop_def)

lemma converter_update:
  "cl_gfx_uses_progressive (c\<lparr>cb_converter := k\<rparr>) = cl_gfx_uses_progressive c"
  "expected_length (c\<lparr>cb_converter := k\<rparr>) = expected_length c" "tracks screen (c\<lparr>cb_converter := k\<rparr>) = tracks screen c"
  by (simp_all add: expected_length_def tracks_def comparable_previous_def split: option.split)

text \<open>The frame that \<open>send_bitmap_frame\<close> makes of a picture on this path.\<close>

lemma bitmap_frame_tracks:
  assumes "send_bitmap_frame malloc ba bgra client = (output, sent, client')" "cl_gfx_uses_progressive client"
    and "tracks screen client" "length screen = expected_length client"
  defines "screen' \<equiv> foldl (show_output (unat (cl_render_width client)) bgra) screen output"
  shows "cl_gfx_uses_progressive client'" "cb_classic_frame_open client' = cb_classic_frame_open client"
    "expected_length client' = expected_length client" "length screen' = length screen"
    "cb_converter client' = cb_converter client"
    "sent \<Longrightarrow> tracks screen' client'" "sent \<Longrightarrow> pr_encoded (ba_progressive ba) \<noteq> 0 \<Longrightarrow> visible_eq screen' bgra"
proof -
  obtain out ok c1 where p: "send_progressive_frame malloc (ba_progressive ba) bgra client = (out, ok, c1)" by (metis prod_cases3)
  note t = progressive_frame_tracks [OF p assms(3,4)]
  have "cl_gfx_uses_progressive client' \<and> cb_classic_frame_open client' = cb_classic_frame_open client \<and>
    expected_length client' = expected_length client \<and> length screen' = length screen \<and> cb_converter client' = cb_converter client \<and>
    (sent \<longrightarrow> tracks screen' client') \<and> (sent \<and> pr_encoded (ba_progressive ba) \<noteq> 0 \<longrightarrow> visible_eq screen' bgra)"
  proof (cases "\<not> ba_present ba \<or> length bgra \<noteq> expected_length client \<or> client_should_stop client")
    case True
    with assms(1,2) show ?thesis by (auto simp: send_bitmap_frame_def screen'_def)
  next
    case False
    with assms(1,2) p have r: "sent = ok" "client' = (if ok then count_bitmap_frame c1 else c1)"
      "output = (case out of None \<Rightarrow> [] | Some (frame_id, region) \<Rightarrow> [ProgressiveOut frame_id region])"
      by (auto simp: send_bitmap_frame_def)
    have screen: "screen' = (case out of None \<Rightarrow> screen
        | Some (frame_id, region) \<Rightarrow> show_region (unat (cl_render_width client)) region bgra screen)"
      by (simp add: screen'_def r(3) split: option.split prod.split)
    have "display_view client' = display_view c1" by (simp add: r(2) view_updates)
    note f = view_fields [OF this]
    show ?thesis using t assms(2) f r(1) unfolding screen by simp
  qed
  then show "cl_gfx_uses_progressive client'" "cb_classic_frame_open client' = cb_classic_frame_open client"
    "expected_length client' = expected_length client" "length screen' = length screen"
    "cb_converter client' = cb_converter client"
    "sent \<Longrightarrow> tracks screen' client'" "sent \<Longrightarrow> pr_encoded (ba_progressive ba) \<noteq> 0 \<Longrightarrow> visible_eq screen' bgra"
    by blast+
qed

text \<open>A flush of such a client: nothing is due, or a waiting picture was taken.\<close>

definition flush_takes :: "FlushAnswers \<Rightarrow> 'a BitmapClient_scheme \<Rightarrow> bool" where
  "flush_takes fl client \<longleftrightarrow> client_output_write_ready (fl_ready fl) client \<and> fst (flush_take (fl_now fl) client) \<noteq> None"

lemma display_flush:
  assumes "client_flush_pending_bitmap realloc malloc fl client = (output, sent, client')" "display_inv (screen, client)"
  defines "screen' \<equiv> foldl (show_output (unat (cl_render_width client)) (fc_frame (cb_converter client'))) screen output"
  shows "display_inv (if sent \<or> shown then screen' else screen, client')"
    "sent \<Longrightarrow> flush_takes fl client \<Longrightarrow> pr_encoded (ba_progressive (fl_bitmap fl)) \<noteq> 0 \<Longrightarrow>
       visible_eq screen' (fc_frame (cb_converter client'))"
proof -
  have inv: "cl_gfx_uses_progressive client" "\<not> cb_classic_frame_open client" "length screen = expected_length client"
    using assms(2) by (simp_all add: display_inv_def)
  obtain r c1 where take: "flush_take (fl_now fl) client = (r, c1)" by (rule prod.exhaust)
  note v1 = view_flush_take [OF take]
  have "display_inv (if sent \<or> shown then screen' else screen, client') \<and>
    (sent \<and> flush_takes fl client \<and> pr_encoded (ba_progressive (fl_bitmap fl)) \<noteq> 0 \<longrightarrow>
       visible_eq screen' (fc_frame (cb_converter client')))"
  proof (cases "flush_takes fl client")
    case False
    with assms(1) take have "output = []" "client' = client \<or> client' = c1"
      by (auto simp: client_flush_pending_bitmap_def flush_takes_def split: if_splits option.splits)
    moreover have "display_inv (screen, c1)" using assms(2) v1(2) view_fields [OF v1(1)] by (simp add: display_inv_def)
    ultimately show ?thesis using assms(2) False by (auto simp: screen'_def)
  next
    case True
    then obtain taken where r: "r = Some taken" and live: "\<not> cl_stopping client"
      using take by (auto simp: flush_takes_def client_output_write_ready_def client_should_stop_def split: if_splits)
    have resume: "\<not> classic_resume client" using inv(1) by (simp add: classic_resume_def)
    have "\<exists>frame. taken = Some frame"
      using take r inv(1) by (auto simp: flush_take_def classic_resume_def Let_def split: if_splits)
    then obtain frame where frame: "taken = Some frame" ..
    define c2 where "c2 = foldl deliver c1 (fl_arrivals fl)"
    have v2: "display_view c2 = display_view client" using view_delivers [of c1] v1 by (simp add: c2_def)
    note f2 = view_fields [OF v2]
    obtain converted k where conv: "ffmpeg_converter_convert realloc (fl_scaler fl) frame (cl_render_width c2) (cl_render_height c2)
        (cb_converter c2) = (converted, k)" by (rule prod.exhaust)
    define c3 where "c3 = c2\<lparr>cb_converter := k\<rparr>"
    have t3: "tracks screen c3" "length screen = expected_length c3" "cl_gfx_uses_progressive c3" "\<not> cb_classic_frame_open c3"
        "cl_render_width c3 = cl_render_width client"
      using assms(2) live inv f2 by (simp_all add: c3_def converter_update display_inv_def)
    obtain out ok c4 where send: "send_bitmap_frame malloc (fl_bitmap fl) (fc_frame k) c3 = (out, ok, c4)" by (metis prod_cases3)
    note b = bitmap_frame_tracks [OF send t3(3,1,2)]
    have conv_k: "cb_converter c4 = k" using b(5) by (simp add: c3_def)
    define c5 where "c5 = (if converted then c4\<lparr>cl_stats := (cl_stats c4)\<lparr>cs_converted_frames := cs_converted_frames (cl_stats c4) + 1\<rparr>\<rparr> else c3)"
    from True assms(1) take r frame resume conv send have
      out: "output = (if converted then out else [])" "sent = (converted \<and> ok)" and
      final: "client' = flush_finish (fl_now fl) (fl_completed_at fl) sent
         (if sent \<and> \<not> cb_classic_frame_open c5 then promote_next c5 else c5)"
      by (auto simp: client_flush_pending_bitmap_def flush_takes_def flush_send_def c2_def [symmetric] c3_def [symmetric] c5_def Let_def
          split: if_splits)
    have v5: "display_view client' = display_view c5" by (simp add: final view_flush_finish view_updates)
    note f5 = view_fields [OF v5]
    have c5: "cl_gfx_uses_progressive c5" "\<not> cb_classic_frame_open c5" "expected_length c5 = length screen" "cb_converter c5 = k"
      using b t3 conv_k by (simp_all add: c5_def expected_length_def c3_def)
    have screen: "screen' = foldl (show_output (unat (cl_render_width c3)) (fc_frame k)) screen output"
      using f5 c5(4) t3(5) by (simp add: screen'_def)
    have len: "length screen' = length screen" using b(4) out(1) unfolding screen by simp
    show ?thesis
    proof (cases sent)
      case True
      then have s: "converted" "ok" "output = out" using out by simp_all
      have "tracks screen' c5" using b(6) s unfolding screen by (simp add: c5_def tracks_def comparable_previous_def expected_length_def split: option.splits)
      moreover have "visible_eq screen' (fc_frame k)" if "pr_encoded (ba_progressive (fl_bitmap fl)) \<noteq> 0"
        using b(7) s that unfolding screen by simp
      ultimately show ?thesis using True f5 c5 len by (simp add: display_inv_def)
    next
      case False
      then have "cl_stopping client'" by (simp add: final stopped_flush_finish)
      with False f5 c5 len show ?thesis by (simp add: display_inv_def)
    qed
  qed
  then show "display_inv (if sent \<or> shown then screen' else screen, client')"
    "sent \<Longrightarrow> flush_takes fl client \<Longrightarrow> pr_encoded (ba_progressive (fl_bitmap fl)) \<noteq> 0 \<Longrightarrow>
       visible_eq screen' (fc_frame (cb_converter client'))"
    by blast+
qed

section \<open>Runs\<close>

text \<open>
  The threads of a client in any order: flushes of the output thread, pictures of the decoder thread,
  acknowledgements and the stop of the peer thread. \<open>shown\<close>: a submission that failed was displayed.
\<close>

datatype display_op = Flush FlushAnswers bool | Decode "u64 \<times> AVFrame" | Event gfx_event

definition flush_step ::
  "(byte list \<Rightarrow> nat \<Rightarrow> byte list option) \<Rightarrow> (nat \<Rightarrow> byte list option) \<Rightarrow> FlushAnswers \<Rightarrow> bool \<Rightarrow>
     byte list \<Rightarrow> 'a BitmapClient_scheme \<Rightarrow> byte list \<times> 'a BitmapClient_scheme" where
  "flush_step realloc malloc fl shown screen client =
     (case client_flush_pending_bitmap realloc malloc fl client of
        (output, sent, client') \<Rightarrow>
          (if sent \<or> shown
           then foldl (show_output (unat (cl_render_width client)) (fc_frame (cb_converter client'))) screen output
           else screen, client'))"

fun display_step ::
  "(byte list \<Rightarrow> nat \<Rightarrow> byte list option) \<Rightarrow> (nat \<Rightarrow> byte list option) \<Rightarrow>
     byte list \<times> 'a BitmapClient_scheme \<Rightarrow> display_op \<Rightarrow> byte list \<times> 'a BitmapClient_scheme" where
  "display_step realloc malloc (screen, client) (Flush fl shown) = flush_step realloc malloc fl shown screen client"
| "display_step realloc malloc (screen, client) (Decode arrival) = (screen, deliver client arrival)"
| "display_step realloc malloc (screen, client) (Event e) = (screen, gfx_event_step client e)"

lemma gfx_event_stops: "cl_stopping client \<Longrightarrow> cl_stopping (gfx_event_step client e)"
  by (cases e) (auto simp: on_gfx_frame_ack_def client_stop_def Let_def split: prod.splits)

interpretation display: invariant_machine "display_step realloc malloc" display_inv for realloc malloc
proof
  fix s :: "byte list \<times> 'a BitmapClient_scheme" and e assume inv: "display_inv s"
  obtain screen client where s: "s = (screen, client)" by (rule prod.exhaust)
  show "display_inv (display_step realloc malloc s e)"
  proof (cases e)
    case (Flush fl shown)
    obtain outs sent client' where f: "client_flush_pending_bitmap realloc malloc fl client = (outs, sent, client')"
      by (metis prod_cases3)
    from display_flush(1) [OF f, of screen shown] inv Flush f show ?thesis by (simp add: s flush_step_def)
  next
    case (Decode a)
    with inv view_fields [OF view_deliver(1) [of client a]] show ?thesis by (simp add: s display_inv_def view_deliver(2))
  next
    case (Event g)
    with inv view_fields [OF view_gfx_event [of client g]] gfx_event_stops [of client g] show ?thesis by (auto simp: s display_inv_def)
  qed
qed

section \<open>A sample client\<close>

definition sample_bitmap_client :: BitmapClient where
  "sample_bitmap_client = (InputClient.extend sample_input_client
       \<lparr>cb_rfx = False, cb_nsc = False, cb_bitmap_stream = False, cb_pending_decoded = None,
        cb_pending_next_decoded = None, cb_converter = empty_converter, cb_previous_bitmap = None, cb_classic_encoded = False,
        cb_previous_bitmap_valid = False, cb_bitmap_uses_rfx = False, cb_bitmap_last_send_started_at = 0,
        cb_classic_resume_left = 0, cb_classic_resume_top = 0, cb_classic_frame_open = False\<rparr>)
     \<lparr>cl_gfx_uses_progressive := True, cl_progressive := True, cl_bitmap_fallback_active := True, cl_render_width := 2, cl_render_height := 1\<rparr>"

definition sample_flush :: "u64 \<Rightarrow> byte list \<Rightarrow> FlushAnswers" where
  "sample_flush now row =
     \<lparr>fl_ready = \<lparr>pe_present = True, pe_connected = True, pe_callbacks = True, pe_blocked = False, pe_connected_after = True,
        pe_stopped_after = False, pe_blocked_after = False\<rparr>,
      fl_now = now, fl_scaler = \<lparr>sa_context = True, sa_colorspace = True, sa_rows = [row], sa_result = 1\<rparr>, fl_arrivals = [],
      fl_bitmap = \<lparr>ba_present = True, ba_surface_bits = False, ba_supported = False, ba_composed = False,
        ba_ready = \<lparr>pe_present = True, pe_connected = True, pe_callbacks = True, pe_blocked = False, pe_connected_after = True,
          pe_stopped_after = False, pe_blocked_after = False\<rparr>, ba_wrote = True,
        ba_progressive = \<lparr>pr_command = True, pr_union = True, pr_encoded = 1, pr_now = now, pr_events = [], pr_answer = 0\<rparr>,
        ba_classic = \<lparr>ca_update = False, ca_ready = \<lparr>pe_present = False, pe_connected = False, pe_callbacks = False, pe_blocked = False,
          pe_connected_after = False, pe_stopped_after = False, pe_blocked_after = False\<rparr>, ca_started = 0,
          ca_tiles = (\<lambda>_. \<lparr>ta_now = 0, ta_wrote = False, ta_blocked = False\<rparr>)\<rparr>\<rparr>,
      fl_completed_at = now\<rparr>"

definition sample_picture :: "nat \<Rightarrow> AVFrame" where
  "sample_picture n = \<lparr>av_width = 2, av_height = 1, av_picture = n\<rparr>"

definition sample_ops :: "display_op list" where
  "sample_ops = [Decode (1, sample_picture 1), Flush (sample_flush 5 [1, 2, 3, 255, 4, 5, 6, 255]) False, Event (Ack 0 0 9 9),
     Decode (20, sample_picture 2), Decode (30, sample_picture 3)]"

section \<open>Property\<close>



end
