(* ===== verification/RdpPeer.thy ===== *)
theory RdpPeer
  imports RdpBitmap
begin

text \<open>
  The life of an RDP connection (\<open>rdp_peer.c\<close>): admission by the listener, the settings offered to the
  client, activation with the choice of the graphics or bitmap path, the loop of the peer thread and
  the teardown. FreeRDP and WinPR calls are answers; handles are flags.
\<close>

section \<open>State\<close>

text \<open>\<open>pc_client\<close> tells clients apart; it stands for the address of the structure.\<close>

record PeerClient = BitmapClient +
  pc_client :: nat
  pc_vcm :: bool
  pc_gfx :: bool
  pc_shutdown_handle :: bool
  pc_owns_active_client :: bool
  pc_gfx_opened :: bool
  pc_drdynvc_open_attempted :: bool
  pc_gfx_wait_started_at :: u64
  pc_gfx_opened_at :: u64

text \<open>FreeRDP allocates the structure filled with zeros.\<close>

definition zero_client :: "nat \<Rightarrow> PeerClient" where
  "zero_client k = BitmapClient.extend
     (InputClient.extend
       (Client.extend
         \<lparr>cl_stopping = False, cl_shutdown_event = False, cl_direct_gfx_active = False, cl_bitmap_fallback_active = False,
          cl_gfx_ready = False, cl_frame_flow = empty_flow, cl_frame_trace = empty_trace, cl_need_idr = False,
          cl_next_frame_id = 0, cl_parameter_sets = empty_parameter_sets, cl_progressive = False, cl_gfx_uses_progressive = False,
          cl_render_width = 0, cl_render_height = 0, cl_last_rtp_received_at = 0, cl_stats = zero_stats,
          cl_input_router = input_router_init 0 0 False, cl_video_thread = False, cl_output_thread = False\<rparr>
         \<lparr>ci_output_lock_ready = False, ci_keyboard_input_logged = False, ci_pointer_input_logged = False,
          ci_pointer_position_logged = False, ci_wheel_input_logged = False\<rparr>)
       \<lparr>cb_rfx = False, cb_nsc = False, cb_bitmap_stream = False, cb_pending_decoded = None,
        cb_pending_next_decoded = None, cb_converter = empty_converter, cb_previous_bitmap = None, cb_classic_encoded = False,
        cb_previous_bitmap_valid = False, cb_bitmap_uses_rfx = False, cb_bitmap_last_send_started_at = 0,
        cb_classic_resume_left = 0, cb_classic_resume_top = 0, cb_classic_frame_open = False\<rparr>)
     \<lparr>pc_client = k, pc_vcm = False, pc_gfx = False, pc_shutdown_handle = False, pc_owns_active_client = False,
      pc_gfx_opened = False, pc_drdynvc_open_attempted = False, pc_gfx_wait_started_at = 0, pc_gfx_opened_at = 0\<rparr>"

section \<open>Desktop size\<close>

text \<open>The desktop size in the settings of the connection, and the answers of the calls that change it.\<close>

record DesktopAnswers =
  dk_present :: bool
  dk_set_width :: bool
  dk_set_height :: bool
  dk_resize :: bool

definition client_force_source_desktop_size ::
  "DesktopAnswers \<Rightarrow> GatewayConfig \<Rightarrow> u32 \<times> u32 \<Rightarrow> bool \<times> u32 \<times> u32" where
  "client_force_source_desktop_size dk config desktop =
     (let width = ucast (cfg_width config); height = ucast (cfg_height config) in
      if \<not> dk_present dk then (False, desktop)
      else if desktop = (width, height) then (True, desktop)
      else if \<not> dk_set_width dk then (False, desktop)
      else if \<not> dk_set_height dk then (False, width, snd desktop)
      else (dk_resize dk, width, height))"

definition client_set_render_size :: "u32 \<times> u32 \<Rightarrow> 'a Client_scheme \<Rightarrow> bool \<times> 'a Client_scheme" where
  "client_set_render_size desktop client =
     (case desktop of (width, height) \<Rightarrow>
        if width = 0 \<or> height = 0 \<or> width > 65535 \<or> height > 65535 then (False, client)
        else (True, client\<lparr>cl_render_width := ucast width, cl_render_height := ucast height\<rparr>))"

section \<open>Creation and admission\<close>

record ContextAnswers =
  cn_lock :: bool
  cn_output_lock :: bool
  cn_shutdown_event :: bool
  cn_other_events :: bool
  cn_vcm :: bool

definition client_context_new :: "ContextAnswers \<Rightarrow> Server \<Rightarrow> nat \<Rightarrow> bool \<times> PeerClient" where
  "client_context_new cn server k =
     (let client = zero_client k in
      if \<not> cn_lock cn \<or> \<not> cn_output_lock cn then (False, client)
      else
        let client1 = client\<lparr>ci_output_lock_ready := True, pc_shutdown_handle := cn_shutdown_event cn\<rparr> in
        if \<not> cn_shutdown_event cn \<or> \<not> cn_other_events cn then (False, client1)
        else
          let client2 = client1\<lparr>cl_need_idr := True,
                cl_input_router := input_router_init (cfg_width (sv_config server)) (cfg_height (sv_config server))
                                     (cfg_swap_alt_command (sv_config server))\<rparr>
          in if cfg_direct_gfx (sv_config server)
             then (cn_vcm cn, client2\<lparr>pc_vcm := cn_vcm cn\<rparr>) else (True, client2))"

text \<open>What the server sees of the client it points to.\<close>

definition active_view :: "PeerClient \<Rightarrow> ActiveClient" where
  "active_view client = \<lparr>ac_client = pc_client client,
     ac_shutdown_event = (if pc_shutdown_handle client then Some (cl_shutdown_event client) else None),
     ac_input_router = cl_input_router client\<rparr>"

definition points_to :: "Server \<Rightarrow> PeerClient \<Rightarrow> bool" where
  "points_to server client \<longleftrightarrow> (case sv_active server of None \<Rightarrow> False | Some active \<Rightarrow> ac_client active = pc_client client)"

definition client_claim_active :: "Server \<Rightarrow> PeerClient \<Rightarrow> bool \<times> Server \<times> PeerClient" where
  "client_claim_active server client =
     (if sv_active server \<noteq> None \<or> sv_active_closing server then (False, server, client)
      else (True, server\<lparr>sv_active := Some (active_view client)\<rparr>, client\<lparr>pc_owns_active_client := True\<rparr>))"

definition peer_accepted :: "bool \<Rightarrow> bool \<Rightarrow> Server \<Rightarrow> bool \<times> Server" where
  "peer_accepted stop_requested thread_created server =
     (let server1 = server_reap_finished_peer_thread server in
      if stop_requested \<or> sv_peer_thread server1 \<noteq> None \<or> sv_active server1 \<noteq> None \<or> sv_active_closing server1
      then (False, server1)
      else (thread_created, server1\<lparr>sv_peer_thread := (if thread_created then Some False else None)\<rparr>))"

section \<open>Teardown\<close>

text \<open>Its steps: stop and release the input, detach from the server, free the rest.\<close>

definition free_release ::
  "Server \<Rightarrow> PeerClient \<Rightarrow> TransportOs \<Rightarrow> Server \<times> PeerClient \<times> TransportOs" where
  "free_release server client os =
     (let client1 = client_stop client in
      if \<not> pc_owns_active_client client1 then (server, client1, os)
      else
        let (_, client2, os1) = client_release_all_inputs server client1 os;
            (_, server1, os2) = server_set_stream_requested server False os1;
            (server2, os3) = restore_http_stream server1 os2
        in (server2, client2, os3))"

definition free_detach :: "Server \<Rightarrow> PeerClient \<Rightarrow> Server \<times> PeerClient" where
  "free_detach server client =
     (if pc_owns_active_client client \<and> points_to server client
      then server\<lparr>sv_active := None, sv_active_closing := True\<rparr> else server,
      client\<lparr>pc_shutdown_handle := False\<rparr>)"

definition free_end :: "Server \<Rightarrow> PeerClient \<Rightarrow> Server" where
  "free_end server client =
     (if pc_owns_active_client client then server\<lparr>sv_active_closing := False\<rparr> else server)"

definition client_context_free :: "Server \<Rightarrow> PeerClient \<Rightarrow> TransportOs \<Rightarrow> Server \<times> TransportOs" where
  "client_context_free server client os =
     (let (server1, client1, os1) = free_release server client os;
          (server2, client2) = free_detach server1 client1
      in (free_end server2 client2, os1))"

section \<open>Activation\<close>

text \<open>\<open>pg_context\<close> and \<open>pg_initialize\<close>: the channel context could be created and initialised.\<close>

definition client_prepare_gfx :: "bool \<Rightarrow> bool \<Rightarrow> PeerClient \<Rightarrow> bool \<times> PeerClient" where
  "client_prepare_gfx pg_context pg_initialize client =
     (if pc_gfx client then (True, client)
      else if \<not> pg_context then (False, client)
      else if \<not> pg_initialize then (False, client\<lparr>pc_gfx := True\<rparr>)
      else (True, client\<lparr>pc_gfx := True, cl_direct_gfx_active := True\<rparr>))"

record PrepareAnswers =
  pp_settings :: bool
  pp_rfx_supported :: bool
  pp_rfx_context :: bool
  pp_rfx_reset :: bool
  pp_nsc_supported :: bool
  pp_nsc_context :: bool
  pp_stream :: bool
  pp_video_thread :: bool
  pp_output_thread :: bool

text \<open>The codec for surface commands: whether one could be set up.\<close>

definition prepare_codec :: "PrepareAnswers \<Rightarrow> PeerClient \<Rightarrow> bool \<times> PeerClient" where
  "prepare_codec pp client =
     (let client1 = client\<lparr>cl_bitmap_fallback_active := True, cb_bitmap_uses_rfx := pp_rfx_supported pp\<rparr> in
      if pp_rfx_supported pp then (pp_rfx_context pp \<and> pp_rfx_reset pp, client1\<lparr>cb_rfx := pp_rfx_context pp\<rparr>)
      else if pp_nsc_supported pp then (pp_nsc_context pp, client1\<lparr>cb_nsc := pp_nsc_context pp\<rparr>)
      else (False, client1))"

definition client_prepare_bitmap ::
  "PrepareAnswers \<Rightarrow> Server \<Rightarrow> PeerClient \<Rightarrow> TransportOs \<Rightarrow> bool \<times> Server \<times> PeerClient \<times> TransportOs" where
  "client_prepare_bitmap pp server client os =
     (if \<not> pp_settings pp then (False, server, client, os)
      else case prepare_codec pp client of
        (codec, client1) \<Rightarrow>
          if \<not> codec then (False, server, client1, os)
          else
            let client2 = client1\<lparr>cb_bitmap_stream := pp_stream pp\<rparr> in
            if \<not> pp_stream pp then (False, server, client2, os)
            else
              let client3 = client2\<lparr>cl_video_thread := pp_video_thread pp\<rparr> in
              if \<not> pp_video_thread pp then (False, server, client3, os)
              else
                let started = cl_output_thread client3 \<or> pp_output_thread pp;
                    client4 = client3\<lparr>cl_output_thread := started\<rparr>
                in if \<not> started then (False, server, client4, os)
                   else case server_set_stream_requested server True os of (sent, server1, os1) \<Rightarrow> (sent, server1, client4, os1))"

record PostAnswers =
  po_desktop :: DesktopAnswers
  po_size :: "u32 \<times> u32"
  po_gfx_context :: bool
  po_gfx_initialize :: bool
  po_now :: u64
  po_prepare :: PrepareAnswers

definition peer_post_connect ::
  "PostAnswers \<Rightarrow> Server \<Rightarrow> PeerClient \<Rightarrow> TransportOs \<Rightarrow> bool \<times> Server \<times> PeerClient \<times> TransportOs" where
  "peer_post_connect po server client os =
     (case client_force_source_desktop_size (po_desktop po) (sv_config server) (po_size po) of
        (forced, desktop) \<Rightarrow>
          if \<not> forced then (False, server, client, os)
          else case client_set_render_size desktop client of
            (sized, client1) \<Rightarrow>
              if \<not> sized then (False, server, client1, os)
              else case client_claim_active server client1 of
                (claimed, server1, client2) \<Rightarrow>
                  if \<not> claimed then (False, server1, client2, os)
                  else if cfg_direct_gfx (sv_config server1)
                  then (case client_prepare_gfx (po_gfx_context po) (po_gfx_initialize po) client2 of
                          (prepared, client3) \<Rightarrow>
                            if \<not> prepared then (False, server1, client3, os)
                            else (True, server1, client3\<lparr>pc_gfx_wait_started_at := po_now po\<rparr>, os))
                  else client_prepare_bitmap (po_prepare po) server1 client2 os)"

section \<open>The dynamic channel\<close>

datatype gfx_callback = CapsCall "RDPGFX_CAPSET list" GfxAnswers | EventCall gfx_event

fun run_gfx_callback ::
  "GfxConstants \<Rightarrow> Server \<times> PeerClient \<times> TransportOs \<Rightarrow> gfx_callback \<Rightarrow> Server \<times> PeerClient \<times> TransportOs" where
  "run_gfx_callback gc (server, client, os) (CapsCall caps ga) =
     (case on_gfx_caps_advertise gc ga caps client server os of (_, _, client1, server1, os1) \<Rightarrow> (server1, client1, os1))"
| "run_gfx_callback gc (server, client, os) (EventCall e) = (server, gfx_event_step client e, os)"

text \<open>
  The answers of the channel manager: joined, opened, its queue signalled and flushed, the dynamic
  channel ready, the graphics channel opened, its messages and their result (0 for success).
\<close>

record ChannelAnswers =
  ch_joined :: bool
  ch_manager_open :: bool
  ch_signalled :: bool
  ch_flushed :: bool
  ch_ready :: bool
  ch_gfx_open :: bool
  ch_now :: u64
  ch_gfx_signalled :: bool
  ch_messages :: "gfx_callback list"
  ch_error :: u32

definition open_channel :: "ChannelAnswers \<Rightarrow> PeerClient \<Rightarrow> bool \<times> PeerClient" where
  "open_channel ch client =
     (if pc_gfx_opened client \<or> \<not> ch_ready ch then (True, client)
      else if \<not> ch_gfx_open ch then (False, client)
      else (True, client\<lparr>pc_gfx_opened := True, pc_gfx_opened_at := ch_now ch\<rparr>))"

definition client_process_dynamic_channels ::
  "GfxConstants \<Rightarrow> ChannelAnswers \<Rightarrow> Server \<Rightarrow> PeerClient \<Rightarrow> TransportOs \<Rightarrow> bool \<times> Server \<times> PeerClient \<times> TransportOs" where
  "client_process_dynamic_channels gc ch server client os =
     (if pc_gfx_wait_started_at client = 0 \<or> \<not> ch_joined ch then (True, server, client, os)
      else
        let first = \<not> pc_drdynvc_open_attempted client;
            client1 = client\<lparr>pc_drdynvc_open_attempted := True\<rparr>
        in if first \<and> \<not> ch_manager_open ch then (False, server, client1, os)
           else if ch_signalled ch \<and> \<not> ch_flushed ch then (False, server, client1, os)
           else if \<not> pc_gfx client1 then (True, server, client1, os)
           else case open_channel ch client1 of
             (opened, client2) \<Rightarrow>
               if \<not> opened then (False, server, client2, os)
               else if pc_gfx_opened client2 \<and> ch_gfx_signalled ch
               then (case foldl (run_gfx_callback gc) (server, client2, os) (ch_messages ch) of
                       (server1, client3, os1) \<Rightarrow> (ch_error ch = 0, server1, client3, os1))
               else (True, server, client2, os))"

definition client_check_gfx_timeout :: "u64 \<Rightarrow> PeerClient \<Rightarrow> bool" where
  "client_check_gfx_timeout now client =
     (if \<not> cl_direct_gfx_active client \<or> pc_gfx_wait_started_at client = 0 \<or> cl_gfx_ready client then True
      else now - (if pc_gfx_opened client then pc_gfx_opened_at client else pc_gfx_wait_started_at client) \<le> 15000)"

section \<open>Settings\<close>

datatype setting_value = SetBool bool | SetUint u32

text \<open>
  The settings that \<open>configure_peer\<close> applies after the key and the certificate, in order; the two
  system types are constants of the FreeRDP headers.
\<close>

definition peer_settings :: "u32 \<Rightarrow> u32 \<Rightarrow> GatewayConfig \<Rightarrow> (string \<times> setting_value) list" where
  "peer_settings OSMAJORTYPE_WINDOWS OSMINORTYPE_WINDOWS_NT config =
     (let direct_gfx = SetBool (cfg_direct_gfx config) in
      [(''RdpSecurity'', SetBool False), (''TlsSecurity'', SetBool True), (''NlaSecurity'', SetBool False),
       (''SupportGraphicsPipeline'', direct_gfx), (''GfxH264'', direct_gfx), (''GfxAVC444'', direct_gfx),
       (''GfxAVC444v2'', direct_gfx), (''GfxProgressive'', direct_gfx), (''GfxProgressiveV2'', direct_gfx),
       (''RemoteFxCodec'', SetBool True), (''NSCodec'', SetBool True), (''DrawAllowDynamicColorFidelity'', SetBool True),
       (''DrawAllowColorSubsampling'', SetBool True), (''DrawAllowSkipAlpha'', SetBool True),
       (''FrameMarkerCommandEnabled'', direct_gfx), (''SurfaceFrameMarkerEnabled'', direct_gfx),
       (''HasExtendedMouseEvent'', SetBool True), (''HasHorizontalWheel'', SetBool True),
       (''KeyboardLayout'', SetUint 0x00000412), (''KeyboardType'', SetUint 4), (''KeyboardSubType'', SetUint 0),
       (''KeyboardFunctionKey'', SetUint 12), (''HasRelativeMouseEvent'', SetBool True),
       (''DesktopWidth'', SetUint (ucast (cfg_width config))), (''DesktopHeight'', SetUint (ucast (cfg_height config))),
       (''ColorDepth'', SetUint 32), (''MultifragMaxRequestSize'', SetUint 0xFFFFFF),
       (''OsMajorType'', SetUint OSMAJORTYPE_WINDOWS), (''OsMinorType'', SetUint OSMINORTYPE_WINDOWS_NT)])"

text \<open>
  The context, the key, the certificate, their two settings; \<open>accepts\<close> is the answer for each setting,
  the first refusal ends the call; \<open>initialized\<close> is the last answer. The result lists the settings made.
\<close>

definition configure_peer ::
  "bool \<Rightarrow> bool \<Rightarrow> bool \<Rightarrow> (string \<Rightarrow> bool) \<Rightarrow> bool \<Rightarrow> (string \<times> setting_value) list \<Rightarrow> bool \<times> (string \<times> setting_value) list" where
  "configure_peer context_new key_and_certificate pointers_set accepts initialized settings =
     (if \<not> context_new \<or> \<not> key_and_certificate \<or> \<not> pointers_set then (False, [])
      else let made = takeWhile (\<lambda>(name, setting). accepts name) settings
           in (length made = length settings \<and> initialized, made))"

section \<open>The peer thread\<close>

definition MAX_EVENT_HANDLES :: nat where "MAX_EVENT_HANDLES = 32"

text \<open>What FreeRDP calls while it reads from the connection.\<close>

datatype peer_callback = InputCall rdp_event PointerAnswers | PostConnect PostAnswers

text \<open>The server looks at the router of its active client.\<close>

definition publish_view :: "Server \<Rightarrow> PeerClient \<Rightarrow> Server" where
  "publish_view server client =
     (case sv_active server of
        None \<Rightarrow> server
      | Some active \<Rightarrow>
          if ac_client active = pc_client client
          then server\<lparr>sv_active := Some (active\<lparr>ac_input_router := cl_input_router client\<rparr>)\<rparr> else server)"

fun run_peer_callback ::
  "KbdConstants \<Rightarrow> Server \<times> PeerClient \<times> TransportOs \<Rightarrow> peer_callback \<Rightarrow> Server \<times> PeerClient \<times> TransportOs" where
  "run_peer_callback kc (server, client, os) (InputCall event pa) =
     (case rdp_input kc server pa event client os of (_, client1, os1) \<Rightarrow> (publish_view server client1, client1, os1))"
| "run_peer_callback kc (server, client, os) (PostConnect po) =
     (case peer_post_connect po server client os of (_, server1, client1, os1) \<Rightarrow> (server1, client1, os1))"

text \<open>The shutdown event is set by the client itself or by the server through its pointer.\<close>

definition shutdown_signalled :: "Server \<Rightarrow> PeerClient \<Rightarrow> bool" where
  "shutdown_signalled server client \<longleftrightarrow>
     cl_shutdown_event client \<or>
     (case sv_active server of None \<Rightarrow> False
      | Some active \<Rightarrow> ac_client active = pc_client client \<and> ac_shutdown_event active = Some True)"

record PeerTurn =
  pt_handles :: nat
  pt_waited :: bool
  pt_calls :: "peer_callback list"
  pt_checked :: bool
  pt_channels :: ChannelAnswers
  pt_more :: bool
  pt_more_calls :: "peer_callback list"
  pt_more_checked :: bool
  pt_now :: u64

definition handles_fit :: "nat \<Rightarrow> PeerClient \<Rightarrow> bool" where
  "handles_fit count client \<longleftrightarrow>
     count \<noteq> 0 \<and> (if cl_direct_gfx_active client then count < MAX_EVENT_HANDLES \<and> count + 1 < MAX_EVENT_HANDLES
                  else count < MAX_EVENT_HANDLES)"

text \<open>The end of a turn, after the first reading.\<close>

definition peer_turn_rest ::
  "KbdConstants \<Rightarrow> GfxConstants \<Rightarrow> PeerTurn \<Rightarrow> Server \<times> PeerClient \<times> TransportOs \<Rightarrow> bool \<times> Server \<times> PeerClient \<times> TransportOs" where
  "peer_turn_rest kc gc pt s =
     (case s of (server, client, os) \<Rightarrow>
        let (processed, server1, client1, os1) =
              (if cl_direct_gfx_active client then client_process_dynamic_channels gc (pt_channels pt) server client os
               else (True, server, client, os))
        in if \<not> processed then (False, server1, client1, os1)
           else
             let (server2, client2, os2) =
                   (if pt_more pt then foldl (run_peer_callback kc) (server1, client1, os1) (pt_more_calls pt)
                    else (server1, client1, os1))
             in if pt_more pt \<and> \<not> pt_more_checked pt then (False, server2, client2, os2)
                else (cl_direct_gfx_active client2 \<longrightarrow> client_check_gfx_timeout (pt_now pt) client2, server2, client2, os2))"

definition peer_turn ::
  "KbdConstants \<Rightarrow> GfxConstants \<Rightarrow> PeerTurn \<Rightarrow> Server \<Rightarrow> PeerClient \<Rightarrow> TransportOs \<Rightarrow> bool \<times> Server \<times> PeerClient \<times> TransportOs" where
  "peer_turn kc gc pt server client os =
     (if client_should_stop client then (False, server, client, os)
      else if \<not> handles_fit (pt_handles pt) client then (False, server, client, os)
      else if \<not> pt_waited pt then (False, server, client, os)
      else if shutdown_signalled server client then (False, server, client, os)
      else
        let s = foldl (run_peer_callback kc) (server, client, os) (pt_calls pt) in
        if \<not> pt_checked pt then (False, s) else peer_turn_rest kc gc pt s)"

text \<open>\<open>None\<close>: after these turns the loop still runs.\<close>

fun peer_loop ::
  "KbdConstants \<Rightarrow> GfxConstants \<Rightarrow> PeerTurn list \<Rightarrow> Server \<Rightarrow> PeerClient \<Rightarrow> TransportOs \<Rightarrow> (Server \<times> PeerClient \<times> TransportOs) option" where
  "peer_loop kc gc [] server client os = None"
| "peer_loop kc gc (pt # turns) server client os =
     (case peer_turn kc gc pt server client os of
        (again, server1, client1, os1) \<Rightarrow>
          if again then peer_loop kc gc turns server1 client1 os1 else Some (server1, client1, os1))"

text \<open>\<open>configured\<close> is the result of \<open>configure_peer\<close>; the context it created is freed in every case.\<close>

definition peer_thread ::
  "KbdConstants \<Rightarrow> GfxConstants \<Rightarrow> bool \<Rightarrow> PeerTurn list \<Rightarrow> Server \<Rightarrow> PeerClient \<Rightarrow> TransportOs \<Rightarrow> (Server \<times> TransportOs) option" where
  "peer_thread kc gc configured turns server client os =
     (if \<not> configured then Some (client_context_free server client os)
      else case peer_loop kc gc turns server client os of
        None \<Rightarrow> None
      | Some (server1, client1, os1) \<Rightarrow> Some (client_context_free server1 (client_stop client1) os1))"

end
