(* ===== verification/RdpPeerSafety.thy ===== *)
theory RdpPeerSafety
  imports RdpPeer RdpGfxSafety
begin

text \<open>
  One RDP client at a time. The listener, the threads of any number of connections and the main thread
  act on the server in any order; the lemmas show which of them can change who the active client is.
\<close>

section \<open>What admission depends on\<close>

definition server_meta :: "Server \<Rightarrow> nat option \<times> bool \<times> bool option" where
  "server_meta server = (map_option ac_client (sv_active server), sv_active_closing server, sv_peer_thread server)"

definition peer_meta :: "PeerClient \<Rightarrow> nat \<times> bool" where
  "peer_meta client = (pc_client client, pc_owns_active_client client)"

text \<open>A step of a connection leaves this alone, or claims the free place of the active client.\<close>

definition may_claim :: "Server \<times> PeerClient \<Rightarrow> Server \<times> PeerClient \<Rightarrow> bool" where
  "may_claim s t \<longleftrightarrow>
     server_meta (fst t) = server_meta (fst s) \<and> peer_meta (snd t) = peer_meta (snd s) \<or>
     sv_active (fst s) = None \<and> \<not> sv_active_closing (fst s) \<and>
     server_meta (fst t) = (Some (pc_client (snd s)), False, sv_peer_thread (fst s)) \<and>
     peer_meta (snd t) = (pc_client (snd s), True)"

lemma may_claim_refl: "may_claim s s"
  by (simp add: may_claim_def)

lemma may_claim_trans: "may_claim s t \<Longrightarrow> may_claim t u \<Longrightarrow> may_claim s u"
  by (auto simp: may_claim_def server_meta_def peer_meta_def)

lemma may_claim_same:
  "server_meta server' = server_meta server \<Longrightarrow> peer_meta client' = peer_meta client \<Longrightarrow> may_claim (server, client) (server', client')"
  by (simp add: may_claim_def)

section \<open>The parts of a connection\<close>

lemma stream_meta: "server_set_stream_requested server b os = (sent, server', os') \<Longrightarrow> server_meta server' = server_meta server"
  by (auto simp: server_set_stream_requested_def server_meta_def split: prod.splits)

lemma restore_meta: "restore_http_stream server os = (server', os') \<Longrightarrow> server_meta server' = server_meta server"
  by (auto simp: restore_http_stream_def server_set_stream_requested_def server_meta_def split: if_splits prod.splits)

lemma publish_meta: "server_meta (publish_view server client) = server_meta server"
  by (simp add: publish_view_def server_meta_def split: option.split)

lemma position_meta: "client_send_pointer_position pa x y client = (u, client') \<Longrightarrow> peer_meta client' = peer_meta client"
  by (auto simp: client_send_pointer_position_def peer_meta_def Let_def split: if_splits)

lemma mouse_meta:
  assumes "on_mouse server pa flags x y client os = (sent, u, client', os')"
  shows "peer_meta client' = peer_meta client"
proof -
  obtain router m where r: "input_router_absolute_pointer (cl_input_router client) x y flags
      (flags AND (PTR_FLAGS_WHEEL OR PTR_FLAGS_HWHEEL) \<noteq> 0) = (router, m)" by (rule prod.exhaust)
  have "peer_meta (client\<lparr>cl_input_router := router\<rparr>) = peer_meta client" by (simp add: peer_meta_def)
  moreover have "peer_meta (c\<lparr>ci_pointer_input_logged := b\<rparr>) = peer_meta c" "peer_meta (c\<lparr>ci_wheel_input_logged := b\<rparr>) = peer_meta c"
    for c b by (simp_all add: peer_meta_def)
  ultimately show ?thesis
    using assms r by (auto simp: on_mouse_def Let_def split: prod.splits if_splits dest!: position_meta)
qed

lemma input_meta:
  assumes "rdp_input kc server pa event client os = (sent, client', os')"
  shows "peer_meta client' = peer_meta client"
proof (cases event)
  case (MouseEvent flags x y)
  with assms show ?thesis by (auto split: prod.splits dest: mouse_meta)
next
  case (ExtendedMouseEvent flags x y)
  with assms show ?thesis by (auto simp: on_extended_mouse_def split: prod.splits dest: mouse_meta)
next
  case (KeyboardEvent flags code)
  with assms show ?thesis by (auto simp: on_keyboard_def peer_meta_def Let_def split: prod.splits if_splits)
next
  case (UnicodeEvent flags code)
  with assms show ?thesis by (auto simp: on_unicode_keyboard_def split: prod.splits if_splits)
next
  case (RelativeMouseEvent flags x y)
  with assms show ?thesis by (auto simp: on_relative_mouse_def peer_meta_def Let_def split: prod.splits if_splits)
qed (use assms in \<open>auto simp: on_synchronize_def client_release_all_inputs_def peer_meta_def Let_def split: prod.splits\<close>)

lemma claim_meta:
  "client_claim_active server client = (ok, server', client') \<Longrightarrow> may_claim (server, client) (server', client')"
  by (auto simp: client_claim_active_def may_claim_def server_meta_def peer_meta_def active_view_def split: if_splits)

lemma prepare_meta:
  assumes "client_prepare_bitmap pp server client os = (ok, server', client', os')"
  shows "server_meta server' = server_meta server" "peer_meta client' = peer_meta client"
proof -
  obtain codec c1 where c: "prepare_codec pp client = (codec, c1)" by (rule prod.exhaust)
  then have c1: "peer_meta c1 = peer_meta client" by (auto simp: prepare_codec_def peer_meta_def Let_def split: if_splits)
  have up: "peer_meta (c\<lparr>cb_bitmap_stream := b\<rparr>) = peer_meta c" "peer_meta (c\<lparr>cl_video_thread := b\<rparr>) = peer_meta c"
    "peer_meta (c\<lparr>cl_output_thread := b\<rparr>) = peer_meta c" for c b by (simp_all add: peer_meta_def)
  show "server_meta server' = server_meta server" "peer_meta client' = peer_meta client"
    using assms c c1 by (auto simp: client_prepare_bitmap_def Let_def up split: if_splits prod.splits dest: stream_meta)
qed

lemma post_connect_meta:
  assumes "peer_post_connect po server client os = (ok, server', client', os')"
  shows "may_claim (server, client) (server', client')"
proof -
  obtain forced desktop where f: "client_force_source_desktop_size (po_desktop po) (sv_config server) (po_size po) = (forced, desktop)"
    by (rule prod.exhaust)
  obtain sized c1 where z: "client_set_render_size desktop client = (sized, c1)" by (rule prod.exhaust)
  then have c1: "peer_meta c1 = peer_meta client" by (auto simp: client_set_render_size_def peer_meta_def split: prod.splits if_splits)
  obtain claimed s1 c2 where k: "client_claim_active server c1 = (claimed, s1, c2)" by (metis prod_cases3)
  from claim_meta [OF k] c1 have step: "may_claim (server, client) (s1, c2)"
    by (auto simp: may_claim_def peer_meta_def)
  obtain prepared c3 where g: "client_prepare_gfx (po_gfx_context po) (po_gfx_initialize po) c2 = (prepared, c3)" by (rule prod.exhaust)
  then have c3: "peer_meta c3 = peer_meta c2" "peer_meta (c3\<lparr>pc_gfx_wait_started_at := t\<rparr>) = peer_meta c3" for t
    by (auto simp: client_prepare_gfx_def peer_meta_def split: if_splits)
  have rest: "may_claim (s1, c2) (server', client')" if "forced" "sized" "claimed"
    using assms f z k g that c3 prepare_meta [of "po_prepare po" s1 c2 os ok server' client' os']
    by (auto simp: peer_post_connect_def split: if_splits intro!: may_claim_same)
  show ?thesis
  proof (cases "forced \<and> sized \<and> claimed")
    case True
    with rest step show ?thesis by (blast intro: may_claim_trans)
  next
    case False
    with assms f z k c1 step show ?thesis
      by (auto simp: peer_post_connect_def split: if_splits intro: may_claim_same)
  qed
qed

text \<open>Calls on the state of the peer thread; the connection record is left out of the relation.\<close>

abbreviation turn_claims :: "Server \<times> PeerClient \<times> TransportOs \<Rightarrow> Server \<times> PeerClient \<times> TransportOs \<Rightarrow> bool" where
  "turn_claims s t \<equiv> may_claim (fst s, fst (snd s)) (fst t, fst (snd t))"

lemma foldl_claims:
  assumes "\<And>s e. turn_claims s (step s e)"
  shows "turn_claims s (foldl step s es)"
proof (induction es arbitrary: s)
  case (Cons e es)
  from may_claim_trans [OF assms Cons.IH] show ?case by simp
qed (simp add: may_claim_refl)

lemma callback_claims: "turn_claims s (run_peer_callback kc s call)"
proof -
  obtain server client os where s: "s = (server, client, os)" by (metis prod_cases3)
  show ?thesis
  proof (cases call)
    case (InputCall event pa)
    then show ?thesis by (auto simp: s publish_meta split: prod.splits intro!: may_claim_same dest: input_meta)
  next
    case (PostConnect po)
    then show ?thesis by (auto simp: s split: prod.splits dest: post_connect_meta)
  qed
qed

lemma callbacks_claims: "turn_claims s (foldl (run_peer_callback kc) s calls)"
  by (rule foldl_claims) (rule callback_claims)

lemma gfx_event_meta: "peer_meta (gfx_event_step client e) = peer_meta client"
  by (cases e) (auto simp: peer_meta_def on_gfx_frame_ack_def client_stop_def Let_def split: prod.splits)

lemma caps_meta:
  assumes "on_gfx_caps_advertise gc ga caps client server os = (r, c, client', server', os')"
  shows "server_meta server' = server_meta server" "peer_meta client' = peer_meta client"
proof -
  have up: "peer_meta (client_stop c) = peer_meta c" "peer_meta (c\<lparr>cl_progressive := b\<rparr>) = peer_meta c"
    "peer_meta (c\<lparr>cl_gfx_ready := b1, cl_need_idr := b2, cl_gfx_uses_progressive := b3, cl_bitmap_fallback_active := b4,
       cl_video_thread := b5\<rparr>) = peer_meta c" for c b b1 b2 b3 b4 b5
    by (simp_all add: peer_meta_def client_stop_def)
  show "server_meta server' = server_meta server"
    using assms by (auto simp: on_gfx_caps_advertise_def Let_def split: if_splits option.splits prod.splits dest: stream_meta)
  show "peer_meta client' = peer_meta client"
    using assms by (auto simp: on_gfx_caps_advertise_def Let_def up split: if_splits option.splits prod.splits)
qed

lemma gfx_callback_claims: "turn_claims s (run_gfx_callback gc s call)"
proof -
  obtain server client os where s: "s = (server, client, os)" by (metis prod_cases3)
  show ?thesis
    by (cases call) (auto simp: s gfx_event_meta split: prod.splits intro!: may_claim_same dest: caps_meta)
qed

lemma channels_claims:
  assumes "client_process_dynamic_channels gc ch server client os = (ok, s')"
  shows "turn_claims (server, client, os) s'"
proof -
  let ?c1 = "client\<lparr>pc_drdynvc_open_attempted := True\<rparr>"
  have c1: "turn_claims (server, client, os) (server, ?c1, os)" by (simp add: may_claim_def peer_meta_def)
  obtain opened c2 where o: "open_channel ch ?c1 = (opened, c2)" by (rule prod.exhaust)
  then have "peer_meta c2 = peer_meta client" by (auto simp: open_channel_def peer_meta_def split: if_splits)
  then have c2: "turn_claims (server, client, os) (server, c2, os)" by (simp add: may_claim_def)
  let ?run = "foldl (run_gfx_callback gc) (server, c2, os) (ch_messages ch)"
  have "turn_claims (server, client, os) ?run"
    using may_claim_trans [OF c2 foldl_claims [OF gfx_callback_claims]] by simp
  moreover have "s' = (server, client, os) \<or> s' = (server, ?c1, os) \<or> s' = (server, c2, os) \<or> s' = ?run"
    using assms o by (auto simp: client_process_dynamic_channels_def Let_def split: if_splits prod.splits)
  ultimately show ?thesis using c1 c2 may_claim_refl by auto
qed

lemma turn_rest_claims: "turn_claims s (snd (peer_turn_rest kc gc pt s))"
proof -
  obtain server client os where s: "s = (server, client, os)" by (metis prod_cases3)
  obtain processed s1 where p: "(if cl_direct_gfx_active client then client_process_dynamic_channels gc (pt_channels pt) server client os
      else (True, server, client, os)) = (processed, s1)" by (rule prod.exhaust)
  then have s1: "turn_claims s s1" using channels_claims by (auto simp: s may_claim_refl split: if_splits)
  define s2 where "s2 = (if pt_more pt then foldl (run_peer_callback kc) s1 (pt_more_calls pt) else s1)"
  have s2: "turn_claims s s2" using may_claim_trans [OF s1 callbacks_claims [of s1 kc "pt_more_calls pt"]] s1 by (simp add: s2_def)
  obtain server1 client1 os1 where e1: "s1 = (server1, client1, os1)" by (metis prod_cases3)
  obtain server2 client2 os2 where e2: "s2 = (server2, client2, os2)" by (metis prod_cases3)
  have "snd (peer_turn_rest kc gc pt s) = s1 \<or> snd (peer_turn_rest kc gc pt s) = s2"
    using p e2 by (auto simp: peer_turn_rest_def s e1 s2_def Let_def)
  then show ?thesis using s1 s2 by auto
qed

lemma peer_turn_claims:
  assumes "peer_turn kc gc pt server client os = (again, server', client', os')"
  shows "may_claim (server, client) (server', client')"
proof -
  let ?s = "foldl (run_peer_callback kc) (server, client, os) (pt_calls pt)"
  have s: "turn_claims (server, client, os) ?s" by (rule callbacks_claims)
  have "(server', client', os') = (server, client, os) \<or> (server', client', os') = ?s \<or>
      (server', client', os') = snd (peer_turn_rest kc gc pt ?s)"
    using assms by (auto simp: peer_turn_def Let_def split: if_splits)
  then consider "server' = server" "client' = client" | "(server', client', os') = ?s"
    | "(server', client', os') = snd (peer_turn_rest kc gc pt ?s)" by auto
  then show ?thesis
  proof cases
    case 2
    with s show ?thesis by (metis fst_conv snd_conv)
  next
    case 3
    with may_claim_trans [OF s turn_rest_claims [of ?s kc gc pt]] show ?thesis by (metis fst_conv snd_conv)
  qed (simp add: may_claim_refl)
qed

section \<open>Teardown and the main thread\<close>

lemma release_meta:
  assumes "free_release server client os = (server', client', os')"
  shows "server_meta server' = server_meta server" "peer_meta client' = peer_meta client"
  using assms
  by (auto simp: free_release_def client_release_all_inputs_def client_stop_def peer_meta_def Let_def
      split: if_splits prod.splits dest!: stream_meta restore_meta)

lemma heartbeat_meta: "server_meta (fst (server_heartbeat server now os)) = server_meta server"
proof -
  have signal: "server_meta (signal_active s) = server_meta s" for s by (simp add: signal_active_def server_meta_def split: option.split)
  have event: "server_meta (on_transport_event s e k) = server_meta s" for s e k by (simp add: on_transport_event_def signal)
  have keep: "server_meta (fst (server_keepalive s now o1)) = server_meta s" for s o1
    by (simp add: server_keepalive_def keepalive_send_def server_meta_def Let_def split: prod.split)
  have up: "server_meta (s\<lparr>sv_transport := t\<rparr>) = server_meta s" "server_meta (s\<lparr>sv_last_stats_log_at := a\<rparr>) = server_meta s" for s t a
    by (simp_all add: server_meta_def)
  obtain transport os1 where h: "agent_transport_heartbeat (sv_transport server) now os = (transport, os1)" by (rule prod.exhaust)
  let ?s2 = "if fst (heartbeat_check (sv_transport server) now) \<and> cb_event (tr_callbacks transport)
    then on_transport_event (server\<lparr>sv_transport := transport\<rparr>) AGENT_TRANSPORT_EVENT_HEARTBEAT_TIMEOUT (tr_epoch (sv_transport server))
    else server\<lparr>sv_transport := transport\<rparr>"
  have s2: "server_meta ?s2 = server_meta server" by (simp add: event up)
  obtain s3 os2 where k: "server_keepalive ?s2 now os1 = (s3, os2)" by (rule prod.exhaust)
  then have "server_meta s3 = server_meta server" using keep [of ?s2 os1] s2 by simp
  then show ?thesis using h k by (simp add: server_heartbeat_def Let_def up)
qed

section \<open>Any number of connections\<close>

text \<open>Where the thread of a connection is: its loop, and after each step of its teardown.\<close>

datatype peer_phase = Serving | Releasing | Detached | Gone

datatype admission_op =
    AcceptPeer bool bool
  | TurnPeer nat PeerTurn
  | ReleasePeer nat
  | DetachPeer nat
  | FreePeer nat
  | EndThread
  | JoinThread
  | MainHeartbeat u64

type_synonym admission = "Server \<times> (PeerClient \<times> peer_phase) list \<times> TransportOs"

definition in_phase :: "(PeerClient \<times> peer_phase) list \<Rightarrow> nat \<Rightarrow> peer_phase \<Rightarrow> bool" where
  "in_phase peers k phase \<longleftrightarrow> k < length peers \<and> snd (peers ! k) = phase"

definition all_gone :: "(PeerClient \<times> peer_phase) list \<Rightarrow> bool" where
  "all_gone peers \<longleftrightarrow> list_all (\<lambda>p. snd p = Gone) peers"

text \<open>
  The thread handle belongs to the connection accepted last; it becomes signalled when that thread has
  ended.
\<close>

fun admission_step :: "KbdConstants \<Rightarrow> GfxConstants \<Rightarrow> admission \<Rightarrow> admission_op \<Rightarrow> admission" where
  "admission_step kc gc (server, peers, os) (AcceptPeer stop created) =
     (case peer_accepted stop created server of
        (accepted, server1) \<Rightarrow>
          (server1, if accepted then peers @ [(zero_client (length peers), Serving)] else peers, os))"
| "admission_step kc gc (server, peers, os) (TurnPeer k pt) =
     (if in_phase peers k Serving
      then case peer_turn kc gc pt server (fst (peers ! k)) os of
             (again, server1, client, os1) \<Rightarrow> (server1, peers[k := (client, Serving)], os1)
      else (server, peers, os))"
| "admission_step kc gc (server, peers, os) (ReleasePeer k) =
     (if in_phase peers k Serving
      then case free_release server (fst (peers ! k)) os of
             (server1, client, os1) \<Rightarrow> (server1, peers[k := (client, Releasing)], os1)
      else (server, peers, os))"
| "admission_step kc gc (server, peers, os) (DetachPeer k) =
     (if in_phase peers k Releasing
      then case free_detach server (fst (peers ! k)) of
             (server1, client) \<Rightarrow> (server1, peers[k := (client, Detached)], os)
      else (server, peers, os))"
| "admission_step kc gc (server, peers, os) (FreePeer k) =
     (if in_phase peers k Detached
      then (free_end server (fst (peers ! k)), peers[k := (fst (peers ! k), Gone)], os)
      else (server, peers, os))"
| "admission_step kc gc (server, peers, os) EndThread =
     (if sv_peer_thread server = Some False \<and> peers \<noteq> [] \<and> snd (last peers) = Gone
      then (server\<lparr>sv_peer_thread := Some True\<rparr>, peers, os) else (server, peers, os))"
| "admission_step kc gc (server, peers, os) JoinThread =
     (snd (server_join_peer_thread server (sv_peer_thread server = Some True)), peers, os)"
| "admission_step kc gc (server, peers, os) (MainHeartbeat now) =
     (case server_heartbeat server now os of (server1, os1) \<Rightarrow> (server1, peers, os1))"

section \<open>The invariant\<close>

text \<open>It speaks of the active client, the closing flag, the thread handle and the connections.\<close>

definition attached :: "((nat \<times> bool) \<times> peer_phase) list \<Rightarrow> nat \<Rightarrow> bool" where
  "attached ps k \<longleftrightarrow> k < length ps \<and> (snd (ps ! k) = Serving \<or> snd (ps ! k) = Releasing) \<and> snd (fst (ps ! k))"

definition meta_ok :: "nat option \<times> bool \<times> bool option \<Rightarrow> ((nat \<times> bool) \<times> peer_phase) list \<Rightarrow> bool" where
  "meta_ok m ps \<longleftrightarrow> (case m of (active, closing, thread) \<Rightarrow>
     (\<forall>k < length ps. fst (fst (ps ! k)) = k) \<and>
     (\<forall>k. Suc k < length ps \<longrightarrow> snd (ps ! k) = Gone) \<and>
     (thread \<noteq> Some False \<longrightarrow> (\<forall>k < length ps. snd (ps ! k) = Gone)) \<and>
     (\<forall>k. active = Some k \<longleftrightarrow> attached ps k) \<and>
     (closing \<longrightarrow> (\<exists>k < length ps. snd (ps ! k) = Detached \<and> snd (fst (ps ! k)))))"

definition peers_meta :: "(PeerClient \<times> peer_phase) list \<Rightarrow> ((nat \<times> bool) \<times> peer_phase) list" where
  "peers_meta peers = map (\<lambda>p. (peer_meta (fst p), snd p)) peers"

definition admission_ok :: "admission \<Rightarrow> bool" where
  "admission_ok s \<longleftrightarrow> (case s of (server, peers, os) \<Rightarrow> meta_ok (server_meta server) (peers_meta peers))"

declare map_option_eq_Some [iff del]

lemma alive_last: "meta_ok m ps \<Longrightarrow> k < length ps \<Longrightarrow> snd (ps ! k) \<noteq> Gone \<Longrightarrow> Suc k = length ps"
  by (auto simp: meta_ok_def split: prod.splits)

lemma meta_ok_update:
  assumes "meta_ok (active, closing, thread) ps" "k < length ps" "snd (ps ! k) \<noteq> Gone"
    and "\<And>j. active' = Some j \<longleftrightarrow> j = k \<and> (phase = Serving \<or> phase = Releasing) \<and> owns"
    and "closing' \<longrightarrow> phase = Detached \<and> owns"
  shows "meta_ok (active', closing', thread) (ps[k := ((k, owns), phase)])"
proof -
  have last: "Suc k = length ps" using assms by (intro alive_last)
  have gone: "snd (ps ! j) = Gone" if "j < length ps" "j \<noteq> k" for j
    using assms(1) that last by (auto simp: meta_ok_def)
  have "thread = Some False" using assms(1-3) by (auto simp: meta_ok_def)
  moreover have "attached (ps[k := ((k, owns), phase)]) j \<longleftrightarrow> j = k \<and> (phase = Serving \<or> phase = Releasing) \<and> owns" for j
    using assms(2) gone [of j] by (auto simp: attached_def nth_list_update)
  ultimately show ?thesis
    using assms last gone unfolding meta_ok_def prod.case by (auto simp: nth_list_update)
qed

lemma meta_ok_thread:
  "meta_ok (active, closing, thread) ps \<Longrightarrow> thread' \<noteq> Some False \<longrightarrow> thread \<noteq> Some False \<Longrightarrow> meta_ok (active, closing, thread') ps"
  unfolding meta_ok_def prod.case by blast

lemma peers_meta_update: "peers_meta (peers[k := (client, phase)]) = (peers_meta peers)[k := (peer_meta client, phase)]"
  by (simp add: peers_meta_def map_update)

lemma peers_meta_nth: "k < length peers \<Longrightarrow> peers_meta peers ! k = (peer_meta (fst (peers ! k)), snd (peers ! k))"
  by (simp add: peers_meta_def)

text \<open>A connection whose thread runs, seen through the invariant.\<close>

lemma running_peer:
  assumes "admission_ok (server, peers, os)" "in_phase peers k phase" "phase \<noteq> Gone"
  shows "pc_client (fst (peers ! k)) = k" "k < length (peers_meta peers)" "snd (peers_meta peers ! k) \<noteq> Gone"
    "map_option ac_client (sv_active server) = Some j \<longleftrightarrow>
       j = k \<and> (phase = Serving \<or> phase = Releasing) \<and> pc_owns_active_client (fst (peers ! k))"
    "sv_active_closing server \<longrightarrow> phase = Detached \<and> pc_owns_active_client (fst (peers ! k))"
proof -
  have k: "k < length peers" "snd (peers ! k) = phase" using assms(2) by (simp_all add: in_phase_def)
  have ok: "meta_ok (server_meta server) (peers_meta peers)" using assms(1) by (simp add: admission_ok_def)
  have nth: "peers_meta peers ! k = (peer_meta (fst (peers ! k)), phase)" using k by (simp add: peers_meta_nth)
  show len: "k < length (peers_meta peers)" using k by (simp add: peers_meta_def)
  show alive: "snd (peers_meta peers ! k) \<noteq> Gone" using nth assms(3) by simp
  have last: "Suc k = length (peers_meta peers)" using ok len alive by (rule alive_last)
  have gone: "snd (peers_meta peers ! j) = Gone" if "j < length (peers_meta peers)" "j \<noteq> k" for j
    using ok that last by (auto simp: meta_ok_def split: prod.splits)
  show "pc_client (fst (peers ! k)) = k" using ok len nth by (auto simp: meta_ok_def peer_meta_def split: prod.splits)
  show "map_option ac_client (sv_active server) = Some j \<longleftrightarrow>
       j = k \<and> (phase = Serving \<or> phase = Releasing) \<and> pc_owns_active_client (fst (peers ! k))"
  proof -
    have "map_option ac_client (sv_active server) = Some j \<longleftrightarrow> attached (peers_meta peers) j"
      using ok unfolding meta_ok_def server_meta_def prod.case by blast
    also have "\<dots> \<longleftrightarrow> j = k \<and> (phase = Serving \<or> phase = Releasing) \<and> pc_owns_active_client (fst (peers ! k))"
    proof (cases "j = k")
      case True
      with len nth show ?thesis by (simp add: attached_def peer_meta_def)
    next
      case False
      with gone [of j] show ?thesis by (auto simp: attached_def)
    qed
    finally show ?thesis .
  qed
  show "sv_active_closing server \<longrightarrow> phase = Detached \<and> pc_owns_active_client (fst (peers ! k))"
  proof
    assume "sv_active_closing server"
    with ok obtain j where j: "j < length (peers_meta peers)" "snd (peers_meta peers ! j) = Detached" "snd (fst (peers_meta peers ! j))"
      by (auto simp: meta_ok_def server_meta_def)
    with gone [of j] have "j = k" by auto
    with j nth show "phase = Detached \<and> pc_owns_active_client (fst (peers ! k))" by (simp add: peer_meta_def)
  qed
qed

text \<open>Replacing such a connection.\<close>

lemma replace_peer:
  assumes "admission_ok (server, peers, os)" "in_phase peers k phase" "phase \<noteq> Gone"
    and "peer_meta client = (k, owns)" "sv_peer_thread server' = sv_peer_thread server"
    and "\<And>j. map_option ac_client (sv_active server') = Some j \<longleftrightarrow> j = k \<and> (phase' = Serving \<or> phase' = Releasing) \<and> owns"
    and "sv_active_closing server' \<longrightarrow> phase' = Detached \<and> owns"
  shows "admission_ok (server', peers[k := (client, phase')], os')"
proof -
  have "meta_ok (map_option ac_client (sv_active server), sv_active_closing server, sv_peer_thread server) (peers_meta peers)"
    using assms(1) by (simp add: admission_ok_def server_meta_def)
  from meta_ok_update [OF this running_peer(2,3) [OF assms(1-3)] assms(6,7)]
  show ?thesis using assms(4,5) by (simp add: admission_ok_def server_meta_def peers_meta_update)
qed

lemma same_peers:
  assumes "admission_ok (server, peers, os)" "server_meta server' = server_meta server"
  shows "admission_ok (server', peers, os')"
  using assms by (simp add: admission_ok_def)

text \<open>The facts about a running connection, for its client taken out of the list.\<close>

lemma running_client:
  assumes "admission_ok (server, peers, os)" "in_phase peers k phase" "phase \<noteq> Gone" "fst (peers ! k) = client"
  shows "pc_client client = k"
    "\<And>j. map_option ac_client (sv_active server) = Some j \<longleftrightarrow> j = k \<and> (phase = Serving \<or> phase = Releasing) \<and> pc_owns_active_client client"
    "sv_active_closing server \<longrightarrow> phase = Detached \<and> pc_owns_active_client client"
  using running_peer(1) [OF assms(1-3)] running_peer(4) [OF assms(1-3)] running_peer(5) [OF assms(1-3)] unfolding assms(4) by blast+

lemma turn_ok:
  assumes "admission_ok (server, peers, os)" "in_phase peers k Serving" "fst (peers ! k) = client"
    and "peer_turn kc gc pt server client os = (again, server1, client1, os1)"
  shows "admission_ok (server1, peers[k := (client1, Serving)], os1)"
proof -
  note r = running_client [OF assms(1,2) peer_phase.distinct(5) assms(3)]
  have "may_claim (server, client) (server1, client1)" by (rule peer_turn_claims [OF assms(4)])
  then consider (same) "server_meta server1 = server_meta server" "peer_meta client1 = peer_meta client"
    | (claim) "server_meta server1 = (Some k, False, sv_peer_thread server)" "peer_meta client1 = (k, True)"
    unfolding may_claim_def fst_conv snd_conv r(1) by blast
  then show ?thesis
  proof cases
    case same
    then have same': "map_option ac_client (sv_active server1) = map_option ac_client (sv_active server)"
      "sv_active_closing server1 = sv_active_closing server" "sv_peer_thread server1 = sv_peer_thread server"
      "peer_meta client1 = (k, pc_owns_active_client client)"
      using r(1) by (simp_all add: server_meta_def peer_meta_def)
    show ?thesis
      by (rule replace_peer [OF assms(1,2) _ same'(4,3)]) (use r(2,3) same'(1,2) in simp_all)
  next
    case claim
    then have claim': "map_option ac_client (sv_active server1) = Some k" "\<not> sv_active_closing server1" "sv_peer_thread server1 = sv_peer_thread server"
      by (simp_all add: server_meta_def)
    show ?thesis
      by (rule replace_peer [OF assms(1,2) _ claim(2) claim'(3)]) (use claim' in auto)
  qed
qed

lemma release_ok:
  assumes "admission_ok (server, peers, os)" "in_phase peers k Serving" "fst (peers ! k) = client"
    and "free_release server client os = (server1, client1, os1)"
  shows "admission_ok (server1, peers[k := (client1, Releasing)], os1)"
proof -
  note r = running_client [OF assms(1,2) peer_phase.distinct(5) assms(3)]
  note m = release_meta [OF assms(4)]
  have same: "map_option ac_client (sv_active server1) = map_option ac_client (sv_active server)"
      "sv_active_closing server1 = sv_active_closing server" "sv_peer_thread server1 = sv_peer_thread server"
      "peer_meta client1 = (k, pc_owns_active_client client)"
    using m r(1) by (simp_all add: server_meta_def peer_meta_def)
  show ?thesis
    by (rule replace_peer [OF assms(1,2) _ same(4,3)]) (use r(2,3) same(1,2) in simp_all)
qed

lemma detach_ok:
  assumes "admission_ok (server, peers, os)" "in_phase peers k Releasing" "fst (peers ! k) = client"
    and "free_detach server client = (server1, client1)"
  shows "admission_ok (server1, peers[k := (client1, Detached)], os1)"
proof -
  have "Releasing \<noteq> Gone" by simp
  note r = running_client [OF assms(1,2) this assms(3)]
  have "sv_active server1 = None"
  proof (cases "sv_active server")
    case None
    with assms(4) show ?thesis by (auto simp: free_detach_def split: if_splits)
  next
    case (Some a)
    with r(2) [of "ac_client a"] have "ac_client a = k" "pc_owns_active_client client" by simp_all
    with Some assms(4) r(1) show ?thesis by (auto simp: free_detach_def points_to_def)
  qed
  moreover have "peer_meta client1 = (k, pc_owns_active_client client) \<and> sv_peer_thread server1 = sv_peer_thread server \<and>
      (sv_active_closing server1 \<longrightarrow> pc_owns_active_client client)"
    using assms(4) r(1,3) by (auto simp: free_detach_def peer_meta_def split: if_splits)
  ultimately show ?thesis
    by (intro replace_peer [OF assms(1,2), where owns = "pc_owns_active_client client"]) simp_all
qed

lemma free_ok:
  assumes "admission_ok (server, peers, os)" "in_phase peers k Detached" "fst (peers ! k) = client"
  shows "admission_ok (free_end server client, peers[k := (client, Gone)], os1)"
proof -
  have "Detached \<noteq> Gone" by simp
  note r = running_client [OF assms(1,2) this assms(3)]
  have "sv_active server = None" using r(2) [of "ac_client (the (sv_active server))"] by (cases "sv_active server") simp_all
  then show ?thesis using r(1,3)
    by (intro replace_peer [OF assms(1,2), where owns = "pc_owns_active_client client"]) (auto simp: free_end_def peer_meta_def)
qed

lemma accept_ok:
  assumes "admission_ok (server, peers, os)" "peer_accepted stop created server = (accepted, server1)"
  shows "admission_ok (server1, if accepted then peers @ [(zero_client (length peers), Serving)] else peers, os)"
    and "accepted \<Longrightarrow> all_gone peers"
proof -
  let ?r = "server_reap_finished_peer_thread server"
  have ok: "meta_ok (server_meta server) (peers_meta peers)" using assms(1) by (simp add: admission_ok_def)
  have reaped: "sv_active ?r = sv_active server" "sv_active_closing ?r = sv_active_closing server"
    "sv_peer_thread ?r = (if sv_peer_thread server = Some True then None else sv_peer_thread server)"
    by (simp_all add: server_reap_finished_peer_thread_def)
  have reap: "admission_ok (?r, peers, os)"
    using ok reaped by (auto simp: admission_ok_def server_meta_def intro: meta_ok_thread)
  have gone: "all_gone peers" if "accepted"
  proof -
    have "sv_peer_thread server \<noteq> Some False" using assms(2) that reaped by (auto simp: peer_accepted_def Let_def split: if_splits)
    with ok show ?thesis by (auto simp: meta_ok_def server_meta_def all_gone_def peers_meta_def list_all_length)
  qed
  then show "accepted \<Longrightarrow> all_gone peers" .
  show "admission_ok (server1, if accepted then peers @ [(zero_client (length peers), Serving)] else peers, os)"
  proof (cases accepted)
    case False
    with assms(2) reaped have "server_meta server1 = server_meta ?r"
      by (auto simp: peer_accepted_def server_meta_def Let_def split: if_splits)
    with reap False show ?thesis by (simp add: same_peers)
  next
    case True
    with assms(2) have s1: "server_meta server1 = (None, False, Some False)"
      by (auto simp: peer_accepted_def server_meta_def Let_def split: if_splits)
    have new: "peer_meta (zero_client n) = (n, False)" for n by (simp add: peer_meta_def zero_client_def BitmapClient.defs InputClient.defs Client.defs)
    have ids: "\<forall>k < length peers. pc_client (fst (peers ! k)) = k"
      using ok by (auto simp: meta_ok_def peers_meta_def peer_meta_def split: prod.splits)
    have all: "\<forall>k < length peers. snd (peers ! k) = Gone" using gone [OF True] by (simp add: all_gone_def list_all_length)
    show ?thesis using True ids all
      by (auto simp: admission_ok_def s1 meta_ok_def peers_meta_def attached_def nth_append less_Suc_eq new
          peer_meta_def new [unfolded peer_meta_def prod.inject])
  qed
qed

lemma end_thread_ok:
  assumes "admission_ok (server, peers, os)" "peers \<noteq> []" "snd (last peers) = Gone"
  shows "admission_ok (server\<lparr>sv_peer_thread := Some True\<rparr>, peers, os)"
proof -
  have "snd (peers ! k) = Gone" if "k < length peers" for k
  proof (cases "Suc k = length peers")
    case True
    then have "k = length peers - 1" by simp
    with assms(2,3) show ?thesis by (simp add: last_conv_nth)
  next
    case False
    with assms(1) that show ?thesis by (auto simp: admission_ok_def meta_ok_def peers_meta_def split: prod.splits)
  qed
  with assms(1) show ?thesis by (auto simp: admission_ok_def meta_ok_def server_meta_def peers_meta_def)
qed

lemma join_ok:
  assumes "admission_ok (server, peers, os)"
  shows "admission_ok (snd (server_join_peer_thread server (sv_peer_thread server = Some True)), peers, os)"
proof -
  have "server_meta (snd (server_join_peer_thread server (sv_peer_thread server = Some True))) =
      (map_option ac_client (sv_active server), sv_active_closing server,
       if sv_peer_thread server = Some True then None else sv_peer_thread server)"
    by (simp add: server_join_peer_thread_def signal_active_def server_meta_def Let_def split: option.split)
  with assms show ?thesis
    by (auto simp: admission_ok_def server_meta_def intro: meta_ok_thread)
qed

interpretation admission: invariant_machine "admission_step kc gc" admission_ok for kc gc
proof
  fix s e assume ok: "admission_ok s"
  obtain server peers os where s: "s = (server, peers, os)" by (metis prod_cases3)
  note ok = ok [unfolded s]
  show "admission_ok (admission_step kc gc s e)"
  proof (cases e)
    case (AcceptPeer stop created)
    with accept_ok(1) [OF ok] show ?thesis by (auto simp: s split: prod.splits)
  next
    case (TurnPeer k pt)
    with ok turn_ok [OF ok _ refl] show ?thesis by (auto simp: s split: prod.splits)
  next
    case (ReleasePeer k)
    with ok release_ok [OF ok _ refl] show ?thesis by (auto simp: s split: prod.splits)
  next
    case (DetachPeer k)
    with ok detach_ok [OF ok _ refl] show ?thesis by (auto simp: s split: prod.splits)
  next
    case (FreePeer k)
    with ok free_ok [OF ok _ refl] show ?thesis by (auto simp: s)
  next
    case EndThread
    with ok end_thread_ok [OF ok] show ?thesis by (auto simp: s)
  next
    case JoinThread
    with join_ok [OF ok] show ?thesis by (simp add: s)
  next
    case (MainHeartbeat now)
    obtain server1 os1 where h: "server_heartbeat server now os = (server1, os1)" by (rule prod.exhaust)
    with same_peers [OF ok, of server1 os1] heartbeat_meta [of server now os] MainHeartbeat show ?thesis by (simp add: s)
  qed
qed

section \<open>A sample run\<close>

definition sample_post :: PostAnswers where
  "sample_post = \<lparr>po_desktop = \<lparr>dk_present = True, dk_set_width = True, dk_set_height = True, dk_resize = True\<rparr>,
     po_size = (1280, 720), po_gfx_context = True, po_gfx_initialize = True, po_now = 7,
     po_prepare = \<lparr>pp_settings = True, pp_rfx_supported = True, pp_rfx_context = True, pp_rfx_reset = True, pp_nsc_supported = False,
       pp_nsc_context = False, pp_stream = True, pp_video_thread = True, pp_output_thread = True\<rparr>\<rparr>"

definition sample_turn :: PeerTurn where
  "sample_turn = \<lparr>pt_handles = 2, pt_waited = True, pt_calls = [PostConnect sample_post], pt_checked = True,
     pt_channels = \<lparr>ch_joined = False, ch_manager_open = False, ch_signalled = False, ch_flushed = False, ch_ready = False,
       ch_gfx_open = False, ch_now = 0, ch_gfx_signalled = False, ch_messages = [], ch_error = 0\<rparr>,
     pt_more = False, pt_more_calls = [], pt_more_checked = True, pt_now = 9\<rparr>"

definition sample_admission :: "admission_op list" where
  "sample_admission = [AcceptPeer False True, TurnPeer 0 sample_turn, AcceptPeer False True, ReleasePeer 0, DetachPeer 0,
     AcceptPeer False True, FreePeer 0, EndThread, AcceptPeer False True, TurnPeer 1 sample_turn]"

section \<open>Property\<close>

text \<open>
  C39: One RDP client at a time. In every interleaving of new connections, of the turns and the teardown
  steps of their threads, of joins and of heartbeats: at most one connection has not been torn down; the
  server's active client is a connection that owns this place and has not yet given it up; and the
  listener accepts a connection only when every earlier one is gone.
\<close>

theorem single_rdp_client:
  assumes "sv_active server = None" "\<not> sv_active_closing server" "sv_peer_thread server = None"
    and "foldl (admission_step kc gc) (server, [], os) ops = (server1, peers, os1)"
  shows "(\<forall>j < length peers. \<forall>k < length peers. snd (peers ! j) \<noteq> Gone \<and> snd (peers ! k) \<noteq> Gone \<longrightarrow> j = k) \<and>
    (\<forall>a. sv_active server1 = Some a \<longrightarrow>
       (in_phase peers (ac_client a) Serving \<or> in_phase peers (ac_client a) Releasing) \<and>
       pc_owns_active_client (fst (peers ! ac_client a))) \<and>
    (fst (peer_accepted stop created server1) \<longrightarrow> all_gone peers)"
proof -
  have "admission_ok (server, [], os)"
    using assms(1-3) by (simp add: admission_ok_def meta_ok_def server_meta_def peers_meta_def attached_def)
  from admission.inv_run [OF this, of kc gc ops] assms(4) have inv: "admission_ok (server1, peers, os1)" by simp
  then have ok: "meta_ok (server_meta server1) (peers_meta peers)" by (simp add: admission_ok_def)
  have "Suc k = length peers" if "k < length peers" "snd (peers ! k) \<noteq> Gone" for k
    using alive_last [OF ok, of k] that by (simp add: peers_meta_def)
  then have one: "\<forall>j < length peers. \<forall>k < length peers. snd (peers ! j) \<noteq> Gone \<and> snd (peers ! k) \<noteq> Gone \<longrightarrow> j = k"
    by (metis nat.inject)
  have "attached (peers_meta peers) (ac_client a)" if "sv_active server1 = Some a" for a
    using ok that by (auto simp: meta_ok_def server_meta_def)
  then have active: "\<forall>a. sv_active server1 = Some a \<longrightarrow>
       (in_phase peers (ac_client a) Serving \<or> in_phase peers (ac_client a) Releasing) \<and>
       pc_owns_active_client (fst (peers ! ac_client a))"
    by (auto simp: attached_def in_phase_def peers_meta_def peer_meta_def)
  have "fst (peer_accepted stop created server1) \<longrightarrow> all_gone peers"
    using accept_ok(2) [OF inv, of stop created] by (cases "peer_accepted stop created server1") simp
  with one active show ?thesis by blast
qed

theorem single_rdp_client_witness:
  "\<exists>server peers os.
     foldl (admission_step \<lparr>KBD_FLAGS_EXTENDED = 0x0100, KBD_FLAGS_RELEASE = 0x8000\<rparr> sample_constants)
       (sample_server, [], sample_transport_os) sample_admission = (server, peers, os) \<and>
     map snd peers = [Gone, Serving] \<and> map_option ac_client (sv_active server) = Some 1 \<and>
     pc_owns_active_client (fst (peers ! 1)) \<and> \<not> fst (peer_accepted False True server)"
proof -
  let ?kc = "\<lparr>KBD_FLAGS_EXTENDED = 0x0100, KBD_FLAGS_RELEASE = 0x8000\<rparr>"
  let ?s = "foldl (admission_step ?kc sample_constants) (sample_server, [], sample_transport_os) sample_admission"
  have start: "sv_active sample_server = None" "\<not> sv_active_closing sample_server" "sv_peer_thread sample_server = None"
    by (simp_all add: sample_server_def)
  have eval: "map snd (fst (snd ?s)) = [Gone, Serving] \<and> map_option ac_client (sv_active (fst ?s)) = Some 1" by code_simp
  obtain server peers os where run: "?s = (server, peers, os)" by (metis prod_cases3)
  from eval have phases: "map snd peers = [Gone, Serving]" and active: "map_option ac_client (sv_active server) = Some 1"
    unfolding run by simp_all
  have len: "length peers = 2" using arg_cong [OF phases, of length] by simp
  have serving: "snd (peers ! 1) = Serving" using arg_cong [OF phases, of "\<lambda>xs. xs ! 1"] len by simp
  obtain a where a: "sv_active server = Some a" "ac_client a = 1" using active by (auto simp: map_option_eq_Some)
  note p = single_rdp_client [OF start run, of False True]
  from p a have "pc_owns_active_client (fst (peers ! 1))" by metis
  moreover have "\<not> all_gone peers" using len serving by (auto simp: all_gone_def list_all_length intro!: exI [of _ 1])
  with p have "\<not> fst (peer_accepted False True server)" by blast
  ultimately show ?thesis using run phases active
    by (intro exI [of _ server] exI [of _ peers] exI [of _ os] conjI)
qed

declare map_option_eq_Some [iff]

end
