(* ===== verification/Spec2Isabelle.thy ===== *)
theory Spec2Isabelle
  imports Protocol AccessUnit DeviceSession FrameFlow GatewayConfig AgentSafety AgentTransport HttpRequests RdpGfxSafety InputPath
    RdpBitmapSafety RdpPeerSafety
begin

text \<open>
  A verification development for nanokvm-rdp: remote control of a computer through an RDP client. An
  \<^emph>\<open>agent\<close> on the appliance (\<open>src/src/agent.c\<close>) captures the computer's screen as H.264, sends it as
  RTP and replays input on USB gadget devices. A \<^emph>\<open>gateway\<close> (the other files of \<open>src/src\<close>) receives
  the video, serves one RDP client and a small HTTP interface, and sends input to the agent over a TCP
  control connection. File names below are relative to \<open>src/src\<close>.

  \<^bold>\<open>How the code is modelled.\<close> A structure is a record with the fields of the source, behind a short
  prefix; an operation is a function of the same name that takes the state and returns it updated, with
  every early return as a branch. Integers keep their C width as words where they wrap (sequence
  numbers, epochs, time differences, \<open>size_t\<close> subtraction as \<open>size_sub\<close>). What the operating system,
  FreeRDP, WinPR, FFmpeg and the capture library answer is an argument: a record of answers, or a list
  of answers in the order of the calls, over which the theorems quantify. A blocking call that has no
  answer left has not returned, and the result is \<open>None\<close>. What happens under one lock is one step;
  threads are sequences of such steps in any order.

  \<^bold>\<open>Shared material.\<close> \<open>Prelude\<close> has the integer types, byte buffers, wire integers, the collections
  \<open>wire_simps\<close> and \<open>buffer_simps\<close>, and three interfaces: \<open>stream_codec\<close> (frames that can be cut off the
  front of a stream), \<open>invariant_machine\<close> and \<open>monotone_machine\<close> (steps that keep an invariant, and
  never undo a condition). They are interpreted on the control frames, the RTP receiver, the flow
  state, the device session, the agent's turns, the transport, the display of an RDP client and the
  admission of RDP connections.

  \<^bold>\<open>The control connection.\<close>
  \<^item> \<open>Protocol\<close> (\<open>protocol.c\<close>): frame writer, blocking reader, incremental reader. Whatever the chunks,
    the messages sent are the messages read; the reader stays in its buffer; a partial write shuts the
    socket down.
  \<^item> \<open>AgentTransport\<close> (\<open>agent_transport.c\<close>): connection epochs, handshake, heartbeat, key
    acknowledgements. A replaced connection can no longer act; an acknowledgement is genuine; a
    connection is cut exactly on silence.

  \<^bold>\<open>Video from the agent to the gateway.\<close>
  \<^item> \<open>RtpH264\<close>, \<open>RtpTransfer\<close> (\<open>rtp_h264.c\<close>): packetizer and reassembler, and their composition over a
    link that loses packets: exactly the complete NAL units arrive and gaps are reported in time.
  \<^item> \<open>RtpClient\<close>, \<open>AccessUnit\<close> (\<open>rtp_client.c\<close>): the receiver, its memory bound, and the round trip of
    whole access units.
  \<^item> \<open>H264\<close> (\<open>h264.c\<close>): NAL types and the cache of parameter sets.
  \<^item> \<open>VideoSource\<close>, \<open>DeviceSession\<close> (\<open>video_source.c\<close>, \<open>device_session.c\<close>): only decodable access units
    are handed out, and to one lease holder.

  \<^bold>\<open>The agent.\<close>
  \<^item> \<open>HidKeys\<close> (tables and pure functions of \<open>hid.c\<close>): UTF-8, keys of characters, Hangul, scaling.
  \<^item> \<open>HidDevice\<close>, \<open>Hid\<close> (the devices, report queues and operations of \<open>hid.c\<close>), with the interface
    \<open>bounded_fifo\<close> of the report ring. \<open>HidRuns\<close>, \<open>HidLiveness\<close> and \<open>HidInput\<close> show that reports reach
    the host in order, that queues drain, and that keys, text, motion and a release have the effect they
    name.
  \<^item> \<open>Agent\<close>, \<open>AgentSafety\<close> (\<open>agent.c\<close>): dispatcher, heartbeat, capture and send loop; no input and no
    device breaks the state, and no predicted frame is sent without its reference.

  \<^bold>\<open>The gateway.\<close>
  \<^item> \<open>GatewayConfig\<close> (\<open>gateway_config.c\<close>): the command line.
  \<^item> \<open>InputRouter\<close> (\<open>input_router.c\<close>): events to control messages.
  \<^item> \<open>HttpApi\<close>, \<open>HttpRequests\<close> (\<open>http_api.c\<close>): requests, JSON and handlers; a key event has its effect
    however the request is cut.
  \<^item> \<open>GatewayServer\<close> (\<open>gateway_server.c\<close>, \<open>gateway_internal.h\<close>): the server and client structures.
    \<open>Client\<close> is extended by \<open>InputClient\<close>, \<open>BitmapClient\<close> and \<open>PeerClient\<close> in the theories that need
    the further fields.
  \<^item> \<open>FrameFlow\<close> (\<open>frame_flow.h\<close>, \<open>frame_trace.h\<close>): frames in flight and the frame trace.
  \<^item> \<open>RdpGfx\<close>, \<open>RdpGfxSafety\<close> (\<open>rdp_gfx.c\<close>): the H.264 path; frames have their references and admission
    returns.
  \<^item> \<open>FfmpegDecoder\<close> (\<open>ffmpeg_decoder.c\<close>), \<open>RdpBitmap\<close>, \<open>RdpBitmapSafety\<close> (\<open>rdp_bitmap.c\<close>,
    \<open>bitmap_diff.h\<close>): decoded pictures and the tiles sent of them; no stale pixel stays on the screen.
  \<^item> \<open>RdpInput\<close>, \<open>InputPath\<close> (\<open>rdp_input.c\<close>): the callbacks, and what a run of them asks of the host.
  \<^item> \<open>RdpPeer\<close>, \<open>RdpPeerSafety\<close> (\<open>rdp_peer.c\<close>): the life of a connection; one RDP client at a time.
  This theory joins the input side: RDP events, control frames, the agent's reader and its dispatcher.

  \<^bold>\<open>Bounds and fuel.\<close> Loops are structural, or recursive with a measure on the answers left, so they end
  on every finite list of answers. \<open>drain_release\<close>, the last loop of the agent, takes fuel:
  \<open>drain_release_returns\<close> shows that one more than the clock readings left is enough once the clock
  passes the deadline. \<open>receive_calls\<close> and \<open>drain_source\<close>, which call a reader repeatedly, take a number
  of calls, and the theorems say how many are enough.

  \<^bold>\<open>Not modelled.\<close> \<open>main.c\<close> starts and stops the parts and is almost only calls of FreeRDP and WinPR.
  \<open>foldvnc_client.c\<close> is used by no program of the build. \<open>gateway_log.c\<close>, log lines and statistics
  lines only print, \<open>musl_compat.c\<close> supplies C library symbols, \<open>http_viewer.html\<close> is a page whose text is
  an argument here, and \<open>src/tools\<close>, \<open>src/scripts\<close> and \<open>src/deploy\<close> are measurement, build and
  start-up scripts. Left out of modelled files: functions that only free memory, \<open>resolve_gateway\<close> of
  the agent (address lookup), and the loops that acquire a lease before a reader of \<open>gateway_server.c\<close>,
  \<open>rdp_gfx.c\<close> and \<open>rdp_bitmap.c\<close> starts. The codecs, the scaler, the JPEG encoder and the capture library
  are not under \<open>src\<close>.
\<close>

section \<open>Properties that span components\<close>

text \<open>
  C1: Input of an RDP client reaches the host as it was meant. Take any run of RDP events whose
  handlers all succeed, on a connection to the agent that has been quiet before. However the bytes the
  gateway wrote for them arrive at the agent, once its reader has been called often enough it has
  returned one message per request of the run, in order and without an error, and the agent handles
  each message as exactly the HID operation requested: the key with Alt and Command exchanged if so
  configured, the text in UTF-8, the position within the desktop, the distance with the buttons that
  the run has pressed and not released, the wheel, the synchronisation, the release.
\<close>

theorem rdp_input_end_to_end:
  assumes "rdp_inputs kc server steps client os = (results, client', os')" "list_all (\<lambda>sent. sent) results"
    and "sent_bytes (tr_epoch (sv_transport server)) os = []"
    and "list_all quiet_event evs" "bytes_of evs = sent_bytes (tr_epoch (sv_transport server)) os'"
    and "events_size evs + length steps \<le> n"
  shows "\<exists>messages reader evs'. receive_calls n evs empty_reader = (messages, True, reader, evs') \<and> unread reader evs' = [] \<and>
     list_all2 carries messages
       (session_requests kc (cl_input_router client) (ir_pointer_buttons (cl_input_router client)) (map fst steps))"
    (is "\<exists>messages reader evs'. _ \<and> _ \<and> list_all2 carries messages ?requests")
proof -
  from rdp_inputs_sends [OF assms(1,2)] assms(3) obtain ms where
    ms: "sent_bytes (tr_epoch (sv_transport server)) os' = concat (map control_frame ms)" "list_all control_wf ms"
      "list_all2 (\<lambda>m. carries (Protocol.delivered m empty_message)) ms ?requests"
    by (auto simp: sends_request_def)
  have "length ms \<le> length steps"
    using list_all2_lengthD [OF ms(3)] session_requests_length [of kc "cl_input_router client" _ "map fst steps"] by simp
  then have n: "events_size evs + length ms \<le> n" using assms(6) by simp
  have "unread empty_reader evs = concat (map control_frame ms)" using ms(1) assms(5) by (simp add: empty_reader_def)
  from receive_calls_frames [OF reader_ok_empty assms(4) ms(2) this n] ms(3)
  show ?thesis by (fastforce simp: list_all2_map1)
qed

text \<open>A click with the left button held while the letter a is pressed, read by the agent in three pieces.\<close>

theorem rdp_input_end_to_end_witness:
  "\<exists>messages reader evs'.
     receive_calls 50 [Data (take 5 sample_click_bytes), Fail EAGAIN, Data (take 9 (drop 5 sample_click_bytes)),
       Data (drop 14 sample_click_bytes)] empty_reader = (messages, True, reader, evs') \<and>
     unread reader evs' = [] \<and>
     list_all2 carries messages
       [KeyRequest 0x1e False False, AbsoluteRequest 1919 20 1920 1080 0x9000, RelativeRequest 3 (- 1) 1, ReleaseRequest]"
proof -
  let ?run = "rdp_inputs sample_kbd sample_agent_server sample_click sample_input_client sample_transport_os"
  let ?evs = "[Data (take 5 sample_click_bytes), Fail EAGAIN, Data (take 9 (drop 5 sample_click_bytes)), Data (drop 14 sample_click_bytes)]"
  have run: "?run = (fst ?run, fst (snd ?run), snd (snd ?run))" by simp
  have ok: "fst ?run = [True, True, True, True]" by code_simp
  have sent: "sent_bytes 1 (snd (snd ?run)) = sample_click_bytes" by code_simp
  have epoch: "tr_epoch (sv_transport sample_agent_server) = 1" by (simp add: sample_agent_server_def)
  have requests: "session_requests sample_kbd (cl_input_router sample_input_client)
      (ir_pointer_buttons (cl_input_router sample_input_client)) (map fst sample_click) =
    [KeyRequest 0x1e False False, AbsoluteRequest 1919 20 1920 1080 0x9000, RelativeRequest 3 (- 1) 1, ReleaseRequest]"
    by code_simp
  have steps: "length sample_click = 4" by (simp add: sample_click_def)
  from rdp_input_end_to_end [OF run, of ?evs 50] show ?thesis
    unfolding epoch sent ok requests steps
    by (simp add: sample_transport_os_def sent_bytes_def sample_click_bytes_def)
qed

end
